(* ===== verification/Oef_Prelude.thy ===== *)
theory Oef_Prelude
  imports
    Complex_Main
    "HOL-Library.Word"
    "HOL-Library.AList"
    "HOL-Library.Multiset"
    "HOL-Library.Char_ord"
    "HOL-Library.List_Lexorder"
begin

text \<open>
  Shared vocabulary of the development: the machine types of the C++ code, the
  exceptions it throws, the containers of the standard library it uses, and the
  generic lemmas every component proof relies on.

  \<^item> \<open>uint32_t\<close>, \<open>int32\<close> and \<open>int64\<close> are words of their width; a signed reading is
    \<open>sint\<close>, an unsigned one \<open>unat\<close>.
  \<^item> \<open>std::vector<uint8_t>\<close> (the \<open>Buffer\<close> of \<open>api/buffer_t.hpp\<close>) is a list of bytes.
  \<^item> \<open>std::string\<close> is a list of 8-bit characters; its \<open><\<close> is the lexicographic order
    on unsigned characters, which is the order of \<open>HOL-Library.List_Lexorder\<close> over
    \<open>HOL-Library.Char_ord\<close>.
  \<^item> \<open>std::unordered_map\<close> is an association list with distinct keys. Its order stands
    for the (unspecified) iteration order of the container.
  \<^item> a thrown exception is the left injection of a sum.
\<close>

section \<open>Machine types\<close>

type_synonym byte = "8 word"
type_synonym buffer = "byte list"
type_synonym u32 = "32 word"
type_synonym i32 = "32 word"
type_synonym u64 = "64 word"
type_synonym i64 = "64 word"

section \<open>Collections of facts\<close>

named_theorems oef_defs \<open>definitions unfolded by component proofs\<close>
named_theorems umap_simps \<open>look-up after an update of an association list\<close>

section \<open>Exceptions\<close>

text \<open>
  \<open>std::invalid_argument\<close> carries the message of the source. The second constructor is
  the failure protobuf documents for a \<open>CopyFrom\<close> between messages of different
  descriptors.
\<close>

datatype exn = InvalidArgument string | DescriptorMismatch

type_synonym 'a result = "exn + 'a"

definition is_ok :: "'a result \<Rightarrow> bool" where
  "is_ok r = (case r of Inl _ \<Rightarrow> False | Inr _ \<Rightarrow> True)"

lemma is_ok_simps [simp]: "is_ok (Inl e) = False" "is_ok (Inr x) = True"
  by (simp_all add: is_ok_def)

lemma is_ok_iff: "is_ok r \<longleftrightarrow> (\<exists>x. r = Inr x)"
  by (cases r) simp_all

section \<open>Unordered maps as association lists\<close>

type_synonym ('k, 'v) umap = "('k \<times> 'v) list"

abbreviation umap_find :: "('k, 'v) umap \<Rightarrow> 'k \<Rightarrow> 'v option" where
  "umap_find \<equiv> map_of"

abbreviation umap_set :: "'k \<Rightarrow> 'v \<Rightarrow> ('k, 'v) umap \<Rightarrow> ('k, 'v) umap" where
  "umap_set \<equiv> AList.update"

abbreviation umap_erase :: "'k \<Rightarrow> ('k, 'v) umap \<Rightarrow> ('k, 'v) umap" where
  "umap_erase \<equiv> AList.delete"

definition umap_wf :: "('k, 'v) umap \<Rightarrow> bool" where
  "umap_wf m \<longleftrightarrow> distinct (map fst m)"

lemma umap_find_set [simp, umap_simps]:
  "umap_find (umap_set k v m) k' = (if k' = k then Some v else umap_find m k')"
  by (simp add: update_conv')

lemma umap_find_erase [simp, umap_simps]:
  "umap_find (umap_erase k m) k' = (if k' = k then None else umap_find m k')"
  by (simp add: delete_conv')

lemma umap_wf_Nil [simp]: "umap_wf []"
  by (simp add: umap_wf_def)

lemma umap_wf_set [simp]: "umap_wf m \<Longrightarrow> umap_wf (umap_set k v m)"
  by (simp add: umap_wf_def distinct_update)

lemma umap_wf_erase [simp]: "umap_wf m \<Longrightarrow> umap_wf (umap_erase k m)"
  by (simp add: umap_wf_def distinct_delete)

lemma umap_find_in_set: "umap_find m k = Some v \<Longrightarrow> (k, v) \<in> set m"
  by (rule map_of_SomeD)

lemma umap_wf_find: "umap_wf m \<Longrightarrow> (k, v) \<in> set m \<longleftrightarrow> umap_find m k = Some v"
  by (simp add: umap_wf_def)

lemma umap_set_fresh: "k \<notin> fst ` set m \<Longrightarrow> umap_set k v m = m @ [(k, v)]"
  by (induction m) auto

lemma umap_wf_perm_find:
  assumes "umap_wf m" "set m' = set m" "umap_wf m'"
  shows "umap_find m' = umap_find m"
proof
  fix k
  show "umap_find m' k = umap_find m k"
    using assms umap_wf_find [of m k] umap_wf_find [of m' k]
    by (metis option.exhaust)
qed

lemma umap_length_set: "umap_wf m \<Longrightarrow> length m = card (dom (umap_find m))"
  by (simp add: umap_wf_def dom_map_of_conv_image_fst distinct_card flip: set_map)

section \<open>Linear search\<close>

text \<open>\<open>std::find_if\<close> over a repeated field: the first element that satisfies the predicate.\<close>

lemma find_Some_mem: "List.find P xs = Some x \<Longrightarrow> x \<in> set xs \<and> P x"
  by (induction xs) (auto split: if_splits)

lemma find_None_all: "List.find P xs = None \<longleftrightarrow> (\<forall>x\<in>set xs. \<not> P x)"
  by (induction xs) auto

lemma find_key_distinct:
  assumes "distinct (map f xs)" "x \<in> set xs"
  shows "List.find (\<lambda>y. f y = f x) xs = Some x"
  using assms by (induction xs) (auto simp: image_iff)

section \<open>Words\<close>

lemma unat_uminus_u32:
  assumes "(w :: u32) \<noteq> 0"
  shows "unat (- w) = 2 ^ 32 - unat w"
proof -
  have "(unat w + unat (- w)) mod 2 ^ 32 = 0"
    using unat_word_ariths(1) [of w "- w"] by simp
  then obtain k where k: "unat w + unat (- w) = 2 ^ 32 * k"
    by (auto simp: mod_eq_0_iff_dvd dvd_def)
  have "unat w < 2 ^ 32" "unat (- w) < 2 ^ 32"
    using unsigned_less [of w, where ?'a = nat] unsigned_less [of "- w", where ?'a = nat] by simp_all
  moreover have "0 < unat w"
    using assms by (simp add: unat_gt_0)
  ultimately have "0 < k" "k < 2"
    using k by (auto intro: ccontr)
  then have "k = 1" by simp
  with k show ?thesis by simp
qed
end
