(* ===== verification/Oef_Doubles.thy ===== *)
theory Oef_Doubles
  imports Oef_Prelude
begin

text \<open>
  The C++ type \<open>double\<close>: an IEEE-754 binary64 value, kept as its 64 bits (sign, 11 bits
  of exponent, 52 bits of fraction). The program only stores doubles and compares them
  (\<open>==\<close>, \<open>!=\<close>, \<open><\<close>, \<open><=\<close>, \<open>>\<close>, \<open>>=\<close> in \<open>schema.hpp\<close>), besides the one distance formula,
  whose arithmetic is a parameter of the model (theory \<open>Oef_Geo\<close>). So the comparisons are
  defined on the bits, with the IEEE rules: a comparison with a NaN is false (and \<open>!=\<close>
  is true), and the two zeros are equal. \<open>dbl_scaled_less\<close> shows that the order used on
  the bits is the order of the values.
\<close>

section \<open>Representation\<close>

datatype double = Dbl (dbl_bits: "64 word")

definition dbl_negative :: "double \<Rightarrow> bool" where
  "dbl_negative d = bit (dbl_bits d) 63"

definition dbl_magnitude :: "double \<Rightarrow> nat" where
  "dbl_magnitude d = unat (take_bit 63 (dbl_bits d))"

text \<open>The magnitude bits of \<open>+infinity\<close>; greater magnitudes are the NaNs.\<close>

definition dbl_inf_magnitude :: nat where
  "dbl_inf_magnitude = 2047 * 2 ^ 52"

definition dbl_nan :: "double \<Rightarrow> bool" where
  "dbl_nan d \<longleftrightarrow> dbl_inf_magnitude < dbl_magnitude d"

text \<open>Sign and magnitude as one integer: the key the comparisons use.\<close>

definition dbl_key :: "double \<Rightarrow> int" where
  "dbl_key d = (if dbl_negative d then - int (dbl_magnitude d) else int (dbl_magnitude d))"

definition dbl_zero :: double where
  "dbl_zero = Dbl 0"

section \<open>Comparisons\<close>

definition dbl_eq :: "double \<Rightarrow> double \<Rightarrow> bool" where
  "dbl_eq a b \<longleftrightarrow> \<not> dbl_nan a \<and> \<not> dbl_nan b \<and> dbl_key a = dbl_key b"

definition dbl_ne :: "double \<Rightarrow> double \<Rightarrow> bool" where
  "dbl_ne a b \<longleftrightarrow> \<not> dbl_eq a b"

definition dbl_lt :: "double \<Rightarrow> double \<Rightarrow> bool" where
  "dbl_lt a b \<longleftrightarrow> \<not> dbl_nan a \<and> \<not> dbl_nan b \<and> dbl_key a < dbl_key b"

definition dbl_le :: "double \<Rightarrow> double \<Rightarrow> bool" where
  "dbl_le a b \<longleftrightarrow> \<not> dbl_nan a \<and> \<not> dbl_nan b \<and> dbl_key a \<le> dbl_key b"

abbreviation (input) dbl_gt :: "double \<Rightarrow> double \<Rightarrow> bool" where
  "dbl_gt a b \<equiv> dbl_lt b a"

abbreviation (input) dbl_ge :: "double \<Rightarrow> double \<Rightarrow> bool" where
  "dbl_ge a b \<equiv> dbl_le b a"

lemmas dbl_cmp_defs [oef_defs] = dbl_eq_def dbl_ne_def dbl_lt_def dbl_le_def

lemmas dbl_eval = dbl_cmp_defs dbl_nan_def dbl_key_def dbl_negative_def
  dbl_magnitude_def dbl_inf_magnitude_def dbl_zero_def

lemma dbl_nan_zero [simp]: "\<not> dbl_nan dbl_zero"
  by (simp add: dbl_eval)

lemma dbl_eq_refl_iff: "dbl_eq a a \<longleftrightarrow> \<not> dbl_nan a"
  by (simp add: dbl_cmp_defs)

lemma dbl_eq_sym: "dbl_eq a b = dbl_eq b a"
  by (auto simp: dbl_cmp_defs)

lemma dbl_eq_trans: "dbl_eq a b \<Longrightarrow> dbl_eq b c \<Longrightarrow> dbl_eq a c"
  by (simp add: dbl_cmp_defs)

lemma dbl_le_iff_lt_or_eq: "dbl_le a b \<longleftrightarrow> dbl_lt a b \<or> dbl_eq a b"
  by (auto simp: dbl_cmp_defs)

lemma dbl_lt_trans: "dbl_lt a b \<Longrightarrow> dbl_lt b c \<Longrightarrow> dbl_lt a c"
  by (simp add: dbl_cmp_defs)

lemma dbl_not_lt: "\<not> dbl_nan a \<Longrightarrow> \<not> dbl_nan b \<Longrightarrow> \<not> dbl_lt a b \<longleftrightarrow> dbl_le b a"
  by (auto simp: dbl_cmp_defs)

lemma dbl_nan_compares_false:
  "dbl_nan a \<Longrightarrow> \<not> dbl_eq a b \<and> \<not> dbl_lt a b \<and> \<not> dbl_le a b \<and> \<not> dbl_lt b a \<and> \<not> dbl_le b a"
  by (simp add: dbl_cmp_defs)

section \<open>The order on bits is the order of the values\<close>

text \<open>
  \<open>mag_scaled m\<close> is the value encoded by the magnitude bits \<open>m\<close>, scaled by \<open>2^1074\<close> so that
  it is a natural number: subnormals have exponent field 0, normal numbers an implicit
  leading one.
\<close>

definition mag_scaled :: "nat \<Rightarrow> nat" where
  "mag_scaled m =
     (let e = m div 2 ^ 52; f = m mod 2 ^ 52
      in if e = 0 then f else (2 ^ 52 + f) * 2 ^ (e - 1))"

definition dbl_scaled :: "double \<Rightarrow> int" where
  "dbl_scaled d =
     (if dbl_negative d then - int (mag_scaled (dbl_magnitude d))
      else int (mag_scaled (dbl_magnitude d)))"

text \<open>The value of a finite double (an infinity reads as the next power of two, \<open>2^1024\<close>).\<close>

definition dbl_value :: "double \<Rightarrow> real" where
  "dbl_value d = of_int (dbl_scaled d) / 2 ^ 1074"

lemma div_Suc_cases:
  fixes n :: nat
  assumes "0 < k"
  shows "(Suc n mod k = Suc (n mod k) \<and> Suc n div k = n div k) \<or>
         (Suc n mod k = 0 \<and> n mod k = k - 1 \<and> Suc n div k = Suc (n div k))"
  using assms by (auto simp: mod_Suc div_Suc)

lemma mag_scaled_Suc: "mag_scaled n < mag_scaled (Suc n)"
proof -
  let ?k = "2 ^ 52 :: nat"
  let ?e = "n div ?k"
  have "?k > 0" by simp
  from div_Suc_cases [OF this, of n]
  consider (same) "Suc n mod ?k = Suc (n mod ?k)" "Suc n div ?k = ?e"
    | (carry) "Suc n mod ?k = 0" "n mod ?k = ?k - 1" "Suc n div ?k = Suc ?e"
    by metis
  then show ?thesis
  proof cases
    case same
    then show ?thesis unfolding mag_scaled_def Let_def by simp
  next
    case carry
    show ?thesis
    proof (cases ?e)
      case 0
      with carry show ?thesis unfolding mag_scaled_def Let_def by simp
    next
      case (Suc e')
      have "(?k + (?k - 1)) * 2 ^ e' < (?k * 2) * 2 ^ e'"
        by (rule mult_strict_right_mono) simp_all
      with carry Suc show ?thesis unfolding mag_scaled_def Let_def by simp
    qed
  qed
qed

lemma mag_scaled_less_iff: "mag_scaled m < mag_scaled n \<longleftrightarrow> m < n"
  by (rule lift_Suc_mono_less_iff) (rule mag_scaled_Suc)

lemma mag_scaled_0 [simp]: "mag_scaled 0 = 0"
  by (simp add: mag_scaled_def)

lemma mag_scaled_le_iff: "mag_scaled m \<le> mag_scaled n \<longleftrightarrow> m \<le> n"
  using mag_scaled_less_iff [of n m] by (simp add: not_less [symmetric])

lemma mag_scaled_pos_iff: "0 < mag_scaled n \<longleftrightarrow> 0 < n"
  using mag_scaled_less_iff [of 0 n] by simp

lemma dbl_scaled_less: "dbl_scaled a < dbl_scaled b \<longleftrightarrow> dbl_key a < dbl_key b"
proof -
  have pos: "mag_scaled n = 0 \<longleftrightarrow> n = 0" for n
    using mag_scaled_pos_iff [of n] by (metis gr0I less_irrefl)
  have "- int (mag_scaled m) < int (mag_scaled n) \<longleftrightarrow> - int m < int n" for m n
    using pos [of m] pos [of n] by linarith
  moreover have "\<not> int (mag_scaled m) < - int (mag_scaled n)" for m n by linarith
  ultimately show ?thesis
    by (auto simp: dbl_scaled_def dbl_key_def mag_scaled_less_iff)
qed

lemma dbl_lt_value:
  assumes "\<not> dbl_nan a" "\<not> dbl_nan b"
  shows "dbl_lt a b \<longleftrightarrow> dbl_value a < dbl_value b"
  using assms dbl_scaled_less [of a b]
  by (simp add: dbl_lt_def dbl_value_def divide_less_cancel)

lemma dbl_eq_value:
  assumes "\<not> dbl_nan a" "\<not> dbl_nan b"
  shows "dbl_eq a b \<longleftrightarrow> dbl_value a = dbl_value b"
  using dbl_lt_value [OF assms] dbl_lt_value [OF assms(2,1)] assms
  by (auto simp: dbl_eq_def dbl_lt_def)

lemma dbl_le_value:
  assumes "\<not> dbl_nan a" "\<not> dbl_nan b"
  shows "dbl_le a b \<longleftrightarrow> dbl_value a \<le> dbl_value b"
  using dbl_lt_value [OF assms] dbl_eq_value [OF assms]
  by (auto simp: dbl_le_iff_lt_or_eq)

end
