(* ===== verification/Oef_Geo.thy ===== *)
theory Oef_Geo
  imports Oef_Doubles
begin

text \<open>
  \<open>Location\<close> and its distance (\<open>lib/include/schema.hpp\<close>, lines 39 to 80).

  The comparisons of locations are those of the source: \<open>==\<close> and \<open>!=\<close> read both
  coordinates, the four order operators read the latitude only.

  The distance is computed with floating-point arithmetic and \<open>libm\<close>. Their results are
  the platform's, so the operations are a record \<open>fp_ops\<close> that \<open>distance\<close> takes as an
  argument, and the definition applies them in the source's order. Two readings are used:
  over \<open>double\<close> for any platform (locale \<open>fp_sign_laws\<close> states what IEEE arithmetic and
  \<open>libm\<close> promise about signs, which makes the distance symmetric), and over \<open>real\<close>, where
  the formula is proved to be the great-circle distance.
\<close>

section \<open>Locations\<close>

record location =
  loc_lon :: double
  loc_lat :: double

text \<open>\<open>fetch::oef::pb::Query_Location\<close> of \<open>query.proto\<close>.\<close>

record pb_location =
  pbl_lon :: double
  pbl_lat :: double

definition loc_eq :: "location \<Rightarrow> location \<Rightarrow> bool" where
  "loc_eq a b \<longleftrightarrow> dbl_eq (loc_lon a) (loc_lon b) \<and> dbl_eq (loc_lat a) (loc_lat b)"

definition loc_ne :: "location \<Rightarrow> location \<Rightarrow> bool" where
  "loc_ne a b \<longleftrightarrow> dbl_ne (loc_lon a) (loc_lon b) \<or> dbl_ne (loc_lat a) (loc_lat b)"

definition loc_lt :: "location \<Rightarrow> location \<Rightarrow> bool" where
  "loc_lt a b \<longleftrightarrow> dbl_lt (loc_lat a) (loc_lat b)"

definition loc_le :: "location \<Rightarrow> location \<Rightarrow> bool" where
  "loc_le a b \<longleftrightarrow> dbl_le (loc_lat a) (loc_lat b)"

definition loc_gt :: "location \<Rightarrow> location \<Rightarrow> bool" where
  "loc_gt a b \<longleftrightarrow> dbl_gt (loc_lat a) (loc_lat b)"

definition loc_ge :: "location \<Rightarrow> location \<Rightarrow> bool" where
  "loc_ge a b \<longleftrightarrow> dbl_ge (loc_lat a) (loc_lat b)"

text \<open>\<open>Location::operator==(const Query_Location &)\<close>.\<close>

definition loc_eq_pb :: "location \<Rightarrow> pb_location \<Rightarrow> bool" where
  "loc_eq_pb a p \<longleftrightarrow> dbl_eq (loc_lat a) (pbl_lat p) \<and> dbl_eq (loc_lon a) (pbl_lon p)"

definition loc_of_pb :: "pb_location \<Rightarrow> location" where
  "loc_of_pb p = \<lparr>loc_lon = pbl_lon p, loc_lat = pbl_lat p\<rparr>"

definition pb_of_loc :: "location \<Rightarrow> pb_location" where
  "pb_of_loc l = \<lparr>pbl_lon = loc_lon l, pbl_lat = loc_lat l\<rparr>"

lemmas loc_defs [oef_defs] = loc_eq_def loc_ne_def loc_lt_def loc_le_def loc_gt_def loc_ge_def
  loc_eq_pb_def

lemma loc_of_pb_of_loc [simp]: "loc_of_pb (pb_of_loc l) = l"
  by (simp add: loc_of_pb_def pb_of_loc_def)

lemma pb_of_loc_of_pb [simp]: "pb_of_loc (loc_of_pb p) = p"
  by (simp add: loc_of_pb_def pb_of_loc_def)

lemma loc_ne_iff: "loc_ne a b \<longleftrightarrow> \<not> loc_eq a b"
  by (auto simp: loc_defs dbl_ne_def)

lemma loc_eq_pb_iff: "loc_eq_pb a p \<longleftrightarrow> loc_eq a (loc_of_pb p)"
  by (auto simp: loc_defs loc_of_pb_def)

section \<open>Floating-point operations\<close>

record 'a fp_ops =
  fp_lit :: "rat \<Rightarrow> 'a"
  fp_pi :: 'a
  fp_add :: "'a \<Rightarrow> 'a \<Rightarrow> 'a"
  fp_sub :: "'a \<Rightarrow> 'a \<Rightarrow> 'a"
  fp_mul :: "'a \<Rightarrow> 'a \<Rightarrow> 'a"
  fp_div :: "'a \<Rightarrow> 'a \<Rightarrow> 'a"
  fp_sin :: "'a \<Rightarrow> 'a"
  fp_cos :: "'a \<Rightarrow> 'a"
  fp_asin :: "'a \<Rightarrow> 'a"
  fp_sqrt :: "'a \<Rightarrow> 'a"

definition degree_to_radian :: "'a fp_ops \<Rightarrow> 'a \<Rightarrow> 'a" where
  "degree_to_radian ops angle = fp_div ops (fp_mul ops (fp_pi ops) angle) (fp_lit ops 180)"

definition EarthRadiusKm :: "'a fp_ops \<Rightarrow> 'a" where
  "EarthRadiusKm ops = fp_lit ops (63728 / 10)"

text \<open>
  The body of \<open>Location::distance\<close>, over the coordinates of the two locations. The
  product under the root associates to the left, as in C++.
\<close>

definition distance_coords :: "'a fp_ops \<Rightarrow> 'a \<Rightarrow> 'a \<Rightarrow> 'a \<Rightarrow> 'a \<Rightarrow> 'a" where
  "distance_coords ops lat lon rhs_lat rhs_lon =
     (let latRad1 = degree_to_radian ops lat;
          latRad2 = degree_to_radian ops rhs_lat;
          lonRad1 = degree_to_radian ops lon;
          lonRad2 = degree_to_radian ops rhs_lon;
          diffLa = fp_sub ops latRad2 latRad1;
          doffLo = fp_sub ops lonRad2 lonRad1;
          sinLa = fp_sin ops (fp_div ops diffLa (fp_lit ops 2));
          sinLo = fp_sin ops (fp_div ops doffLo (fp_lit ops 2));
          computation =
            fp_asin ops (fp_sqrt ops
              (fp_add ops (fp_mul ops sinLa sinLa)
                (fp_mul ops (fp_mul ops (fp_mul ops (fp_cos ops latRad1) (fp_cos ops latRad2))
                   sinLo) sinLo)))
      in fp_mul ops (fp_mul ops (fp_lit ops 2) (EarthRadiusKm ops)) computation)"

definition loc_distance :: "double fp_ops \<Rightarrow> location \<Rightarrow> location \<Rightarrow> double" where
  "loc_distance ops l rhs =
     distance_coords ops (loc_lat l) (loc_lon l) (loc_lat rhs) (loc_lon rhs)"

section \<open>Symmetry on any platform\<close>

text \<open>
  What IEEE arithmetic and \<open>libm\<close> promise about signs. \<open>neg\<close> flips the sign bit, \<open>coord\<close>
  holds of the angles in radians whose differences stay finite, \<open>num\<close> of the finite values
  and \<open>unit\<close> of the values of magnitude at most one. A difference of equal operands is the
  same zero in both orders, hence the disjunction of \<open>sub_swap\<close>.
\<close>

locale fp_sign_laws =
  fixes ops :: "'a fp_ops" and neg :: "'a \<Rightarrow> 'a"
    and coord :: "'a \<Rightarrow> bool" and num :: "'a \<Rightarrow> bool" and unit :: "'a \<Rightarrow> bool"
  assumes sub_swap: "coord x \<Longrightarrow> coord y \<Longrightarrow>
      fp_sub ops y x = fp_sub ops x y \<or> fp_sub ops y x = neg (fp_sub ops x y)"
    and sub_num: "coord x \<Longrightarrow> coord y \<Longrightarrow> num (fp_sub ops x y)"
    and half_num: "num x \<Longrightarrow> num (fp_div ops x (fp_lit ops 2))"
    and half_neg: "num x \<Longrightarrow> fp_div ops (neg x) (fp_lit ops 2) = neg (fp_div ops x (fp_lit ops 2))"
    and sin_neg: "num x \<Longrightarrow> fp_sin ops (neg x) = neg (fp_sin ops x)"
    and sin_unit: "num x \<Longrightarrow> unit (fp_sin ops x)"
    and cos_unit: "coord x \<Longrightarrow> unit (fp_cos ops x)"
    and neg_unit: "unit x \<Longrightarrow> unit (neg x)"
    and mul_unit: "unit x \<Longrightarrow> unit y \<Longrightarrow> unit (fp_mul ops x y)"
    and mul_neg_left: "unit x \<Longrightarrow> unit y \<Longrightarrow> fp_mul ops (neg x) y = neg (fp_mul ops x y)"
    and mul_neg_right: "unit x \<Longrightarrow> unit y \<Longrightarrow> fp_mul ops x (neg y) = neg (fp_mul ops x y)"
    and mul_comm: "unit x \<Longrightarrow> unit y \<Longrightarrow> fp_mul ops x y = fp_mul ops y x"
    and neg_neg: "neg (neg x) = x"
begin

lemma half_sin_unit:
  "coord x \<Longrightarrow> coord y \<Longrightarrow> unit (fp_sin ops (fp_div ops (fp_sub ops x y) (fp_lit ops 2)))"
  by (intro sin_unit half_num sub_num)

lemma half_sin_swap:
  assumes "coord x" "coord y"
  shows "fp_sin ops (fp_div ops (fp_sub ops y x) (fp_lit ops 2))
           = fp_sin ops (fp_div ops (fp_sub ops x y) (fp_lit ops 2)) \<or>
         fp_sin ops (fp_div ops (fp_sub ops y x) (fp_lit ops 2))
           = neg (fp_sin ops (fp_div ops (fp_sub ops x y) (fp_lit ops 2)))"
  using sub_swap [OF assms] sub_num [OF assms] by (auto simp: half_neg half_num sin_neg)

lemma square_neg: "unit s \<Longrightarrow> fp_mul ops (neg s) (neg s) = fp_mul ops s s"
  by (simp add: mul_neg_left mul_neg_right neg_neg neg_unit)

lemma scaled_square_neg:
  "unit c \<Longrightarrow> unit s \<Longrightarrow>
     fp_mul ops (fp_mul ops c (neg s)) (neg s) = fp_mul ops (fp_mul ops c s) s"
  by (simp add: mul_neg_left mul_neg_right neg_neg neg_unit mul_unit)

lemma square_swap:
  assumes "coord x" "coord y"
  shows "(let s = fp_sin ops (fp_div ops (fp_sub ops y x) (fp_lit ops 2)) in fp_mul ops s s)
       = (let s = fp_sin ops (fp_div ops (fp_sub ops x y) (fp_lit ops 2)) in fp_mul ops s s)"
  using half_sin_swap [OF assms] half_sin_unit [OF assms] by (auto simp: square_neg Let_def)

lemma scaled_square_swap:
  assumes "coord x" "coord y" "unit c"
  shows "(let s = fp_sin ops (fp_div ops (fp_sub ops y x) (fp_lit ops 2))
          in fp_mul ops (fp_mul ops c s) s)
       = (let s = fp_sin ops (fp_div ops (fp_sub ops x y) (fp_lit ops 2))
          in fp_mul ops (fp_mul ops c s) s)"
  using half_sin_swap [OF assms(1,2)] half_sin_unit [OF assms(1,2)] assms(3)
  by (auto simp: scaled_square_neg Let_def)

text \<open>The distance does not depend on the order of its two locations.\<close>

lemma distance_coords_sym:
  assumes "coord (degree_to_radian ops a)" "coord (degree_to_radian ops b)"
    "coord (degree_to_radian ops c)" "coord (degree_to_radian ops d)"
  shows "distance_coords ops a b c d = distance_coords ops c d a b"
proof -
  let ?r = "degree_to_radian ops"
  let ?k = "fp_mul ops (fp_cos ops (?r a)) (fp_cos ops (?r c))"
  have k: "unit ?k" and comm: "?k = fp_mul ops (fp_cos ops (?r c)) (fp_cos ops (?r a))"
    using assms by (auto intro!: mul_unit cos_unit mul_comm)
  show ?thesis
    unfolding distance_coords_def Let_def comm [symmetric]
    using square_swap [OF assms(1,3)] scaled_square_swap [OF assms(2,4) k]
    by (simp add: Let_def)
qed

end

section \<open>Real arithmetic: the great-circle distance\<close>

definition real_ops :: "real fp_ops" where
  "real_ops = \<lparr>fp_lit = of_rat, fp_pi = pi, fp_add = (+), fp_sub = (-), fp_mul = (*),
     fp_div = (/), fp_sin = sin, fp_cos = cos, fp_asin = arcsin, fp_sqrt = sqrt\<rparr>"

lemma real_ops_simps [simp]:
  "fp_lit real_ops = of_rat" "fp_pi real_ops = pi" "fp_add real_ops = (+)"
  "fp_sub real_ops = (-)" "fp_mul real_ops = (*)" "fp_div real_ops = (/)"
  "fp_sin real_ops = sin" "fp_cos real_ops = cos" "fp_asin real_ops = arcsin"
  "fp_sqrt real_ops = sqrt"
  by (simp_all add: real_ops_def)

interpretation real_fp: fp_sign_laws real_ops uminus "\<lambda>_. True" "\<lambda>_. True" "\<lambda>x. \<bar>x\<bar> \<le> 1"
  by unfold_locales (auto simp: abs_mult intro: mult_le_one)

definition rad :: "real \<Rightarrow> real" where
  "rad = degree_to_radian real_ops"

lemma rad_eq: "rad x = pi * x / 180"
  by (simp add: rad_def degree_to_radian_def of_rat_numeral_eq)

lemma EarthRadiusKm_real: "EarthRadiusKm real_ops = 63728 / 10"
  by (simp add: EarthRadiusKm_def of_rat_divide)

text \<open>The term under the root, and the angle between the two points.\<close>

definition haversine :: "real \<Rightarrow> real \<Rightarrow> real \<Rightarrow> real \<Rightarrow> real" where
  "haversine p1 l1 p2 l2 =
     sin ((p2 - p1) / 2) * sin ((p2 - p1) / 2)
     + cos p1 * cos p2 * sin ((l2 - l1) / 2) * sin ((l2 - l1) / 2)"

lemma distance_real:
  "distance_coords real_ops a b c d =
     2 * (63728 / 10) * arcsin (sqrt (haversine (rad a) (rad b) (rad c) (rad d)))"
  by (simp add: distance_coords_def Let_def haversine_def EarthRadiusKm_real rad_def [symmetric])

lemma sin_half_sq: "sin (x / 2) * sin (x / 2) = (1 - cos x) / (2::real)"
  using cos_double_sin [of "x / 2"] by (simp add: power2_eq_square)

lemma haversine_cos:
  "1 - 2 * haversine p1 l1 p2 l2 = sin p1 * sin p2 + cos p1 * cos p2 * cos (l2 - l1)"
proof -
  have "haversine p1 l1 p2 l2 =
      (1 - cos (p2 - p1)) / 2 + cos p1 * cos p2 * ((1 - cos (l2 - l1)) / 2)"
    unfolding haversine_def mult.assoc sin_half_sq ..
  then show ?thesis
    by (simp add: cos_diff field_simps)
qed

lemma spherical_cos_bound: "\<bar>sin p1 * sin p2 + cos p1 * cos p2 * cos l\<bar> \<le> (1::real)"
proof -
  have "\<bar>cos p1 * cos p2 * cos l\<bar> \<le> \<bar>cos p1 * cos p2\<bar> * 1"
    unfolding abs_mult [of _ "cos l"] by (rule mult_left_mono) simp_all
  then have "\<bar>sin p1 * sin p2 + cos p1 * cos p2 * cos l\<bar> \<le> \<bar>sin p1\<bar> * \<bar>sin p2\<bar> + \<bar>cos p1\<bar> * \<bar>cos p2\<bar>"
    using abs_triangle_ineq [of "sin p1 * sin p2" "cos p1 * cos p2 * cos l"]
    by (simp add: abs_mult)
  also have "\<dots> \<le> ((sin p1)\<^sup>2 + (sin p2)\<^sup>2) / 2 + ((cos p1)\<^sup>2 + (cos p2)\<^sup>2) / 2"
    using sum_squares_bound [of "\<bar>sin p1\<bar>" "\<bar>sin p2\<bar>"]
      sum_squares_bound [of "\<bar>cos p1\<bar>" "\<bar>cos p2\<bar>"] by (simp add: field_simps)
  also have "\<dots> = 1"
    by (simp add: sin_squared_eq add_divide_distrib [symmetric])
  finally show ?thesis .
qed

lemma haversine_range: "0 \<le> haversine p1 l1 p2 l2 \<and> haversine p1 l1 p2 l2 \<le> 1"
  using haversine_cos [of p1 l1 p2 l2] spherical_cos_bound [of p1 p2 "l2 - l1"]
  by (simp add: abs_le_iff)

lemma cos_double_arcsin_sqrt:
  assumes "0 \<le> h" "h \<le> 1"
  shows "cos (2 * arcsin (sqrt h)) = 1 - 2 * h"
proof -
  have "sin (arcsin (sqrt h)) = sqrt h"
    using assms by (intro sin_arcsin) (auto intro: order_trans [of _ 0])
  then show ?thesis
    using assms by (simp add: cos_double_sin)
qed

lemma arcsin_sqrt_bounds:
  assumes "0 \<le> h" "h \<le> 1"
  shows "0 \<le> arcsin (sqrt h) \<and> arcsin (sqrt h) \<le> pi / 2"
proof -
  have "arcsin 0 \<le> arcsin (sqrt h)"
    using assms by (intro arcsin_le_arcsin) simp_all
  moreover have "arcsin (sqrt h) \<le> pi / 2"
    using assms by (intro arcsin_ubound) (auto intro: order_trans [of _ 0])
  ultimately show ?thesis by simp
qed

text \<open>
  Over exact arithmetic the distance of two locations is the great-circle distance:
  symmetric, non-negative, at most half the circumference.
\<close>

lemma distance_great_circle:
  "let R = EarthRadiusKm real_ops;
       d = distance_coords real_ops lat lon rhs_lat rhs_lon
   in cos (d / R) = sin (rad lat) * sin (rad rhs_lat)
                    + cos (rad lat) * cos (rad rhs_lat) * cos (rad rhs_lon - rad lon)
      \<and> 0 \<le> d \<and> d \<le> pi * R
      \<and> distance_coords real_ops rhs_lat rhs_lon lat lon = d"
proof -
  let ?h = "haversine (rad lat) (rad lon) (rad rhs_lat) (rad rhs_lon)"
  have h: "0 \<le> ?h" "?h \<le> 1"
    using haversine_range [of "rad lat" "rad lon" "rad rhs_lat" "rad rhs_lon"] by simp_all
  have sym: "distance_coords real_ops rhs_lat rhs_lon lat lon
      = distance_coords real_ops lat lon rhs_lat rhs_lon"
    by (rule real_fp.distance_coords_sym) simp_all
  show ?thesis
    using cos_double_arcsin_sqrt [OF h] arcsin_sqrt_bounds [OF h] sym
      haversine_cos [of "rad lat" "rad lon" "rad rhs_lat" "rad rhs_lon"]
    by (simp add: Let_def distance_real EarthRadiusKm_real)
qed

end
