(* ===== verification/Oef_Query_Proto.thy ===== *)
theory Oef_Query_Proto
  imports Oef_Geo
begin

text \<open>
  The messages of \<open>lib/proto/query.proto\<close> as the C++ code sees them. A message is a
  record, a \<open>oneof\<close> a datatype with one constructor per alternative and one for the case
  that none is set, a \<open>repeated\<close> field a list. The code reads scalar fields through
  accessors that return the default value of a field that is not set, so a record field
  always has a value; the accessors of a \<open>oneof\<close> are functions here, with the default for
  the other alternatives, as the protobuf guide documents them. \<open>pb_expr\<close> is the recursive
  message \<open>Query.ConstraintExpr\<close>.
\<close>

section \<open>Attributes, data models, instances\<close>

datatype attr_type = T_DOUBLE | T_INT | T_BOOL | T_STRING | T_LOCATION

record pb_attribute =
  pa_name :: string
  pa_type :: attr_type
  pa_required :: bool
  pa_description :: "string option"

record pb_data_model =
  pdm_name :: string
  pdm_attributes :: "pb_attribute list"
  pdm_description :: "string option"

datatype pb_value =
    PV_S string
  | PV_D double
  | PV_B bool
  | PV_I i64
  | PV_L pb_location
  | PV_NotSet

record pb_key_value =
  pkv_key :: string
  pkv_value :: pb_value

record pb_instance =
  pi_model :: pb_data_model
  pi_values :: "pb_key_value list"

definition pb_location_default :: pb_location where
  "pb_location_default = \<lparr>pbl_lon = dbl_zero, pbl_lat = dbl_zero\<rparr>"

text \<open>The accessors \<open>val.i()\<close>, \<open>val.d()\<close>, \<open>val.s()\<close>, \<open>val.b()\<close> and \<open>val.l()\<close> of \<open>Query.Value\<close>.\<close>

fun pv_i :: "pb_value \<Rightarrow> i64" where
  "pv_i (PV_I i) = i"
| "pv_i _ = 0"

fun pv_d :: "pb_value \<Rightarrow> double" where
  "pv_d (PV_D d) = d"
| "pv_d _ = dbl_zero"

fun pv_s :: "pb_value \<Rightarrow> string" where
  "pv_s (PV_S s) = s"
| "pv_s _ = []"

fun pv_b :: "pb_value \<Rightarrow> bool" where
  "pv_b (PV_B b) = b"
| "pv_b _ = False"

fun pv_l :: "pb_value \<Rightarrow> pb_location" where
  "pv_l (PV_L l) = l"
| "pv_l _ = pb_location_default"

section \<open>Constraints\<close>

datatype rel_op = Op_EQ | Op_LT | Op_LTEQ | Op_GT | Op_GTEQ | Op_NOTEQ

record pb_relation =
  pr_op :: rel_op
  pr_val :: pb_value

datatype set_op = Op_IN | Op_NOTIN

datatype pb_set_values =
    PSV_S "string list"
  | PSV_D "double list"
  | PSV_B "bool list"
  | PSV_I "i64 list"
  | PSV_L "pb_location list"
  | PSV_NotSet

record pb_set =
  ps_op :: set_op
  ps_vals :: pb_set_values

fun psv_i :: "pb_set_values \<Rightarrow> i64 list" where
  "psv_i (PSV_I xs) = xs"
| "psv_i _ = []"

fun psv_d :: "pb_set_values \<Rightarrow> double list" where
  "psv_d (PSV_D xs) = xs"
| "psv_d _ = []"

fun psv_s :: "pb_set_values \<Rightarrow> string list" where
  "psv_s (PSV_S xs) = xs"
| "psv_s _ = []"

fun psv_b :: "pb_set_values \<Rightarrow> bool list" where
  "psv_b (PSV_B xs) = xs"
| "psv_b _ = []"

fun psv_l :: "pb_set_values \<Rightarrow> pb_location list" where
  "psv_l (PSV_L xs) = xs"
| "psv_l _ = []"

datatype pb_range =
    PR_S string string
  | PR_I i64 i64
  | PR_D double double
  | PR_L pb_location pb_location
  | PR_NotSet

text \<open>The pair read by \<open>range.s()\<close>, \<open>range.i()\<close>, \<open>range.d()\<close> and \<open>range.l()\<close>.\<close>

fun pr_s :: "pb_range \<Rightarrow> string \<times> string" where
  "pr_s (PR_S a b) = (a, b)"
| "pr_s _ = ([], [])"

fun pr_i :: "pb_range \<Rightarrow> i64 \<times> i64" where
  "pr_i (PR_I a b) = (a, b)"
| "pr_i _ = (0, 0)"

fun pr_d :: "pb_range \<Rightarrow> double \<times> double" where
  "pr_d (PR_D a b) = (a, b)"
| "pr_d _ = (dbl_zero, dbl_zero)"

fun pr_l :: "pb_range \<Rightarrow> pb_location \<times> pb_location" where
  "pr_l (PR_L a b) = (a, b)"
| "pr_l _ = (pb_location_default, pb_location_default)"

record pb_distance =
  pd_center :: pb_location
  pd_distance :: double

datatype pb_constraint_case =
    CC_Set pb_set
  | CC_Range pb_range
  | CC_Relation pb_relation
  | CC_Distance pb_distance
  | CC_NotSet

record pb_constraint =
  pc_attribute_name :: string
  pc_constraint :: pb_constraint_case

section \<open>Expressions and queries\<close>

datatype pb_expr =
    PE_Or "pb_expr list"
  | PE_And "pb_expr list"
  | PE_Not pb_expr
  | PE_Constraint pb_constraint
  | PE_NotSet

record pb_model =
  pm_constraints :: "pb_expr list"
  pm_model :: "pb_data_model option"

end
