(* ===== verification/Oef_Constraint.thy ===== *)
theory Oef_Constraint
  imports Oef_Schema_Data
begin

text \<open>
  The constraints of \<open>lib/include/schema.hpp\<close>: \<open>Relation\<close>, \<open>Set\<close>, \<open>Distance\<close>, \<open>Range\<close> and
  \<open>Constraint\<close>, with their constructors, their \<open>check\<close> on a value and their \<open>valid\<close>
  against an attribute type. The templates over the value type become functions of a
  record of the C++ comparison operators of that type (\<open>cmp_ops\<close>).

  A check reads the message through the accessor of the type of the value it is given,
  whatever alternative the message holds; the accessors return defaults then. Integers
  of a message are 64 bits wide and the values are 32 bits wide: \<open>Relation\<close> narrows the
  message's integer, \<open>Set\<close> and \<open>Range\<close> widen the value.
\<close>

section \<open>Comparison operators of the value types\<close>

record 'a cmp_ops =
  c_eq :: "'a \<Rightarrow> 'a \<Rightarrow> bool"
  c_ne :: "'a \<Rightarrow> 'a \<Rightarrow> bool"
  c_lt :: "'a \<Rightarrow> 'a \<Rightarrow> bool"
  c_le :: "'a \<Rightarrow> 'a \<Rightarrow> bool"
  c_gt :: "'a \<Rightarrow> 'a \<Rightarrow> bool"
  c_ge :: "'a \<Rightarrow> 'a \<Rightarrow> bool"

definition cmp_int :: "i32 cmp_ops" where
  "cmp_int = \<lparr>c_eq = (\<lambda>a b. sint a = sint b), c_ne = (\<lambda>a b. sint a \<noteq> sint b),
     c_lt = (\<lambda>a b. sint a < sint b), c_le = (\<lambda>a b. sint a \<le> sint b),
     c_gt = (\<lambda>a b. sint a > sint b), c_ge = (\<lambda>a b. sint a \<ge> sint b)\<rparr>"

definition cmp_double :: "double cmp_ops" where
  "cmp_double = \<lparr>c_eq = dbl_eq, c_ne = dbl_ne, c_lt = dbl_lt, c_le = dbl_le,
     c_gt = (\<lambda>a b. dbl_gt a b), c_ge = (\<lambda>a b. dbl_ge a b)\<rparr>"

definition cmp_string :: "string cmp_ops" where
  "cmp_string = \<lparr>c_eq = (=), c_ne = (\<noteq>), c_lt = (<), c_le = (\<le>), c_gt = (>), c_ge = (\<ge>)\<rparr>"

definition cmp_bool :: "bool cmp_ops" where
  "cmp_bool = \<lparr>c_eq = (=), c_ne = (\<noteq>), c_lt = (<), c_le = (\<le>), c_gt = (>), c_ge = (\<ge>)\<rparr>"

definition cmp_location :: "location cmp_ops" where
  "cmp_location = \<lparr>c_eq = loc_eq, c_ne = loc_ne, c_lt = loc_lt, c_le = loc_le,
     c_gt = loc_gt, c_ge = loc_ge\<rparr>"

lemmas cmp_ops_defs [oef_defs] = cmp_int_def cmp_double_def cmp_string_def cmp_bool_def
  cmp_location_def

section \<open>Relation\<close>

definition relation_of_string :: "rel_op \<Rightarrow> string \<Rightarrow> pb_relation" where
  "relation_of_string op s = \<lparr>pr_op = op, pr_val = PV_S s\<rparr>"

definition relation_of_int :: "rel_op \<Rightarrow> i32 \<Rightarrow> pb_relation" where
  "relation_of_int op i = \<lparr>pr_op = op, pr_val = PV_I (scast i)\<rparr>"

definition relation_of_bool :: "rel_op \<Rightarrow> bool \<Rightarrow> pb_relation" where
  "relation_of_bool op b = \<lparr>pr_op = op, pr_val = PV_B b\<rparr>"

definition relation_of_double :: "rel_op \<Rightarrow> double \<Rightarrow> pb_relation" where
  "relation_of_double op d = \<lparr>pr_op = op, pr_val = PV_D d\<rparr>"

definition relation_of_location :: "rel_op \<Rightarrow> location \<Rightarrow> pb_relation" where
  "relation_of_location op l =
     \<lparr>pr_op = op, pr_val = PV_L \<lparr>pbl_lon = loc_lon l, pbl_lat = loc_lat l\<rparr>\<rparr>"

text \<open>The five instances of \<open>Relation::get<T>\<close>.\<close>

definition relation_get_int :: "pb_relation \<Rightarrow> i32" where
  "relation_get_int rel = ucast (pv_i (pr_val rel))"

definition relation_get_double :: "pb_relation \<Rightarrow> double" where
  "relation_get_double rel = pv_d (pr_val rel)"

definition relation_get_string :: "pb_relation \<Rightarrow> string" where
  "relation_get_string rel = pv_s (pr_val rel)"

definition relation_get_bool :: "pb_relation \<Rightarrow> bool" where
  "relation_get_bool rel = pv_b (pr_val rel)"

definition relation_get_location :: "pb_relation \<Rightarrow> location" where
  "relation_get_location rel =
     (let loc = pv_l (pr_val rel) in \<lparr>loc_lon = pbl_lon loc, loc_lat = pbl_lat loc\<rparr>)"

lemmas relation_get_defs [oef_defs] = relation_get_int_def relation_get_double_def
  relation_get_string_def relation_get_bool_def relation_get_location_def

text \<open>\<open>Relation::check_value<T>\<close>: \<open>s\<close> is the value of the relation, \<open>v\<close> the checked one.\<close>

definition relation_check_value :: "'a cmp_ops \<Rightarrow> rel_op \<Rightarrow> 'a \<Rightarrow> 'a \<Rightarrow> bool" where
  "relation_check_value C op s v =
     (case op of
        Op_EQ \<Rightarrow> c_eq C s v
      | Op_NOTEQ \<Rightarrow> c_ne C s v
      | Op_LT \<Rightarrow> c_lt C v s
      | Op_LTEQ \<Rightarrow> c_le C v s
      | Op_GT \<Rightarrow> c_gt C v s
      | Op_GTEQ \<Rightarrow> c_ge C v s)"

definition relation_valid :: "pb_relation \<Rightarrow> attr_type \<Rightarrow> bool" where
  "relation_valid rel t =
     (let op = pr_op rel; equal = (op = Op_EQ \<or> op = Op_NOTEQ) in
      case pr_val rel of
        PV_S _ \<Rightarrow> t = T_STRING
      | PV_I _ \<Rightarrow> t = T_INT
      | PV_D _ \<Rightarrow> t = T_DOUBLE
      | PV_L _ \<Rightarrow> t = T_LOCATION \<and> equal
      | PV_B _ \<Rightarrow> t = T_BOOL \<and> equal
      | PV_NotSet \<Rightarrow> False)"

fun relation_check :: "pb_relation \<Rightarrow> variant \<Rightarrow> bool" where
  "relation_check rel (VInt i) = relation_check_value cmp_int (pr_op rel) (relation_get_int rel) i"
| "relation_check rel (VDouble d) =
     relation_check_value cmp_double (pr_op rel) (relation_get_double rel) d"
| "relation_check rel (VString s) =
     relation_check_value cmp_string (pr_op rel) (relation_get_string rel) s"
| "relation_check rel (VBool b) = relation_check_value cmp_bool (pr_op rel) (relation_get_bool rel) b"
| "relation_check rel (VLocation l) =
     relation_check_value cmp_location (pr_op rel) (relation_get_location rel) l"

section \<open>Set\<close>

text \<open>The argument of the constructor; an unordered set is listed in its iteration order.\<close>

datatype set_value_type =
    SV_Ints "i32 list"
  | SV_Doubles "double list"
  | SV_Strings "string list"
  | SV_Bools "bool list"

fun set_make :: "set_op \<Rightarrow> set_value_type \<Rightarrow> pb_set" where
  "set_make op (SV_Ints s) = \<lparr>ps_op = op, ps_vals = PSV_I (map scast s)\<rparr>"
| "set_make op (SV_Doubles s) = \<lparr>ps_op = op, ps_vals = PSV_D s\<rparr>"
| "set_make op (SV_Strings s) = \<lparr>ps_op = op, ps_vals = PSV_S s\<rparr>"
| "set_make op (SV_Bools s) = \<lparr>ps_op = op, ps_vals = PSV_B s\<rparr>"

definition set_valid :: "pb_set \<Rightarrow> attr_type \<Rightarrow> bool" where
  "set_valid s t =
     (case ps_vals s of
        PSV_S _ \<Rightarrow> t = T_STRING
      | PSV_I _ \<Rightarrow> t = T_INT
      | PSV_D _ \<Rightarrow> t = T_DOUBLE
      | PSV_L _ \<Rightarrow> t = T_LOCATION
      | PSV_B _ \<Rightarrow> t = T_BOOL
      | PSV_NotSet \<Rightarrow> False)"

text \<open>The search loop, common to the five cases: it stops at the first hit.\<close>

fun member_loop :: "('a \<Rightarrow> bool) \<Rightarrow> 'a list \<Rightarrow> bool" where
  "member_loop hit [] = False"
| "member_loop hit (x # xs) = (if hit x then True else member_loop hit xs)"

fun set_member :: "pb_set_values \<Rightarrow> variant \<Rightarrow> bool" where
  "set_member vals (VInt i) = member_loop (\<lambda>x. x = scast i) (psv_i vals)"
| "set_member vals (VDouble d) = member_loop (\<lambda>x. dbl_eq x d) (psv_d vals)"
| "set_member vals (VString s) = member_loop (\<lambda>x. x = s) (psv_s vals)"
| "set_member vals (VBool b) = member_loop (\<lambda>x. x = b) (psv_b vals)"
| "set_member vals (VLocation l) = member_loop (\<lambda>x. loc_eq_pb l x) (psv_l vals)"

definition set_check :: "pb_set \<Rightarrow> variant \<Rightarrow> bool" where
  "set_check s v =
     (let res = set_member (ps_vals s) v
      in if ps_op s = Op_NOTIN then \<not> res else res)"

section \<open>Distance\<close>

definition distance_make :: "location \<Rightarrow> double \<Rightarrow> pb_distance" where
  "distance_make center d =
     \<lparr>pd_center = \<lparr>pbl_lon = loc_lon center, pbl_lat = loc_lat center\<rparr>, pd_distance = d\<rparr>"

definition distance_valid :: "pb_distance \<Rightarrow> attr_type \<Rightarrow> bool" where
  "distance_valid d t \<longleftrightarrow> t = T_LOCATION"

fun distance_check :: "double fp_ops \<Rightarrow> pb_distance \<Rightarrow> variant \<Rightarrow> bool" where
  "distance_check F d (VLocation l) =
     (let loc = \<lparr>loc_lon = pbl_lon (pd_center d), loc_lat = pbl_lat (pd_center d)\<rparr>
      in dbl_le (loc_distance F loc l) (pd_distance d))"
| "distance_check F d _ = False"

section \<open>Range\<close>

definition range_of_ints :: "i32 \<times> i32 \<Rightarrow> pb_range" where
  "range_of_ints r = PR_I (scast (fst r)) (scast (snd r))"

definition range_of_doubles :: "double \<times> double \<Rightarrow> pb_range" where
  "range_of_doubles r = PR_D (fst r) (snd r)"

definition range_of_strings :: "string \<times> string \<Rightarrow> pb_range" where
  "range_of_strings r = PR_S (fst r) (snd r)"

definition range_min_max :: "double \<Rightarrow> double \<Rightarrow> double \<times> double" where
  "range_min_max a b = (if dbl_lt a b then (a, b) else (b, a))"

definition range_valid :: "pb_range \<Rightarrow> attr_type \<Rightarrow> bool" where
  "range_valid r t =
     (case r of
        PR_S _ _ \<Rightarrow> t = T_STRING
      | PR_I _ _ \<Rightarrow> t = T_INT
      | PR_D _ _ \<Rightarrow> t = T_DOUBLE
      | PR_L _ _ \<Rightarrow> t = T_LOCATION
      | PR_NotSet \<Rightarrow> False)"

fun range_check :: "pb_range \<Rightarrow> variant \<Rightarrow> bool" where
  "range_check r (VInt i) =
     (let p = pr_i r in sint (fst p) \<le> sint i \<and> sint i \<le> sint (snd p))"
| "range_check r (VDouble d) =
     (let p = pr_d r in dbl_ge d (fst p) \<and> dbl_le d (snd p))"
| "range_check r (VString s) =
     (let p = pr_s r in s \<ge> fst p \<and> s \<le> snd p)"
| "range_check r (VLocation s) =
     (let p = pr_l r;
          (min_lat, max_lat) = range_min_max (pbl_lat (fst p)) (pbl_lat (snd p));
          (min_lon, max_lon) = range_min_max (pbl_lon (fst p)) (pbl_lon (snd p))
      in dbl_ge (loc_lat s) min_lat \<and> dbl_le (loc_lat s) max_lat
         \<and> dbl_ge (loc_lon s) min_lon \<and> dbl_le (loc_lon s) max_lon)"
| "range_check r (VBool b) = False"

section \<open>Constraint\<close>

text \<open>
  \<open>CopyFrom\<close> takes any message. It copies a message of the same type and fails on a
  message of another one, as protobuf documents: the two descriptors must be the same.
\<close>

datatype any_message =
    M_Range pb_range
  | M_Relation pb_relation
  | M_Set pb_set
  | M_Distance pb_distance

fun range_copy_from :: "any_message \<Rightarrow> pb_range result" where
  "range_copy_from (M_Range r) = Inr r"
| "range_copy_from _ = Inl DescriptorMismatch"

fun relation_copy_from :: "any_message \<Rightarrow> pb_relation result" where
  "relation_copy_from (M_Relation r) = Inr r"
| "relation_copy_from _ = Inl DescriptorMismatch"

fun set_copy_from :: "any_message \<Rightarrow> pb_set result" where
  "set_copy_from (M_Set s) = Inr s"
| "set_copy_from _ = Inl DescriptorMismatch"

definition constraint_of_range :: "string \<Rightarrow> pb_range \<Rightarrow> pb_constraint result" where
  "constraint_of_range name rg =
     (case range_copy_from (M_Range rg) of
        Inl e \<Rightarrow> Inl e
      | Inr r \<Rightarrow> Inr \<lparr>pc_attribute_name = name, pc_constraint = CC_Range r\<rparr>)"

definition constraint_of_relation :: "string \<Rightarrow> pb_relation \<Rightarrow> pb_constraint result" where
  "constraint_of_relation name rel =
     (case relation_copy_from (M_Relation rel) of
        Inl e \<Rightarrow> Inl e
      | Inr r \<Rightarrow> Inr \<lparr>pc_attribute_name = name, pc_constraint = CC_Relation r\<rparr>)"

definition constraint_of_set :: "string \<Rightarrow> pb_set \<Rightarrow> pb_constraint result" where
  "constraint_of_set name st =
     (case set_copy_from (M_Set st) of
        Inl e \<Rightarrow> Inl e
      | Inr s \<Rightarrow> Inr \<lparr>pc_attribute_name = name, pc_constraint = CC_Set s\<rparr>)"

text \<open>
  The constructor from a \<open>Distance\<close> also writes into \<open>mutable_set_()\<close> (\<open>schema.hpp\<close>, lines
  689 and 690), so the copy is between two message types.
\<close>

definition constraint_of_distance :: "string \<Rightarrow> pb_distance \<Rightarrow> pb_constraint result" where
  "constraint_of_distance name distance =
     (case set_copy_from (M_Distance distance) of
        Inl e \<Rightarrow> Inl e
      | Inr s \<Rightarrow> Inr \<lparr>pc_attribute_name = name, pc_constraint = CC_Set s\<rparr>)"

definition constraint_check_value ::
  "double fp_ops \<Rightarrow> pb_constraint \<Rightarrow> variant \<Rightarrow> bool" where
  "constraint_check_value F c v =
     (case pc_constraint c of
        CC_Set s \<Rightarrow> set_check s v
      | CC_Range r \<Rightarrow> range_check r v
      | CC_Relation r \<Rightarrow> relation_check r v
      | CC_Distance d \<Rightarrow> distance_check F d v
      | CC_NotSet \<Rightarrow> False)"

definition constraint_valid :: "pb_constraint \<Rightarrow> pb_data_model \<Rightarrow> bool" where
  "constraint_valid c dm =
     (case List.find (\<lambda>a. pc_attribute_name c = pa_name a) (pdm_attributes dm) of
        None \<Rightarrow> False
      | Some a \<Rightarrow>
          (case pc_constraint c of
             CC_Set s \<Rightarrow> set_valid s (pa_type a)
           | CC_Range r \<Rightarrow> range_valid r (pa_type a)
           | CC_Relation r \<Rightarrow> relation_valid r (pa_type a)
           | CC_Distance d \<Rightarrow> distance_valid d (pa_type a)
           | CC_NotSet \<Rightarrow> False))"

text \<open>
  \<open>Constraint::check\<close> on an instance looks the attribute up in the data model and ignores
  the result; what decides is the value map.
\<close>

definition constraint_check_instance ::
  "double fp_ops \<Rightarrow> pb_constraint \<Rightarrow> oef_instance \<Rightarrow> bool" where
  "constraint_check_instance F c i =
     (case instance_value i (pc_attribute_name c) of
        None \<Rightarrow> False
      | Some v \<Rightarrow> constraint_check_value F c v)"

section \<open>Facts\<close>

lemma member_loop_iff: "member_loop hit xs \<longleftrightarrow> (\<exists>x \<in> set xs. hit x)"
  by (induction xs) auto

text \<open>The operator that accepts what \<open>op\<close> rejects.\<close>

fun complement_op :: "rel_op \<Rightarrow> rel_op" where
  "complement_op Op_EQ = Op_NOTEQ"
| "complement_op Op_NOTEQ = Op_EQ"
| "complement_op Op_LT = Op_GTEQ"
| "complement_op Op_GTEQ = Op_LT"
| "complement_op Op_GT = Op_LTEQ"
| "complement_op Op_LTEQ = Op_GT"

text \<open>The operators are enumerable, so a statement about all of them can be evaluated.\<close>

instantiation rel_op :: enum
begin

definition "enum_rel_op = [Op_EQ, Op_LT, Op_LTEQ, Op_GT, Op_GTEQ, Op_NOTEQ]"

definition "enum_all_rel_op P \<longleftrightarrow> list_all P [Op_EQ, Op_LT, Op_LTEQ, Op_GT, Op_GTEQ, Op_NOTEQ]"

definition "enum_ex_rel_op P \<longleftrightarrow> list_ex P [Op_EQ, Op_LT, Op_LTEQ, Op_GT, Op_GTEQ, Op_NOTEQ]"

instance
proof
  show "(UNIV :: rel_op set) = set Enum.enum"
    using rel_op.exhaust by (auto simp: enum_rel_op_def)
  show "distinct (Enum.enum :: rel_op list)"
    by (simp add: enum_rel_op_def)
  have all: "(\<forall>op. P op) \<longleftrightarrow> P Op_EQ \<and> P Op_LT \<and> P Op_LTEQ \<and> P Op_GT \<and> P Op_GTEQ \<and> P Op_NOTEQ" for P
    by (metis rel_op.exhaust)
  show "Enum.enum_all P \<longleftrightarrow> Ball UNIV P" for P :: "rel_op \<Rightarrow> bool"
    by (simp add: enum_all_rel_op_def all)
  show "Enum.enum_ex P \<longleftrightarrow> Bex UNIV P" for P :: "rel_op \<Rightarrow> bool"
    using all [of "\<lambda>op. \<not> P op"] by (auto simp: enum_ex_rel_op_def)
qed

end

lemma complement_op_involutive: "map (complement_op \<circ> complement_op) Enum.enum = Enum.enum"
  by (simp add: enum_rel_op_def)

lemma complement_op_onto: "set (map complement_op Enum.enum) = set Enum.enum"
  by (auto simp: enum_rel_op_def)


text \<open>
  What the relation check needs of the comparison operators of a type, for the values
  that are not NaN.
\<close>

locale cmp_laws =
  fixes C :: "'a cmp_ops" and ordinary :: "'a \<Rightarrow> bool"
  assumes ne_iff: "c_ne C a b \<longleftrightarrow> \<not> c_eq C a b"
    and ge_iff: "ordinary a \<Longrightarrow> ordinary b \<Longrightarrow> c_ge C a b \<longleftrightarrow> \<not> c_lt C a b"
    and le_iff: "ordinary a \<Longrightarrow> ordinary b \<Longrightarrow> c_le C a b \<longleftrightarrow> \<not> c_gt C a b"
    and gt_flip: "c_gt C a b = c_lt C b a"
    and ge_flip: "c_ge C a b = c_le C b a"
begin

lemma check_complement:
  "ordinary s \<Longrightarrow> ordinary v \<Longrightarrow>
     relation_check_value C (complement_op op) s v \<longleftrightarrow> \<not> relation_check_value C op s v"
  by (cases op) (simp_all add: relation_check_value_def ne_iff ge_iff le_iff)

end

end
