(* ===== verification/Oef_Query.thy ===== *)
theory Oef_Query
  imports Oef_Constraint
begin

text \<open>
  \<open>ConstraintExpr\<close>, \<open>Or\<close>, \<open>And\<close>, \<open>Not\<close> (\<open>schema.hpp\<close> and \<open>schema.cpp\<close>) and \<open>QueryModel\<close>.
  The classes wrap one message each and are that message here. \<open>F\<close> is the floating-point
  arithmetic of the platform, used by the distance constraints only. The loops of \<open>Or\<close>,
  \<open>And\<close> and \<open>QueryModel\<close> stop at the first child that decides.
\<close>

section \<open>Constructors\<close>

definition expr_of_constraint :: "pb_constraint \<Rightarrow> pb_expr" where
  "expr_of_constraint c = PE_Constraint c"

definition or_make :: "pb_expr list \<Rightarrow> pb_expr result" where
  "or_make es =
     (if length es < 2 then Inl (InvalidArgument ''Not enough parameters.'') else Inr (PE_Or es))"

definition and_make :: "pb_expr list \<Rightarrow> pb_expr result" where
  "and_make es =
     (if length es < 2 then Inl (InvalidArgument ''Not enough parameters.'') else Inr (PE_And es))"

definition not_make :: "pb_expr \<Rightarrow> pb_expr" where
  "not_make e = PE_Not e"

text \<open>\<open>operator!\<close>, \<open>operator&&\<close> and \<open>operator||\<close>.\<close>

definition op_not :: "pb_expr \<Rightarrow> pb_expr result" where
  "op_not e = Inr (not_make e)"

definition op_and :: "pb_expr \<Rightarrow> pb_expr \<Rightarrow> pb_expr result" where
  "op_and l r = and_make [l, r]"

definition op_or :: "pb_expr \<Rightarrow> pb_expr \<Rightarrow> pb_expr result" where
  "op_or l r = or_make [l, r]"

section \<open>Validity against a data model\<close>

fun expr_valid :: "pb_expr \<Rightarrow> pb_data_model \<Rightarrow> bool"
  and exprs_valid :: "pb_expr list \<Rightarrow> pb_data_model \<Rightarrow> bool" where
  "expr_valid (PE_Or es) dm = (if \<not> exprs_valid es dm then False else length es > 1)"
| "expr_valid (PE_And es) dm = (if \<not> exprs_valid es dm then False else length es > 1)"
| "expr_valid (PE_Not e) dm = expr_valid e dm"
| "expr_valid (PE_Constraint c) dm = constraint_valid c dm"
| "expr_valid PE_NotSet dm = False"
| "exprs_valid [] dm = True"
| "exprs_valid (e # es) dm = (if \<not> expr_valid e dm then False else exprs_valid es dm)"

section \<open>Evaluation on a value and on an instance\<close>

fun expr_check_value :: "double fp_ops \<Rightarrow> pb_expr \<Rightarrow> variant \<Rightarrow> bool"
  and or_check_value :: "double fp_ops \<Rightarrow> pb_expr list \<Rightarrow> variant \<Rightarrow> bool"
  and and_check_value :: "double fp_ops \<Rightarrow> pb_expr list \<Rightarrow> variant \<Rightarrow> bool" where
  "expr_check_value F (PE_Or es) v = or_check_value F es v"
| "expr_check_value F (PE_And es) v = and_check_value F es v"
| "expr_check_value F (PE_Not e) v = (\<not> expr_check_value F e v)"
| "expr_check_value F (PE_Constraint c) v = constraint_check_value F c v"
| "expr_check_value F PE_NotSet v = False"
| "or_check_value F [] v = False"
| "or_check_value F (e # es) v = (if expr_check_value F e v then True else or_check_value F es v)"
| "and_check_value F [] v = True"
| "and_check_value F (e # es) v = (if \<not> expr_check_value F e v then False else and_check_value F es v)"

fun expr_check_instance :: "double fp_ops \<Rightarrow> pb_expr \<Rightarrow> oef_instance \<Rightarrow> bool"
  and or_check_instance :: "double fp_ops \<Rightarrow> pb_expr list \<Rightarrow> oef_instance \<Rightarrow> bool"
  and and_check_instance :: "double fp_ops \<Rightarrow> pb_expr list \<Rightarrow> oef_instance \<Rightarrow> bool" where
  "expr_check_instance F (PE_Or es) i = or_check_instance F es i"
| "expr_check_instance F (PE_And es) i = and_check_instance F es i"
| "expr_check_instance F (PE_Not e) i = (\<not> expr_check_instance F e i)"
| "expr_check_instance F (PE_Constraint c) i = constraint_check_instance F c i"
| "expr_check_instance F PE_NotSet i = False"
| "or_check_instance F [] i = False"
| "or_check_instance F (e # es) i =
     (if expr_check_instance F e i then True else or_check_instance F es i)"
| "and_check_instance F [] i = True"
| "and_check_instance F (e # es) i =
     (if \<not> expr_check_instance F e i then False else and_check_instance F es i)"

section \<open>Queries\<close>

definition query_make :: "pb_expr list \<Rightarrow> pb_model result" where
  "query_make constraints =
     (if length constraints < 1 then Inl (InvalidArgument ''Not enough parameters.'')
      else Inr \<lparr>pm_constraints = constraints, pm_model = None\<rparr>)"

definition query_make_with_model :: "pb_expr list \<Rightarrow> pb_data_model \<Rightarrow> pb_model result" where
  "query_make_with_model constraints model =
     (case query_make constraints of
        Inl e \<Rightarrow> Inl e
      | Inr q \<Rightarrow>
          if exprs_valid (pm_constraints q) model then Inr (q\<lparr>pm_model := Some model\<rparr>)
          else Inl (InvalidArgument ''Mismatch between constraints in data model.''))"

definition query_of_pb :: "pb_model \<Rightarrow> pb_model" where
  "query_of_pb m = m"

definition query_valid :: "pb_model \<Rightarrow> bool" where
  "query_valid q =
     (if length (pm_constraints q) < 1 then False
      else case pm_model q of
             None \<Rightarrow> True
           | Some dm \<Rightarrow> exprs_valid (pm_constraints q) dm)"

definition query_check_value :: "double fp_ops \<Rightarrow> pb_model \<Rightarrow> variant \<Rightarrow> bool" where
  "query_check_value F q v = and_check_value F (pm_constraints q) v"

definition query_check :: "double fp_ops \<Rightarrow> pb_model \<Rightarrow> oef_instance \<Rightarrow> bool" where
  "query_check F q i =
     (case pm_model q of
        Some dm \<Rightarrow>
          if pdm_name dm \<noteq> pdm_name (instance_model i) then False
          else and_check_instance F (pm_constraints q) i
      | None \<Rightarrow> and_check_instance F (pm_constraints q) i)"

end
