(* ===== verification/Oef_Instance_Facts.thy ===== *)
theory Oef_Instance_Facts
  imports Oef_Schema_Data
begin

text \<open>
  What makes \<open>Instance\<close> correct: the constructor accepts exactly the values that conform
  to the data model, whatever the iteration order of the map; the message it builds
  carries the same values, so a receiver that rebuilds the instance from the message
  gets them back; and equality and hashing behave as the source writes them.
\<close>

section \<open>The constructor\<close>

definition conforms :: "pb_data_model \<Rightarrow> string \<Rightarrow> variant \<Rightarrow> bool" where
  "conforms m k v \<longleftrightarrow> (\<exists>a. data_model_attribute m k = Some a \<and> pa_type a = variant_type v)"

text \<open>The specification of an acceptable value map.\<close>

definition values_conform :: "pb_data_model \<Rightarrow> (string, variant) umap \<Rightarrow> bool" where
  "values_conform m values \<longleftrightarrow>
     (\<forall>(k, v) \<in> set values. conforms m k v) \<and>
     (\<forall>a \<in> set (pdm_attributes m). pa_required a \<longrightarrow> pa_name a \<in> fst ` set values)"

definition required_names :: "pb_data_model \<Rightarrow> string set" where
  "required_names m = pa_name ` {a \<in> set (pdm_attributes m). pa_required a}"

text \<open>The value stored in the message for a variant of the right type.\<close>

fun pb_of_variant :: "variant \<Rightarrow> pb_value" where
  "pb_of_variant (VInt i) = PV_I (scast i)"
| "pb_of_variant (VDouble d) = PV_D d"
| "pb_of_variant (VString s) = PV_S s"
| "pb_of_variant (VLocation l) = PV_L (pb_of_loc l)"
| "pb_of_variant (VBool b) = PV_B b"

lemma ucast_scast_narrow [simp]: "(ucast (scast (i :: i32) :: i64) :: i32) = i"
  by (rule bit_word_eqI) (simp add: bit_simps)

lemma value_of_pb_of_variant [simp]: "value_of_pb (pb_of_variant v) = Some v"
  by (cases v) simp_all

lemma instance_store_iff:
  "instance_store t v = Inr pv \<longleftrightarrow> t = variant_type v \<and> pv = pb_of_variant v"
  by (cases v) auto

lemma instance_store_ok: "instance_store (variant_type v) v = Inr (pb_of_variant v)"
  by (simp add: instance_store_iff)

lemma instance_store_bad: "t \<noteq> variant_type v \<Longrightarrow> \<exists>e. instance_store t v = Inl e"
  by (cases v) auto

lemma find_attribute: "List.find (\<lambda>a. k = pa_name a) (pdm_attributes m) = data_model_attribute m k"
  by (simp add: data_model_attribute_find eq_commute)

definition requires :: "pb_data_model \<Rightarrow> string \<Rightarrow> bool" where
  "requires m k = (case data_model_attribute m k of Some a \<Rightarrow> pa_required a | None \<Rightarrow> False)"

definition kv_of :: "string \<times> variant \<Rightarrow> pb_key_value" where
  "kv_of p = \<lparr>pkv_key = fst p, pkv_value = pb_of_variant (snd p)\<rparr>"

lemma instance_loop_ok:
  assumes "\<forall>(k, v) \<in> set vs. conforms m k v"
  shows "instance_loop m n vs =
    Inr (n - length (filter (\<lambda>p. requires m (fst p)) vs), map kv_of vs)"
  using assms
proof (induction vs arbitrary: n)
  case Nil
  then show ?case by simp
next
  case (Cons p vs)
  obtain k v where p: "p = (k, v)" by (cases p)
  with Cons.prems obtain a where
    a: "data_model_attribute m k = Some a" "pa_type a = variant_type v"
    by (auto simp: conforms_def)
  from Cons.prems have "\<forall>(k, v) \<in> set vs. conforms m k v" by simp
  note IH = Cons.IH [OF this]
  show ?case
    by (simp add: p find_attribute a instance_store_ok IH requires_def kv_of_def)
qed

lemma instance_loop_bad:
  assumes "(k, v) \<in> set vs" "\<not> conforms m k v"
  shows "\<exists>e. instance_loop m n vs = Inl e"
  using assms
proof (induction vs arbitrary: n)
  case (Cons p vs)
  obtain k' v' where p: "p = (k', v')" by (cases p)
  show ?case
  proof (cases "conforms m k' v'")
    case False
    then show ?thesis
      using instance_store_bad
      by (fastforce simp: p find_attribute conforms_def split: option.splits)
  next
    case True
    with Cons.prems p have "(k, v) \<in> set vs" by auto
    from Cons.IH [OF this Cons.prems(2)]
    obtain e where "\<And>n. instance_loop m n vs = Inl (e n)" by metis
    then show ?thesis by (auto simp: p split: option.splits sum.splits)
  qed
qed simp

lemma count_required_filter: "count_required as = length (filter pa_required as)"
  by (induction as) simp_all

lemma requires_iff:
  assumes "distinct (map pa_name (pdm_attributes m))"
  shows "requires m k \<longleftrightarrow> k \<in> required_names m"
proof -
  have "data_model_attribute m (pa_name a) = Some a" if "a \<in> set (pdm_attributes m)" for a
    using find_key_distinct [OF assms that] by (simp add: data_model_attribute_find)
  then show ?thesis
    by (auto simp: requires_def required_names_def dest: data_model_attribute_SomeD
        split: option.splits)
qed

lemma card_required_names:
  assumes "distinct (map pa_name (pdm_attributes m))"
  shows "card (required_names m) = count_required (pdm_attributes m)"
proof -
  have "distinct (map pa_name (filter pa_required (pdm_attributes m)))"
    using assms by (simp add: distinct_map_filter)
  then have "card (set (map pa_name (filter pa_required (pdm_attributes m))))
      = length (filter pa_required (pdm_attributes m))"
    by (metis distinct_card length_map)
  then show ?thesis
    by (simp add: required_names_def count_required_filter)
qed

text \<open>The required keys present are counted once each, as the keys are distinct.\<close>

lemma count_present:
  assumes "umap_wf vs" "distinct (map pa_name (pdm_attributes m))"
  shows "length (filter (\<lambda>p. requires m (fst p)) vs) = card (required_names m \<inter> fst ` set vs)"
proof -
  let ?f = "filter (\<lambda>p. requires m (fst p)) vs"
  have "distinct (map fst ?f)"
    using assms(1) by (simp add: umap_wf_def distinct_map_filter)
  then have "length ?f = card (fst ` set ?f)"
    by (metis distinct_card length_map set_map)
  also have "fst ` set ?f = required_names m \<inter> fst ` set vs"
    by (auto simp: requires_iff [OF assms(2)])
  finally show ?thesis .
qed

text \<open>The decrement of \<open>nb_required\<close> never meets zero.\<close>

lemma finite_required_names [simp]: "finite (required_names m)"
  by (simp add: required_names_def)

lemma instance_loop_required:
  assumes "umap_wf vs" "distinct (map pa_name (pdm_attributes m))"
  shows "length (filter (\<lambda>p. requires m (fst p)) vs) \<le> count_required (pdm_attributes m)"
  using assms card_mono [of "required_names m" "required_names m \<inter> fst ` set vs"]
  by (simp add: count_present card_required_names)

lemma all_required_iff:
  assumes "umap_wf vs" "distinct (map pa_name (pdm_attributes m))"
  shows "count_required (pdm_attributes m) - length (filter (\<lambda>p. requires m (fst p)) vs) = 0
     \<longleftrightarrow> required_names m \<subseteq> fst ` set vs"
proof -
  let ?R = "required_names m" and ?K = "fst ` set vs"
  have "card ?R - card (?R \<inter> ?K) = 0 \<longleftrightarrow> card (?R \<inter> ?K) = card ?R"
    using card_mono [of ?R "?R \<inter> ?K"] by auto
  also have "\<dots> \<longleftrightarrow> ?R \<inter> ?K = ?R"
    using card_subset_eq [of ?R "?R \<inter> ?K"] by auto
  finally show ?thesis
    using assms by (auto simp: count_present card_required_names [symmetric])
qed

lemma values_conform_sizes:
  assumes "umap_wf vs" "distinct (map pa_name (pdm_attributes m))" "values_conform m vs"
  shows "length vs \<le> length (pdm_attributes m) \<and> count_required (pdm_attributes m) \<le> length vs"
proof
  have len: "length vs = card (fst ` set vs)"
    using assms(1) by (simp add: umap_wf_def) (metis distinct_card length_map set_map)
  have "fst ` set vs \<subseteq> pa_name ` set (pdm_attributes m)"
    using assms(3)
    by (fastforce simp: values_conform_def conforms_def dest: data_model_attribute_SomeD)
  then have "length vs \<le> card (pa_name ` set (pdm_attributes m))"
    by (simp add: len card_mono)
  also have "\<dots> \<le> length (pdm_attributes m)"
    by (meson card_image_le card_length finite_set order_trans)
  finally show "length vs \<le> length (pdm_attributes m)" .
  have "required_names m \<subseteq> fst ` set vs"
    using assms(3) by (auto simp: values_conform_def required_names_def)
  then show "count_required (pdm_attributes m) \<le> length vs"
    by (simp add: len card_required_names [OF assms(2), symmetric] card_mono)
qed

lemma instance_make_conforming:
  assumes "umap_wf vs" "distinct (map pa_name (pdm_attributes m))" "values_conform m vs"
  shows "instance_make m vs =
    Inr \<lparr>ins_pb = \<lparr>pi_model = m, pi_values = map kv_of vs\<rparr>, ins_values = vs\<rparr>"
proof -
  have "required_names m \<subseteq> fst ` set vs"
    using assms(3) by (auto simp: values_conform_def required_names_def)
  then have "count_required (pdm_attributes m) - length (filter (\<lambda>p. requires m (fst p)) vs) = 0"
    using all_required_iff [OF assms(1,2)] by simp
  moreover have "instance_loop m n vs
      = Inr (n - length (filter (\<lambda>p. requires m (fst p)) vs), map kv_of vs)" for n
    using assms(3) by (intro instance_loop_ok) (simp add: values_conform_def)
  ultimately show ?thesis
    using values_conform_sizes [OF assms] by (simp add: instance_make_def)
qed

lemma instance_make_rejects:
  assumes "umap_wf vs" "distinct (map pa_name (pdm_attributes m))" "\<not> values_conform m vs"
  shows "\<exists>s. instance_make m vs = Inl s"
proof (cases "\<forall>(k, v) \<in> set vs. conforms m k v")
  case True
  with assms(3) have "\<not> required_names m \<subseteq> fst ` set vs"
    by (auto simp: values_conform_def required_names_def)
  then have "count_required (pdm_attributes m) - length (filter (\<lambda>p. requires m (fst p)) vs) \<noteq> 0"
    using all_required_iff [OF assms(1,2)] by simp
  then show ?thesis
    using instance_loop_ok [OF True] by (auto simp: instance_make_def)
next
  case False
  then obtain k v where "(k, v) \<in> set vs" "\<not> conforms m k v" by auto
  from instance_loop_bad [OF this] show ?thesis
    by (metis (no_types, lifting) instance_make_def sum.case(1))
qed

lemma instance_make_outcome:
  assumes "umap_wf vs" and "data_model_make n as = Inr m"
  shows "case instance_make m vs of
           Inr i \<Rightarrow> values_conform m vs \<and>
             i = \<lparr>ins_pb = \<lparr>pi_model = m, pi_values = map kv_of vs\<rparr>, ins_values = vs\<rparr>
         | Inl _ \<Rightarrow> \<not> values_conform m vs"
proof (cases "values_conform m vs")
  case True
  with instance_make_conforming [OF assms(1) data_model_make_distinct [OF assms(2)]]
  show ?thesis by simp
next
  case False
  with instance_make_rejects [OF assms(1) data_model_make_distinct [OF assms(2)]]
  show ?thesis by auto
qed

text \<open>
  C8: Instance construction succeeds exactly for values that conform to the data model
  (declared names of the declared types, all required attributes present), and the
  instance then holds the model and those values.
\<close>

theorem instance_make_correct:
  assumes "umap_wf vs" and "data_model_make n as = Inr m"
  shows "case instance_make m vs of
           Inr i \<Rightarrow> values_conform m vs \<and>
             i = \<lparr>ins_pb = \<lparr>pi_model = m, pi_values = map kv_of vs\<rparr>, ins_values = vs\<rparr>
         | Inl _ \<Rightarrow> \<not> values_conform m vs"
  using assms by (rule instance_make_outcome)

text \<open>The data model and the instances of the examples below.\<close>

definition person_attrs :: "pb_attribute list" where
  "person_attrs =
     [attribute_make ''firstName'' T_STRING True, attribute_make ''lastName'' T_STRING True,
      attribute_make_described ''age'' T_INT False ''The age of the person.'']"

definition person_model :: pb_data_model where
  "person_model = \<lparr>pdm_name = ''Person'', pdm_attributes = person_attrs, pdm_description = None\<rparr>"

definition turing_values :: "(string, variant) umap" where
  "turing_values = [(''lastName'', VString ''Turing''), (''firstName'', VString ''Alan''),
     (''age'', VInt 42)]"

lemma person_model_make: "data_model_make ''Person'' person_attrs = Inr person_model"
  by (simp add: data_model_make_def person_attrs_def person_model_def attribute_make_def
      attribute_make_described_def)

lemma turing_values_wf: "umap_wf turing_values"
  by (simp add: turing_values_def umap_wf_def)

lemma turing_values_conform: "values_conform person_model turing_values"
  by (simp add: values_conform_def conforms_def turing_values_def person_model_def person_attrs_def
      attribute_make_def attribute_make_described_def data_model_attribute_def)

theorem instance_make_correct_witness:
  "is_ok (instance_make person_model turing_values)"
  using instance_make_correct [OF turing_values_wf person_model_make] turing_values_conform
  by (simp split: sum.splits)

section \<open>Independence of the iteration order\<close>

lemma values_conform_set: "set vs = set vs' \<Longrightarrow> values_conform m vs = values_conform m vs'"
  by (simp add: values_conform_def)

text \<open>Whether an instance is accepted does not depend on the order of the values.\<close>

lemma instance_make_order_independent:
  assumes "umap_wf vs" "umap_wf vs'" "set vs = set vs'" "data_model_make n as = Inr m"
  shows "is_ok (instance_make m vs) = is_ok (instance_make m vs')
    \<and> (\<forall>i i'. instance_make m vs = Inr i \<and> instance_make m vs' = Inr i' \<longrightarrow>
          mset (pi_values (ins_pb i)) = mset (pi_values (ins_pb i'))
          \<and> instance_value i = instance_value i')"
proof -
  note d = data_model_make_distinct [OF assms(4)]
  have "mset vs = mset vs'"
    using assms(1-3) by (auto simp: umap_wf_def distinct_map set_eq_iff_mset_eq_distinct [symmetric])
  then have ms: "mset (map kv_of vs) = mset (map kv_of vs')" by simp
  have find: "umap_find vs = umap_find vs'"
    using umap_wf_perm_find [OF assms(2) assms(3) assms(1)] by simp
  show ?thesis
  proof (cases "values_conform m vs")
    case True
    with values_conform_set [OF assms(3)] have "values_conform m vs'" by simp
    with True ms find show ?thesis
      by (auto simp: instance_make_conforming [OF assms(1) d]
          instance_make_conforming [OF assms(2) d] instance_value_def fun_eq_iff)
  next
    case False
    with values_conform_set [OF assms(3)] have "\<not> values_conform m vs'" by simp
    with False instance_make_rejects [OF assms(1) d] instance_make_rejects [OF assms(2) d]
    show ?thesis by auto
  qed
qed

section \<open>Rebuilding an instance from its message\<close>

lemma values_loop_kv_of:
  "distinct (map fst (acc @ vs)) \<Longrightarrow> values_loop acc (map kv_of vs) = acc @ vs"
proof (induction vs arbitrary: acc)
  case (Cons p vs)
  obtain k v where p: "p = (k, v)" by (cases p)
  with Cons.prems have "umap_set k v acc = acc @ [(k, v)]"
    by (intro umap_set_fresh) auto
  with Cons p show ?case by (simp add: kv_of_def)
qed simp

lemma instance_of_pb_make:
  assumes "umap_wf vs" "data_model_make n as = Inr m" "instance_make m vs = Inr i"
  shows "instance_of_pb (ins_pb i) = i"
proof -
  from instance_make_outcome [OF assms(1,2)] assms(3)
  have "i = \<lparr>ins_pb = \<lparr>pi_model = m, pi_values = map kv_of vs\<rparr>, ins_values = vs\<rparr>" by simp
  moreover have "values_loop [] (map kv_of vs) = vs"
    using values_loop_kv_of [of "[]" vs] assms(1) by (simp add: umap_wf_def)
  ultimately show ?thesis by (simp add: instance_of_pb_def)
qed

text \<open>
  Reading an instance back from its protobuf message gives the same instance.
\<close>

lemma instance_roundtrip:
  assumes "umap_wf vs" "data_model_make n as = Inr m" "instance_make m vs = Inr i"
  shows "instance_of_pb (ins_pb i) = i"
  using assms by (rule instance_of_pb_make)

lemma instance_roundtrip_witness:
  "\<exists>i. instance_make person_model turing_values = Inr i \<and> instance_of_pb (ins_pb i) = i"
proof -
  obtain i where "instance_make person_model turing_values = Inr i"
    using instance_make_conforming [OF turing_values_wf data_model_make_distinct [OF person_model_make]
        turing_values_conform] by blast
  with instance_roundtrip [OF turing_values_wf person_model_make this] show ?thesis by blast
qed

lemma instance_make_order_independent_witness:
  "is_ok (instance_make person_model turing_values) = is_ok (instance_make person_model (rev turing_values))"
proof -
  have "umap_wf (rev turing_values)"
    by (simp add: turing_values_def umap_wf_def)
  from instance_make_order_independent [OF turing_values_wf this _ person_model_make]
  show ?thesis by simp
qed

text \<open>
  In general the values of a rebuilt instance are those of the message: of several
  entries with one key the last that carries a value wins, entries without a value are
  skipped.
\<close>

definition set_entries :: "pb_key_value list \<Rightarrow> (string \<times> variant) list" where
  "set_entries kvs =
     List.map_filter (\<lambda>kv. map_option (Pair (pkv_key kv)) (value_of_pb (pkv_value kv))) kvs"

lemma set_entries_Cons:
  "set_entries (kv # kvs) =
     (case value_of_pb (pkv_value kv) of
        None \<Rightarrow> set_entries kvs
      | Some v \<Rightarrow> (pkv_key kv, v) # set_entries kvs)"
  by (simp add: set_entries_def List.map_filter_simps split: option.splits)

lemma values_loop_find:
  "umap_find (values_loop acc kvs) = umap_find acc ++ map_of (rev (set_entries kvs))"
proof (induction kvs arbitrary: acc)
  case Nil
  then show ?case by (simp add: set_entries_def List.map_filter_simps)
next
  case (Cons kv kvs)
  then show ?case
    by (auto simp: set_entries_Cons map_add_def fun_eq_iff split: option.splits)
qed

lemma values_loop_wf: "umap_wf acc \<Longrightarrow> umap_wf (values_loop acc kvs)"
  by (induction kvs arbitrary: acc) (simp_all split: option.splits)

text \<open>The values an instance read from a message has.\<close>

lemma instance_of_pb_values:
  "umap_wf (ins_values (instance_of_pb p)) \<and>
   instance_value (instance_of_pb p) k = map_of (rev (set_entries (pi_values p))) k"
  by (simp add: instance_of_pb_def instance_value_def values_loop_wf values_loop_find)

section \<open>Equality and hashing\<close>

lemma instance_eq_loop_iff:
  "instance_eq_loop vs other \<longleftrightarrow>
     (\<forall>(k, v) \<in> set vs. \<exists>w. umap_find other k = Some w \<and> variant_eq w v)"
  by (induction vs) (auto split: option.splits if_splits)

lemma instance_eq_iff:
  "instance_eq a b \<longleftrightarrow>
     pdm_name (instance_model a) = pdm_name (instance_model b) \<and>
     (\<forall>(k, v) \<in> set (ins_values a). \<exists>w. instance_value b k = Some w \<and> variant_eq w v)"
  by (simp add: instance_eq_def instance_eq_loop_iff instance_model_def instance_value_def)

text \<open>What \<open>operator==\<close> keeps of an equivalence.\<close>

lemma instance_eq_preorder:
  assumes "umap_wf (ins_values a)" "umap_wf (ins_values b)"
  shows "(instance_eq a a \<longleftrightarrow> (\<forall>v \<in> snd ` set (ins_values a). \<not> variant_nan v))
    \<and> (instance_eq a b \<and> instance_eq b c \<longrightarrow> instance_eq a c)
    \<and> (instance_eq a b \<and> length (ins_values a) = length (ins_values b) \<longrightarrow> instance_eq b a)"
proof (intro conjI impI)
  have "(k, v) \<in> set (ins_values a) \<Longrightarrow> instance_value a k = Some v" for k v
    using assms(1) by (simp add: instance_value_def umap_wf_find)
  then show "instance_eq a a \<longleftrightarrow> (\<forall>v \<in> snd ` set (ins_values a). \<not> variant_nan v)"
    by (fastforce simp: instance_eq_iff variant_eq_refl_iff)
next
  assume "instance_eq a b \<and> instance_eq b c"
  then show "instance_eq a c"
    by (fastforce simp: instance_eq_iff instance_value_def dest: umap_find_in_set intro: variant_eq_trans)
next
  assume eq: "instance_eq a b \<and> length (ins_values a) = length (ins_values b)"
  let ?A = "fst ` set (ins_values a)" and ?B = "fst ` set (ins_values b)"
  have card: "card ?A = card ?B"
    using eq assms by (simp add: umap_wf_def) (metis distinct_card length_map set_map)
  have sub: "?A \<subseteq> ?B"
  proof
    fix k assume "k \<in> ?A"
    then obtain v where "(k, v) \<in> set (ins_values a)" by auto
    with eq obtain w where "instance_value b k = Some w"
      unfolding instance_eq_iff by fast
    then show "k \<in> ?B"
      unfolding instance_value_def by (force dest: umap_find_in_set)
  qed
  have "?A = ?B"
    by (rule card_subset_eq [OF _ sub card]) simp
  then have "\<exists>w. (k, w) \<in> set (ins_values a) \<and> instance_value a k = Some w"
    if "(k, v) \<in> set (ins_values b)" for k v
    using that assms(1) by (force simp: instance_value_def umap_wf_find)
  moreover have "instance_value b k = Some v" if "(k, v) \<in> set (ins_values b)" for k v
    using that assms(2) by (simp add: instance_value_def umap_wf_find)
  ultimately show "instance_eq b a"
    using eq by (fastforce simp: instance_eq_iff variant_eq_sym)
qed

definition turing_instance :: "oef_instance" where
  "turing_instance = \<lparr>ins_pb = \<lparr>pi_model = person_model, pi_values = map kv_of turing_values\<rparr>,
     ins_values = turing_values\<rparr>"

lemma instance_eq_preorder_witness: "instance_eq turing_instance turing_instance"
  using instance_eq_preorder [of turing_instance turing_instance turing_instance] turing_values_wf
  by (simp add: turing_instance_def turing_values_def)

text \<open>
  \<open>operator==\<close> only compares the values of its left operand, so it is not symmetric, and
  two instances it calls equal can have different hashes: \<open>std::hash<Instance>\<close> and
  \<open>operator==\<close> do not agree as an unordered container needs.
\<close>

definition plain_hash :: hash_fns where
  "plain_hash = \<lparr>hash_string = (\<lambda>s. of_nat (length s)), hash_int = ucast,
     hash_double = dbl_bits, hash_bool = of_bool\<rparr>"

text \<open>
  operator== of instances is not symmetric, and two instances it calls equal can
  have different hashes.
\<close>

lemma instance_eq_hash_defects:
  "\<exists>a b. umap_wf (ins_values a) \<and> umap_wf (ins_values b) \<and> instance_eq a b \<and> \<not> instance_eq b a
     \<and> instance_hash plain_hash a \<noteq> instance_hash plain_hash b"
proof -
  let ?m = "\<lparr>pdm_name = ''m'', pdm_attributes = [], pdm_description = None\<rparr>"
  let ?a = "\<lparr>ins_pb = \<lparr>pi_model = ?m, pi_values = []\<rparr>, ins_values = []\<rparr>"
  let ?b = "\<lparr>ins_pb = \<lparr>pi_model = ?m, pi_values = []\<rparr>, ins_values = [(''k'', VInt 7)]\<rparr>"
  have "instance_hash plain_hash ?a \<noteq> instance_hash plain_hash ?b"
    by (simp add: instance_hash_def plain_hash_def Let_def)
  moreover have "instance_eq ?a ?b" "\<not> instance_eq ?b ?a"
    by (simp_all add: instance_eq_def)
  ultimately show ?thesis
    by (intro exI [of _ ?a] exI [of _ ?b]) (simp add: umap_wf_def)
qed

section \<open>Instantiation\<close>

lemma attribute_instantiate_ok_iff:
  "is_ok (attribute_instantiate ts vs a) \<longleftrightarrow>
     (case umap_find vs (pa_name a) of
        None \<Rightarrow> \<not> pa_required a
      | Some v \<Rightarrow> pa_type a = variant_type v)"
  by (simp add: attribute_instantiate_def attribute_validate_iff split: option.splits)

lemma instantiate_loop_ok:
  assumes "\<forall>a \<in> set as. is_ok (attribute_instantiate ts vs a)"
  shows "instantiate_loop ts vs as = Inr (map (\<lambda>a. (pa_name a,
     case umap_find vs (pa_name a) of None \<Rightarrow> [] | Some v \<Rightarrow> ts v)) as)"
  using assms
  by (induction as)
    (auto simp: attribute_instantiate_def attribute_validate_iff split: option.splits if_splits)

text \<open>
  The textual instantiation of a constructed instance never fails and lists the
  attributes of the data model.
\<close>

lemma instance_make_instantiates:
  assumes "umap_wf vs" "data_model_make n as = Inr m" "instance_make m vs = Inr i"
  shows "instance_instantiate ts i = Inr (map (\<lambda>a. (pa_name a,
     case umap_find vs (pa_name a) of None \<Rightarrow> [] | Some v \<Rightarrow> ts v)) as)"
proof -
  from instance_make_outcome [OF assms(1,2)] assms(3)
  have i: "i = \<lparr>ins_pb = \<lparr>pi_model = m, pi_values = map kv_of vs\<rparr>, ins_values = vs\<rparr>"
    and conf: "values_conform m vs" by simp_all
  have as: "pdm_attributes m = as"
    using assms(2) by (auto simp: data_model_make_def split: if_splits)
  have "is_ok (attribute_instantiate ts vs a)" if a: "a \<in> set as" for a
  proof -
    have "data_model_attribute m (pa_name a) = Some a"
      using find_key_distinct [of pa_name as a] data_model_make_distinct [OF assms(2)] a
      by (simp add: data_model_attribute_find as)
    note found = this
    show ?thesis
    proof (cases "umap_find vs (pa_name a)")
      case None
      then have "pa_name a \<notin> fst ` set vs" by (simp add: map_of_eq_None_iff)
      with conf a have "\<not> pa_required a" by (auto simp: values_conform_def as)
      with None show ?thesis by (simp add: attribute_instantiate_ok_iff)
    next
      case (Some v)
      with conf have "conforms m (pa_name a) v"
        unfolding values_conform_def by (blast dest: umap_find_in_set)
      with Some found show ?thesis by (simp add: attribute_instantiate_ok_iff conforms_def)
    qed
  qed
  then show ?thesis
    by (simp add: instance_instantiate_def i data_model_instantiate_def as instantiate_loop_ok)
qed

lemma instance_make_instantiates_witness:
  "\<exists>i. instance_make person_model turing_values = Inr i \<and>
     instance_instantiate (\<lambda>_. ''x'') i
       = Inr [(''firstName'', ''x''), (''lastName'', ''x''), (''age'', ''x'')]"
proof -
  have i: "instance_make person_model turing_values = Inr turing_instance"
    using instance_make_conforming [OF turing_values_wf data_model_make_distinct [OF person_model_make]
        turing_values_conform] by (simp add: turing_instance_def)
  show ?thesis
    using i instance_make_instantiates [OF turing_values_wf person_model_make i, of "\<lambda>_. ''x''"]
    by (simp add: person_attrs_def turing_values_def attribute_make_def attribute_make_described_def)
qed

end
