(* ===== verification/Oef_Constraint_Facts.thy ===== *)
theory Oef_Constraint_Facts
  imports Oef_Constraint Oef_Instance_Facts
begin

text \<open>
  What the constraint checks compute: the laws of the comparison operators (the locale
  \<open>cmp_laws\<close>, interpreted for the five value types), complementary operators, integer
  relations against the mathematical order, ranges and sets as intervals, boxes and
  memberships, and the type soundness of \<open>Constraint::valid\<close>.
\<close>

section \<open>The operators of the five types\<close>

interpretation int_cmp: cmp_laws cmp_int "\<lambda>_. True"
  by unfold_locales (auto simp: cmp_int_def)

interpretation double_cmp: cmp_laws cmp_double "\<lambda>d. \<not> dbl_nan d"
  by unfold_locales (auto simp: cmp_double_def dbl_cmp_defs)

interpretation string_cmp: cmp_laws cmp_string "\<lambda>_. True"
  by unfold_locales (auto simp: cmp_string_def)

interpretation bool_cmp: cmp_laws cmp_bool "\<lambda>_. True"
  by unfold_locales (auto simp: cmp_bool_def)

interpretation location_cmp: cmp_laws cmp_location "\<lambda>l. \<not> dbl_nan (loc_lat l)"
  by unfold_locales
    (auto simp: cmp_location_def loc_ne_iff loc_lt_def loc_le_def loc_gt_def loc_ge_def dbl_cmp_defs)

fun pb_value_nan :: "pb_value \<Rightarrow> bool" where
  "pb_value_nan (PV_D d) \<longleftrightarrow> dbl_nan d"
| "pb_value_nan (PV_L l) \<longleftrightarrow> dbl_nan (pbl_lon l) \<or> dbl_nan (pbl_lat l)"
| "pb_value_nan _ \<longleftrightarrow> False"

lemma pv_ordinary:
  assumes "\<not> pb_value_nan pv"
  shows "\<not> dbl_nan (pv_d pv)" and "\<not> dbl_nan (pbl_lat (pv_l pv))"
  using assms by (cases pv; simp add: pb_location_default_def)+

text \<open>
  On values without NaN the complementary operator of a relation gives the negated
  result, for every type of value.
\<close>

lemma relation_complement:
  assumes "\<not> pb_value_nan (pr_val rel)" and "\<not> variant_nan v"
  shows "relation_check (rel\<lparr>pr_op := complement_op (pr_op rel)\<rparr>) v \<longleftrightarrow> \<not> relation_check rel v"
proof (cases v)
  case (VInt i)
  then show ?thesis by (simp add: relation_get_int_def int_cmp.check_complement)
next
  case (VDouble d)
  then show ?thesis
    using assms pv_ordinary by (simp add: relation_get_double_def double_cmp.check_complement)
next
  case (VString s)
  then show ?thesis by (simp add: relation_get_string_def string_cmp.check_complement)
next
  case (VBool b)
  then show ?thesis by (simp add: relation_get_bool_def bool_cmp.check_complement)
next
  case (VLocation l)
  then show ?thesis
    using assms pv_ordinary
    by (simp add: relation_get_location_def Let_def location_cmp.check_complement)
qed

lemma relation_complement_witness:
  "relation_check \<lparr>pr_op = Op_GTEQ, pr_val = PV_I 5\<rparr> (VInt 7)
     \<longleftrightarrow> \<not> relation_check \<lparr>pr_op = Op_LT, pr_val = PV_I 5\<rparr> (VInt 7)"
  using relation_complement [of "\<lparr>pr_op = Op_LT, pr_val = PV_I 5\<rparr>" "VInt 7"] by simp

section \<open>Integer relations\<close>

text \<open>The meaning of the operators on mathematical integers.\<close>

fun int_rel :: "rel_op \<Rightarrow> int \<Rightarrow> int \<Rightarrow> bool" where
  "int_rel Op_EQ x c \<longleftrightarrow> x = c"
| "int_rel Op_NOTEQ x c \<longleftrightarrow> x \<noteq> c"
| "int_rel Op_LT x c \<longleftrightarrow> x < c"
| "int_rel Op_LTEQ x c \<longleftrightarrow> x \<le> c"
| "int_rel Op_GT x c \<longleftrightarrow> x > c"
| "int_rel Op_GTEQ x c \<longleftrightarrow> x \<ge> c"

definition fits_int32 :: "int \<Rightarrow> bool" where
  "fits_int32 n \<longleftrightarrow> - (2 ^ 31) \<le> n \<and> n < 2 ^ 31"

lemma relation_check_int:
  "relation_check \<lparr>pr_op = op, pr_val = PV_I n\<rparr> (VInt i)
     \<longleftrightarrow> int_rel op (sint i) (sint (ucast n :: i32))"
  by (cases op) (auto simp: relation_check_value_def cmp_int_def relation_get_int_def)

lemma sint_narrow:
  assumes "fits_int32 (sint (n :: i64))"
  shows "sint (ucast n :: i32) = sint n"
proof -
  have "sint (ucast n :: i32) = signed_take_bit 31 (sint n)"
    by (simp add: signed_ucast_eq signed_take_bit_eq_iff_take_bit_eq sint_uint
        unsigned_ucast_eq)
  also have "\<dots> = sint n"
    using assms by (simp add: fits_int32_def signed_take_bit_int_eq_self)
  finally show ?thesis .
qed

lemma sint_widen: "sint (scast (i :: i32) :: i64) = sint i"
  by (simp add: signed_scast_eq signed_take_bit_int_eq_self sint_lt sint_greater_eq
      order_trans [OF _ sint_greater_eq] less_le_trans [OF sint_lt])

text \<open>
  An integer relation whose constant fits 32 bits compares the mathematical
  integers.
\<close>

lemma relation_int_exact:
  assumes "fits_int32 (sint n)"
  shows "relation_check \<lparr>pr_op = op, pr_val = PV_I n\<rparr> (VInt i) \<longleftrightarrow> int_rel op (sint i) (sint n)"
  using relation_check_int [of op n i] sint_narrow [OF assms] by simp

lemma relation_int_exact_witness:
  "relation_check \<lparr>pr_op = Op_GT, pr_val = PV_I 1000\<rparr> (VInt 1001)"
proof -
  have "fits_int32 (sint (1000 :: i64))" by (simp add: fits_int32_def)
  from relation_int_exact [OF this, of Op_GT 1001] show ?thesis by simp
qed

text \<open>Beyond 32 bits the comparison is with the truncated constant.\<close>

lemma relation_int_narrowing_defect:
  "\<exists>n i. relation_check \<lparr>pr_op = Op_GT, pr_val = PV_I n\<rparr> (VInt i) \<and> sint i < sint n
     \<and> \<not> set_check \<lparr>ps_op = Op_IN, ps_vals = PSV_I [n]\<rparr> (VInt i)
     \<and> \<not> range_check (PR_I n n) (VInt i)"
proof -
  let ?n = "0x100000000 :: i64" and ?i = "5 :: i32"
  have "relation_check \<lparr>pr_op = Op_GT, pr_val = PV_I ?n\<rparr> (VInt ?i)"
    by (simp add: relation_check_value_def cmp_int_def relation_get_int_def)
  moreover have "sint ?i < sint ?n" by simp
  moreover have "\<not> set_check \<lparr>ps_op = Op_IN, ps_vals = PSV_I [?n]\<rparr> (VInt ?i)"
    by (simp add: set_check_def)
  moreover have "\<not> range_check (PR_I ?n ?n) (VInt ?i)" by simp
  ultimately show ?thesis by blast
qed

section \<open>Sets\<close>

fun in_set_values :: "pb_set_values \<Rightarrow> variant \<Rightarrow> bool" where
  "in_set_values (PSV_I xs) (VInt i) \<longleftrightarrow> (\<exists>x \<in> set xs. sint x = sint i)"
| "in_set_values (PSV_D xs) (VDouble d) \<longleftrightarrow> (\<exists>x \<in> set xs. dbl_eq x d)"
| "in_set_values (PSV_S xs) (VString s) \<longleftrightarrow> s \<in> set xs"
| "in_set_values (PSV_B xs) (VBool b) \<longleftrightarrow> b \<in> set xs"
| "in_set_values (PSV_L xs) (VLocation l) \<longleftrightarrow> (\<exists>x \<in> set xs. loc_eq l (loc_of_pb x))"
| "in_set_values _ _ \<longleftrightarrow> False"

lemma sint_eq_widen: "x = scast (i :: i32) \<longleftrightarrow> sint (x :: i64) = sint i"
  by (metis sint_widen signed_word_eqI)

text \<open>
  A set constraint accepts a value exactly when it equals an element of the list of
  its type (IN) or no element (NOT IN).
\<close>

lemma set_check_membership:
  "set_check s v \<longleftrightarrow> (if ps_op s = Op_NOTIN then \<not> in_set_values (ps_vals s) v
                       else in_set_values (ps_vals s) v)"
proof -
  have "set_member vals v = in_set_values vals v" for vals
    by (cases v; cases vals)
      (auto simp: member_loop_iff sint_eq_widen loc_eq_pb_iff image_iff)
  then show ?thesis by (simp add: set_check_def Let_def)
qed

section \<open>Ranges\<close>

lemma range_check_int:
  "range_check (PR_I a b) (VInt i) \<longleftrightarrow> sint i \<in> {sint a..sint b}"
  by simp

lemma range_min_max_le:
  "(case range_min_max a b of (lo, hi) \<Rightarrow> dbl_le lo d \<and> dbl_le d hi) \<longleftrightarrow>
     \<not> dbl_nan a \<and> \<not> dbl_nan b \<and> \<not> dbl_nan d \<and>
     min (dbl_key a) (dbl_key b) \<le> dbl_key d \<and> dbl_key d \<le> max (dbl_key a) (dbl_key b)"
  by (auto simp: range_min_max_def dbl_cmp_defs)

text \<open>
  A location range accepts exactly the locations in the box spanned by its two
  corners, whichever way they are given, without NaN.
\<close>

lemma range_location_box:
  "range_check (PR_L a b) (VLocation l) \<longleftrightarrow>
     (\<forall>d \<in> {pbl_lat a, pbl_lat b, pbl_lon a, pbl_lon b, loc_lat l, loc_lon l}. \<not> dbl_nan d) \<and>
     dbl_value (loc_lat l) \<in> {min (dbl_value (pbl_lat a)) (dbl_value (pbl_lat b))
                            .. max (dbl_value (pbl_lat a)) (dbl_value (pbl_lat b))} \<and>
     dbl_value (loc_lon l) \<in> {min (dbl_value (pbl_lon a)) (dbl_value (pbl_lon b))
                            .. max (dbl_value (pbl_lon a)) (dbl_value (pbl_lon b))}"
proof -
  have key_le: "dbl_key x \<le> dbl_key y \<longleftrightarrow> dbl_value x \<le> dbl_value y" for x y
    using dbl_scaled_less [of y x] by (simp add: dbl_value_def divide_le_cancel not_less [symmetric])
  have mm: "(min (dbl_key x) (dbl_key y) \<le> dbl_key z \<and> dbl_key z \<le> max (dbl_key x) (dbl_key y)) \<longleftrightarrow>
      dbl_value z \<in> {min (dbl_value x) (dbl_value y) .. max (dbl_value x) (dbl_value y)}" for x y z
    by (simp add: min_le_iff_disj le_max_iff_disj key_le)
  have split: "range_check (PR_L a b) (VLocation l) \<longleftrightarrow>
      (case range_min_max (pbl_lat a) (pbl_lat b) of (lo, hi) \<Rightarrow>
         dbl_le lo (loc_lat l) \<and> dbl_le (loc_lat l) hi) \<and>
      (case range_min_max (pbl_lon a) (pbl_lon b) of (lo, hi) \<Rightarrow>
         dbl_le lo (loc_lon l) \<and> dbl_le (loc_lon l) hi)"
    by (simp split: prod.split)
  show ?thesis
    unfolding split range_min_max_le mm by auto
qed

lemma range_location_box_witness:
  "range_check (PR_L \<lparr>pbl_lon = Dbl 0x4000000000000000, pbl_lat = Dbl 0\<rparr>
                     \<lparr>pbl_lon = Dbl 0, pbl_lat = Dbl 0x4000000000000000\<rparr>)
     (VLocation \<lparr>loc_lon = Dbl 0x3FF0000000000000, loc_lat = Dbl 0x3FF0000000000000\<rparr>)"
  unfolding range_location_box
  by (simp add: dbl_value_def divide_right_mono dbl_scaled_def dbl_eval mag_scaled_def)

text \<open>
  The box has no orientation: swapping its corners changes nothing. The one-dimensional
  ranges have one: a range whose first bound exceeds the second is empty.
\<close>

lemma range_int_empty: "sint b < sint a \<Longrightarrow> \<not> range_check (PR_I a b) (VInt i)"
  by simp

section \<open>The distance constructor\<close>

text \<open>\<open>Constraint(Distance)\<close> copies into the field of another message type.\<close>

lemma constraint_of_distance_defect:
  "constraint_of_distance name d = Inl DescriptorMismatch
   \<and> (\<forall>c \<in> {c. constraint_of_range name r = Inr c \<or> constraint_of_relation name rel = Inr c
             \<or> constraint_of_set name st = Inr c \<or> constraint_of_distance name d = Inr c}.
        pc_attribute_name c = name \<and> (\<forall>d'. pc_constraint c \<noteq> CC_Distance d'))"
  by (auto simp: constraint_of_distance_def constraint_of_range_def constraint_of_relation_def
      constraint_of_set_def)

lemma constraint_of_distance_defect_witness:
  "constraint_of_distance ''place'' (distance_make \<lparr>loc_lon = Dbl 0, loc_lat = Dbl 0\<rparr> (Dbl 0))
     = Inl DescriptorMismatch"
  using constraint_of_distance_defect by blast

section \<open>Type soundness\<close>

text \<open>The alternative of the message is the one the check of the value reads.\<close>

fun value_case_matches :: "pb_value \<Rightarrow> variant \<Rightarrow> bool" where
  "value_case_matches (PV_I _) (VInt _) = True"
| "value_case_matches (PV_D _) (VDouble _) = True"
| "value_case_matches (PV_S _) (VString _) = True"
| "value_case_matches (PV_B _) (VBool _) = True"
| "value_case_matches (PV_L _) (VLocation _) = True"
| "value_case_matches _ _ = False"

fun set_case_matches :: "pb_set_values \<Rightarrow> variant \<Rightarrow> bool" where
  "set_case_matches (PSV_I _) (VInt _) = True"
| "set_case_matches (PSV_D _) (VDouble _) = True"
| "set_case_matches (PSV_S _) (VString _) = True"
| "set_case_matches (PSV_B _) (VBool _) = True"
| "set_case_matches (PSV_L _) (VLocation _) = True"
| "set_case_matches _ _ = False"

fun range_case_matches :: "pb_range \<Rightarrow> variant \<Rightarrow> bool" where
  "range_case_matches (PR_I _ _) (VInt _) = True"
| "range_case_matches (PR_D _ _) (VDouble _) = True"
| "range_case_matches (PR_S _ _) (VString _) = True"
| "range_case_matches (PR_L _ _) (VLocation _) = True"
| "range_case_matches _ _ = False"

fun constraint_reads_set_field :: "pb_constraint_case \<Rightarrow> variant \<Rightarrow> bool" where
  "constraint_reads_set_field (CC_Relation r) v = value_case_matches (pr_val r) v"
| "constraint_reads_set_field (CC_Set s) v = set_case_matches (ps_vals s) v"
| "constraint_reads_set_field (CC_Range r) v = range_case_matches r v"
| "constraint_reads_set_field (CC_Distance d) (VLocation _) = True"
| "constraint_reads_set_field _ _ = False"

lemma relation_valid_matches: "relation_valid r (variant_type v) \<Longrightarrow> value_case_matches (pr_val r) v"
  by (cases v; cases "pr_val r") (simp_all add: relation_valid_def Let_def)

lemma set_valid_matches: "set_valid s (variant_type v) \<Longrightarrow> set_case_matches (ps_vals s) v"
  by (cases v; cases "ps_vals s") (simp_all add: set_valid_def)

lemma range_valid_matches: "range_valid r (variant_type v) \<Longrightarrow> range_case_matches r v"
  by (cases v; cases r) (simp_all add: range_valid_def)

lemma distance_valid_matches:
  "distance_valid d (variant_type v) \<Longrightarrow> constraint_reads_set_field (CC_Distance d) v"
  by (cases v) (simp_all add: distance_valid_def)

lemma constraint_valid_sound:
  assumes "constraint_valid c dm" and "conforms dm (pc_attribute_name c) v"
  shows "constraint_reads_set_field (pc_constraint c) v"
proof -
  from assms(2) obtain a where
    a: "data_model_attribute dm (pc_attribute_name c) = Some a" "pa_type a = variant_type v"
    by (auto simp: conforms_def)
  with assms(1) show ?thesis
    by (auto simp: constraint_valid_def find_attribute relation_valid_matches set_valid_matches
        range_valid_matches distance_valid_matches split: pb_constraint_case.splits)
qed

lemma constraint_valid_ordered:
  assumes "constraint_valid c dm" "pc_constraint c = CC_Relation r"
    "data_model_attribute dm (pc_attribute_name c) = Some a" "pa_type a \<in> {T_BOOL, T_LOCATION}"
  shows "pr_op r \<in> {Op_EQ, Op_NOTEQ}"
  using assms by (auto simp: constraint_valid_def find_attribute relation_valid_def Let_def
      split: pb_value.splits)

end
