(* ===== verification/Oef_Query_Facts.thy ===== *)
theory Oef_Query_Facts
  imports Oef_Query Oef_Constraint_Facts
begin

text \<open>
  The query language has a boolean semantics: \<open>expr_eval\<close> interprets an expression over
  the truth of its leaf constraints. Both evaluators of the code refine it. Type soundness
  is lifted from constraints to queries, and the constructors are shown to build valid
  expressions only.
\<close>

section \<open>The boolean semantics\<close>

primrec expr_eval :: "(pb_constraint \<Rightarrow> bool) \<Rightarrow> pb_expr \<Rightarrow> bool" where
  "expr_eval p (PE_Or es) \<longleftrightarrow> list_ex id (map (expr_eval p) es)"
| "expr_eval p (PE_And es) \<longleftrightarrow> list_all id (map (expr_eval p) es)"
| "expr_eval p (PE_Not e) \<longleftrightarrow> \<not> expr_eval p e"
| "expr_eval p (PE_Constraint c) \<longleftrightarrow> p c"
| "expr_eval p PE_NotSet \<longleftrightarrow> False"

primrec expr_leaves :: "pb_expr \<Rightarrow> pb_constraint set" where
  "expr_leaves (PE_Or es) = \<Union> (set (map expr_leaves es))"
| "expr_leaves (PE_And es) = \<Union> (set (map expr_leaves es))"
| "expr_leaves (PE_Not e) = expr_leaves e"
| "expr_leaves (PE_Constraint c) = {c}"
| "expr_leaves PE_NotSet = {}"

lemma expr_eval_Or [simp]: "expr_eval p (PE_Or es) \<longleftrightarrow> (\<exists>e \<in> set es. expr_eval p e)"
  by (simp add: list_ex_iff)

lemma expr_eval_And [simp]: "expr_eval p (PE_And es) \<longleftrightarrow> (\<forall>e \<in> set es. expr_eval p e)"
  by (simp add: list_all_iff)

declare expr_eval.simps(1,2) [simp del]

lemma expr_eval_cong: "(\<And>c. c \<in> expr_leaves e \<Longrightarrow> p c = q c) \<Longrightarrow> expr_eval p e = expr_eval q e"
proof (induction e)
  case (PE_Or es)
  then have "e \<in> set es \<Longrightarrow> expr_eval p e = expr_eval q e" for e by auto
  then show ?case by simp
next
  case (PE_And es)
  then have "e \<in> set es \<Longrightarrow> expr_eval p e = expr_eval q e" for e by auto
  then show ?case by simp
qed simp_all

text \<open>An evaluator with the two list loops of the source refines the semantics.\<close>

locale expr_evaluator =
  fixes leaf :: "pb_constraint \<Rightarrow> bool"
    and check :: "pb_expr \<Rightarrow> bool"
    and or_loop :: "pb_expr list \<Rightarrow> bool"
    and and_loop :: "pb_expr list \<Rightarrow> bool"
  assumes check_or: "check (PE_Or es) = or_loop es"
    and check_and: "check (PE_And es) = and_loop es"
    and check_not: "check (PE_Not e) = (\<not> check e)"
    and check_leaf: "check (PE_Constraint c) = leaf c"
    and check_unset: "check PE_NotSet = False"
    and or_nil: "or_loop [] = False"
    and or_cons: "or_loop (e # es) = (if check e then True else or_loop es)"
    and and_nil: "and_loop [] = True"
    and and_cons: "and_loop (e # es) = (if \<not> check e then False else and_loop es)"
begin

lemma or_loop_iff: "or_loop es \<longleftrightarrow> (\<exists>e \<in> set es. check e)"
  by (induction es) (auto simp: or_nil or_cons)

lemma and_loop_iff: "and_loop es \<longleftrightarrow> (\<forall>e \<in> set es. check e)"
  by (induction es) (auto simp: and_nil and_cons)

lemma check_eval: "check e = expr_eval leaf e"
  by (induction e)
    (auto simp: check_or check_and check_not check_leaf check_unset or_loop_iff and_loop_iff)

lemma and_loop_eval: "and_loop es \<longleftrightarrow> (\<forall>e \<in> set es. expr_eval leaf e)"
  by (simp add: and_loop_iff check_eval)

end

interpretation value_eval: expr_evaluator
  "\<lambda>c. constraint_check_value F c v" "\<lambda>e. expr_check_value F e v"
  "\<lambda>es. or_check_value F es v" "\<lambda>es. and_check_value F es v"
  for F v
  by unfold_locales simp_all

interpretation instance_eval: expr_evaluator
  "\<lambda>c. constraint_check_instance F c i" "\<lambda>e. expr_check_instance F e i"
  "\<lambda>es. or_check_instance F es i" "\<lambda>es. and_check_instance F es i"
  for F i
  by unfold_locales simp_all

text \<open>
  C5: QueryModel::check accepts an instance exactly when the names of the data models
  agree (if the query has one) and every constraint expression holds, read as a boolean
  formula over the values of the instance.
\<close>

theorem query_check_semantics:
  "query_check F q i \<longleftrightarrow>
     (\<forall>dm. pm_model q = Some dm \<longrightarrow> pdm_name dm = pdm_name (instance_model i)) \<and>
     (\<forall>e \<in> set (pm_constraints q).
        expr_eval (\<lambda>c. \<exists>v. instance_value i (pc_attribute_name c) = Some v
                          \<and> constraint_check_value F c v) e)"
proof -
  have leaf: "constraint_check_instance F c i \<longleftrightarrow>
      (\<exists>v. instance_value i (pc_attribute_name c) = Some v \<and> constraint_check_value F c v)" for c
    by (simp add: constraint_check_instance_def split: option.splits)
  show ?thesis
    by (auto simp: query_check_def instance_eval.and_loop_eval leaf split: option.splits)
qed

text \<open>On one value: the two evaluators agree where every attribute named has that value.\<close>

lemma check_value_agrees:
  assumes "\<forall>c \<in> expr_leaves e. instance_value i (pc_attribute_name c) = Some v"
  shows "expr_check_instance F e i = expr_check_value F e v"
  unfolding instance_eval.check_eval value_eval.check_eval
  using assms by (intro expr_eval_cong) (simp add: constraint_check_instance_def)

section \<open>Operators\<close>

text \<open>The three operators build the expressions they name.\<close>

lemma operators_boolean:
  "\<exists>n a o'. op_not x = Inr n \<and> op_and x y = Inr a \<and> op_or x y = Inr o'
     \<and> (expr_check_instance F n i \<longleftrightarrow> \<not> expr_check_instance F x i)
     \<and> (expr_check_instance F a i \<longleftrightarrow> expr_check_instance F x i \<and> expr_check_instance F y i)
     \<and> (expr_check_instance F o' i \<longleftrightarrow> expr_check_instance F x i \<or> expr_check_instance F y i)"
  by (simp add: op_not_def not_make_def op_and_def op_or_def and_make_def or_make_def)

text \<open>
  A constraint on an attribute without a value is false, so its negation holds: \<open>!c\<close> also
  selects the agents that do not declare the attribute.
\<close>

text \<open>
  A constraint on an attribute an instance does not have is false and its negation
  true.
\<close>

lemma missing_attribute:
  assumes "instance_value i (pc_attribute_name c) = None"
  shows "\<not> expr_check_instance F (PE_Constraint c) i
       \<and> expr_check_instance F (PE_Not (PE_Constraint c)) i"
  using assms by (simp add: constraint_check_instance_def)

section \<open>Validity\<close>

lemma exprs_valid_iff: "exprs_valid es dm \<longleftrightarrow> (\<forall>e \<in> set es. expr_valid e dm)"
  by (induction es) auto

text \<open>The shape every valid expression has: no empty message, two children or more.\<close>

primrec expr_shape :: "pb_expr \<Rightarrow> bool" where
  "expr_shape (PE_Or es) \<longleftrightarrow> length es > 1 \<and> list_all id (map expr_shape es)"
| "expr_shape (PE_And es) \<longleftrightarrow> length es > 1 \<and> list_all id (map expr_shape es)"
| "expr_shape (PE_Not e) \<longleftrightarrow> expr_shape e"
| "expr_shape (PE_Constraint c) \<longleftrightarrow> True"
| "expr_shape PE_NotSet \<longleftrightarrow> False"

lemma expr_valid_iff:
  "expr_valid e dm \<longleftrightarrow> expr_shape e \<and> (\<forall>c \<in> expr_leaves e. constraint_valid c dm)"
  by (induction e) (auto simp: exprs_valid_iff list_all_iff)

text \<open>
  C6: If a query with a data model was accepted and an instance of that data model was
  made, every constraint the evaluation meets reads a field of the type of the value it
  is applied to, so no check compares with a default of an unset field.
\<close>

theorem query_type_soundness:
  assumes "query_make_with_model es dm = Inr q"
    and "umap_wf vs" and "data_model_make n as = Inr dm" and "instance_make dm vs = Inr i"
    and "e \<in> set (pm_constraints q)" and "c \<in> expr_leaves e"
    and "instance_value i (pc_attribute_name c) = Some v"
  shows "constraint_reads_set_field (pc_constraint c) v"
proof -
  from assms(1) have "\<forall>e \<in> set (pm_constraints q). expr_valid e dm"
    by (auto simp: query_make_with_model_def query_make_def exprs_valid_iff split: sum.splits if_splits)
  with assms(5,6) have valid: "constraint_valid c dm"
    by (auto simp: expr_valid_iff)
  from instance_make_outcome [OF assms(2,3)] assms(4)
  have "values_conform dm vs" "ins_values i = vs" by simp_all
  with assms(7) have "conforms dm (pc_attribute_name c) v"
    by (auto simp: instance_value_def values_conform_def dest: umap_find_in_set)
  with valid show ?thesis by (rule constraint_valid_sound)
qed

text \<open>
  A query is built exactly when it has a constraint and, with a data model, when
  every constraint expression is valid for it; a query that is built is valid and holds
  the constraints and the model it was given.
\<close>

lemma query_constructors_valid:
  "(case query_make es of
      Inr q \<Rightarrow> query_valid q \<and> pm_constraints q = es | Inl _ \<Rightarrow> es = [])
   \<and> (case query_make_with_model es dm of
        Inr q \<Rightarrow> query_valid q \<and> pm_constraints q = es \<and> pm_model q = Some dm
          \<and> (\<forall>e \<in> set es. expr_shape e \<and> (\<forall>c \<in> expr_leaves e. constraint_valid c dm))
      | Inl _ \<Rightarrow> es = [] \<or> (\<exists>e \<in> set es. \<not> expr_valid e dm))"
  by (auto simp: query_make_def query_make_with_model_def query_valid_def exprs_valid_iff
      expr_valid_iff)

section \<open>Example\<close>

text \<open>The query of the repository's test: first names between A and C, last names above M.\<close>

definition first_name_range :: pb_constraint where
  "first_name_range = \<lparr>pc_attribute_name = ''firstName'',
     pc_constraint = CC_Range (range_of_strings (''A'', ''C''))\<rparr>"

definition last_name_above :: pb_constraint where
  "last_name_above = \<lparr>pc_attribute_name = ''lastName'',
     pc_constraint = CC_Relation (relation_of_string Op_GT ''M'')\<rparr>"

definition person_query :: pb_model where
  "person_query = \<lparr>pm_constraints =
     [PE_And [PE_Constraint first_name_range, PE_Constraint last_name_above]],
     pm_model = Some person_model\<rparr>"

lemmas person_eval = person_query_def first_name_range_def last_name_above_def person_model_def
  person_attrs_def attribute_make_def attribute_make_described_def turing_values_def
  range_of_strings_def relation_of_string_def

lemma person_query_make:
  "query_make_with_model (pm_constraints person_query) person_model = Inr person_query"
  by (simp add: query_make_with_model_def query_make_def person_eval constraint_valid_def
      range_valid_def relation_valid_def Let_def)

lemma turing_instance_make: "instance_make person_model turing_values = Inr turing_instance"
  using instance_make_conforming [OF turing_values_wf data_model_make_distinct [OF person_model_make]
      turing_values_conform] by (simp add: turing_instance_def)

lemma person_query_accepts: "query_check F person_query turing_instance"
  by (simp add: query_check_def person_eval turing_instance_def instance_model_def
      instance_value_def constraint_check_instance_def constraint_check_value_def
      relation_check_value_def cmp_string_def relation_get_string_def)

theorem query_type_soundness_witness:
  "constraint_reads_set_field (pc_constraint last_name_above) (VString ''Turing'')"
proof -
  let ?e = "PE_And [PE_Constraint first_name_range, PE_Constraint last_name_above]"
  have "?e \<in> set (pm_constraints person_query)" "last_name_above \<in> expr_leaves ?e"
    by (simp_all add: person_query_def)
  moreover have "instance_value turing_instance (pc_attribute_name last_name_above)
      = Some (VString ''Turing'')"
    by (simp add: instance_value_def turing_instance_def turing_values_def last_name_above_def)
  ultimately show ?thesis
    by (rule query_type_soundness [OF person_query_make turing_values_wf person_model_make
        turing_instance_make])
qed

theorem query_check_semantics_witness:
  "\<forall>F. list_all (expr_eval (\<lambda>c. \<exists>v. instance_value turing_instance (pc_attribute_name c) = Some v
                                   \<and> constraint_check_value F c v)) (pm_constraints person_query)"
  using query_check_semantics [of _ person_query turing_instance] person_query_accepts
  by (simp add: list_all_iff)

lemma check_value_agrees_witness:
  "expr_check_instance F (PE_Not (PE_Constraint first_name_range)) turing_instance
     = expr_check_value F (PE_Not (PE_Constraint first_name_range)) (VString ''Alan'')"
  by (rule check_value_agrees)
    (simp add: first_name_range_def instance_value_def turing_instance_def turing_values_def)

lemma missing_attribute_witness:
  "\<forall>F. expr_check_instance F (PE_Not (PE_Constraint (first_name_range\<lparr>pc_attribute_name := ''middleName''\<rparr>)))
     turing_instance"
  using missing_attribute [of turing_instance "first_name_range\<lparr>pc_attribute_name := ''middleName''\<rparr>"]
  by (simp add: instance_value_def turing_instance_def turing_values_def)

lemma query_constructors_valid_witness:
  "query_valid person_query \<and> list_all expr_shape (pm_constraints person_query)"
  using query_constructors_valid [where es = "pm_constraints person_query" and dm = person_model]
  by (simp add: person_query_make list_all_iff)

end
