(* ===== verification/Oef_Agent_Proto.thy ===== *)
theory Oef_Agent_Proto
  imports Oef_Query_Proto
begin

text \<open>
  The messages of \<open>lib/proto/agent.proto\<close> and \<open>lib/proto/fipa.proto\<close>, in the conventions of
  \<open>Oef_Query_Proto\<close>. Fields of protobuf type \<open>int32\<close> that the code treats as \<open>uint32_t\<close> are
  32-bit words.
\<close>

section \<open>FIPA\<close>

datatype pb_cfp = Cfp_Query pb_model | Cfp_Content string | Cfp_Nothing | Cfp_NotSet

datatype pb_propose = Prop_Proposals "pb_instance list" | Prop_Content string | Prop_NotSet

datatype pb_fipa_case =
    Fipa_Cfp pb_cfp
  | Fipa_Propose pb_propose
  | Fipa_Accept
  | Fipa_Decline
  | Fipa_NotSet

record pb_fipa =
  fm_target :: i32
  fm_msg :: pb_fipa_case

section \<open>Messages between agents\<close>

datatype pb_payload = PL_Content string | PL_Fipa pb_fipa | PL_NotSet

text \<open>\<open>Agent.Message\<close>, from the sender, and \<open>Server.AgentMessage.Content\<close>, to the receiver.\<close>

record pb_agent_msg =
  am_dialogue_id :: i32
  am_destination :: string
  am_payload :: pb_payload

record pb_content =
  ct_dialogue_id :: i32
  ct_origin :: string
  ct_payload :: pb_payload

section \<open>The handshake\<close>

text \<open>\<open>Agent.Server.ID\<close>, \<open>Agent.Server.Answer\<close>, \<open>Server.Phrase\<close> and \<open>Server.Connected\<close>.\<close>

record pb_id =
  id_public_key :: string

record pb_answer =
  ans_answer :: string

datatype pb_phrase = Ph_Phrase string | Ph_Failure | Ph_NotSet

record pb_connected =
  cn_status :: bool

section \<open>From the server to an agent\<close>

datatype oef_operation =
    REGISTER_SERVICE
  | UNREGISTER_SERVICE
  | REGISTER_DESCRIPTION
  | UNREGISTER_DESCRIPTION

record pb_agent_info =
  ai_key :: string
  ai_score :: double

record pb_wide_item =
  wi_key :: string
  wi_ip :: string
  wi_port :: u32
  wi_info :: string
  wi_distance :: double
  wi_agents :: "pb_agent_info list"

datatype pb_server_payload =
    SP_Content pb_content
  | SP_OefError oef_operation
  | SP_Agents "string list"
  | SP_AgentsWide "pb_wide_item list"
  | SP_DialogueError i32 string
  | SP_NotSet

record pb_server_msg =
  sm_answer_id :: i32
  sm_payload :: pb_server_payload

section \<open>From an agent to the server\<close>

record pb_description =
  ad_description :: pb_instance

record pb_search =
  as_query :: pb_model

datatype pb_envelope_payload =
    EP_SendMessage pb_agent_msg
  | EP_RegisterService pb_description
  | EP_UnregisterService pb_description
  | EP_RegisterDescription pb_description
  | EP_UnregisterDescription
  | EP_SearchServices pb_search
  | EP_SearchServicesWide pb_search
  | EP_SearchAgents pb_search
  | EP_NotSet

record pb_envelope =
  ev_msg_id :: i32
  ev_payload :: pb_envelope_payload

section \<open>Data\<close>

record pb_data =
  dt_name :: string
  dt_type :: string
  dt_values :: "string list"

end
