(* ===== verification/Oef_Schema_Dir.thy ===== *)
theory Oef_Schema_Dir
  imports Oef_Schema_Data Oef_Agent_Proto
begin

text \<open>
  The versioned schemas of \<open>lib/include/schema.hpp\<close> (\<open>SchemaRef\<close>, \<open>Schema\<close>, \<open>Schemas\<close>,
  \<open>SchemaDirectory\<close>) and the class \<open>Data\<close>. Every operation of \<open>Schemas\<close> holds the lock for
  its whole body, so an operation is one step here. \<open>std::numeric_limits<uint32_t>::max()\<close>
  asks for an automatic version, or for the latest one.
\<close>

section \<open>Schemas\<close>

record schema_ref =
  sref_name :: string
  sref_version :: u32

record schema =
  sch_version :: u32
  sch_schema :: pb_data_model

type_synonym schemas = "schema list"

definition max_version :: u32 where
  "max_version = - 1"

definition schemas_add :: "u32 \<Rightarrow> pb_data_model \<Rightarrow> schemas \<Rightarrow> u32 \<times> schemas" where
  "schemas_add version model ss =
     (let version = (if version = max_version then of_nat (length ss + 1) else version)
      in (version, ss @ [\<lparr>sch_version = version, sch_schema = model\<rparr>]))"

fun schemas_scan :: "u32 \<Rightarrow> schemas \<Rightarrow> schema option" where
  "schemas_scan version [] = None"
| "schemas_scan version (p # ps) =
     (if sch_version p \<ge> version then Some p else schemas_scan version ps)"

definition schemas_get :: "u32 \<Rightarrow> schemas \<Rightarrow> schema option" where
  "schemas_get version ss =
     (if ss = [] then None
      else if version = max_version then Some (last ss)
      else case schemas_scan version ss of
             Some p \<Rightarrow> Some p
           | None \<Rightarrow> Some (last ss))"

section \<open>The directory\<close>

type_synonym schema_directory = "(string, schemas) umap"

definition directory_get :: "string \<Rightarrow> u32 \<Rightarrow> schema_directory \<Rightarrow> schema option" where
  "directory_get key version d =
     (case umap_find d key of
        Some ss \<Rightarrow> schemas_get version ss
      | None \<Rightarrow> None)"

definition directory_add ::
  "string \<Rightarrow> pb_data_model \<Rightarrow> u32 \<Rightarrow> schema_directory \<Rightarrow> u32 \<times> schema_directory" where
  "directory_add key model version d =
     (let ss = (case umap_find d key of Some ss \<Rightarrow> ss | None \<Rightarrow> []);
          (v, ss') = schemas_add version model ss
      in (v, umap_set key ss' d))"

section \<open>Data\<close>

record data_obj =
  d_name :: string
  d_type :: string
  d_values :: "string list"
  d_pb :: pb_data

text \<open>
  The constructor moves its arguments into the members and then reads the arguments again
  (\<open>schema.hpp\<close>, lines 1030 to 1032). A moved-from string has a valid but unspecified
  value: \<open>moved\<close> is that value as a function of the old one.
\<close>

definition data_make ::
  "(string \<Rightarrow> string) \<Rightarrow> string \<Rightarrow> string \<Rightarrow> string list \<Rightarrow> data_obj" where
  "data_make moved name type values =
     (let name_member = name; name = moved name;
          type_member = type; type = moved type
      in \<lparr>d_name = name_member, d_type = type_member, d_values = values,
          d_pb = \<lparr>dt_name = name, dt_type = type, dt_values = values\<rparr>\<rparr>)"

text \<open>The constructor from a buffer; \<open>parse\<close> is protobuf's parser, whose status is ignored.\<close>

definition data_of_buffer :: "(string \<Rightarrow> bool \<times> pb_data) \<Rightarrow> string \<Rightarrow> data_obj" where
  "data_of_buffer parse buf =
     (let pb = snd (parse buf)
      in \<lparr>d_name = dt_name pb, d_type = dt_type pb, d_values = dt_values pb, d_pb = pb\<rparr>)"

section \<open>Facts\<close>

fun add_all :: "pb_data_model list \<Rightarrow> schemas \<Rightarrow> schemas" where
  "add_all [] ss = ss"
| "add_all (m # ms) ss = add_all ms (snd (schemas_add max_version m ss))"

text \<open>The list that automatic versions build: version \<open>k + 1\<close> at position \<open>k\<close>.\<close>

definition numbered :: "pb_data_model list \<Rightarrow> schemas" where
  "numbered ms = map (\<lambda>k. \<lparr>sch_version = of_nat (k + 1), sch_schema = ms ! k\<rparr>) [0..<length ms]"

lemma length_numbered [simp]: "length (numbered ms) = length ms"
  by (simp add: numbered_def)

lemma numbered_snoc:
  "numbered (ms @ [m]) = numbered ms @ [\<lparr>sch_version = of_nat (length ms + 1), sch_schema = m\<rparr>]"
  by (simp add: numbered_def nth_append)

lemma add_all_append: "add_all (ms @ ms') ss = add_all ms' (add_all ms ss)"
  by (induction ms arbitrary: ss) simp_all

lemma add_all_numbered: "add_all ms [] = numbered ms"
proof (induction ms rule: rev_induct)
  case Nil
  then show ?case by (simp add: numbered_def)
next
  case (snoc m ms)
  then show ?case by (simp add: add_all_append schemas_add_def numbered_snoc Let_def)
qed

lemma scan_skip: "\<forall>p \<in> set ps. sch_version p < v \<Longrightarrow> schemas_scan v (ps @ qs) = schemas_scan v qs"
  by (induction ps) (auto simp: not_le [symmetric])

lemma of_nat_less_u32: "a < b \<Longrightarrow> b < 2 ^ 32 \<Longrightarrow> (of_nat a :: u32) < of_nat b"
  by (simp add: word_less_nat_alt unat_of_nat)

lemma take_drop_nth: "k < length xs \<Longrightarrow> xs = take k xs @ xs ! k # drop (Suc k) xs"
  by (rule id_take_nth_drop)

lemma scan_numbered:
  assumes "k < length ms" "length ms < 2 ^ 32"
  shows "schemas_scan (of_nat (k + 1)) (numbered ms) = Some (numbered ms ! k)"
proof -
  let ?ss = "numbered ms" and ?v = "of_nat (k + 1) :: u32"
  have ver: "sch_version (?ss ! j) = of_nat (j + 1)" if "j < length ms" for j
    using that by (simp add: numbered_def)
  have "\<forall>p \<in> set (take k ?ss). sch_version p < ?v"
  proof
    fix p assume "p \<in> set (take k ?ss)"
    then obtain j where "j < k" "p = ?ss ! j"
      using assms(1) by (auto simp: in_set_conv_nth)
    then show "sch_version p < ?v"
      using assms ver [of j] of_nat_less_u32 [of "j + 1" "k + 1"] by simp
  qed
  then have "schemas_scan ?v ?ss = schemas_scan ?v (?ss ! k # drop (Suc k) ?ss)"
    using scan_skip [of "take k ?ss" ?v "?ss ! k # drop (Suc k) ?ss"] take_drop_nth [of k ?ss] assms(1)
    by simp
  then show ?thesis using ver [OF assms(1)] by simp
qed

text \<open>
  Schemas added with automatic versions get 1, 2, 3 in order, and get returns the
  schema of the version asked for, or the last one beyond it.
\<close>

lemma schemas_auto_versions:
  assumes "length ms < 2 ^ 32 - 1" and "k < length ms"
  shows "schemas_get (of_nat (k + 1)) (add_all ms [])
           = Some \<lparr>sch_version = of_nat (k + 1), sch_schema = ms ! k\<rparr>
       \<and> schemas_get max_version (add_all ms [])
           = Some \<lparr>sch_version = of_nat (length ms), sch_schema = last ms\<rparr>"
proof
  have ne: "numbered ms \<noteq> []" using assms(2) by (auto simp: numbered_def)
  have "of_nat (k + 1) < (of_nat (2 ^ 32 - 1) :: u32)"
    using assms by (intro of_nat_less_u32) simp_all
  moreover have "max_version = of_nat (2 ^ 32 - 1)"
    by (simp add: max_version_def)
  ultimately have "of_nat (k + 1) \<noteq> max_version"
    by (metis less_irrefl)
  then show "schemas_get (of_nat (k + 1)) (add_all ms [])
      = Some \<lparr>sch_version = of_nat (k + 1), sch_schema = ms ! k\<rparr>"
    using ne scan_numbered [OF assms(2)] assms
    by (simp add: schemas_get_def add_all_numbered) (simp add: numbered_def)
  have "last (numbered ms) = \<lparr>sch_version = of_nat (length ms), sch_schema = last ms\<rparr>"
    using assms(2) by (cases ms rule: rev_cases) (simp_all add: numbered_snoc)
  then show "schemas_get max_version (add_all ms [])
      = Some \<lparr>sch_version = of_nat (length ms), sch_schema = last ms\<rparr>"
    using ne by (simp add: schemas_get_def add_all_numbered)
qed

text \<open>
  With explicit versions the automatic number counts the entries, not the versions: a
  schema added automatically after an explicit version 10 gets the number 2, and the
  look-up of version 2 finds the schema with version 10.
\<close>

text \<open>An automatic version after an explicit one can repeat it or go back.\<close>

lemma schemas_mixed_versions_defect:
  assumes "a \<noteq> b"
  shows "let (_, s1) = schemas_add 10 a []; (v, s2) = schemas_add max_version b s1
         in v = 2 \<and> schemas_get v s2 = Some \<lparr>sch_version = 10, sch_schema = a\<rparr>
            \<and> schemas_get v s2 \<noteq> Some \<lparr>sch_version = v, sch_schema = b\<rparr>"
  using assms by (simp add: schemas_add_def schemas_get_def max_version_def)

text \<open>What \<open>get\<close> returns in general: the first entry that is new enough, else the last.\<close>

lemma schemas_scan_Some:
  "schemas_scan v ss = Some p \<longleftrightarrow>
     (\<exists>as bs. ss = as @ p # bs \<and> (\<forall>q \<in> set as. sch_version q < v) \<and> v \<le> sch_version p)"
proof (induction ss)
  case Nil
  then show ?case by simp
next
  case (Cons x ss)
  show ?case
  proof (cases "v \<le> sch_version x")
    case True
    then have "schemas_scan v (x # ss) = Some x" by simp
    moreover have "x = p" if "x # ss = as @ p # bs" "\<forall>q \<in> set as. sch_version q < v" for as bs
      using that True by (cases as) auto
    ultimately show ?thesis using True by (metis append_Nil list.distinct(1) option.inject
          empty_iff list.set(1))
  next
    case False
    then have "schemas_scan v (x # ss) = schemas_scan v ss" by simp
    also have "\<dots> = Some p \<longleftrightarrow> (\<exists>as bs. x # ss = as @ p # bs
        \<and> (\<forall>q \<in> set as. sch_version q < v) \<and> v \<le> sch_version p)"
      unfolding Cons.IH
    proof safe
      fix as bs assume "\<forall>q \<in> set as. sch_version q < v" "v \<le> sch_version p" "ss = as @ p # bs"
      then show "\<exists>as' bs'. x # as @ p # bs = as' @ p # bs'
          \<and> (\<forall>q \<in> set as'. sch_version q < v) \<and> v \<le> sch_version p"
        using False by (intro exI [of _ "x # as"] exI [of _ bs]) auto
    next
      fix as bs assume *: "x # ss = as @ p # bs" "\<forall>q \<in> set as. sch_version q < v" "v \<le> sch_version p"
      with False obtain as' where "as = x # as'" by (cases as) auto
      with * show "\<exists>as bs. ss = as @ p # bs \<and> (\<forall>q \<in> set as. sch_version q < v) \<and> v \<le> sch_version p"
        by auto
    qed
    finally show ?thesis .
  qed
qed

text \<open>
  A schema added under a key is the latest one of that key, and the other keys are
  unchanged.
\<close>

lemma directory_add_get:
  "directory_get key max_version (snd (directory_add key model version d))
     = Some \<lparr>sch_version = fst (directory_add key model version d), sch_schema = model\<rparr>
   \<and> (key' \<noteq> key \<longrightarrow> directory_get key' v (snd (directory_add key model version d))
                        = directory_get key' v d)"
  by (simp add: directory_add_def directory_get_def schemas_add_def schemas_get_def Let_def
      split: option.splits prod.splits)

text \<open>The message of a \<open>Data\<close> object holds what is left of the moved arguments.\<close>

lemma data_make_defect:
  "d_name (data_make moved name type values) = name
   \<and> d_type (data_make moved name type values) = type
   \<and> d_pb (data_make moved name type values)
       = \<lparr>dt_name = moved name, dt_type = moved type, dt_values = values\<rparr>
   \<and> (moved name \<noteq> name \<longrightarrow>
        d_pb (data_make moved name type values)
          \<noteq> \<lparr>dt_name = name, dt_type = type, dt_values = values\<rparr>)"
  by (simp add: data_make_def Let_def)

section \<open>Examples\<close>

definition named_model :: "string \<Rightarrow> pb_data_model" where
  "named_model n = \<lparr>pdm_name = n, pdm_attributes = [], pdm_description = None\<rparr>"

lemma schemas_auto_versions_witness:
  "schemas_get 1 (add_all [named_model ''a'', named_model ''b''] [])
     = Some \<lparr>sch_version = 1, sch_schema = named_model ''a''\<rparr>"
  using schemas_auto_versions [of "[named_model ''a'', named_model ''b'']" 0] by simp

lemma schemas_mixed_versions_defect_witness:
  "schemas_get 2 (snd (schemas_add max_version (named_model ''b'')
     (snd (schemas_add 10 (named_model ''a'') []))))
     = Some \<lparr>sch_version = 10, sch_schema = named_model ''a''\<rparr>"
proof -
  have "named_model ''a'' \<noteq> named_model ''b''" by (simp add: named_model_def)
  from schemas_mixed_versions_defect [OF this] show ?thesis
    by (simp add: schemas_add_def Let_def)
qed

lemma directory_add_get_witness:
  "directory_get ''person'' max_version
     (snd (directory_add ''car'' (named_model ''b'') max_version
        (snd (directory_add ''person'' (named_model ''a'') max_version []))))
     = Some \<lparr>sch_version = 1, sch_schema = named_model ''a''\<rparr>"
  using directory_add_get [of "''car''" "named_model ''b''" max_version
      "snd (directory_add ''person'' (named_model ''a'') max_version [])" "''person''" max_version]
    directory_add_get [of "''person''" "named_model ''a''" max_version "[]"]
  by (simp add: directory_add_def schemas_add_def Let_def)

lemma data_make_defect_witness:
  "dt_name (d_pb (data_make (\<lambda>_. []) ''age'' ''int'' [''42''])) = []
   \<and> d_name (data_make (\<lambda>_. []) ''age'' ''int'' [''42'']) = ''age''"
  using data_make_defect [of "\<lambda>_. []" "''age''" "''int''" "[''42'']"] by simp

end
