(* ===== verification/Oef_Search_Proto.thy ===== *)
theory Oef_Search_Proto
  imports Oef_Agent_Proto
begin

text \<open>
  The messages between the core and OEF Search: \<open>lib/proto/search_transport.proto\<close>,
  \<open>search_update.proto\<close>, \<open>search_query.proto\<close>, \<open>search_remove.proto\<close> and
  \<open>search_response.proto\<close>, in the conventions of \<open>Oef_Query_Proto\<close>. The fields that no
  code of the core writes or reads (\<open>uri\<close> and \<open>data_model\<close> of \<open>Update\<close>, \<open>directed_search\<close>
  of \<open>SearchQuery\<close>, \<open>attributes\<close> of \<open>Remove\<close>, the value types of an \<open>Update.Attribute\<close>
  other than its address) are left out: they keep their default values.
\<close>

section \<open>Transport\<close>

record transport_status =
  ts_success :: bool
  ts_error_code :: i32
  ts_narrative :: "string list"

record transport_header =
  th_uri :: string
  th_id :: u64
  th_status :: transport_status

definition transport_status_default :: transport_status where
  "transport_status_default = \<lparr>ts_success = False, ts_error_code = 0, ts_narrative = []\<rparr>"

definition transport_header_default :: transport_header where
  "transport_header_default = \<lparr>th_uri = [], th_id = 0, th_status = transport_status_default\<rparr>"

section \<open>Requests\<close>

record update_address =
  ua_ip :: string
  ua_port :: u32
  ua_key :: string
  ua_signature :: string

datatype update_attr_name =
    UA_LOCATION
  | UA_COUNTRY
  | UA_CITY
  | UA_SERVICE_DESCRIPTION
  | UA_NETWORK_ADDRESS
  | UA_CUSTOM

record update_attribute =
  uat_name :: update_attr_name
  uat_value_type :: i32
  uat_value_a :: update_address

record update_instance =
  ui_key :: string
  ui_model :: pb_data_model
  ui_values :: "pb_key_value list"

record update_msg =
  up_key :: string
  up_attributes :: "update_attribute list"
  up_data_models :: "update_instance list"

record search_query =
  sq_source_key :: string
  sq_model :: pb_model
  sq_ttl :: u32

record remove_msg =
  rm_key :: string
  rm_all :: bool
  rm_data_models :: "pb_data_model list"

section \<open>Responses\<close>

datatype update_response_type = UR_SUCCESS | UR_MISSING_ADDRESS | UR_INVALID_ATTRIBUTE | UR_ERROR

record update_response =
  ur_status :: update_response_type
  ur_message :: string
  ur_narrative :: string

datatype remove_response_type = RR_SUCCESS | RR_NOT_FOUND | RR_ERROR

record remove_response =
  rr_status :: remove_response_type
  rr_message :: string
  rr_narrative :: string

record response_agent =
  ra_key :: string
  ra_score :: double

record response_item =
  ri_key :: string
  ri_ip :: string
  ri_port :: u32
  ri_info :: string
  ri_distance :: double
  ri_agents :: "response_agent list"

record search_response =
  sr_result :: "response_item list"

end
