(* ===== verification/Oef_Once_Map.thy ===== *)
theory Oef_Once_Map
  imports Oef_Prelude
begin

text \<open>
  The contract that the agent directory (\<open>agent_directory_t\<close>) and the handle table of the
  search client share: a map whose \<open>add\<close> keeps the entry that is there and reports whether
  it inserted, and whose \<open>del\<close> reports whether it removed something.
\<close>

locale once_map =
  fixes add :: "'k \<Rightarrow> 'v \<Rightarrow> 't \<Rightarrow> bool \<times> 't"
    and look :: "'t \<Rightarrow> 'k \<Rightarrow> 'v option"
    and del :: "'k \<Rightarrow> 't \<Rightarrow> bool \<times> 't"
  assumes add_result: "fst (add k v t) \<longleftrightarrow> look t k = None"
    and add_look: "look (snd (add k v t)) = (if look t k = None then (look t)(k \<mapsto> v) else look t)"
    and del_result: "fst (del k t) \<longleftrightarrow> look t k \<noteq> None"
    and del_look: "look (snd (del k t)) = (look t)(k := None)"
begin

lemma add_fresh: "look t k = None \<Longrightarrow> look (snd (add k v t)) = (look t)(k \<mapsto> v)"
  by (simp add: add_look)

lemma add_taken: "look t k = Some w \<Longrightarrow> look (snd (add k v t)) = look t"
  by (simp add: add_look)

lemma add_other: "k' \<noteq> k \<Longrightarrow> look (snd (add k v t)) k' = look t k'"
  by (simp add: add_look)

lemma del_other: "k' \<noteq> k \<Longrightarrow> look (snd (del k t)) k' = look t k'"
  by (simp add: del_look)

lemma second_add_refused: "\<not> fst (add k w (snd (add k v t)))"
  by (simp add: add_result add_look)

lemma add_after_del: "fst (add k v (snd (del k t)))"
  by (simp add: add_result del_look)

lemma del_twice: "\<not> fst (del k (snd (del k t)))"
  by (simp add: del_result del_look)

text \<open>A sequence of insertions keeps, for every key, what was there or else the first one.\<close>

fun add_all :: "('k \<times> 'v) list \<Rightarrow> 't \<Rightarrow> bool list \<times> 't" where
  "add_all [] t = ([], t)"
| "add_all ((k, v) # kvs) t =
     (let (b, t1) = add k v t; (bs, t2) = add_all kvs t1 in (b # bs, t2))"

lemma add_all_look:
  "look (snd (add_all kvs t)) k = (case look t k of Some v \<Rightarrow> Some v | None \<Rightarrow> map_of kvs k)"
proof (induction kvs arbitrary: t)
  case Nil
  then show ?case by (simp split: option.splits)
next
  case (Cons kv kvs)
  then show ?case
    by (cases kv) (auto simp: case_prod_unfold Let_def add_look split: option.splits)
qed

lemma add_all_one_winner:
  assumes "look t k = None"
  shows "length (filter (\<lambda>(kv, b). fst kv = k \<and> b) (zip kvs (fst (add_all kvs t)))) \<le> 1"
proof -
  have taken: "look t k \<noteq> None \<Longrightarrow>
      filter (\<lambda>(kv, b). fst kv = k \<and> b) (zip kvs (fst (add_all kvs t))) = []" for t kvs
  proof (induction kvs arbitrary: t)
    case Nil
    then show ?case by simp
  next
    case (Cons kv kvs)
    obtain k1 v1 where kv: "kv = (k1, v1)" by (cases kv)
    have "look (snd (add k1 v1 t)) k \<noteq> None"
      using Cons.prems by (auto simp: add_look)
    from Cons.IH [OF this] Cons.prems show ?case
      by (auto simp: kv case_prod_unfold Let_def add_result)
  qed
  show ?thesis
    using assms
  proof (induction kvs arbitrary: t)
    case Nil
    then show ?case by simp
  next
    case (Cons kv kvs)
    obtain k1 v1 where kv: "kv = (k1, v1)" by (cases kv)
    show ?case
    proof (cases "k1 = k")
      case True
      then have "look (snd (add k1 v1 t)) k \<noteq> None" by (simp add: add_look)
      from taken [OF this] True show ?thesis
        by (auto simp: kv case_prod_unfold Let_def)
    next
      case False
      then have "look (snd (add k1 v1 t)) k = None"
        using Cons.prems by (simp add: add_other)
      from Cons.IH [OF this] False show ?thesis
        by (simp add: kv case_prod_unfold Let_def)
    qed
  qed
qed

end

end
