(* ===== verification/Oef_Serial.thy ===== *)
theory Oef_Serial
  imports Oef_Prelude
begin

text \<open>
  \<open>lib/src/serialization.cpp\<close> and \<open>lib/include/serialization.hpp\<close>: the bytes of a
  \<open>uint32_t\<close> in memory, the escaping of \<open>pbs::diagnostic\<close>, and the wrappers around the
  protobuf parser and printer. The byte order of the host is a parameter; \<open>htonl\<close> and
  \<open>ntohl\<close> are those of POSIX. The parser and the printer of protobuf are arguments.
\<close>

section \<open>Bytes of a word\<close>

datatype endian = LittleEndian | BigEndian

definition le_bytes :: "u32 \<Rightarrow> buffer" where
  "le_bytes w = [ucast w, ucast (drop_bit 8 w), ucast (drop_bit 16 w), ucast (drop_bit 24 w)]"

fun le_word :: "buffer \<Rightarrow> u32" where
  "le_word [a, b, c, d] =
     Bit_Operations.or (ucast a) (Bit_Operations.or (push_bit 8 (ucast b))
       (Bit_Operations.or (push_bit 16 (ucast c)) (push_bit 24 (ucast d))))"
| "le_word _ = 0"

text \<open>\<open>oef::serialize(uint32_t)\<close>: the object representation of the argument.\<close>

definition serialize_u32 :: "endian \<Rightarrow> u32 \<Rightarrow> buffer" where
  "serialize_u32 e w = (case e of LittleEndian \<Rightarrow> le_bytes w | BigEndian \<Rightarrow> rev (le_bytes w))"

text \<open>Reading a \<open>uint32_t\<close> back from four bytes of memory.\<close>

definition read_u32 :: "endian \<Rightarrow> buffer \<Rightarrow> u32" where
  "read_u32 e bs = (case e of LittleEndian \<Rightarrow> le_word bs | BigEndian \<Rightarrow> le_word (rev bs))"

definition byte_swap :: "u32 \<Rightarrow> u32" where
  "byte_swap w = le_word (rev (le_bytes w))"

definition htonl :: "endian \<Rightarrow> u32 \<Rightarrow> u32" where
  "htonl e w = (case e of LittleEndian \<Rightarrow> byte_swap w | BigEndian \<Rightarrow> w)"

definition ntohl :: "endian \<Rightarrow> u32 \<Rightarrow> u32" where
  "ntohl e w = (case e of LittleEndian \<Rightarrow> byte_swap w | BigEndian \<Rightarrow> w)"

lemma length_le_bytes [simp]: "length (le_bytes w) = 4"
  by (simp add: le_bytes_def)

lemma length_serialize_u32 [simp]: "length (serialize_u32 e w) = 4"
  by (simp add: serialize_u32_def split: endian.splits)

lemma byte_bit_bound: "bit (b :: byte) n \<Longrightarrow> n < 8"
  using bit_imp_le_length [of b n] by simp

lemma le_word_le_bytes [simp]: "le_word (le_bytes w) = w"
  unfolding le_bytes_def le_word.simps
proof (rule bit_word_eqI)
  fix n :: nat
  assume "n < LENGTH(32)"
  then consider "n < 8" | "8 \<le> n" "n < 16" | "16 \<le> n" "n < 24" | "24 \<le> n" "n < 32"
    by fastforce
  then show "bit (Bit_Operations.or (ucast (ucast w :: byte) :: u32)
      (Bit_Operations.or (push_bit 8 (ucast (ucast (drop_bit 8 w) :: byte)))
        (Bit_Operations.or (push_bit 16 (ucast (ucast (drop_bit 16 w) :: byte)))
          (push_bit 24 (ucast (ucast (drop_bit 24 w) :: byte)))))) n = bit w n"
    by cases (auto simp: bit_simps)
qed

lemma le_bytes_le_word:
  assumes "length bs = 4"
  shows "le_bytes (le_word bs) = bs"
proof -
  from assms obtain a b c d where bs: "bs = [a, b, c, d]"
    by (auto simp: numeral_eq_Suc length_Suc_conv)
  show ?thesis
    unfolding bs le_bytes_def le_word.simps list.inject
    by (intro conjI bit_word_eqI refl) (auto simp: bit_simps dest: byte_bit_bound)
qed

lemma read_serialize_u32 [simp]: "read_u32 e (serialize_u32 e w) = w"
  by (simp add: read_u32_def serialize_u32_def split: endian.splits)

lemma le_bytes_byte_swap: "le_bytes (byte_swap w) = rev (le_bytes w)"
  by (simp add: byte_swap_def le_bytes_le_word)

lemma byte_swap_swap [simp]: "byte_swap (byte_swap w) = w"
  by (metis byte_swap_def le_bytes_byte_swap le_word_le_bytes rev_rev_ident)

lemma ntohl_htonl [simp]: "ntohl e (htonl e w) = w"
  by (simp add: ntohl_def htonl_def split: endian.splits)

text \<open>What \<open>htonl\<close> and \<open>serialize\<close> put on the wire does not depend on the host.\<close>

lemma network_order_portable:
  "serialize_u32 e (htonl e w) = rev (le_bytes w)
   \<and> ntohl e' (read_u32 e' (serialize_u32 e (htonl e w))) = w"
proof -
  have "serialize_u32 e (htonl e w) = rev (le_bytes w)" for e
    by (cases e) (simp_all add: serialize_u32_def htonl_def le_bytes_byte_swap)
  moreover from this [of e'] have "ntohl e' (read_u32 e' (rev (le_bytes w))) = w"
    by (metis ntohl_htonl read_serialize_u32)
  ultimately show ?thesis by simp
qed

section \<open>Protobuf wrappers\<close>

type_synonym 'm parser = "buffer \<Rightarrow> bool \<times> 'm"

text \<open>
  \<open>deserialize(buffer, status)\<close> reports the parser's status; \<open>deserialize(buffer)\<close> logs a
  failure and returns what was parsed so far. Neither throws.
\<close>

definition pbs_serialize :: "('m \<Rightarrow> buffer) \<Rightarrow> 'm \<Rightarrow> buffer" where
  "pbs_serialize print t = print t"

text \<open>\<open>pbs::to_string\<close>: the text printer of protobuf yields a status, which is ignored, and the text.\<close>

definition pbs_to_string :: "('m \<Rightarrow> bool \<times> string) \<Rightarrow> 'm \<Rightarrow> string" where
  "pbs_to_string print_to_string msg = (let (_, output) = print_to_string msg in output)"

text \<open>\<open>pbs::from_string\<close>: the status of the parser is ignored.\<close>

definition pbs_from_string :: "(string \<Rightarrow> bool \<times> 'm) \<Rightarrow> string \<Rightarrow> 'm" where
  "pbs_from_string parse_from_string s = (let (_, t) = parse_from_string s in t)"

definition pbs_deserialize_status :: "'m parser \<Rightarrow> buffer \<Rightarrow> bool \<times> 'm" where
  "pbs_deserialize_status parse buf = parse buf"

definition pbs_deserialize :: "'m parser \<Rightarrow> buffer \<Rightarrow> 'm" where
  "pbs_deserialize parse buf = (let (ok, t) = parse buf in t)"

section \<open>Diagnostic escaping\<close>

definition is_print :: "byte \<Rightarrow> bool" where
  "is_print c \<longleftrightarrow> 32 \<le> c \<and> c \<le> 126"

definition hex_digit :: "byte \<Rightarrow> char" where
  "hex_digit n = ''0123456789ABCDEF'' ! unat n"

definition high_nibble :: "byte \<Rightarrow> byte" where
  "high_nibble c = drop_bit 4 (Bit_Operations.and c 0xF0)"

text \<open>
  \<open>pbs::diagnostic\<close> as the pair of what it writes to \<open>std::cout\<close> and what it returns: the
  escape of a newline goes to \<open>std::cout\<close>, everything else to the result.
\<close>

fun diagnostic :: "buffer \<Rightarrow> string \<times> string" where
  "diagnostic [] = ([], [])"
| "diagnostic (c # cs) =
     (let (cout, out) = diagnostic cs in
      if c = 10 then (CHR 0x5C # ''n'' @ cout, out)
      else if is_print c then (cout, char_of (unat c) # out)
      else (cout, CHR 0x5C # ''x'' @ [hex_digit (high_nibble c), hex_digit (high_nibble (push_bit 4 c))] @ out))"

text \<open>The escapes of newlines do not reach the returned string.\<close>

lemma diagnostic_drops_newlines:
  "snd (diagnostic bs) = snd (diagnostic (filter (\<lambda>c. c \<noteq> 10) bs))
   \<and> length (fst (diagnostic bs)) = 2 * length (filter (\<lambda>c. c = 10) bs)"
  by (induction bs) (auto split: prod.splits)

end
