(* ===== verification/Oef_Comm.thy ===== *)
theory Oef_Comm
  imports Oef_Serial
begin

text \<open>
  The communicators: \<open>AsioComm\<close> (\<open>lib/src/asio_communicator.cpp\<close>), which prefixes every
  buffer with its size, and \<open>AsioBasicComm\<close> (\<open>lib/include/asio_basic_communicator.hpp\<close>),
  which sends and receives raw bytes.

  A socket's incoming side is a \<open>stream\<close>: the bytes that will still arrive and the error
  that ends them. \<open>asio::read\<close> and \<open>asio::async_read\<close> of \<open>n\<close> bytes succeed when \<open>n\<close>
  bytes arrive and else fail with that error after what did arrive. The outcome of a write
  (error and byte count) is the environment's and an argument of the model. A continuation
  that is called is \<open>Some\<close> of its arguments; \<open>None\<close> means that it is not called.
\<close>

section \<open>Error codes and streams\<close>

datatype error_code = No_error | Errno nat

definition failed :: "error_code \<Rightarrow> bool" where
  "failed ec \<longleftrightarrow> ec \<noteq> No_error"

lemma failed_simps [simp]: "\<not> failed No_error" "failed (Errno n)"
  by (simp_all add: failed_def)

lemma not_failed_iff: "\<not> failed ec \<longleftrightarrow> ec = No_error"
  by (simp add: failed_def)

record stream =
  st_in :: buffer
  st_end :: nat

definition asio_read :: "nat \<Rightarrow> stream \<Rightarrow> error_code \<times> buffer \<times> stream" where
  "asio_read n s =
     (if n \<le> length (st_in s)
      then (No_error, take n (st_in s), s\<lparr>st_in := drop n (st_in s)\<rparr>)
      else (Errno (st_end s), st_in s, s\<lparr>st_in := []\<rparr>))"

text \<open>A vector of \<open>n\<close> bytes whose first bytes have been received.\<close>

definition received_into :: "nat \<Rightarrow> buffer \<Rightarrow> buffer" where
  "received_into n bs = bs @ replicate (n - length bs) 0"

lemma received_into_full [simp]: "length bs = n \<Longrightarrow> received_into n bs = bs"
  by (simp add: received_into_def)

lemma length_received_into: "length bs \<le> n \<Longrightarrow> length (received_into n bs) = n"
  by (simp add: received_into_def)

section \<open>AsioComm\<close>

text \<open>
  What \<open>send_async\<close> and \<open>send_sync\<close> put on the wire: the size as a \<open>uint32_t\<close> in host
  order, then that many bytes of the buffer.
\<close>

definition size_u32 :: "buffer \<Rightarrow> u32" where
  "size_u32 buf = of_nat (length buf)"

definition comm_frame :: "endian \<Rightarrow> buffer \<Rightarrow> buffer" where
  "comm_frame e buf = (let len = size_u32 buf in serialize_u32 e len @ take (unat len) buf)"

text \<open>
  \<open>send_async(buffer, continuation)\<close>: the completion handler calls the continuation on
  success only.
\<close>

definition comm_send_async :: "error_code \<Rightarrow> nat \<Rightarrow> (error_code \<times> nat) option" where
  "comm_send_async ec written = (if failed ec then None else Some (ec, written))"

text \<open>\<open>send_sync(buffer)\<close> returns the error of the write, whatever was written.\<close>

definition comm_send_sync :: "endian \<Rightarrow> buffer \<Rightarrow> error_code \<Rightarrow> buffer \<times> error_code" where
  "comm_send_sync e buf ec = (comm_frame e buf, ec)"

text \<open>\<open>receive_async\<close>: the arguments of the continuation, and the stream left.\<close>

definition comm_receive_async :: "endian \<Rightarrow> stream \<Rightarrow> error_code \<times> buffer \<times> stream" where
  "comm_receive_async e s =
     (let (ec, bs, s1) = asio_read 4 s in
      if failed ec then (ec, [], s1)
      else
        let len = unat (read_u32 e bs);
            (ec2, data, s2) = asio_read len s1
        in (ec2, received_into len data, s2))"

text \<open>
  \<open>receive_sync(buffer)\<close>: the buffer is left alone (\<open>old\<close>) when the size cannot be read.
\<close>

definition comm_receive_sync :: "endian \<Rightarrow> buffer \<Rightarrow> stream \<Rightarrow> error_code \<times> buffer \<times> stream" where
  "comm_receive_sync e old s =
     (let (ec, bs, s1) = asio_read 4 s in
      if failed ec \<or> length bs \<noteq> 4 then (ec, old, s1)
      else
        let len = unat (read_u32 e bs);
            (ec2, data, s2) = asio_read len s1
        in (ec2, received_into len data, s2))"

text \<open>
  \<open>send_sync(asio::const_buffer)\<close> sends the size negated as an \<open>int32_t\<close>.
\<close>

definition comm_send_sync_const :: "endian \<Rightarrow> buffer \<Rightarrow> error_code \<Rightarrow> buffer \<times> error_code" where
  "comm_send_sync_const e buf ec = (serialize_u32 e (- size_u32 buf) @ buf, ec)"

subsection \<open>The grouped send\<close>

text \<open>
  \<open>send_sync(std::vector<std::shared_ptr<Buffer>>)\<close> keeps the sizes in a vector and hands
  \<open>asio\<close> pointers to its elements. A pointer is the block the vector lived in when it was
  taken and an index; \<open>emplace_back\<close> on a full vector moves it to a new block (its capacity
  grows by \<open>grow\<close>) and leaves the pointers into the old one dangling. Reading a dangling
  pointer is undefined: \<open>None\<close>.
\<close>

record size_vector =
  sv_block :: nat
  sv_capacity :: nat
  sv_elems :: "u32 list"

definition sv_empty :: size_vector where
  "sv_empty = \<lparr>sv_block = 0, sv_capacity = 0, sv_elems = []\<rparr>"

definition sv_emplace_back :: "(nat \<Rightarrow> nat) \<Rightarrow> u32 \<Rightarrow> size_vector \<Rightarrow> size_vector" where
  "sv_emplace_back grow x v =
     (if length (sv_elems v) < sv_capacity v
      then v\<lparr>sv_elems := sv_elems v @ [x]\<rparr>
      else \<lparr>sv_block = Suc (sv_block v), sv_capacity = grow (sv_capacity v),
            sv_elems = sv_elems v @ [x]\<rparr>)"

text \<open>One entry of the scatter list: the pointer to the size, and the data with its length.\<close>

record gather_entry =
  ge_block :: nat
  ge_index :: nat
  ge_data :: buffer

fun group_loop ::
  "(nat \<Rightarrow> nat) \<Rightarrow> buffer list \<Rightarrow> size_vector \<Rightarrow> size_vector \<times> gather_entry list" where
  "group_loop grow [] v = (v, [])"
| "group_loop grow (b # bs) v =
     (let v1 = sv_emplace_back grow (size_u32 b) v;
          entry = \<lparr>ge_block = sv_block v1, ge_index = length (sv_elems v1) - 1,
                   ge_data = take (unat (size_u32 b)) b\<rparr>;
          (v2, es) = group_loop grow bs v1
      in (v2, entry # es))"

definition deref_size :: "size_vector \<Rightarrow> gather_entry \<Rightarrow> u32 option" where
  "deref_size v g =
     (if ge_block g = sv_block v \<and> ge_index g < length (sv_elems v)
      then Some (sv_elems v ! ge_index g) else None)"

fun gather_bytes :: "endian \<Rightarrow> size_vector \<Rightarrow> gather_entry list \<Rightarrow> buffer option" where
  "gather_bytes e v [] = Some []"
| "gather_bytes e v (g # gs) =
     (case deref_size v g of
        None \<Rightarrow> None
      | Some len \<Rightarrow>
          (case gather_bytes e v gs of
             None \<Rightarrow> None
           | Some rest \<Rightarrow> Some (serialize_u32 e len @ ge_data g @ rest)))"

definition comm_send_sync_group ::
  "(nat \<Rightarrow> nat) \<Rightarrow> endian \<Rightarrow> buffer list \<Rightarrow> error_code \<Rightarrow> (buffer \<times> error_code) option" where
  "comm_send_sync_group grow e buffers ec =
     (let (v, es) = group_loop grow buffers sv_empty in
      case gather_bytes e v es of
        None \<Rightarrow> None
      | Some bytes \<Rightarrow> Some (bytes, ec))"

section \<open>AsioBasicComm\<close>

text \<open>
  The byte ranges \<open>(buffers[i]->data(), nbytes[i])\<close>, concatenated. A failed assertion, or a
  count beyond the buffer, is \<open>None\<close>.
\<close>

fun basic_gather_loop :: "buffer list \<Rightarrow> nat list \<Rightarrow> buffer option" where
  "basic_gather_loop (b # bs) (n # ns) =
     (if length b < n then None
      else case basic_gather_loop bs ns of
             None \<Rightarrow> None
           | Some rest \<Rightarrow> Some (take n b @ rest))"
| "basic_gather_loop _ _ = Some []"

definition basic_gather :: "buffer list \<Rightarrow> nat list \<Rightarrow> buffer option" where
  "basic_gather buffers nbytes =
     (if length buffers \<noteq> length nbytes then None else basic_gather_loop buffers nbytes)"

text \<open>The completion handlers of both \<open>send_async\<close> call the continuation in every case.\<close>

definition basic_send_async :: "error_code \<Rightarrow> nat \<Rightarrow> (error_code \<times> nat) option" where
  "basic_send_async ec written = Some (ec, written)"

definition basic_send_sync :: "buffer \<Rightarrow> nat \<Rightarrow> error_code \<Rightarrow> (buffer \<times> error_code) option" where
  "basic_send_sync buf nbytes ec =
     (case basic_gather [buf] [nbytes] of None \<Rightarrow> None | Some bytes \<Rightarrow> Some (bytes, ec))"

definition basic_send_sync_group ::
  "buffer list \<Rightarrow> nat list \<Rightarrow> error_code \<Rightarrow> (buffer \<times> error_code) option" where
  "basic_send_sync_group buffers nbytes ec =
     (case basic_gather buffers nbytes of None \<Rightarrow> None | Some bytes \<Rightarrow> Some (bytes, ec))"

definition basic_receive_sync :: "nat \<Rightarrow> stream \<Rightarrow> error_code \<times> buffer \<times> stream" where
  "basic_receive_sync nbytes s =
     (let (ec, bs, s1) = asio_read nbytes s in (ec, received_into nbytes bs, s1))"

definition basic_receive_async :: "nat \<Rightarrow> stream \<Rightarrow> error_code \<times> buffer \<times> stream" where
  "basic_receive_async nbytes s =
     (let (ec, bs, s1) = asio_read nbytes s in
      if failed ec then (ec, [], s1) else (ec, received_into nbytes bs, s1))"

section \<open>Facts\<close>

lemma asio_read_append:
  "length bs = n \<Longrightarrow> st_in s = bs @ rest \<Longrightarrow> asio_read n s = (No_error, bs, s\<lparr>st_in := rest\<rparr>)"
  by (simp add: asio_read_def)

lemma unat_size_u32: "length buf < 2 ^ 32 \<Longrightarrow> unat (size_u32 buf) = length buf"
  by (simp add: size_u32_def unat_of_nat)

lemma comm_frame_short:
  "length buf < 2 ^ 32 \<Longrightarrow> comm_frame e buf = serialize_u32 e (size_u32 buf) @ buf"
  by (simp add: comm_frame_def unat_size_u32)

lemma receive_frame:
  assumes "length buf < 2 ^ 32" "st_in s = comm_frame e buf @ rest"
  shows "comm_receive_async e s = (No_error, buf, s\<lparr>st_in := rest\<rparr>)"
proof -
  have "asio_read 4 s = (No_error, serialize_u32 e (size_u32 buf), s\<lparr>st_in := buf @ rest\<rparr>)"
    using assms by (intro asio_read_append) (simp_all add: comm_frame_short)
  moreover have "asio_read (length buf) (s\<lparr>st_in := buf @ rest\<rparr>) = (No_error, buf, s\<lparr>st_in := rest\<rparr>)"
    by (simp add: asio_read_append)
  ultimately show ?thesis
    using assms(1) by (simp add: comm_receive_async_def unat_size_u32)
qed

lemma asio_read_length:
  "asio_read n s = (No_error, bs, s1) \<Longrightarrow>
     length bs = n \<and> length (st_in s) = n + length (st_in s1) \<and> st_end s1 = st_end s"
  by (auto simp: asio_read_def split: if_splits)

lemma receive_consumes:
  assumes "comm_receive_async e s = (No_error, buf, s1)"
  shows "length (st_in s) = 4 + length buf + length (st_in s1)"
proof -
  obtain ec bs s' where r: "asio_read 4 s = (ec, bs, s')" by (cases "asio_read 4 s")
  with assms have "ec = No_error" by (auto simp: comm_receive_async_def failed_def split: if_splits)
  obtain ec2 d s'' where r2: "asio_read (unat (read_u32 e bs)) s' = (ec2, d, s'')"
    by (cases "asio_read (unat (read_u32 e bs)) s'")
  from assms r r2 \<open>ec = No_error\<close> have
    "ec2 = No_error" "s1 = s''" "buf = received_into (unat (read_u32 e bs)) d"
    by (auto simp: comm_receive_async_def)
  moreover from r \<open>ec = No_error\<close> have "length (st_in s) = 4 + length (st_in s')"
    by (simp add: asio_read_length)
  moreover from r2 \<open>ec2 = No_error\<close> have
    "length d = unat (read_u32 e bs)" "length (st_in s') = unat (read_u32 e bs) + length (st_in s'')"
    by (simp_all add: asio_read_length)
  ultimately show ?thesis by simp
qed

text \<open>The receive loop of a peer: buffers until the first error.\<close>

function receive_all :: "endian \<Rightarrow> stream \<Rightarrow> buffer list \<times> error_code" where
  "receive_all e s =
     (let (ec, buf, s1) = comm_receive_async e s in
      if failed ec then ([], ec)
      else let (bufs, ec') = receive_all e s1 in (buf # bufs, ec'))"
  by pat_completeness auto
termination
proof (relation "measure (\<lambda>(e, s). length (st_in s))")
  show "wf (measure (\<lambda>(e, s). length (st_in s)))" by simp
next
  fix e s x ec y buf s1
  assume "x = comm_receive_async e s" "(ec, y) = x" "(buf, s1) = y" "\<not> failed ec"
  then have "comm_receive_async e s = (No_error, buf, s1)" by (simp add: not_failed_iff)
  from receive_consumes [OF this] show "((e, s1), e, s) \<in> measure (\<lambda>(e, s). length (st_in s))"
    by simp
qed

declare receive_all.simps [simp del]

lemma receive_all_end: "receive_all e \<lparr>st_in = [], st_end = n\<rparr> = ([], Errno n)"
  by (simp add: receive_all.simps comm_receive_async_def asio_read_def)

text \<open>
  C9: The frames AsioComm sends, concatenated on a stream, are received as the same
  buffers in order, followed by the error that ends the stream.
\<close>

theorem framing_roundtrip:
  assumes "\<forall>buf \<in> set bufs. length buf < 2 ^ 32"
  shows "receive_all e \<lparr>st_in = concat (map (comm_frame e) bufs), st_end = n\<rparr> = (bufs, Errno n)"
  using assms
proof (induction bufs)
  case Nil
  then show ?case by (simp add: receive_all_end)
next
  case (Cons buf bufs)
  let ?s = "\<lparr>st_in = concat (map (comm_frame e) (buf # bufs)), st_end = n\<rparr>"
  have "comm_receive_async e ?s = (No_error, buf, ?s\<lparr>st_in := concat (map (comm_frame e) bufs)\<rparr>)"
    using Cons.prems by (intro receive_frame) simp_all
  with Cons show ?case
    by (subst receive_all.simps) simp
qed

theorem framing_roundtrip_witness:
  "receive_all LittleEndian
     \<lparr>st_in = comm_frame LittleEndian [1, 2, 3] @ comm_frame LittleEndian [], st_end = 2\<rparr>
     = ([[1, 2, 3], []], Errno 2)"
  using framing_roundtrip [of "[[1, 2, 3], []]" LittleEndian 2] by simp

text \<open>
  A stream cut inside a frame delivers the complete frames before the cut and then the
  error of the stream: no truncated buffer is taken for a message.
\<close>

lemma receive_truncated:
  assumes "length buf < 2 ^ 32" "k < length (comm_frame e buf)" "st_in s = take k (comm_frame e buf)"
  shows "fst (comm_receive_async e s) = Errno (st_end s)"
proof (cases "k < 4")
  case True
  then show ?thesis
    using assms by (simp add: comm_receive_async_def asio_read_def)
next
  case False
  have f: "comm_frame e buf = serialize_u32 e (size_u32 buf) @ buf"
    using assms(1) by (rule comm_frame_short)
  with False assms have s: "st_in s = serialize_u32 e (size_u32 buf) @ take (k - 4) buf"
    and k: "k - 4 < length buf" by simp_all
  have "asio_read 4 s = (No_error, serialize_u32 e (size_u32 buf), s\<lparr>st_in := take (k - 4) buf\<rparr>)"
    by (rule asio_read_append) (simp_all add: s)
  moreover have "asio_read (length buf) (s\<lparr>st_in := take (k - 4) buf\<rparr>)
      = (Errno (st_end s), take (k - 4) buf, s\<lparr>st_in := []\<rparr>)"
    using k by (simp add: asio_read_def)
  ultimately show ?thesis
    using assms(1) by (simp add: comm_receive_async_def unat_size_u32)
qed

section \<open>The grouped send and the negated size\<close>

text \<open>The growth of the standard library the project is built with: 1, then doubling.\<close>

definition libstdcxx_grow :: "nat \<Rightarrow> nat" where
  "libstdcxx_grow c = (if c = 0 then 1 else 2 * c)"

lemma group_loop_block_mono: "group_loop grow bs v = (v', es) \<Longrightarrow> sv_block v \<le> sv_block v'"
proof (induction bs arbitrary: v v' es)
  case (Cons b bs)
  obtain v2 es2 where r: "group_loop grow bs (sv_emplace_back grow (size_u32 b) v) = (v2, es2)"
    by (cases "group_loop grow bs (sv_emplace_back grow (size_u32 b) v)")
  with Cons.prems have "v' = v2" by (simp add: Let_def)
  moreover have "sv_block v \<le> sv_block (sv_emplace_back grow (size_u32 b) v)"
    by (simp add: sv_emplace_back_def)
  ultimately show ?case using Cons.IH [OF r] by simp
qed simp

lemma group_send_dangling:
  "comm_send_sync_group libstdcxx_grow e (b1 # b2 # bs) ec = None"
proof -
  let ?v1 = "sv_emplace_back libstdcxx_grow (size_u32 b1) sv_empty"
  let ?v2 = "sv_emplace_back libstdcxx_grow (size_u32 b2) ?v1"
  have blocks: "sv_block ?v1 = 1" "sv_block ?v2 = 2"
    by (simp_all add: sv_emplace_back_def sv_empty_def libstdcxx_grow_def)
  obtain v es where r: "group_loop libstdcxx_grow bs ?v2 = (v, es)"
    by (cases "group_loop libstdcxx_grow bs ?v2")
  from group_loop_block_mono [OF r] blocks have "sv_block v \<noteq> 1" by simp
  with r blocks show ?thesis
    by (simp add: comm_send_sync_group_def Let_def deref_size_def)
qed

lemma group_loop_reserved:
  assumes "length (sv_elems v) + length bs \<le> sv_capacity v"
  shows "\<exists>es. group_loop grow bs v = (v\<lparr>sv_elems := sv_elems v @ map size_u32 bs\<rparr>, es) \<and>
    (\<forall>w. sv_block w = sv_block v \<and> (\<exists>zs. sv_elems w = sv_elems v @ map size_u32 bs @ zs) \<longrightarrow>
       gather_bytes e w es = Some (concat (map (comm_frame e) bs)))"
  using assms
proof (induction bs arbitrary: v)
  case (Cons b bs)
  let ?v1 = "v\<lparr>sv_elems := sv_elems v @ [size_u32 b]\<rparr>"
  have step: "sv_emplace_back grow (size_u32 b) v = ?v1"
    using Cons.prems by (simp add: sv_emplace_back_def)
  have "length (sv_elems ?v1) + length bs \<le> sv_capacity ?v1"
    using Cons.prems by simp
  from Cons.IH [OF this] obtain es where
    r: "group_loop grow bs ?v1 = (?v1\<lparr>sv_elems := sv_elems ?v1 @ map size_u32 bs\<rparr>, es)"
    and g: "\<And>w. sv_block w = sv_block ?v1 \<Longrightarrow>
      (\<exists>zs. sv_elems w = sv_elems ?v1 @ map size_u32 bs @ zs) \<Longrightarrow>
      gather_bytes e w es = Some (concat (map (comm_frame e) bs))"
    by blast
  show ?case
    by (auto simp: step r g deref_size_def comm_frame_def [of e b] Let_def nth_append)
qed simp

text \<open>
  The grouped send of AsioComm is defined only when no reallocation of the size
  vector leaves a pointer dangling.
\<close>

lemma group_send_defined:
  "comm_send_sync_group libstdcxx_grow e bufs ec
     = (if length bufs \<le> 1 then Some (concat (map (comm_frame e) bufs), ec) else None)
   \<and> (length bufs \<le> grow 0 \<longrightarrow>
        comm_send_sync_group grow e bufs ec = Some (concat (map (comm_frame e) bufs), ec))"
proof -
  have reserved: "comm_send_sync_group grow e bufs ec = Some (concat (map (comm_frame e) bufs), ec)"
    if "length bufs \<le> grow 0" for grow :: "nat \<Rightarrow> nat"
  proof (cases bufs)
    case Nil
    then show ?thesis by (simp add: comm_send_sync_group_def)
  next
    case (Cons b bs)
    let ?v1 = "sv_emplace_back grow (size_u32 b) sv_empty"
    have v1: "sv_elems ?v1 = [size_u32 b]" "sv_capacity ?v1 = grow 0"
      by (simp_all add: sv_emplace_back_def sv_empty_def)
    with that Cons have "length (sv_elems ?v1) + length bs \<le> sv_capacity ?v1" by simp
    from group_loop_reserved [OF this, of grow e] obtain es where
      r: "group_loop grow bs ?v1 = (?v1\<lparr>sv_elems := sv_elems ?v1 @ map size_u32 bs\<rparr>, es)"
      and g: "gather_bytes e (?v1\<lparr>sv_elems := sv_elems ?v1 @ map size_u32 bs\<rparr>) es
        = Some (concat (map (comm_frame e) bs))"
      by auto
    show ?thesis
      using g by (simp add: Cons comm_send_sync_group_def r Let_def deref_size_def v1 comm_frame_def)
  qed
  have "comm_send_sync_group libstdcxx_grow e bufs ec = None" if "\<not> length bufs \<le> 1"
  proof -
    from that obtain b1 b2 bs where "bufs = b1 # b2 # bs"
      by (cases bufs rule: list.exhaust) (auto simp: neq_Nil_conv Suc_le_eq)
    then show ?thesis by (simp add: group_send_dangling)
  qed
  then show ?thesis
    using reserved [of libstdcxx_grow] reserved [of grow] by (simp add: libstdcxx_grow_def)
qed

lemma group_send_defined_witness:
  "comm_send_sync_group (\<lambda>_. 4) LittleEndian [[7], [8, 9]] No_error
     = Some ([1, 0, 0, 0, 7, 2, 0, 0, 0, 8, 9], No_error)"
  using group_send_defined [of LittleEndian "[[7], [8, 9]]" No_error "\<lambda>_. 4"]
  by (simp add: comm_frame_def size_u32_def serialize_u32_def le_bytes_def)

text \<open>A peer takes the negated size for a size that never arrives.\<close>

lemma const_send_unreadable:
  assumes "buf \<noteq> []" "length buf < 2 ^ 31"
  shows "fst (comm_receive_async e \<lparr>st_in = fst (comm_send_sync_const e buf ec), st_end = n\<rparr>) = Errno n
    \<and> unat (- size_u32 buf) = 2 ^ 32 - length buf"
proof -
  have sz: "unat (size_u32 buf) = length buf"
    using assms(2) by (intro unat_size_u32) simp
  have "size_u32 buf \<noteq> 0"
    using sz assms(1) by auto
  then have neg: "unat (- size_u32 buf) = 2 ^ 32 - length buf"
    by (simp add: unat_uminus_u32 sz)
  have "asio_read 4 \<lparr>st_in = serialize_u32 e (- size_u32 buf) @ buf, st_end = n\<rparr>
      = (No_error, serialize_u32 e (- size_u32 buf), \<lparr>st_in = buf, st_end = n\<rparr>)"
    by (simp add: asio_read_def)
  moreover have "asio_read (2 ^ 32 - length buf) \<lparr>st_in = buf, st_end = n\<rparr>
      = (Errno n, buf, \<lparr>st_in = [], st_end = n\<rparr>)"
    using assms(2) by (simp add: asio_read_def)
  ultimately show ?thesis
    using neg by (simp add: comm_receive_async_def comm_send_sync_const_def)
qed

lemma const_send_unreadable_witness:
  "fst (comm_receive_async LittleEndian
     \<lparr>st_in = fst (comm_send_sync_const LittleEndian [1, 2] No_error), st_end = 2\<rparr>) = Errno 2"
  using const_send_unreadable [of "[1, 2]" LittleEndian No_error 2] by simp

text \<open>
  The size travels in the byte order of the sender's host: a peer of the other byte order
  reads another size.
\<close>

lemma framing_host_order:
  "read_u32 BigEndian (take 4 (comm_frame LittleEndian buf)) = byte_swap (size_u32 buf)"
  by (simp add: comm_frame_def read_u32_def serialize_u32_def byte_swap_def Let_def)

end
