(* ===== verification/Oef_Search_Client.thy ===== *)
theory Oef_Search_Client
  imports Oef_Search_Proto Oef_Once_Map Oef_Query Oef_Comm
begin

text \<open>
  \<open>OefSearchClient\<close> (\<open>lib/src/oef_search_client.cpp\<close>, \<open>lib/include/oef_search_client.hpp\<close>,
  \<open>msg_handle.hpp\<close>, \<open>api/oef_search_response_t.hpp\<close>): one connection to OEF Search shared by
  all agent sessions.

  A continuation is a value of the type \<open>'c\<close>, and calling it is an output (a \<open>search_call\<close>).
  An operation hands one message to \<open>async_write\<close>; the lambda that waits for its
  completion is an element of \<open>sc_writes\<close>, and the completion is a later event, so any
  other event may come in between. The serialiser and the parser of protobuf, the byte
  order of the host and \<open>std::hash\<close> are the fields of \<open>search_env\<close>. Logging is left out.
\<close>

section \<open>Responses and handles\<close>

datatype osr_type = OSR_NOTHING | OSR_L_SEARCH_AGTS | OSR_W_SEARCH_AGTS

record oef_search_response =
  osr_agents :: "string list"
  osr_search_result_wide :: "pb_wide_item list"
  osr_type_of :: osr_type

definition osr_nothing :: oef_search_response where
  "osr_nothing = \<lparr>osr_agents = [], osr_search_result_wide = [], osr_type_of = OSR_NOTHING\<rparr>"

definition osr_local :: "string list \<Rightarrow> oef_search_response" where
  "osr_local agts =
     \<lparr>osr_agents = agts, osr_search_result_wide = [], osr_type_of = OSR_L_SEARCH_AGTS\<rparr>"

definition osr_wide :: "pb_wide_item list \<Rightarrow> oef_search_response" where
  "osr_wide wsr =
     \<lparr>osr_agents = [], osr_search_result_wide = wsr, osr_type_of = OSR_W_SEARCH_AGTS\<rparr>"

text \<open>The continuation of a handle: one of a session, or the default one, which only logs.\<close>

datatype 'c handler = Registered 'c | No_handle u32

record 'c msg_handle =
  mh_operation :: string
  mh_continuation :: "'c handler"
  mh_amsg_id :: u32
  mh_agent_id :: string

definition msg_handle_default :: "u32 \<Rightarrow> 'c msg_handle" where
  "msg_handle_default smsg_id =
     \<lparr>mh_operation = [], mh_continuation = No_handle smsg_id, mh_amsg_id = 0, mh_agent_id = ''NoOne''\<rparr>"

type_synonym 'c handles = "(u32, 'c msg_handle) umap"

definition msg_handle_save :: "u32 \<Rightarrow> 'c msg_handle \<Rightarrow> 'c handles \<Rightarrow> bool \<times> 'c handles" where
  "msg_handle_save smsg_id h hs =
     (if umap_find hs smsg_id \<noteq> None then (False, hs) else (True, umap_set smsg_id h hs))"

definition msg_handle_erase :: "u32 \<Rightarrow> 'c handles \<Rightarrow> bool \<times> 'c handles" where
  "msg_handle_erase smsg_id hs = (umap_find hs smsg_id \<noteq> None, umap_erase smsg_id hs)"

definition msg_handle_get :: "u32 \<Rightarrow> 'c handles \<Rightarrow> 'c msg_handle" where
  "msg_handle_get smsg_id hs =
     (case umap_find hs smsg_id of Some h \<Rightarrow> h | None \<Rightarrow> msg_handle_default smsg_id)"

interpretation handles: once_map msg_handle_save map_of msg_handle_erase
  by unfold_locales (auto simp: msg_handle_save_def msg_handle_erase_def fun_eq_iff)

section \<open>The client\<close>

record search_env =
  se_endian :: endian
  se_hash :: "string \<Rightarrow> u64"
  se_put_header :: "transport_header \<Rightarrow> buffer"
  se_put_update :: "update_msg \<Rightarrow> buffer"
  se_put_remove :: "remove_msg \<Rightarrow> buffer"
  se_put_query :: "search_query \<Rightarrow> buffer"
  se_get_header :: "transport_header parser"
  se_get_update_response :: "update_response parser"
  se_get_remove_response :: "remove_response parser"
  se_get_search_response :: "search_response parser"

text \<open>A lambda that waits for the completion of a write, with the bytes of the write.\<close>

record 'c pending_write =
  pw_bytes :: "buffer option"
  pw_smsg_id :: u64
  pw_operation :: string
  pw_continuation :: 'c
  pw_msg_id :: u32
  pw_agent :: string

record 'c search_client =
  sc_core_ip_addr :: string
  sc_core_port :: u32
  sc_core_id :: string
  sc_updated_address :: bool
  sc_handles :: "'c handles"
  sc_writes :: "'c pending_write list"
  sc_in :: stream
  sc_listening :: bool

text \<open>The constructor calls \<open>handle_messages\<close>.\<close>

definition search_client_make :: "string \<Rightarrow> string \<Rightarrow> u32 \<Rightarrow> stream \<Rightarrow> 'c search_client" where
  "search_client_make core_id core_ip_addr core_port s =
     \<lparr>sc_core_ip_addr = core_ip_addr, sc_core_port = core_port, sc_core_id = core_id,
      sc_updated_address = True, sc_handles = [], sc_writes = [], sc_in = s, sc_listening = True\<rparr>"

type_synonym 'c search_call = "'c handler \<times> error_code \<times> oef_search_response"

section \<open>Message factories\<close>

definition generate_update_add_naddr ::
  "update_msg \<Rightarrow> 'c search_client \<Rightarrow> update_msg \<times> 'c search_client" where
  "generate_update_add_naddr update cl =
     (if \<not> sc_updated_address cl then (update, cl)
      else
        let cl1 = cl\<lparr>sc_updated_address := False\<rparr>;
            address = \<lparr>ua_ip = sc_core_ip_addr cl1, ua_port = sc_core_port cl1,
                       ua_key = sc_core_id cl1, ua_signature = ''Sign''\<rparr>;
            attr = \<lparr>uat_name = UA_NETWORK_ADDRESS, uat_value_type = 10, uat_value_a = address\<rparr>
        in (update\<lparr>up_attributes := up_attributes update @ [attr]\<rparr>, cl1))"

text \<open>\<open>msg_id << 1\<close> is computed in 32 bits and then widened to \<open>size_t\<close>.\<close>

definition generate_smsg_id :: "search_env \<Rightarrow> string \<Rightarrow> u32 \<Rightarrow> u64" where
  "generate_smsg_id E agent msg_id =
     Bit_Operations.xor (se_hash E agent) (ucast (push_bit 1 msg_id))"

definition generate_header :: "string \<Rightarrow> u32 \<Rightarrow> transport_header" where
  "generate_header uri msg_id =
     \<lparr>th_uri = uri, th_id = ucast (msg_id + 1),
      th_status = transport_status_default\<lparr>ts_success := True\<rparr>\<rparr>"

text \<open>What a string is to a reader of its \<open>c_str()\<close>: it ends at the first NUL.\<close>

definition c_string :: "string \<Rightarrow> string" where
  "c_string s = takeWhile (\<lambda>c. c \<noteq> CHR 0x00) s"

definition generate_update ::
  "oef_instance \<Rightarrow> string \<Rightarrow> 'c search_client \<Rightarrow> update_msg \<times> 'c search_client" where
  "generate_update service agent cl =
     (let dm = \<lparr>ui_key = c_string agent, ui_model = instance_model service,
                ui_values = pi_values (ins_pb service)\<rparr>;
          update = \<lparr>up_key = sc_core_id cl, up_attributes = [], up_data_models = [dm]\<rparr>
      in generate_update_add_naddr update cl)"

definition generate_search :: "pb_model \<Rightarrow> u32 \<Rightarrow> 'c search_client \<Rightarrow> search_query" where
  "generate_search query ttl cl =
     \<lparr>sq_source_key = sc_core_id cl, sq_model = query, sq_ttl = ttl\<rparr>"

definition generate_remove :: "oef_instance \<Rightarrow> 'c search_client \<Rightarrow> remove_msg" where
  "generate_remove i cl =
     \<lparr>rm_key = sc_core_id cl, rm_all = False, rm_data_models = [instance_model i]\<rparr>"

section \<open>Sending\<close>

definition search_send_bytes :: "search_env \<Rightarrow> buffer \<Rightarrow> buffer \<Rightarrow> buffer option" where
  "search_send_bytes E header payload =
     (let e = se_endian E;
          header_size = serialize_u32 e (htonl e (size_u32 header));
          payload_size = serialize_u32 e (htonl e (size_u32 payload))
      in basic_gather [header_size, payload_size, header, payload]
           [4, 4, length header, length payload])"

definition schedule_rcv_callback ::
  "u32 \<Rightarrow> string \<Rightarrow> 'c \<Rightarrow> u32 \<Rightarrow> string \<Rightarrow> 'c search_client \<Rightarrow> 'c search_client" where
  "schedule_rcv_callback smsg_id operation continuation amsg_id agent cl =
     (let h = \<lparr>mh_operation = operation, mh_continuation = Registered continuation,
               mh_amsg_id = amsg_id, mh_agent_id = agent\<rparr>;
          (saved, hs) = msg_handle_save smsg_id h (sc_handles cl)
      in cl\<lparr>sc_handles := hs\<rparr>)"

text \<open>The lambda of the four operations, called when the write has completed with \<open>ec\<close>.\<close>

definition write_completed ::
  "error_code \<Rightarrow> 'c pending_write \<Rightarrow> 'c search_client \<Rightarrow> 'c search_client \<times> 'c search_call list" where
  "write_completed ec w cl =
     (if failed ec then (cl, [(Registered (pw_continuation w), ec, osr_nothing)])
      else (schedule_rcv_callback (ucast (pw_smsg_id w)) (pw_operation w) (pw_continuation w)
              (pw_msg_id w) (pw_agent w) cl, []))"

definition begin_write ::
  "buffer option \<Rightarrow> u64 \<Rightarrow> string \<Rightarrow> 'c \<Rightarrow> u32 \<Rightarrow> string \<Rightarrow> 'c search_client \<Rightarrow> 'c search_client" where
  "begin_write bytes smsg_id operation continuation msg_id agent cl =
     cl\<lparr>sc_writes := sc_writes cl @
       [\<lparr>pw_bytes = bytes, pw_smsg_id = smsg_id, pw_operation = operation,
         pw_continuation = continuation, pw_msg_id = msg_id, pw_agent = agent\<rparr>]\<rparr>"

section \<open>Operations\<close>

definition register_service ::
  "search_env \<Rightarrow> oef_instance \<Rightarrow> string \<Rightarrow> u32 \<Rightarrow> 'c \<Rightarrow> 'c search_client \<Rightarrow> 'c search_client" where
  "register_service E service agent msg_id continuation cl =
     (let smsg_id = generate_smsg_id E agent msg_id;
          header = generate_header ''update'' (ucast smsg_id);
          header_buffer = pbs_serialize (se_put_header E) header;
          (update, cl1) = generate_update service agent cl;
          update_buffer = pbs_serialize (se_put_update E) update
      in begin_write (search_send_bytes E header_buffer update_buffer)
           smsg_id ''update'' continuation msg_id agent cl1)"

definition unregister_service ::
  "search_env \<Rightarrow> oef_instance \<Rightarrow> string \<Rightarrow> u32 \<Rightarrow> 'c \<Rightarrow> 'c search_client \<Rightarrow> 'c search_client" where
  "unregister_service E service agent msg_id continuation cl =
     (let smsg_id = generate_smsg_id E agent msg_id;
          header = generate_header ''remove'' (ucast smsg_id);
          header_buffer = pbs_serialize (se_put_header E) header;
          remove = generate_remove service cl;
          remove_buffer = pbs_serialize (se_put_remove E) remove
      in begin_write (search_send_bytes E header_buffer remove_buffer)
           smsg_id ''remove'' continuation msg_id agent cl)"

definition search_service ::
  "search_env \<Rightarrow> pb_model \<Rightarrow> string \<Rightarrow> u32 \<Rightarrow> 'c \<Rightarrow> 'c search_client \<Rightarrow> 'c search_client" where
  "search_service E query agent msg_id continuation cl =
     (let smsg_id = generate_smsg_id E agent msg_id;
          header = generate_header ''search'' (ucast smsg_id);
          header_buffer = pbs_serialize (se_put_header E) header;
          search = generate_search query 1 cl;
          search_buffer = pbs_serialize (se_put_query E) search
      in begin_write (search_send_bytes E header_buffer search_buffer)
           smsg_id ''search-local'' continuation msg_id agent cl)"

definition search_service_wide ::
  "search_env \<Rightarrow> pb_model \<Rightarrow> string \<Rightarrow> u32 \<Rightarrow> 'c \<Rightarrow> 'c search_client \<Rightarrow> 'c search_client" where
  "search_service_wide E query agent msg_id continuation cl =
     (let smsg_id = generate_smsg_id E agent msg_id;
          header = generate_header ''search'' (ucast smsg_id);
          header_buffer = pbs_serialize (se_put_header E) header;
          search = generate_search query 3 cl;
          search_buffer = pbs_serialize (se_put_query E) search
      in begin_write (search_send_bytes E header_buffer search_buffer)
           smsg_id ''search-wide'' continuation msg_id agent cl)"

definition register_description ::
  "search_env \<Rightarrow> oef_instance \<Rightarrow> string \<Rightarrow> u32 \<Rightarrow> 'c \<Rightarrow> 'c search_client \<Rightarrow> 'c search_client" where
  "register_description E desc agent msg_id continuation cl =
     register_service E desc agent msg_id continuation cl"

definition unregister_description ::
  "search_env \<Rightarrow> oef_instance \<Rightarrow> string \<Rightarrow> u32 \<Rightarrow> 'c \<Rightarrow> 'c search_client \<Rightarrow> 'c search_client" where
  "unregister_description E desc agent msg_id continuation cl =
     unregister_service E desc agent msg_id continuation cl"

definition search_agents ::
  "search_env \<Rightarrow> pb_model \<Rightarrow> string \<Rightarrow> u32 \<Rightarrow> 'c \<Rightarrow> 'c search_client \<Rightarrow> 'c search_client" where
  "search_agents E query agent msg_id continuation cl =
     search_service E query agent msg_id continuation cl"

lemmas search_operation_defs = register_service_def unregister_service_def search_service_def
  search_service_wide_def register_description_def unregister_description_def search_agents_def

section \<open>Receiving\<close>

text \<open>
  What \<open>receive_\<close> does once the data is there: it calls its continuation, or discards the
  message without calling it, or reads beyond the data buffer, because the sum of the two
  sizes is computed in 32 bits.
\<close>

datatype receive_outcome =
    Recv_call error_code transport_header "buffer option"
  | Recv_discarded
  | Recv_undefined

definition search_receive :: "search_env \<Rightarrow> stream \<Rightarrow> receive_outcome \<times> stream" where
  "search_receive E s =
     (let e = se_endian E;
          (ec, buf, s1) = basic_receive_async 8 s
      in if failed ec then (Recv_call ec transport_header_default None, s1)
         else
           let header_size = ntohl e (read_u32 e (take 4 buf));
               payload_size = ntohl e (read_u32 e (drop 4 buf));
               (ec2, data, s2) = basic_receive_sync (unat (header_size + payload_size)) s1
           in if failed ec2 then (Recv_discarded, s2)
              else if length data < unat header_size + unat payload_size then (Recv_undefined, s2)
              else
                let header_buffer = take (unat header_size) data;
                    payload_buffer = take (unat payload_size) (drop (unat header_size) data);
                    (hstatus, header) = pbs_deserialize_status (se_get_header E) header_buffer
                in if \<not> hstatus then (Recv_discarded, s2)
                   else if payload_size = 0 then (Recv_call ec2 header None, s2)
                   else (Recv_call ec2 header (Some payload_buffer), s2))"

text \<open>\<open>std::errc::no_message_available\<close> (\<open>ENODATA\<close>).\<close>

definition no_message_available :: error_code where
  "no_message_available = Errno 61"

definition local_agents :: "search_response \<Rightarrow> string list" where
  "local_agents resp = concat (map (\<lambda>item. map ra_key (ri_agents item)) (sr_result resp))"

definition wide_agents :: "search_response \<Rightarrow> pb_wide_item list" where
  "wide_agents resp =
     map (\<lambda>item.
       \<lparr>wi_key = ri_key item, wi_ip = ri_ip item, wi_port = ri_port item, wi_info = ri_info item,
        wi_distance = ri_distance item,
        wi_agents = map (\<lambda>a. \<lparr>ai_key = ra_key a, ai_score = ra_score a\<rparr>) (ri_agents item)\<rparr>)
       (sr_result resp)"

definition process_search_message ::
  "search_env \<Rightarrow> transport_header \<Rightarrow> buffer option \<Rightarrow> 'c search_client \<Rightarrow> 'c search_client \<times> 'c search_call" where
  "process_search_message E header payload cl =
     (let smsg_id = ucast (th_id header - 1);
          handle = msg_handle_get smsg_id (sc_handles cl);
          (erased, hs) = msg_handle_erase smsg_id (sc_handles cl);
          cl1 = cl\<lparr>sc_handles := hs\<rparr>;
          operation = mh_operation handle;
          continuation = mh_continuation handle;
          ec = (if \<not> ts_success (th_status header) then no_message_available else No_error)
      in case payload of
           None \<Rightarrow> (cl1, (continuation, ec, osr_nothing))
         | Some buf \<Rightarrow>
             if operation = ''update'' then (cl1, (continuation, ec, osr_nothing))
             else if operation = ''remove'' then (cl1, (continuation, ec, osr_nothing))
             else if operation = ''search-local'' then
               (cl1, (continuation, ec,
                      osr_local (local_agents (pbs_deserialize (se_get_search_response E) buf))))
             else if operation = ''search-wide'' then
               (cl1, (continuation, ec,
                      osr_wide (wide_agents (pbs_deserialize (se_get_search_response E) buf))))
             else (cl1, (continuation, no_message_available, osr_nothing)))"

text \<open>
  One turn of the loop \<open>handle_messages\<close>: the next message, if the loop is still alive.
  \<open>None\<close> is undefined behaviour.
\<close>

definition handle_message ::
  "search_env \<Rightarrow> 'c search_client \<Rightarrow> ('c search_client \<times> 'c search_call list) option" where
  "handle_message E cl =
     (if \<not> sc_listening cl then Some (cl, [])
      else
        let (outcome, s) = search_receive E (sc_in cl); cl1 = cl\<lparr>sc_in := s\<rparr>
        in case outcome of
             Recv_undefined \<Rightarrow> None
           | Recv_discarded \<Rightarrow> Some (cl1\<lparr>sc_listening := False\<rparr>, [])
           | Recv_call ec header payload \<Rightarrow>
               if failed ec then Some (cl1\<lparr>sc_listening := False\<rparr>, [])
               else
                 let (cl2, call) = process_search_message E header payload cl1
                 in Some (cl2, [call]))"

section \<open>Events\<close>

datatype 'c client_event =
    CE_RegisterDescription oef_instance string u32 'c
  | CE_UnregisterDescription oef_instance string u32 'c
  | CE_RegisterService oef_instance string u32 'c
  | CE_UnregisterService oef_instance string u32 'c
  | CE_SearchAgents pb_model string u32 'c
  | CE_SearchService pb_model string u32 'c
  | CE_SearchServiceWide pb_model string u32 'c
  | CE_Written nat error_code nat
  | CE_Message

text \<open>
  \<open>CE_Written i ec n\<close> is the completion of the \<open>i\<close>-th write in flight; the communicator
  passes its arguments on (\<open>basic_send_async\<close>).
\<close>

fun client_step ::
  "search_env \<Rightarrow> 'c client_event \<Rightarrow> 'c search_client \<Rightarrow> ('c search_client \<times> 'c search_call list) option" where
  "client_step E (CE_RegisterDescription i a m c) cl = Some (register_description E i a m c cl, [])"
| "client_step E (CE_UnregisterDescription i a m c) cl = Some (unregister_description E i a m c cl, [])"
| "client_step E (CE_RegisterService i a m c) cl = Some (register_service E i a m c cl, [])"
| "client_step E (CE_UnregisterService i a m c) cl = Some (unregister_service E i a m c cl, [])"
| "client_step E (CE_SearchAgents q a m c) cl = Some (search_agents E q a m c cl, [])"
| "client_step E (CE_SearchService q a m c) cl = Some (search_service E q a m c cl, [])"
| "client_step E (CE_SearchServiceWide q a m c) cl = Some (search_service_wide E q a m c cl, [])"
| "client_step E (CE_Written i ec n) cl =
     (if length (sc_writes cl) \<le> i then Some (cl, [])
      else
        let w = sc_writes cl ! i;
            cl1 = cl\<lparr>sc_writes := take i (sc_writes cl) @ drop (Suc i) (sc_writes cl)\<rparr>
        in case basic_send_async ec n of
             None \<Rightarrow> Some (cl1, [])
           | Some (ec', n') \<Rightarrow> Some (write_completed ec' w cl1))"
| "client_step E CE_Message cl = handle_message E cl"

fun client_run ::
  "search_env \<Rightarrow> 'c client_event list \<Rightarrow> 'c search_client \<Rightarrow> ('c search_client \<times> 'c search_call list) option" where
  "client_run E [] cl = Some (cl, [])"
| "client_run E (ev # evs) cl =
     (case client_step E ev cl of
        None \<Rightarrow> None
      | Some (cl1, calls) \<Rightarrow>
          (case client_run E evs cl1 of
             None \<Rightarrow> None
           | Some (cl2, calls2) \<Rightarrow> Some (cl2, calls @ calls2)))"

end
