(* ===== verification/Oef_Agent_Dir.thy ===== *)
theory Oef_Agent_Dir
  imports Oef_Once_Map
begin

text \<open>
  \<open>AgentDirectory\<close> (\<open>lib/include/agent_directory.hpp\<close>): the sessions by the key of their
  agent. A session is the value \<open>'s\<close>; \<open>session\<close> returns a null pointer (\<open>None\<close>) for a key
  that is not there. Each operation is the critical section of its lock.
\<close>

record 's agent_directory =
  ad_sessions :: "(string, 's) umap"

definition dir_empty :: "'s agent_directory" where
  "dir_empty = \<lparr>ad_sessions = []\<rparr>"

definition dir_exist :: "'s agent_directory \<Rightarrow> string \<Rightarrow> bool" where
  "dir_exist d k \<longleftrightarrow> umap_find (ad_sessions d) k \<noteq> None"

definition dir_add :: "string \<Rightarrow> 's \<Rightarrow> 's agent_directory \<Rightarrow> bool \<times> 's agent_directory" where
  "dir_add k s d =
     (if dir_exist d k then (False, d)
      else (True, d\<lparr>ad_sessions := umap_set k s (ad_sessions d)\<rparr>))"

definition dir_remove :: "string \<Rightarrow> 's agent_directory \<Rightarrow> bool \<times> 's agent_directory" where
  "dir_remove k d =
     (umap_find (ad_sessions d) k \<noteq> None, d\<lparr>ad_sessions := umap_erase k (ad_sessions d)\<rparr>)"

definition dir_session :: "'s agent_directory \<Rightarrow> string \<Rightarrow> 's option" where
  "dir_session d k = umap_find (ad_sessions d) k"

definition dir_size :: "'s agent_directory \<Rightarrow> nat" where
  "dir_size d = length (ad_sessions d)"

definition dir_clear :: "'s agent_directory \<Rightarrow> 's agent_directory" where
  "dir_clear d = d\<lparr>ad_sessions := []\<rparr>"

section \<open>Well-formed directories\<close>

definition dir_wf :: "'s agent_directory \<Rightarrow> bool" where
  "dir_wf d \<longleftrightarrow> umap_wf (ad_sessions d)"

lemma dir_wf_empty [simp, intro]: "dir_wf dir_empty"
  by (simp add: dir_wf_def dir_empty_def)

lemma dir_wf_add [intro]: "dir_wf d \<Longrightarrow> dir_wf (snd (dir_add k s d))"
  by (simp add: dir_wf_def dir_add_def)

lemma dir_wf_remove [intro]: "dir_wf d \<Longrightarrow> dir_wf (snd (dir_remove k d))"
  by (simp add: dir_wf_def dir_remove_def)

lemma dir_wf_clear [intro]: "dir_wf (dir_clear d)"
  by (simp add: dir_wf_def dir_clear_def)

lemma dir_size_sessions: "dir_wf d \<Longrightarrow> dir_size d = card (dom (dir_session d))"
  using umap_length_set [of "ad_sessions d"] unfolding dir_wf_def dir_size_def
  by (simp add: dir_session_def [abs_def])

lemma dir_exist_session: "dir_exist d k \<longleftrightarrow> dir_session d k \<noteq> None"
  by (simp add: dir_exist_def dir_session_def)

interpretation dir: once_map dir_add dir_session dir_remove
  by unfold_locales
    (auto simp: dir_add_def dir_session_def dir_remove_def dir_exist_def fun_eq_iff)

lemma dir_session_empty [simp]: "dir_session dir_empty k = None"
  by (simp add: dir_session_def dir_empty_def)

lemma dir_session_clear [simp]: "dir_session (dir_clear d) k = None"
  by (simp add: dir_session_def dir_clear_def)

end
