(* ===== verification/Oef_Client_Msg.thy ===== *)
theory Oef_Client_Msg
  imports Oef_Agent_Proto Oef_Query
begin

text \<open>
  The envelopes an agent sends (\<open>lib/include/clientmsg.hpp\<close>): one constructor per class.
  \<open>CFPType\<close> and \<open>ProposeType\<close> are the two variants declared at the end of \<open>schema.hpp\<close>.
\<close>

datatype cfp_type = CFP_String string | CFP_Query pb_model | CFP_Nullopt

datatype propose_type = Propose_String string | Propose_Instances "oef_instance list"

definition msg_register :: "u32 \<Rightarrow> oef_instance \<Rightarrow> pb_envelope" where
  "msg_register msg_id i =
     \<lparr>ev_msg_id = msg_id, ev_payload = EP_RegisterService \<lparr>ad_description = ins_pb i\<rparr>\<rparr>"

definition msg_unregister :: "u32 \<Rightarrow> oef_instance \<Rightarrow> pb_envelope" where
  "msg_unregister msg_id i =
     \<lparr>ev_msg_id = msg_id, ev_payload = EP_UnregisterService \<lparr>ad_description = ins_pb i\<rparr>\<rparr>"

definition msg_unregister_description :: "u32 \<Rightarrow> pb_envelope" where
  "msg_unregister_description msg_id =
     \<lparr>ev_msg_id = msg_id, ev_payload = EP_UnregisterDescription\<rparr>"

definition msg_search_services :: "u32 \<Rightarrow> pb_model \<Rightarrow> pb_envelope" where
  "msg_search_services msg_id model =
     \<lparr>ev_msg_id = msg_id, ev_payload = EP_SearchServices \<lparr>as_query = model\<rparr>\<rparr>"

definition msg_message :: "u32 \<Rightarrow> u32 \<Rightarrow> string \<Rightarrow> string \<Rightarrow> pb_envelope" where
  "msg_message msg_id dialogueId dest msg =
     \<lparr>ev_msg_id = msg_id,
      ev_payload = EP_SendMessage
        \<lparr>am_dialogue_id = dialogueId, am_destination = dest, am_payload = PL_Content msg\<rparr>\<rparr>"

text \<open>The part the four FIPA classes share.\<close>

definition fipa_envelope :: "u32 \<Rightarrow> u32 \<Rightarrow> string \<Rightarrow> u32 \<Rightarrow> pb_fipa_case \<Rightarrow> pb_envelope" where
  "fipa_envelope msgId dialogueId dest target m =
     \<lparr>ev_msg_id = msgId,
      ev_payload = EP_SendMessage
        \<lparr>am_dialogue_id = dialogueId, am_destination = dest,
         am_payload = PL_Fipa \<lparr>fm_target = target, fm_msg = m\<rparr>\<rparr>\<rparr>"

fun cfp_of :: "cfp_type \<Rightarrow> pb_cfp" where
  "cfp_of (CFP_String content) = Cfp_Content content"
| "cfp_of (CFP_Query q) = Cfp_Query q"
| "cfp_of CFP_Nullopt = Cfp_Nothing"

definition msg_cfp :: "u32 \<Rightarrow> string \<Rightarrow> cfp_type \<Rightarrow> u32 \<Rightarrow> u32 \<Rightarrow> pb_envelope" where
  "msg_cfp dialogueId dest query msgId target =
     fipa_envelope msgId dialogueId dest target (Fipa_Cfp (cfp_of query))"

fun propose_of :: "propose_type \<Rightarrow> pb_propose" where
  "propose_of (Propose_String content) = Prop_Content content"
| "propose_of (Propose_Instances instances) = Prop_Proposals (map ins_pb instances)"

definition msg_propose :: "u32 \<Rightarrow> string \<Rightarrow> propose_type \<Rightarrow> u32 \<Rightarrow> u32 \<Rightarrow> pb_envelope" where
  "msg_propose dialogueId dest proposals msgId target =
     fipa_envelope msgId dialogueId dest target (Fipa_Propose (propose_of proposals))"

definition msg_accept :: "u32 \<Rightarrow> string \<Rightarrow> u32 \<Rightarrow> u32 \<Rightarrow> pb_envelope" where
  "msg_accept dialogueId dest msgId target = fipa_envelope msgId dialogueId dest target Fipa_Accept"

definition msg_decline :: "u32 \<Rightarrow> string \<Rightarrow> u32 \<Rightarrow> u32 \<Rightarrow> pb_envelope" where
  "msg_decline dialogueId dest msgId target = fipa_envelope msgId dialogueId dest target Fipa_Decline"

definition msg_search_agents :: "u32 \<Rightarrow> pb_model \<Rightarrow> pb_envelope" where
  "msg_search_agents search_id model =
     \<lparr>ev_msg_id = search_id, ev_payload = EP_SearchAgents \<lparr>as_query = model\<rparr>\<rparr>"

definition msg_description :: "u32 \<Rightarrow> oef_instance \<Rightarrow> pb_envelope" where
  "msg_description msg_id i =
     \<lparr>ev_msg_id = msg_id, ev_payload = EP_RegisterDescription \<lparr>ad_description = ins_pb i\<rparr>\<rparr>"

lemmas client_msg_defs [oef_defs] = msg_register_def msg_unregister_def msg_unregister_description_def
  msg_search_services_def msg_message_def fipa_envelope_def msg_cfp_def msg_propose_def
  msg_accept_def msg_decline_def msg_search_agents_def msg_description_def

end
