(* ===== verification/Oef_Session.thy ===== *)
theory Oef_Session
  imports Oef_Search_Client Oef_Agent_Dir Oef_Client_Msg
begin

text \<open>
  \<open>AgentSession\<close> (\<open>lib/src/agent_session.cpp\<close>, \<open>lib/include/agent_session.hpp\<close>): what the
  core does for one connected agent. A session is named by the number of its connection.
  The parts of the core that its handlers read and change are the fields of a \<open>node\<close>: the
  directory, the sessions, the search client, the messages handed to \<open>send_async\<close> (in order,
  with the connection they go to), and the lambdas that wait for a forwarded message to be
  written. The lambdas given to the search client are the values of \<open>session_cont\<close>.
\<close>

section \<open>State\<close>

type_synonym conn = nat

record session =
  ses_public_key :: string
  ses_description :: "oef_instance option"

definition session_make :: "string \<Rightarrow> session" where
  "session_make agent_id = \<lparr>ses_public_key = agent_id, ses_description = None\<rparr>"

datatype session_cont =
    SK_RegisterDescription conn u32
  | SK_UnregisterDescription conn u32
  | SK_RegisterService conn u32
  | SK_UnregisterService conn u32
  | SK_SearchAgents conn u32
  | SK_SearchService conn u32
  | SK_SearchServiceWide conn u32

datatype out_msg = Out_Phrase pb_phrase | Out_Connected pb_connected | Out_Server pb_server_msg

text \<open>The lambda of \<open>process_message\<close>: the sending session, \<open>did\<close>, \<open>msg_id\<close> and the destination.\<close>

record forward =
  fw_from :: conn
  fw_did :: u32
  fw_msg_id :: u32
  fw_destination :: string

record node =
  nd_dir :: "conn agent_directory"
  nd_sessions :: "(conn, session) umap"
  nd_search :: "session_cont search_client"
  nd_sent :: "(conn \<times> out_msg) list"
  nd_forwards :: "forward list"

record node_env =
  ne_search :: search_env
  ne_get_envelope :: "pb_envelope parser"
  ne_get_id :: "pb_id parser"
  ne_get_answer :: "pb_answer parser"

definition node_session :: "node \<Rightarrow> conn \<Rightarrow> session" where
  "node_session nd c =
     (case umap_find (nd_sessions nd) c of Some s \<Rightarrow> s | None \<Rightarrow> session_make [])"

definition public_key :: "node \<Rightarrow> conn \<Rightarrow> string" where
  "public_key nd c = ses_public_key (node_session nd c)"

definition set_description :: "conn \<Rightarrow> oef_instance option \<Rightarrow> node \<Rightarrow> node" where
  "set_description c d nd =
     nd\<lparr>nd_sessions := umap_set c ((node_session nd c)\<lparr>ses_description := d\<rparr>) (nd_sessions nd)\<rparr>"

section \<open>Sending\<close>

definition comm_send :: "conn \<Rightarrow> out_msg \<Rightarrow> node \<Rightarrow> node" where
  "comm_send c m nd = nd\<lparr>nd_sent := nd_sent nd @ [(c, m)]\<rparr>"

definition session_send :: "conn \<Rightarrow> pb_server_msg \<Rightarrow> node \<Rightarrow> node" where
  "session_send c m nd = comm_send c (Out_Server m) nd"

definition session_send_then :: "conn \<Rightarrow> pb_server_msg \<Rightarrow> forward \<Rightarrow> node \<Rightarrow> node" where
  "session_send_then c m fw nd =
     (comm_send c (Out_Server m) nd)\<lparr>nd_forwards := nd_forwards nd @ [fw]\<rparr>"

definition send_dialog_error :: "conn \<Rightarrow> u32 \<Rightarrow> u32 \<Rightarrow> string \<Rightarrow> node \<Rightarrow> node" where
  "send_dialog_error c msg_id dialogue_id origin nd =
     session_send c \<lparr>sm_answer_id = msg_id, sm_payload = SP_DialogueError dialogue_id origin\<rparr> nd"

definition send_error :: "conn \<Rightarrow> u32 \<Rightarrow> oef_operation \<Rightarrow> node \<Rightarrow> node" where
  "send_error c msg_id error_op nd =
     session_send c \<lparr>sm_answer_id = msg_id, sm_payload = SP_OefError error_op\<rparr> nd"

section \<open>Requests\<close>

abbreviation with_search ::
  "node \<Rightarrow> (session_cont search_client \<Rightarrow> session_cont search_client) \<Rightarrow> node" where
  "with_search nd f \<equiv> nd\<lparr>nd_search := f (nd_search nd)\<rparr>"

definition process_register_description ::
  "node_env \<Rightarrow> conn \<Rightarrow> u32 \<Rightarrow> pb_description \<Rightarrow> node \<Rightarrow> node" where
  "process_register_description N c msg_id desc nd =
     (let description = instance_of_pb (ad_description desc);
          nd1 = set_description c (Some description) nd
      in with_search nd1 (register_description (ne_search N) description (public_key nd1 c) msg_id
           (SK_RegisterDescription c msg_id)))"

definition process_unregister_description :: "node_env \<Rightarrow> conn \<Rightarrow> u32 \<Rightarrow> node \<Rightarrow> node" where
  "process_unregister_description N c msg_id nd =
     (case ses_description (node_session nd c) of
        None \<Rightarrow> nd
      | Some description \<Rightarrow>
          with_search nd (unregister_description (ne_search N) description (public_key nd c) msg_id
            (SK_UnregisterDescription c msg_id)))"

definition process_register_service ::
  "node_env \<Rightarrow> conn \<Rightarrow> u32 \<Rightarrow> pb_description \<Rightarrow> node \<Rightarrow> node" where
  "process_register_service N c msg_id desc nd =
     (let service_desc = instance_of_pb (ad_description desc)
      in with_search nd (register_service (ne_search N) service_desc (public_key nd c) msg_id
           (SK_RegisterService c msg_id)))"

definition process_unregister_service ::
  "node_env \<Rightarrow> conn \<Rightarrow> u32 \<Rightarrow> pb_description \<Rightarrow> node \<Rightarrow> node" where
  "process_unregister_service N c msg_id desc nd =
     (let service_desc = instance_of_pb (ad_description desc)
      in with_search nd (unregister_service (ne_search N) service_desc (public_key nd c) msg_id
           (SK_UnregisterService c msg_id)))"

definition process_search_agents ::
  "node_env \<Rightarrow> conn \<Rightarrow> u32 \<Rightarrow> pb_search \<Rightarrow> node \<Rightarrow> node" where
  "process_search_agents N c msg_id search nd =
     (let query = query_of_pb (as_query search)
      in with_search nd (search_agents (ne_search N) query (public_key nd c) msg_id
           (SK_SearchAgents c msg_id)))"

definition process_search_service ::
  "node_env \<Rightarrow> conn \<Rightarrow> u32 \<Rightarrow> pb_search \<Rightarrow> node \<Rightarrow> node" where
  "process_search_service N c msg_id search nd =
     (let query = query_of_pb (as_query search)
      in with_search nd (search_service (ne_search N) query (public_key nd c) msg_id
           (SK_SearchService c msg_id)))"

definition process_search_service_wide ::
  "node_env \<Rightarrow> conn \<Rightarrow> u32 \<Rightarrow> pb_search \<Rightarrow> node \<Rightarrow> node" where
  "process_search_service_wide N c msg_id search nd =
     (let query = query_of_pb (as_query search)
      in with_search nd (search_service_wide (ne_search N) query (public_key nd c) msg_id
           (SK_SearchServiceWide c msg_id)))"

text \<open>
  The content of a forwarded message: both branches of the \<open>oneof\<close> move the payload, and a
  message with neither leaves it unset.
\<close>

definition process_message :: "conn \<Rightarrow> u32 \<Rightarrow> pb_agent_msg \<Rightarrow> node \<Rightarrow> node" where
  "process_message c msg_id msg nd =
     (let did = am_dialogue_id msg in
      case dir_session (nd_dir nd) (am_destination msg) of
        None \<Rightarrow> send_dialog_error c msg_id did (am_destination msg) nd
      | Some d \<Rightarrow>
          let content = \<lparr>ct_dialogue_id = did, ct_origin = public_key nd c,
                         ct_payload = (case am_payload msg of
                             PL_Content s \<Rightarrow> PL_Content s
                           | PL_Fipa f \<Rightarrow> PL_Fipa f
                           | PL_NotSet \<Rightarrow> PL_NotSet)\<rparr>
          in session_send_then d \<lparr>sm_answer_id = msg_id, sm_payload = SP_Content content\<rparr>
               \<lparr>fw_from = c, fw_did = did, fw_msg_id = msg_id, fw_destination = am_destination msg\<rparr>
               nd)"

text \<open>The lambda of \<open>process_message\<close>, when the communicator calls it.\<close>

definition forward_written :: "forward \<Rightarrow> error_code \<Rightarrow> nat \<Rightarrow> node \<Rightarrow> node" where
  "forward_written fw ec n nd =
     (if failed ec
      then send_dialog_error (fw_from fw) (fw_msg_id fw) (fw_did fw) (fw_destination fw) nd
      else nd)"

definition process_envelope :: "node_env \<Rightarrow> conn \<Rightarrow> pb_envelope \<Rightarrow> node \<Rightarrow> node" where
  "process_envelope N c envelope nd =
     (let msg_id = ev_msg_id envelope in
      case ev_payload envelope of
        EP_SendMessage m \<Rightarrow> process_message c msg_id m nd
      | EP_RegisterService d \<Rightarrow> process_register_service N c msg_id d nd
      | EP_UnregisterService d \<Rightarrow> process_unregister_service N c msg_id d nd
      | EP_RegisterDescription d \<Rightarrow> process_register_description N c msg_id d nd
      | EP_UnregisterDescription \<Rightarrow> process_unregister_description N c msg_id nd
      | EP_SearchAgents s \<Rightarrow> process_search_agents N c msg_id s nd
      | EP_SearchServices s \<Rightarrow> process_search_service N c msg_id s nd
      | EP_SearchServicesWide s \<Rightarrow> process_search_service_wide N c msg_id s nd
      | EP_NotSet \<Rightarrow> nd)"

definition session_process :: "node_env \<Rightarrow> conn \<Rightarrow> buffer \<Rightarrow> node \<Rightarrow> node" where
  "session_process N c buf nd =
     process_envelope N c (pbs_deserialize (ne_get_envelope N) buf) nd"

text \<open>The handler of \<open>read\<close>: whether it reads again, and the node it leaves.\<close>

definition session_read :: "node_env \<Rightarrow> conn \<Rightarrow> error_code \<Rightarrow> buffer \<Rightarrow> node \<Rightarrow> bool \<times> node" where
  "session_read N c ec buf nd =
     (if failed ec then (False, nd\<lparr>nd_dir := snd (dir_remove (public_key nd c) (nd_dir nd))\<rparr>)
      else (True, session_process N c buf nd))"

definition session_match :: "double fp_ops \<Rightarrow> session \<Rightarrow> pb_model \<Rightarrow> bool" where
  "session_match F s query =
     (case ses_description s of None \<Rightarrow> False | Some d \<Rightarrow> query_check F query d)"

section \<open>Answers of the search client\<close>

fun answer_session :: "session_cont \<Rightarrow> error_code \<Rightarrow> oef_search_response \<Rightarrow> node \<Rightarrow> node" where
  "answer_session (SK_RegisterDescription c msg_id) ec response nd =
     (if failed ec then send_error c msg_id REGISTER_DESCRIPTION nd else nd)"
| "answer_session (SK_UnregisterDescription c msg_id) ec response nd =
     (if failed ec then send_error c msg_id UNREGISTER_DESCRIPTION nd
      else set_description c None nd)"
| "answer_session (SK_RegisterService c msg_id) ec response nd =
     (if failed ec then send_error c msg_id REGISTER_SERVICE nd else nd)"
| "answer_session (SK_UnregisterService c msg_id) ec response nd =
     (if failed ec then send_error c msg_id UNREGISTER_SERVICE nd else nd)"
| "answer_session (SK_SearchAgents c msg_id) ec response nd =
     (if failed ec then send_error c msg_id REGISTER_SERVICE nd
      else session_send c \<lparr>sm_answer_id = msg_id, sm_payload = SP_Agents (osr_agents response)\<rparr> nd)"
| "answer_session (SK_SearchService c msg_id) ec response nd =
     (if failed ec then send_error c msg_id REGISTER_SERVICE nd
      else session_send c \<lparr>sm_answer_id = msg_id, sm_payload = SP_Agents (osr_agents response)\<rparr> nd)"
| "answer_session (SK_SearchServiceWide c msg_id) ec response nd =
     (if failed ec then send_error c msg_id REGISTER_SERVICE nd
      else session_send c
        \<lparr>sm_answer_id = msg_id, sm_payload = SP_AgentsWide (osr_search_result_wide response)\<rparr> nd)"

fun answer_calls :: "session_cont search_call list \<Rightarrow> node \<Rightarrow> node" where
  "answer_calls [] nd = nd"
| "answer_calls ((Registered k, ec, r) # calls) nd = answer_calls calls (answer_session k ec r nd)"
| "answer_calls ((No_handle i, ec, r) # calls) nd = answer_calls calls nd"

text \<open>
  An event of the search client's connection: the client moves and the continuations it
  calls run. \<open>None\<close> is undefined behaviour.
\<close>

definition node_search_event :: "node_env \<Rightarrow> session_cont client_event \<Rightarrow> node \<Rightarrow> node option" where
  "node_search_event N ev nd =
     (case client_step (ne_search N) ev (nd_search nd) of
        None \<Rightarrow> None
      | Some (cl, calls) \<Rightarrow> Some (answer_calls calls (nd\<lparr>nd_search := cl\<rparr>)))"

lemmas session_request_defs = process_register_description_def process_unregister_description_def
  process_register_service_def process_unregister_service_def process_search_agents_def
  process_search_service_def process_search_service_wide_def process_message_def

lemmas send_defs = comm_send_def session_send_def session_send_then_def send_dialog_error_def
  send_error_def

end
