(* ===== verification/Oef_Server.thy ===== *)
theory Oef_Server
  imports Oef_Session
begin

text \<open>
  \<open>CoreServer\<close> (\<open>lib/src/core_server.cpp\<close>, \<open>lib/include/core_server.hpp\<close>) and \<open>AsioAcceptor\<close>
  (\<open>lib/src/asio_acceptor.cpp\<close>): accepting connections, the handshake, and the event loop.

  Connections are numbered in the order they are accepted. What the next completion of a
  connection's receive runs is its \<open>conn_state\<close>: the lambda of \<open>newSession\<close>, that of
  \<open>secretHandshake\<close> (with the key it captured), that of \<open>AgentSession::read\<close>, or nothing.
  Completions are the steps of the relation \<open>server_step\<close>; they come in any order the
  operations in flight allow. The program runs the loop in one thread
  (\<open>run_in_thread\<close>), so a handler is atomic.
\<close>

section \<open>State\<close>

datatype conn_state = CS_AwaitId | CS_AwaitAnswer string | CS_Reading | CS_Closed

record server =
  sv_node :: node
  sv_conns :: "(conn, conn_state) umap"
  sv_next :: conn
  sv_accepts :: nat

definition server_make :: "string \<Rightarrow> string \<Rightarrow> u32 \<Rightarrow> stream \<Rightarrow> server" where
  "server_make core_key core_ip_addr core_port s =
     \<lparr>sv_node = \<lparr>nd_dir = dir_empty, nd_sessions = [],
                 nd_search = search_client_make core_key core_ip_addr core_port s,
                 nd_sent = [], nd_forwards = []\<rparr>,
      sv_conns = [], sv_next = 0, sv_accepts = 0\<rparr>"

definition set_conn :: "conn \<Rightarrow> conn_state \<Rightarrow> server \<Rightarrow> server" where
  "set_conn c st s = s\<lparr>sv_conns := umap_set c st (sv_conns s)\<rparr>"

abbreviation conn_of :: "server \<Rightarrow> conn \<Rightarrow> conn_state option" where
  "conn_of s c \<equiv> umap_find (sv_conns s) c"

definition server_send :: "conn \<Rightarrow> out_msg \<Rightarrow> server \<Rightarrow> server" where
  "server_send c m s = s\<lparr>sv_node := comm_send c m (sv_node s)\<rparr>"

section \<open>The handshake\<close>

definition secret_handshake :: "conn \<Rightarrow> string \<Rightarrow> server \<Rightarrow> server" where
  "secret_handshake c publicKey s =
     set_conn c (CS_AwaitAnswer publicKey)
       (server_send c (Out_Phrase (Ph_Phrase ''RandomlyGeneratedString'')) s)"

definition new_session :: "server \<Rightarrow> server" where
  "new_session s = (set_conn (sv_next s) CS_AwaitId s)\<lparr>sv_next := Suc (sv_next s)\<rparr>"

text \<open>The lambda of \<open>newSession\<close>. Parsing does not throw, so its \<open>catch\<close> is not reached.\<close>

definition id_received :: "node_env \<Rightarrow> conn \<Rightarrow> error_code \<Rightarrow> buffer \<Rightarrow> server \<Rightarrow> server" where
  "id_received N c ec buf s =
     (if failed ec then set_conn c CS_Closed s
      else
        let publicKey = id_public_key (pbs_deserialize (ne_get_id N) buf)
        in if \<not> dir_exist (nd_dir (sv_node s)) publicKey then secret_handshake c publicKey s
           else set_conn c CS_Closed (server_send c (Out_Phrase Ph_Failure) s))"

text \<open>The lambda of \<open>secretHandshake\<close>.\<close>

definition answer_received ::
  "node_env \<Rightarrow> conn \<Rightarrow> string \<Rightarrow> error_code \<Rightarrow> buffer \<Rightarrow> server \<Rightarrow> server" where
  "answer_received N c publicKey ec buf s =
     (if failed ec then set_conn c CS_Closed s
      else
        let ans = pbs_deserialize (ne_get_answer N) buf;
            session = session_make publicKey;
            (added, dir) = dir_add publicKey c (nd_dir (sv_node s))
        in if added then
             let nd = (sv_node s)\<lparr>nd_dir := dir, nd_sessions := umap_set c session (nd_sessions (sv_node s))\<rparr>;
                 s1 = set_conn c CS_Reading (s\<lparr>sv_node := nd\<rparr>)
             in server_send c (Out_Connected \<lparr>cn_status = True\<rparr>) s1
           else set_conn c CS_Closed (server_send c (Out_Connected \<lparr>cn_status = False\<rparr>) s))"

text \<open>The handler of \<open>AgentSession::read\<close>.\<close>

definition message_received :: "node_env \<Rightarrow> conn \<Rightarrow> error_code \<Rightarrow> buffer \<Rightarrow> server \<Rightarrow> server" where
  "message_received N c ec buf s =
     (let (again, nd) = session_read N c ec buf (sv_node s); s1 = s\<lparr>sv_node := nd\<rparr>
      in if again then s1 else set_conn c CS_Closed s1)"

section \<open>Accepting\<close>

definition do_accept :: "server \<Rightarrow> server" where
  "do_accept s = s\<lparr>sv_accepts := Suc (sv_accepts s)\<rparr>"

text \<open>The lambda of \<open>CoreServer::do_accept\<close>, and the acceptor's handler around it.\<close>

definition accept_continuation :: "error_code \<Rightarrow> server \<Rightarrow> server" where
  "accept_continuation ec s = (if \<not> failed ec then do_accept (new_session s) else s)"

definition acceptor_completed ::
  "(error_code \<Rightarrow> server \<Rightarrow> server) \<Rightarrow> error_code \<Rightarrow> server \<Rightarrow> server" where
  "acceptor_completed continuation ec s = (if failed ec then s else continuation ec s)"

text \<open>\<open>run\<close> starts one accept per thread, \<open>run_in_thread\<close> one.\<close>

definition server_run :: "nat \<Rightarrow> server \<Rightarrow> server" where
  "server_run nbThreads s = (do_accept ^^ nbThreads) s"

definition server_run_in_thread :: "server \<Rightarrow> server" where
  "server_run_in_thread s = do_accept s"

definition server_nb_agents :: "server \<Rightarrow> nat" where
  "server_nb_agents s = dir_size (nd_dir (sv_node s))"

definition server_destroy :: "server \<Rightarrow> server" where
  "server_destroy s = s\<lparr>sv_node := (sv_node s)\<lparr>nd_dir := dir_clear (nd_dir (sv_node s))\<rparr>\<rparr>"

section \<open>The event loop\<close>

text \<open>The completion of the \<open>i\<close>-th forwarded message.\<close>

definition forward_completed :: "nat \<Rightarrow> error_code \<Rightarrow> nat \<Rightarrow> node \<Rightarrow> node" where
  "forward_completed i ec n nd =
     (let fw = nd_forwards nd ! i;
          nd1 = nd\<lparr>nd_forwards := take i (nd_forwards nd) @ drop (Suc i) (nd_forwards nd)\<rparr>
      in case comm_send_async ec n of
           None \<Rightarrow> nd1
         | Some (ec', n') \<Rightarrow> forward_written fw ec' n' nd1)"

datatype server_event =
    SE_Accept error_code
  | SE_Receive conn error_code buffer
  | SE_Forwarded nat error_code nat
  | SE_SearchWritten nat error_code nat
  | SE_SearchMessage

inductive server_step :: "node_env \<Rightarrow> server \<Rightarrow> server_event \<Rightarrow> server \<Rightarrow> bool" where
  step_accept:
    "0 < sv_accepts s \<Longrightarrow>
     server_step N s (SE_Accept ec)
       (acceptor_completed accept_continuation ec (s\<lparr>sv_accepts := sv_accepts s - 1\<rparr>))"
| step_id:
    "conn_of s c = Some CS_AwaitId \<Longrightarrow>
     server_step N s (SE_Receive c ec buf) (id_received N c ec buf s)"
| step_answer:
    "conn_of s c = Some (CS_AwaitAnswer k) \<Longrightarrow>
     server_step N s (SE_Receive c ec buf) (answer_received N c k ec buf s)"
| step_message:
    "conn_of s c = Some CS_Reading \<Longrightarrow>
     server_step N s (SE_Receive c ec buf) (message_received N c ec buf s)"
| step_forwarded:
    "i < length (nd_forwards (sv_node s)) \<Longrightarrow>
     server_step N s (SE_Forwarded i ec n) (s\<lparr>sv_node := forward_completed i ec n (sv_node s)\<rparr>)"
| step_search_written:
    "i < length (sc_writes (nd_search (sv_node s))) \<Longrightarrow>
     node_search_event N (CE_Written i ec n) (sv_node s) = Some nd \<Longrightarrow>
     server_step N s (SE_SearchWritten i ec n) (s\<lparr>sv_node := nd\<rparr>)"
| step_search_message:
    "sc_listening (nd_search (sv_node s)) \<Longrightarrow>
     node_search_event N CE_Message (sv_node s) = Some nd \<Longrightarrow>
     server_step N s SE_SearchMessage (s\<lparr>sv_node := nd\<rparr>)"

inductive_cases accept_stepE: "server_step N s (SE_Accept ec) s'"
inductive_cases receive_stepE: "server_step N s (SE_Receive c ec buf) s'"
inductive_cases forwarded_stepE: "server_step N s (SE_Forwarded i ec n) s'"
inductive_cases search_written_stepE: "server_step N s (SE_SearchWritten i ec n) s'"
inductive_cases search_message_stepE: "server_step N s SE_SearchMessage s'"

inductive_simps accept_step_iff: "server_step N s (SE_Accept ec) s'"

inductive server_steps :: "node_env \<Rightarrow> server \<Rightarrow> server_event list \<Rightarrow> server \<Rightarrow> bool" where
  steps_nil: "server_steps N s [] s"
| steps_cons: "server_step N s ev s1 \<Longrightarrow> server_steps N s1 evs s2 \<Longrightarrow> server_steps N s (ev # evs) s2"

inductive_cases steps_nilE: "server_steps N s [] s'"
inductive_cases steps_consE: "server_steps N s (ev # evs) s'"

definition server_reachable :: "node_env \<Rightarrow> server \<Rightarrow> bool" where
  "server_reachable N s \<longleftrightarrow>
     (\<exists>key ip port strm threads evs.
        server_steps N (server_run threads (server_make key ip port strm)) evs s)"

end
