(* ===== verification/Oef_Search_Facts.thy ===== *)
theory Oef_Search_Facts
  imports Oef_Search_Client
begin

text \<open>
  What holds of the search client: the message ids it puts on the wire and reads back, the
  life of a continuation, the contents of the answers, the wire format, and the network
  address in the updates.
\<close>

section \<open>Message ids\<close>

definition handle_key :: "search_env \<Rightarrow> string \<Rightarrow> u32 \<Rightarrow> u32" where
  "handle_key E agent msg_id = ucast (generate_smsg_id E agent msg_id)"

lemma ucast_xor: "(ucast (Bit_Operations.xor (a :: u64) b) :: u32) = Bit_Operations.xor (ucast a) (ucast b)"
  by (rule bit_word_eqI) (auto simp: bit_simps)

lemma ucast_up_down: "(ucast (ucast (w :: u32) :: u64) :: u32) = w"
  by (rule bit_word_eqI) (auto simp: bit_simps)

lemma take_bit_minus_one: "take_bit n (take_bit m (k :: int) - 1) = take_bit n (k - 1)" if "n \<le> m"
  using that by (metis min.absorb1 take_bit_diff take_bit_take_bit)

lemma ucast_minus_one: "(ucast ((w :: u64) - 1) :: u32) = ucast w - 1"
  by transfer (simp add: take_bit_minus_one)

lemma header_id_key: "(ucast (th_id (generate_header uri k) - 1) :: u32) = k"
proof -
  have "(ucast (ucast (k + 1) - 1 :: u64) :: u32) = ucast (ucast (k + 1) :: u64) - 1"
    by (rule ucast_minus_one)
  then show ?thesis
    by (simp add: generate_header_def ucast_up_down)
qed

lemma xor_cancel_word: "Bit_Operations.xor (a :: 'a::len word) b = Bit_Operations.xor c d
  \<longleftrightarrow> Bit_Operations.xor a c = Bit_Operations.xor b d"
  by (auto simp: bit_eq_iff bit_simps)

lemma handle_key_xor:
  "handle_key E agent m = Bit_Operations.xor (ucast (se_hash E agent)) (push_bit 1 m)"
  by (simp add: handle_key_def generate_smsg_id_def ucast_xor ucast_up_down)

lemma xor_left_eq: "Bit_Operations.xor (a :: 'a::len word) b = Bit_Operations.xor a c \<longleftrightarrow> b = c"
  by (auto simp: bit_eq_iff bit_simps)

lemma push_bit_u32_eq: "push_bit k (m :: u32) = push_bit k n \<longleftrightarrow> take_bit (32 - k) m = take_bit (32 - k) n"
proof
  assume eq: "push_bit k m = push_bit k n"
  show "take_bit (32 - k) m = take_bit (32 - k) n"
  proof (rule bit_word_eqI)
    fix i :: nat
    from eq have "bit (push_bit k m) (i + k) = bit (push_bit k n) (i + k)" by simp
    then show "bit (take_bit (32 - k) m) i = bit (take_bit (32 - k) n) i"
      by (auto simp: bit_simps)
  qed
next
  assume eq: "take_bit (32 - k) m = take_bit (32 - k) n"
  show "push_bit k m = push_bit k n"
  proof (rule bit_word_eqI)
    fix i :: nat
    assume "i < LENGTH(32)"
    moreover from eq have "bit (take_bit (32 - k) m) (i - k) = bit (take_bit (32 - k) n) (i - k)" by simp
    ultimately show "bit (push_bit k m) i = bit (push_bit k n) i"
      by (auto simp: bit_simps)
  qed
qed

text \<open>
  The id in a header the client sends is mapped back to the key of its handle,
  wrap-around included; two messages of one agent get the same key exactly when their
  ids agree in the low 31 bits, and of two agents when the hashes differ by the xor of
  the shifted ids.
\<close>

lemma message_ids:
  "ucast (th_id (generate_header uri (handle_key E agent m)) - 1) = handle_key E agent m
   \<and> (handle_key E agent m = handle_key E agent n \<longleftrightarrow> take_bit 31 m = take_bit 31 n)
   \<and> (handle_key E agent m = handle_key E agent' n \<longleftrightarrow>
        (ucast (Bit_Operations.xor (se_hash E agent) (se_hash E agent')) :: u32)
          = push_bit 1 (Bit_Operations.xor m n))"
proof (intro conjI)
  show "ucast (th_id (generate_header uri (handle_key E agent m)) - 1) = handle_key E agent m"
    by (rule header_id_key)
  show "handle_key E agent m = handle_key E agent n \<longleftrightarrow> take_bit 31 m = take_bit 31 n"
    unfolding handle_key_xor xor_left_eq push_bit_u32_eq by simp
  show "handle_key E agent m = handle_key E agent' n \<longleftrightarrow>
     (ucast (Bit_Operations.xor (se_hash E agent) (se_hash E agent')) :: u32)
       = push_bit 1 (Bit_Operations.xor m n)"
    unfolding handle_key_xor ucast_xor push_bit_xor by (rule xor_cancel_word)
qed

section \<open>An example\<close>

text \<open>
  An environment whose printers and parsers agree on one header, and a client, to apply the
  theorems below to.
\<close>

definition example_header :: transport_header where
  "example_header = generate_header ''search'' 6"

definition example_env :: search_env where
  "example_env =
     \<lparr>se_endian = LittleEndian, se_hash = (\<lambda>agent. 0), se_put_header = (\<lambda>h. [1, 2]),
      se_put_update = (\<lambda>m. [3]), se_put_remove = (\<lambda>m. [4]), se_put_query = (\<lambda>m. [5]),
      se_get_header = (\<lambda>bs. (bs = [1, 2], example_header)),
      se_get_update_response =
        (\<lambda>bs. (True, \<lparr>ur_status = UR_SUCCESS, ur_message = [], ur_narrative = []\<rparr>)),
      se_get_remove_response =
        (\<lambda>bs. (True, \<lparr>rr_status = RR_SUCCESS, rr_message = [], rr_narrative = []\<rparr>)),
      se_get_search_response =
        (\<lambda>bs. (True, \<lparr>sr_result = [\<lparr>ri_key = ''core'', ri_ip = ''127.0.0.1'', ri_port = 3333,
           ri_info = [], ri_distance = dbl_zero,
           ri_agents = [\<lparr>ra_key = ''alice'', ra_score = dbl_zero\<rparr>, \<lparr>ra_key = ''bob'', ra_score = dbl_zero\<rparr>]\<rparr>]\<rparr>))\<rparr>"

definition example_client :: "buffer \<Rightarrow> nat search_client" where
  "example_client bs = search_client_make ''core'' ''127.0.0.1'' 3333 \<lparr>st_in = bs, st_end = 2\<rparr>"

definition example_write :: "nat \<Rightarrow> nat pending_write" where
  "example_write c =
     \<lparr>pw_bytes = None, pw_smsg_id = 6, pw_operation = ''search-local'', pw_continuation = c,
      pw_msg_id = 3, pw_agent = ''alice''\<rparr>"

definition example_handle :: "nat msg_handle" where
  "example_handle = \<lparr>mh_operation = ''search-local'', mh_continuation = Registered 1,
     mh_amsg_id = 3, mh_agent_id = ''alice''\<rparr>"

lemmas example_defs = example_header_def example_env_def example_client_def example_write_def
  example_handle_def search_client_make_def

section \<open>The life of a continuation\<close>

lemma schedule_rcv_callback_handles:
  "sc_handles (schedule_rcv_callback k op c m a cl) =
     snd (msg_handle_save k \<lparr>mh_operation = op, mh_continuation = Registered c,
            mh_amsg_id = m, mh_agent_id = a\<rparr> (sc_handles cl))"
  by (simp add: schedule_rcv_callback_def case_prod_unfold Let_def)

lemma process_search_handles:
  "sc_handles (fst (process_search_message E hdr p cl)) =
     umap_erase (ucast (th_id hdr - 1)) (sc_handles cl)"
  by (simp add: process_search_message_def case_prod_unfold Let_def msg_handle_erase_def
      split: option.splits)

lemma process_search_cont:
  "fst (snd (process_search_message E hdr p cl)) =
     mh_continuation (msg_handle_get (ucast (th_id hdr - 1)) (sc_handles cl))"
  by (simp add: process_search_message_def case_prod_unfold Let_def split: option.splits)

lemma get_found: "umap_find hs k = Some h \<Longrightarrow> msg_handle_get k hs = h"
  by (simp add: msg_handle_get_def)

lemma get_missing: "umap_find hs k = None \<Longrightarrow> mh_continuation (msg_handle_get k hs) = No_handle k"
  by (simp add: msg_handle_get_def msg_handle_default_def)

lemma save_fresh:
  "umap_find hs k = None \<Longrightarrow> umap_find (snd (msg_handle_save k h hs)) = (umap_find hs)(k \<mapsto> h)"
  by (rule handles.add_fresh)

lemma save_taken:
  "umap_find hs k = Some h' \<Longrightarrow> umap_find (snd (msg_handle_save k h hs)) = umap_find hs"
  by (rule handles.add_taken)

text \<open>
  C13: When no handle waits under the key of a request, then after its write completes
  successfully the first answer with its id calls that request's continuation and leaves
  all other handles, and a second answer with the id only reaches the default handle. (A
  request whose key is taken is forgotten, see colliding_request_forgotten.)
\<close>

theorem answer_reaches_its_request:
  assumes "umap_find (sc_handles cl) (ucast (pw_smsg_id w)) = None"
    and "th_id hdr = th_id (generate_header uri (ucast (pw_smsg_id w)))"
    and "th_id hdr' = th_id hdr"
  shows "let (cl1, calls) = write_completed No_error w cl;
             (cl2, call) = process_search_message E hdr payload cl1;
             (cl3, call') = process_search_message E hdr' payload' cl2
         in calls = [] \<and> fst call = Registered (pw_continuation w)
            \<and> umap_find (sc_handles cl2) = umap_find (sc_handles cl)
            \<and> fst call' = No_handle (ucast (pw_smsg_id w))"
proof -
  let ?k = "ucast (pw_smsg_id w) :: u32"
  have k: "ucast (th_id hdr - 1) = ?k" "ucast (th_id hdr' - 1) = ?k"
    using header_id_key [of uri ?k] assms(2,3) by simp_all
  show ?thesis
    using assms(1)
    by (simp add: write_completed_def schedule_rcv_callback_handles process_search_handles
        process_search_cont k save_fresh get_missing get_found fun_eq_iff case_prod_unfold Let_def)
qed

theorem answer_reaches_its_request_witness:
  "let (cl1, calls) = write_completed No_error (example_write 1) (example_client []);
       (cl2, call) = process_search_message example_env example_header None cl1;
       (cl3, call') = process_search_message example_env example_header None cl2
   in calls = [] \<and> fst call = Registered 1
      \<and> umap_find (sc_handles cl2) = umap_find (sc_handles (example_client []))
      \<and> fst call' = No_handle 6"
  using answer_reaches_its_request [of "example_client []" "example_write 1" example_header
      "''search''" example_header example_env None None]
  by (simp add: example_defs)

text \<open>
  An answer that is processed before the completion handler of its own write only
  reaches the default handle, and the request's handle then stays in the table.
\<close>

lemma answer_before_completion_lost:
  assumes "umap_find (sc_handles cl) (ucast (pw_smsg_id w)) = None"
    and "th_id hdr = th_id (generate_header uri (ucast (pw_smsg_id w)))"
  shows "let (cl1, call) = process_search_message E hdr payload cl;
             (cl2, calls) = write_completed No_error w cl1
         in fst call = No_handle (ucast (pw_smsg_id w)) \<and> calls = []
            \<and> (\<exists>h. umap_find (sc_handles cl2) (ucast (pw_smsg_id w)) = Some h
                   \<and> mh_continuation h = Registered (pw_continuation w))"
proof -
  let ?k = "ucast (pw_smsg_id w) :: u32"
  have k: "ucast (th_id hdr - 1) = ?k"
    using header_id_key [of uri ?k] assms(2) by simp
  show ?thesis
    using assms(1)
    by (simp add: write_completed_def schedule_rcv_callback_handles process_search_handles
        process_search_cont k save_fresh get_missing case_prod_unfold Let_def)
qed

lemma answer_before_completion_lost_witness:
  "let (cl1, call) = process_search_message example_env example_header None (example_client []);
       (cl2, calls) = write_completed No_error (example_write 1) cl1
   in fst call = No_handle 6 \<and> calls = []
      \<and> (\<exists>h. umap_find (sc_handles cl2) 6 = Some h \<and> mh_continuation h = Registered 1)"
  using answer_before_completion_lost [of "example_client []" "example_write 1" example_header
      "''search''" example_env None]
  by (simp add: example_defs)

text \<open>
  A request whose key is already taken is not saved, and its answer calls the
  continuation of the other request.
\<close>

lemma colliding_request_forgotten:
  assumes "(ucast (pw_smsg_id w') :: u32) = ucast (pw_smsg_id w)"
    and "umap_find (sc_handles cl) (ucast (pw_smsg_id w)) = None"
    and "th_id hdr = th_id (generate_header uri (ucast (pw_smsg_id w')))"
  shows "let (cl1, calls1) = write_completed No_error w cl;
             (cl2, calls2) = write_completed No_error w' cl1;
             (cl3, call) = process_search_message E hdr payload cl2
         in calls1 = [] \<and> calls2 = [] \<and> sc_handles cl2 = sc_handles cl1
            \<and> fst call = Registered (pw_continuation w)"
proof -
  let ?k = "ucast (pw_smsg_id w) :: u32"
  have k: "ucast (th_id hdr - 1) = ?k"
    using header_id_key [of uri "ucast (pw_smsg_id w')"] assms(1,3) by simp
  have taken: "umap_find hs j = Some h' \<Longrightarrow> snd (msg_handle_save j h hs) = hs"
    for j and h h' :: "'a msg_handle" and hs
    by (simp add: msg_handle_save_def)
  show ?thesis
    using assms(1,2)
    by (simp add: write_completed_def schedule_rcv_callback_handles
        process_search_cont k save_fresh get_found taken case_prod_unfold Let_def)
qed

lemma colliding_request_forgotten_witness:
  "let (cl1, calls1) = write_completed No_error (example_write 1) (example_client []);
       (cl2, calls2) = write_completed No_error (example_write 2) cl1;
       (cl3, call) = process_search_message example_env example_header None cl2
   in calls1 = [] \<and> calls2 = [] \<and> sc_handles cl2 = sc_handles cl1 \<and> fst call = Registered 1"
  using colliding_request_forgotten [of "example_write 2" "example_write 1" "example_client []"
      example_header "''search''" example_env None]
  by (simp add: example_defs)

section \<open>Conservation of continuations\<close>

text \<open>
  The continuations a list of handlers, the writes in flight, the handle table, the calls
  and the requests of an event hold, counted with multiplicity.
\<close>

fun registered :: "'c handler \<Rightarrow> 'c multiset" where
  "registered (Registered c) = {#c#}"
| "registered (No_handle k) = {#}"

fun table_conts :: "'c handles \<Rightarrow> 'c multiset" where
  "table_conts [] = {#}"
| "table_conts ((k, h) # hs) = registered (mh_continuation h) + table_conts hs"

fun called :: "'c search_call list \<Rightarrow> 'c multiset" where
  "called [] = {#}"
| "called ((h, ec, r) # calls) = registered h + called calls"

definition waiting :: "'c search_client \<Rightarrow> 'c multiset" where
  "waiting cl = image_mset pw_continuation (mset (sc_writes cl)) + table_conts (sc_handles cl)"

fun issued :: "'c client_event \<Rightarrow> 'c multiset" where
  "issued (CE_RegisterDescription i a m c) = {#c#}"
| "issued (CE_UnregisterDescription i a m c) = {#c#}"
| "issued (CE_RegisterService i a m c) = {#c#}"
| "issued (CE_UnregisterService i a m c) = {#c#}"
| "issued (CE_SearchAgents q a m c) = {#c#}"
| "issued (CE_SearchService q a m c) = {#c#}"
| "issued (CE_SearchServiceWide q a m c) = {#c#}"
| "issued (CE_Written i ec n) = {#}"
| "issued CE_Message = {#}"

lemma called_append [simp]: "called (xs @ ys) = called xs + called ys"
  by (induction xs rule: called.induct) (simp_all add: ac_simps)

lemma table_conts_update: "umap_find hs k = None \<Longrightarrow>
    table_conts (umap_set k h hs) = table_conts hs + registered (mh_continuation h)"
  by (induction hs rule: table_conts.induct) (auto split: if_splits)

lemma table_conts_delete: "table_conts (umap_erase k hs) \<subseteq># table_conts hs"
  by (induction hs rule: table_conts.induct)
    (auto simp: delete_simps subset_mset.add_left_mono intro: subset_mset.order_trans)

lemma table_conts_save:
  "table_conts (snd (msg_handle_save k h hs)) \<subseteq># table_conts hs + registered (mh_continuation h)"
  by (auto simp: msg_handle_save_def table_conts_update)

lemma table_conts_save_reg:
  "mh_continuation h = Registered c \<Longrightarrow>
     table_conts (snd (msg_handle_save k h hs)) \<subseteq># add_mset c (table_conts hs)"
  using table_conts_save [of k h hs] by simp

lemma table_conts_get_erase:
  "registered (mh_continuation (msg_handle_get k hs)) + table_conts (umap_erase k hs) \<subseteq># table_conts hs"
proof (induction hs rule: table_conts.induct)
  case 1
  then show ?case by (simp add: msg_handle_get_def msg_handle_default_def)
next
  case (2 k' h hs)
  show ?case
  proof (cases "k' = k")
    case True
    then show ?thesis by (simp add: msg_handle_get_def delete_simps table_conts_delete)
  next
    case False
    then have "msg_handle_get k ((k', h) # hs) = msg_handle_get k hs"
      by (simp add: msg_handle_get_def)
    with 2 False show ?thesis
      by (simp add: delete_simps ac_simps)
  qed
qed

lemma begin_write_waiting [simp]:
  "waiting (begin_write b k op c m a cl) = waiting cl + {#c#}"
  by (simp add: waiting_def begin_write_def)

lemma generate_update_frame:
  "sc_writes (snd (generate_update i a cl)) = sc_writes cl"
  "sc_handles (snd (generate_update i a cl)) = sc_handles cl"
  "sc_listening (snd (generate_update i a cl)) = sc_listening cl"
  "sc_in (snd (generate_update i a cl)) = sc_in cl"
  by (simp_all add: generate_update_def generate_update_add_naddr_def Let_def)

lemma operations_waiting:
  "waiting (register_service E i a m c cl) = waiting cl + {#c#}"
  "waiting (unregister_service E i a m c cl) = waiting cl + {#c#}"
  "waiting (search_service E q a m c cl) = waiting cl + {#c#}"
  "waiting (search_service_wide E q a m c cl) = waiting cl + {#c#}"
  by (simp_all add: register_service_def unregister_service_def search_service_def
      search_service_wide_def case_prod_unfold Let_def)
    (simp add: waiting_def generate_update_frame)

lemma write_completed_waiting:
  "called (snd (write_completed ec w cl)) + waiting (fst (write_completed ec w cl))
     \<subseteq># waiting cl + {#pw_continuation w#}"
  by (simp add: write_completed_def waiting_def schedule_rcv_callback_def table_conts_save_reg
      case_prod_unfold Let_def)

lemma handle_message_waiting:
  fixes cl :: "'a search_client"
  assumes "handle_message E cl = Some (cl', calls)"
  shows "called calls + waiting cl' \<subseteq># waiting cl"
proof -
  have p: "called [snd (process_search_message E hdr p c)] + waiting (fst (process_search_message E hdr p c))
      \<subseteq># waiting c" for hdr p and c :: "'a search_client"
  proof -
    let ?r = "process_search_message E hdr p c"
    have w: "sc_writes (fst ?r) = sc_writes c"
      by (simp add: process_search_message_def case_prod_unfold Let_def split: option.splits)
    have "called [snd ?r] = registered (fst (snd ?r))"
      by (cases "snd ?r") auto
    with w table_conts_get_erase show ?thesis
      by (simp add: waiting_def process_search_handles process_search_cont ac_simps)
  qed
  have q: "waiting (cl\<lparr>sc_in := s\<rparr>) = waiting cl" "waiting (cl\<lparr>sc_in := s, sc_listening := b\<rparr>) = waiting cl"
    for s b by (simp_all add: waiting_def)
  show ?thesis
    using assms p [of _ _ "cl\<lparr>sc_in := _\<rparr>"]
    by (auto simp: handle_message_def q case_prod_unfold Let_def
        split: if_splits receive_outcome.splits)
qed

lemma client_step_waiting:
  assumes "client_step E ev cl = Some (cl', calls)"
  shows "called calls + waiting cl' \<subseteq># waiting cl + issued ev"
proof (cases ev)
  case (CE_Written i ec n)
  show ?thesis
  proof (cases "length (sc_writes cl) \<le> i")
    case True
    with assms CE_Written show ?thesis by simp
  next
    case False
    let ?ws = "sc_writes cl" and ?cl1 = "cl\<lparr>sc_writes := take i (sc_writes cl) @ drop (Suc i) (sc_writes cl)\<rparr>"
    have "mset ?ws = mset (take i ?ws @ ?ws ! i # drop (Suc i) ?ws)"
      using False by (simp add: id_take_nth_drop [symmetric])
    then have "waiting cl = waiting ?cl1 + {#pw_continuation (?ws ! i)#}"
      by (simp add: waiting_def)
    moreover have "write_completed ec (?ws ! i) ?cl1 = (cl', calls)"
      using assms CE_Written False by (simp add: basic_send_async_def Let_def)
    ultimately show ?thesis
      using write_completed_waiting [of ec "?ws ! i" ?cl1] CE_Written by simp
  qed
qed (use assms in \<open>auto simp: operations_waiting register_description_def unregister_description_def
      search_agents_def dest: handle_message_waiting\<close>)

text \<open>
  C7: In any run of the search client, the continuations called together with those
  still waiting are, with multiplicity, among those that were waiting or were issued: no
  request is answered twice and none is answered that was not made.
\<close>

theorem continuations_conserved:
  assumes "client_run E evs cl = Some (cl', calls)"
  shows "called calls + waiting cl' \<subseteq># waiting cl + (\<Sum>ev \<leftarrow> evs. issued ev)"
  using assms
proof (induction evs arbitrary: cl calls)
  case Nil
  then show ?case by simp
next
  case (Cons ev evs)
  from Cons.prems obtain cl1 calls1 calls2 where
    r: "client_step E ev cl = Some (cl1, calls1)" "client_run E evs cl1 = Some (cl', calls2)"
      "calls = calls1 @ calls2"
    by (auto split: option.splits)
  have "called calls + waiting cl' = called calls1 + (called calls2 + waiting cl')"
    by (simp add: r(3) ac_simps)
  also have "\<dots> \<subseteq># called calls1 + (waiting cl1 + (\<Sum>ev \<leftarrow> evs. issued ev))"
    using Cons.IH [OF r(2)] by (rule subset_mset.add_left_mono)
  also have "\<dots> = (called calls1 + waiting cl1) + (\<Sum>ev \<leftarrow> evs. issued ev)"
    by (simp add: ac_simps)
  also have "\<dots> \<subseteq># (waiting cl + issued ev) + (\<Sum>ev \<leftarrow> evs. issued ev)"
    using client_step_waiting [OF r(1)] by (rule subset_mset.add_right_mono)
  finally show ?case by (simp add: ac_simps)
qed

theorem continuations_conserved_witness:
  "\<exists>cl' calls. client_run example_env
       [CE_SearchAgents \<lparr>pm_constraints = [], pm_model = None\<rparr> ''alice'' 3 1, CE_Written 0 (Errno 32) 0]
       (example_client []) = Some (cl', calls)
     \<and> calls = [(Registered 1, Errno 32, osr_nothing)]
     \<and> called calls + waiting cl' \<subseteq># {#1#}"
proof -
  let ?evs = "[CE_SearchAgents \<lparr>pm_constraints = [], pm_model = None\<rparr> ''alice'' 3 1, CE_Written 0 (Errno 32) 0]"
  have r: "client_run example_env ?evs (example_client [])
      = Some (example_client [], [(Registered 1, Errno 32, osr_nothing)])"
    by (simp add: example_defs search_operation_defs begin_write_def basic_send_async_def
        write_completed_def Let_def)
  moreover have "waiting (example_client []) = {#}"
    by (simp add: waiting_def example_defs)
  ultimately show ?thesis
    using continuations_conserved [OF r] by simp
qed

section \<open>The wire\<close>

lemma search_send_bytes_eq:
  "search_send_bytes E header payload =
     Some (serialize_u32 (se_endian E) (htonl (se_endian E) (size_u32 header)) @
           serialize_u32 (se_endian E) (htonl (se_endian E) (size_u32 payload)) @ header @ payload)"
  by (simp add: search_send_bytes_def basic_gather_def Let_def)

lemma wire_size:
  "serialize_u32 e (htonl e w) =
     [ucast (drop_bit 24 w), ucast (drop_bit 16 w), ucast (drop_bit 8 w), ucast w]"
proof -
  have "serialize_u32 e (htonl e w) = rev (le_bytes w)"
    by (cases e) (simp_all add: serialize_u32_def htonl_def le_bytes_byte_swap)
  then show ?thesis by (simp add: le_bytes_def)
qed

lemma network_order_read:
  "ntohl e' (read_u32 e' (serialize_u32 e (htonl e w))) = w"
proof -
  have "serialize_u32 e (htonl e w) = serialize_u32 e' (htonl e' w)" by (simp add: wire_size)
  then show ?thesis by simp
qed

text \<open>Receiving two sizes and as many bytes as their sum.\<close>

lemma receive_sizes:
  assumes "st_in s = serialize_u32 e (htonl e hs) @ serialize_u32 e (htonl e ps) @ data"
  shows "basic_receive_async 8 s =
    (No_error, serialize_u32 e (htonl e hs) @ serialize_u32 e (htonl e ps), s\<lparr>st_in := data\<rparr>)"
proof -
  have "asio_read 8 s =
    (No_error, serialize_u32 e (htonl e hs) @ serialize_u32 e (htonl e ps), s\<lparr>st_in := data\<rparr>)"
    using assms by (intro asio_read_append) simp_all
  then show ?thesis
    by (simp add: basic_receive_async_def)
qed

lemma receive_data:
  assumes "n \<le> length data"
  shows "basic_receive_sync n (s\<lparr>st_in := data\<rparr>) = (No_error, take n data, s\<lparr>st_in := drop n data\<rparr>)"
  using assms by (simp add: basic_receive_sync_def asio_read_def)

lemma search_receive_frame:
  assumes "st_in s = serialize_u32 e (htonl e hs) @ serialize_u32 e (htonl e ps) @ data"
    and "unat (hs + ps) \<le> length data"
  shows "search_receive E s =
    (let s2 = s\<lparr>st_in := drop (unat (hs + ps)) data\<rparr>; d = take (unat (hs + ps)) data
     in if unat (hs + ps) < unat hs + unat ps then (Recv_undefined, s2)
        else
          let (hstatus, header) = se_get_header E (take (unat hs) d)
          in if \<not> hstatus then (Recv_discarded, s2)
             else if ps = 0 then (Recv_call No_error header None, s2)
             else (Recv_call No_error header (Some (take (unat ps) (drop (unat hs) d))), s2))"
  using assms(2)
  by (simp add: search_receive_def receive_sizes [OF assms(1)] network_order_read receive_data
      pbs_deserialize_status_def Let_def split: prod.splits)

lemma no_wrap_sum: "unat (hs :: u32) + unat ps < 2 ^ 32 \<Longrightarrow> unat (hs + ps) = unat hs + unat ps"
  by (simp add: unat_word_ariths)

lemma wrap_sum: "2 ^ 32 \<le> unat (hs :: u32) + unat ps \<Longrightarrow> unat (hs + ps) < unat hs + unat ps"
  using unsigned_less [of "hs + ps", where ?'a = nat] by simp

text \<open>
  C10: A header and a payload sent to OEF Search, of less than 2^32 bytes together, are
  received by the same protocol on a host of either byte order as the parsed header and
  the payload (or none, if empty), leaving the rest of the stream.
\<close>

theorem search_wire_roundtrip:
  assumes "search_send_bytes E header payload = Some bytes"
    and "length header + length payload < 2 ^ 32"
    and "se_get_header E' header = (True, h)"
    and "st_in s = bytes @ rest"
  shows "search_receive E' s =
    (Recv_call No_error h (if payload = [] then None else Some payload), s\<lparr>st_in := rest\<rparr>)"
proof -
  let ?hs = "size_u32 header" and ?ps = "size_u32 payload"
  have u: "unat ?hs = length header" "unat ?ps = length payload"
    using assms(2) by (simp_all add: unat_size_u32)
  then have sum: "unat (?hs + ?ps) = length header + length payload"
    using assms(2) by (simp add: no_wrap_sum)
  have "st_in s = serialize_u32 (se_endian E) (htonl (se_endian E) ?hs) @
      serialize_u32 (se_endian E) (htonl (se_endian E) ?ps) @ (header @ payload @ rest)"
    using assms(1,4) by (simp add: search_send_bytes_eq)
  from search_receive_frame [OF this, of E'] show ?thesis
    using assms(3) u by (auto simp: sum Let_def unat_eq_zero [symmetric])
qed

theorem search_wire_roundtrip_witness:
  "search_receive example_env
     \<lparr>st_in = [0, 0, 0, 2, 0, 0, 0, 1, 1, 2, 5] @ [9], st_end = 2\<rparr>
   = (Recv_call No_error example_header (Some [5]), \<lparr>st_in = [9], st_end = 2\<rparr>)"
proof -
  have "search_send_bytes example_env [1, 2] [5] = Some [0, 0, 0, 2, 0, 0, 0, 1, 1, 2, 5]"
    by (simp add: search_send_bytes_eq example_env_def size_u32_def wire_size)
  from search_wire_roundtrip [OF this, of example_env example_header
      "\<lparr>st_in = [0, 0, 0, 2, 0, 0, 0, 1, 1, 2, 5] @ [9], st_end = 2\<rparr>" "[9]"]
  show ?thesis by (simp add: example_env_def)
qed

text \<open>
  Two sizes whose sum exceeds 32 bits make the client read beyond the buffer it
  received, which is undefined.
\<close>

lemma wrapped_sizes_undefined:
  assumes "st_in s = serialize_u32 e (htonl e hs) @ serialize_u32 e (htonl e ps) @ data"
    and "2 ^ 32 \<le> unat hs + unat ps" "unat (hs + ps) \<le> length data"
    and "sc_in cl = s" "sc_listening cl"
  shows "handle_message E cl = None"
  using search_receive_frame [OF assms(1,3), of E] wrap_sum [OF assms(2)] assms(4,5)
  by (simp add: handle_message_def Let_def)

lemma wrapped_sizes_undefined_witness:
  "handle_message example_env (example_client [255, 255, 255, 255, 0, 0, 0, 2, 7]) = None"
  using wrapped_sizes_undefined [of "\<lparr>st_in = [255, 255, 255, 255, 0, 0, 0, 2, 7], st_end = 2\<rparr>"
      LittleEndian "0xFFFFFFFF" 2 "[7]" "example_client [255, 255, 255, 255, 0, 0, 0, 2, 7]" example_env]
  by (simp add: example_defs wire_size)

section \<open>The end of the receive loop\<close>

fun receive_ends :: "receive_outcome \<Rightarrow> bool" where
  "receive_ends (Recv_call ec h p) = failed ec"
| "receive_ends Recv_discarded = True"
| "receive_ends Recv_undefined = False"

lemma bad_header_ends:
  assumes "st_in s = serialize_u32 e (htonl e hs) @ serialize_u32 e (htonl e ps) @ data"
    and "unat hs + unat ps < 2 ^ 32" "unat hs + unat ps \<le> length data"
    and "\<not> fst (se_get_header E (take (unat hs) data))"
  shows "fst (search_receive E s) = Recv_discarded"
  using search_receive_frame [OF assms(1), of E] no_wrap_sum [OF assms(2)] assms(3,4)
  by (simp add: Let_def case_prod_unfold)

lemma operations_frame:
  "sc_listening (register_service E i a m c cl) = sc_listening cl"
  "sc_listening (unregister_service E i a m c cl) = sc_listening cl"
  "sc_listening (search_service E q a m c cl) = sc_listening cl"
  "sc_listening (search_service_wide E q a m c cl) = sc_listening cl"
  "sc_handles (register_service E i a m c cl) = sc_handles cl"
  "sc_handles (unregister_service E i a m c cl) = sc_handles cl"
  "sc_handles (search_service E q a m c cl) = sc_handles cl"
  "sc_handles (search_service_wide E q a m c cl) = sc_handles cl"
  by (simp_all add: register_service_def unregister_service_def search_service_def
      search_service_wide_def begin_write_def generate_update_frame case_prod_unfold Let_def)

lemmas operation_frames = operations_frame register_description_def unregister_description_def
  search_agents_def

lemma deaf_step:
  assumes "client_step E ev cl = Some (cl', calls)" "\<not> sc_listening cl"
  shows "\<not> sc_listening cl' \<and> (\<forall>call \<in> set calls. failed (fst (snd call)) \<and> snd (snd call) = osr_nothing)
    \<and> (\<forall>k h. umap_find (sc_handles cl) k = Some h \<longrightarrow> umap_find (sc_handles cl') k = Some h)"
  using assms
  by (cases ev)
    (auto simp: operation_frames handle_message_def basic_send_async_def write_completed_def
      schedule_rcv_callback_def msg_handle_save_def case_prod_unfold Let_def split: if_splits)

lemma deaf_run:
  assumes "client_run E evs cl = Some (cl', calls)" "\<not> sc_listening cl"
  shows "\<not> sc_listening cl' \<and> (\<forall>call \<in> set calls. failed (fst (snd call)) \<and> snd (snd call) = osr_nothing)
    \<and> (\<forall>k h. umap_find (sc_handles cl) k = Some h \<longrightarrow> umap_find (sc_handles cl') k = Some h)"
  using assms
proof (induction evs arbitrary: cl calls)
  case Nil
  then show ?case by simp
next
  case (Cons ev evs)
  from Cons.prems(1) obtain cl1 calls1 calls2 where
    r: "client_step E ev cl = Some (cl1, calls1)" "client_run E evs cl1 = Some (cl', calls2)"
      "calls = calls1 @ calls2"
    by (auto split: option.splits)
  from deaf_step [OF r(1) Cons.prems(2)] Cons.IH [OF r(2)] show ?case
    by (auto simp: r(3))
qed

text \<open>
  C14: After one message with an unreadable header, or an error of the connection, the
  client never answers a waiting request again: handles stay, and only requests whose
  write fails get a continuation called.
\<close>

theorem receive_loop_ends_for_good:
  assumes "receive_ends (fst (search_receive E (sc_in cl)))"
    and "client_run E (CE_Message # evs) cl = Some (cl', calls)"
    and "umap_find (sc_handles cl) k = Some h"
  shows "umap_find (sc_handles cl') k = Some h
    \<and> (\<forall>call \<in> set calls. failed (fst (snd call)) \<and> snd (snd call) = osr_nothing)"
proof -
  obtain cl1 calls1 calls2 where
    r: "handle_message E cl = Some (cl1, calls1)" "client_run E evs cl1 = Some (cl', calls2)"
      "calls = calls1 @ calls2"
    using assms(2) by (auto split: option.splits)
  have "\<not> sc_listening cl1" "calls1 = []" "sc_handles cl1 = sc_handles cl"
    using r(1) assms(1)
    by (auto simp: handle_message_def case_prod_unfold Let_def
        split: if_splits receive_outcome.splits)
  with deaf_run [OF r(2)] assms(3) show ?thesis
    by (simp add: r(3))
qed

theorem receive_loop_ends_for_good_witness:
  "\<exists>cl' calls.
     client_run example_env [CE_Message, CE_Message]
       ((example_client [0, 0, 0, 1, 0, 0, 0, 0, 7])\<lparr>sc_handles := [(6, example_handle)]\<rparr>)
       = Some (cl', calls)
     \<and> umap_find (sc_handles cl') 6 = Some example_handle"
proof -
  let ?s = "\<lparr>st_in = [0, 0, 0, 1, 0, 0, 0, 0, 7], st_end = 2\<rparr>"
  let ?cl = "(example_client [0, 0, 0, 1, 0, 0, 0, 0, 7])\<lparr>sc_handles := [(6, example_handle)]\<rparr>"
  have "fst (search_receive example_env ?s) = Recv_discarded"
    by (rule bad_header_ends [of ?s LittleEndian 1 0 "[7]"])
      (simp_all add: example_env_def wire_size)
  then have d: "fst (search_receive example_env (sc_in ?cl)) = Recv_discarded"
    by (simp add: example_defs)
  then obtain cl' calls where r: "client_run example_env [CE_Message, CE_Message] ?cl = Some (cl', calls)"
    by (simp add: handle_message_def case_prod_unfold Let_def example_client_def search_client_make_def)
  from receive_loop_ends_for_good [OF _ r, of 6 example_handle] d r show ?thesis
    by simp
qed

section \<open>What an answer delivers\<close>

text \<open>
  An answer delivers to the continuation of its handle the error status of its
  header and, for the searches, every agent key of the response in order, or every field
  of every item of a wide search.
\<close>

lemma search_answers_complete:
  assumes "umap_find (sc_handles cl) (ucast (th_id hdr - 1)) = Some h"
    and "snd (se_get_search_response E buf) = resp"
  shows "let (k, ec, r) = snd (process_search_message E hdr (Some buf) cl) in
     k = mh_continuation h
     \<and> (mh_operation h \<in> {''search-local'', ''search-wide'', ''update'', ''remove''} \<longrightarrow>
          failed ec = (\<not> ts_success (th_status hdr)))
     \<and> (mh_operation h = ''search-local'' \<longrightarrow>
          osr_agents r = [ra_key a. item \<leftarrow> sr_result resp, a \<leftarrow> ri_agents item])
     \<and> (mh_operation h = ''search-wide'' \<longrightarrow>
          map (\<lambda>i. (wi_key i, wi_ip i, wi_port i, wi_info i, wi_distance i,
                    map (\<lambda>a. (ai_key a, ai_score a)) (wi_agents i))) (osr_search_result_wide r) =
          map (\<lambda>i. (ri_key i, ri_ip i, ri_port i, ri_info i, ri_distance i,
                    map (\<lambda>a. (ra_key a, ra_score a)) (ri_agents i))) (sr_result resp))"
  using assms
  by (auto simp: process_search_message_def msg_handle_get_def pbs_deserialize_def case_prod_unfold
      Let_def osr_local_def osr_wide_def local_agents_def wide_agents_def no_message_available_def)

lemma search_answers_complete_witness:
  "let (k, ec, r) = snd (process_search_message example_env example_header (Some [5])
         ((example_client [])\<lparr>sc_handles := [(6, example_handle)]\<rparr>))
   in k = Registered 1 \<and> \<not> failed ec \<and> osr_agents r = [''alice'', ''bob'']"
  using search_answers_complete [of "(example_client [])\<lparr>sc_handles := [(6, example_handle)]\<rparr>"
      example_header example_handle example_env "[5]"
      "snd (se_get_search_response example_env [5])"]
  by (simp add: example_defs generate_header_def case_prod_unfold Let_def)

section \<open>The network address\<close>

definition network_address :: "'c search_client \<Rightarrow> update_attribute" where
  "network_address cl =
     \<lparr>uat_name = UA_NETWORK_ADDRESS, uat_value_type = 10,
      uat_value_a = \<lparr>ua_ip = sc_core_ip_addr cl, ua_port = sc_core_port cl,
                     ua_key = sc_core_id cl, ua_signature = ''Sign''\<rparr>\<rparr>"

text \<open>The updates that a run builds, in order.\<close>

fun event_updates :: "'c client_event \<Rightarrow> 'c search_client \<Rightarrow> update_msg list" where
  "event_updates (CE_RegisterService i a m c) cl = [fst (generate_update i a cl)]"
| "event_updates (CE_RegisterDescription i a m c) cl = [fst (generate_update i a cl)]"
| "event_updates _ cl = []"

fun run_updates :: "search_env \<Rightarrow> 'c client_event list \<Rightarrow> 'c search_client \<Rightarrow> update_msg list" where
  "run_updates E [] cl = []"
| "run_updates E (ev # evs) cl =
     event_updates ev cl @
     (case client_step E ev cl of None \<Rightarrow> [] | Some (cl1, calls) \<Rightarrow> run_updates E evs cl1)"

definition naddr_spec :: "'c search_client \<Rightarrow> nat \<Rightarrow> update_attribute list list" where
  "naddr_spec cl n =
     (if sc_updated_address cl \<and> 0 < n then [network_address cl] # replicate (n - 1) []
      else replicate n [])"

lemma step_naddr:
  assumes "client_step E ev cl = Some (cl1, calls)"
  shows "network_address cl1 = network_address cl"
    and "sc_updated_address cl1 = (sc_updated_address cl \<and> event_updates ev cl = [])"
    and "map up_attributes (event_updates ev cl) = naddr_spec cl (length (event_updates ev cl))"
  using assms
  by (cases ev;
      auto simp: search_operation_defs begin_write_def generate_update_def generate_update_add_naddr_def
        network_address_def naddr_spec_def basic_send_async_def write_completed_def
        schedule_rcv_callback_def handle_message_def process_search_message_def
        case_prod_unfold Let_def split: if_splits receive_outcome.splits option.splits)+

text \<open>
  Over any run, whatever the outcome of the writes, only the first update the
  client builds carries the network address of the core.
\<close>

lemma network_address_once:
  "map up_attributes (run_updates E evs cl) = naddr_spec cl (length (run_updates E evs cl))"
proof (induction evs arbitrary: cl)
  case Nil
  then show ?case by (simp add: naddr_spec_def)
next
  case (Cons ev evs)
  show ?case
  proof (cases "client_step E ev cl")
    case None
    then show ?thesis by (cases ev) (auto simp: naddr_spec_def split: if_splits)
  next
    case (Some r)
    obtain cl1 calls where r: "client_step E ev cl = Some (cl1, calls)"
      using Some by (cases r) auto
    note st = step_naddr [OF r]
    show ?thesis
      using st Cons.IH [of cl1] r
      by (cases "event_updates ev cl") (auto simp: naddr_spec_def replicate_add split: if_splits)
  qed
qed

end
