(* ===== verification/Oef_Session_Facts.thy ===== *)
theory Oef_Session_Facts
  imports Oef_Session Oef_Search_Facts Oef_Instance_Facts
begin

text \<open>
  What holds of the sessions: how messages between agents are forwarded, what becomes of an
  agent's requests, and how a request, the search client and the answer fit together.
\<close>

section \<open>Frames\<close>

lemma node_session_set_description [simp]:
  "node_session (set_description c d nd) c' =
     (if c' = c then (node_session nd c)\<lparr>ses_description := d\<rparr> else node_session nd c')"
  by (simp add: node_session_def set_description_def)

lemma set_description_frame [simp]:
  "nd_dir (set_description c d nd) = nd_dir nd"
  "nd_search (set_description c d nd) = nd_search nd"
  "nd_sent (set_description c d nd) = nd_sent nd"
  "nd_forwards (set_description c d nd) = nd_forwards nd"
  by (simp_all add: set_description_def)

lemma public_key_set_description [simp]: "public_key (set_description c d nd) c' = public_key nd c'"
  by (simp add: public_key_def)

lemma node_session_cong: "nd_sessions nd = nd_sessions nd' \<Longrightarrow> node_session nd c = node_session nd' c"
  by (simp add: node_session_def)

lemma public_key_cong: "nd_sessions nd = nd_sessions nd' \<Longrightarrow> public_key nd c = public_key nd' c"
  by (simp add: public_key_def node_session_def)

section \<open>An example\<close>

text \<open>A core with two connected agents, alice on connection 0 and bob on connection 1.\<close>

definition example_node_env :: node_env where
  "example_node_env =
     \<lparr>ne_search = example_env,
      ne_get_envelope = (\<lambda>bs. (True, \<lparr>ev_msg_id = 3, ev_payload = EP_SendMessage
        \<lparr>am_dialogue_id = 6, am_destination = ''alice'', am_payload = PL_Content ''hi''\<rparr>\<rparr>)),
      ne_get_id = (\<lambda>bs. (bs \<noteq> [], \<lparr>id_public_key = (if bs = [2] then ''bob'' else ''alice'')\<rparr>)),
      ne_get_answer = (\<lambda>bs. (bs \<noteq> [], \<lparr>ans_answer = []\<rparr>))\<rparr>"

definition example_node :: "buffer \<Rightarrow> node" where
  "example_node bs =
     \<lparr>nd_dir = \<lparr>ad_sessions = [(''alice'', 0), (''bob'', 1)]\<rparr>,
      nd_sessions = [(0, session_make ''alice''), (1, session_make ''bob'')],
      nd_search = search_client_make ''core'' ''127.0.0.1'' 3333 \<lparr>st_in = bs, st_end = 2\<rparr>,
      nd_sent = [], nd_forwards = []\<rparr>"

lemma example_node_simps [simp]:
  "nd_sent (example_node bs) = []"
  "dir_session (nd_dir (example_node bs)) ''bob'' = Some 1"
  "public_key (example_node bs) 0 = ''alice''"
  "sc_handles (nd_search (example_node bs)) = []"
  "sc_writes (nd_search (example_node bs)) = []"
  "sc_listening (nd_search (example_node bs))"
  "sc_in (nd_search (example_node bs)) = \<lparr>st_in = bs, st_end = 2\<rparr>"
  by (simp_all add: example_node_def dir_session_def public_key_def node_session_def session_make_def
      search_client_make_def)

section \<open>Forwarding\<close>

text \<open>
  C11: A message of an agent is sent to exactly the connection the directory holds for
  its destination, with the same payload and dialogue id and the sender's key as origin;
  without such a session the sender gets a dialogue error. Nothing else changes.
\<close>

theorem forward_or_error:
  "let nd' = process_envelope N c \<lparr>ev_msg_id = m, ev_payload = EP_SendMessage msg\<rparr> nd in
   (case dir_session (nd_dir nd) (am_destination msg) of
      Some d \<Rightarrow>
        nd_sent nd' = nd_sent nd @
          [(d, Out_Server \<lparr>sm_answer_id = m, sm_payload = SP_Content
             \<lparr>ct_dialogue_id = am_dialogue_id msg, ct_origin = public_key nd c,
              ct_payload = am_payload msg\<rparr>\<rparr>)]
        \<and> length (nd_forwards nd') = Suc (length (nd_forwards nd))
    | None \<Rightarrow>
        nd_sent nd' = nd_sent nd @
          [(c, Out_Server \<lparr>sm_answer_id = m, sm_payload =
             SP_DialogueError (am_dialogue_id msg) (am_destination msg)\<rparr>)]
        \<and> nd_forwards nd' = nd_forwards nd)
   \<and> nd_dir nd' = nd_dir nd \<and> nd_search nd' = nd_search nd \<and> nd_sessions nd' = nd_sessions nd"
  by (simp add: process_envelope_def process_message_def send_defs Let_def
      split: option.split pb_payload.split)

text \<open>
  What an agent puts into a plain message, a CFP, a proposal, an accept or a
  decline is what the connected destination gets, with the ids and the sender's key.
\<close>

lemma client_messages_delivered:
  assumes "dir_session (nd_dir nd) dest = Some d"
  shows "let deliver = (\<lambda>env. last (nd_sent (process_envelope N c env nd)));
             content = (\<lambda>payload. (d, Out_Server \<lparr>sm_answer_id = m, sm_payload = SP_Content
               \<lparr>ct_dialogue_id = did, ct_origin = public_key nd c, ct_payload = payload\<rparr>\<rparr>))
         in deliver (msg_message m did dest s) = content (PL_Content s)
    \<and> deliver (msg_cfp did dest query m t) =
        content (PL_Fipa \<lparr>fm_target = t, fm_msg = Fipa_Cfp (cfp_of query)\<rparr>)
    \<and> deliver (msg_propose did dest proposals m t) =
        content (PL_Fipa \<lparr>fm_target = t, fm_msg = Fipa_Propose (propose_of proposals)\<rparr>)
    \<and> deliver (msg_accept did dest m t) = content (PL_Fipa \<lparr>fm_target = t, fm_msg = Fipa_Accept\<rparr>)
    \<and> deliver (msg_decline did dest m t) = content (PL_Fipa \<lparr>fm_target = t, fm_msg = Fipa_Decline\<rparr>)"
  using assms
  by (simp add: client_msg_defs process_envelope_def process_message_def send_defs Let_def)

lemma client_messages_delivered_witness:
  "last (nd_sent (process_envelope example_node_env 0 (msg_message 5 6 ''bob'' ''hello'') (example_node [])))
   = (1, Out_Server \<lparr>sm_answer_id = 5, sm_payload = SP_Content
       \<lparr>ct_dialogue_id = 6, ct_origin = ''alice'', ct_payload = PL_Content ''hello''\<rparr>\<rparr>)"
  using client_messages_delivered [of "example_node []" "''bob''" 1 example_node_env 0 5 6 "''hello''"]
  by simp

text \<open>\<open>AsioComm::send_async\<close> only calls its continuation on success, so the dialogue error for a failed send is never sent.\<close>

lemma forward_completion_silent:
  "(case comm_send_async ec n of
      None \<Rightarrow> nd
    | Some (ec', n') \<Rightarrow> forward_written fw ec' n' nd) = nd"
  by (simp add: comm_send_async_def forward_written_def)

section \<open>Requests\<close>

fun request_conn :: "session_cont \<Rightarrow> conn" where
  "request_conn (SK_RegisterDescription c m) = c"
| "request_conn (SK_UnregisterDescription c m) = c"
| "request_conn (SK_RegisterService c m) = c"
| "request_conn (SK_UnregisterService c m) = c"
| "request_conn (SK_SearchAgents c m) = c"
| "request_conn (SK_SearchService c m) = c"
| "request_conn (SK_SearchServiceWide c m) = c"

fun request_msg_id :: "session_cont \<Rightarrow> u32" where
  "request_msg_id (SK_RegisterDescription c m) = m"
| "request_msg_id (SK_UnregisterDescription c m) = m"
| "request_msg_id (SK_RegisterService c m) = m"
| "request_msg_id (SK_UnregisterService c m) = m"
| "request_msg_id (SK_SearchAgents c m) = m"
| "request_msg_id (SK_SearchService c m) = m"
| "request_msg_id (SK_SearchServiceWide c m) = m"

text \<open>The error and, for the searches only, the confirmation that a request produces.\<close>

fun request_error :: "session_cont \<Rightarrow> oef_operation" where
  "request_error (SK_RegisterDescription c m) = REGISTER_DESCRIPTION"
| "request_error (SK_UnregisterDescription c m) = UNREGISTER_DESCRIPTION"
| "request_error (SK_UnregisterService c m) = UNREGISTER_SERVICE"
| "request_error k = REGISTER_SERVICE"

fun request_result :: "session_cont \<Rightarrow> oef_search_response \<Rightarrow> pb_server_payload list" where
  "request_result (SK_SearchAgents c m) r = [SP_Agents (osr_agents r)]"
| "request_result (SK_SearchService c m) r = [SP_Agents (osr_agents r)]"
| "request_result (SK_SearchServiceWide c m) r = [SP_AgentsWide (osr_search_result_wide r)]"
| "request_result k r = []"

text \<open>
  What the continuation of each request sends: on an error one OEF error to the
  requesting agent with its message id (searches are reported as REGISTER_SERVICE), on
  success nothing for registrations and one result for searches.
\<close>

lemma request_answers:
  "nd_sent (answer_session k ec r nd) = nd_sent nd @
     map (\<lambda>p. (request_conn k, Out_Server \<lparr>sm_answer_id = request_msg_id k, sm_payload = p\<rparr>))
       (if failed ec then [SP_OefError (request_error k)] else request_result k r)
   \<and> nd_dir (answer_session k ec r nd) = nd_dir nd
   \<and> nd_search (answer_session k ec r nd) = nd_search nd
   \<and> public_key (answer_session k ec r nd) c = public_key nd c"
  by (cases k) (simp_all add: send_defs public_key_cong [of "nd\<lparr>nd_sent := _\<rparr>" nd])

text \<open>
  C12: An instance an agent registers as service or as description is written to OEF
  Search: the client gets exactly one more pending write, of the update header and of an
  update under the key of the core that holds the data model and values of the instance
  unchanged, under the agent's key up to its first NUL, and the network address if it
  was not sent before, with the continuation of that request; no handle changes, and the
  session of a registered description matches a query exactly when the query accepts the
  instance.
\<close>

theorem registration_reaches_search:
  assumes "umap_wf vs" "data_model_make nm as = Inr dm" "instance_make dm vs = Inr i"
  shows "let nd' = process_envelope N c (msg_register m i) nd;
             nd'' = process_envelope N c (msg_description m i) nd;
             cl = nd_search nd; E = ne_search N;
             id = generate_smsg_id E (public_key nd c) m;
             update = \<lparr>up_key = sc_core_id cl,
               up_attributes = (if sc_updated_address cl then [network_address cl] else []),
               up_data_models = [\<lparr>ui_key = c_string (public_key nd c), ui_model = dm, ui_values = map kv_of vs\<rparr>]\<rparr>;
             written = (\<lambda>k. \<lparr>pw_bytes = search_send_bytes E (pbs_serialize (se_put_header E) (generate_header ''update'' (ucast id)))
                 (pbs_serialize (se_put_update E) update),
               pw_smsg_id = id, pw_operation = ''update'', pw_continuation = k, pw_msg_id = m, pw_agent = public_key nd c\<rparr>)
         in sc_writes (nd_search nd') = sc_writes cl @ [written (SK_RegisterService c m)]
            \<and> sc_writes (nd_search nd'') = sc_writes cl @ [written (SK_RegisterDescription c m)]
            \<and> sc_handles (nd_search nd') = sc_handles cl \<and> sc_handles (nd_search nd'') = sc_handles cl
            \<and> session_match F (node_session nd'' c) q = query_check F q i
            \<and> nd_sent nd' = nd_sent nd \<and> nd_sent nd'' = nd_sent nd"
proof -
  note r = instance_of_pb_make [OF assms]
  have i: "i = \<lparr>ins_pb = \<lparr>pi_model = dm, pi_values = map kv_of vs\<rparr>, ins_values = vs\<rparr>"
    using instance_make_outcome [OF assms(1,2)] assms(3) by simp
  have g: "fst (generate_update i k cl) = \<lparr>up_key = sc_core_id cl,
      up_attributes = (if sc_updated_address cl then [network_address cl] else []),
      up_data_models = [\<lparr>ui_key = c_string k, ui_model = dm, ui_values = map kv_of vs\<rparr>]\<rparr>"
    for k and cl :: "session_cont search_client"
    by (simp add: generate_update_def generate_update_add_naddr_def network_address_def i instance_model_def Let_def)
  show ?thesis
    by (simp add: process_envelope_def msg_register_def msg_description_def r Let_def register_description_def
        register_service_def begin_write_def g case_prod_unfold generate_update_frame
        process_register_service_def process_register_description_def session_match_def
        node_session_cong [of "set_description c (Some i) nd\<lparr>nd_search := _\<rparr>" "set_description c (Some i) nd"])
qed

theorem registration_reaches_search_witness:
  "\<exists>i. instance_make person_model turing_values = Inr i
     \<and> length (sc_writes (nd_search (process_envelope example_node_env 0 (msg_description 7 i) (example_node [])))) = 1
     \<and> length (sc_writes (nd_search (process_envelope example_node_env 0 (msg_register 7 i) (example_node [])))) = 1"
proof -
  obtain i where i: "instance_make person_model turing_values = Inr i"
    using instance_make_conforming [OF turing_values_wf data_model_make_distinct [OF person_model_make]
        turing_values_conform] by blast
  from registration_reaches_search [OF turing_values_wf person_model_make i, where m = 7 and N = example_node_env
      and c = 0 and nd = "example_node []"] i
  show ?thesis by (simp add: Let_def)
qed

text \<open>
  A registered description is kept even if OEF Search refuses it, a successful
  unregistration clears it, and unregistering without one changes nothing.
\<close>

lemma description_lifecycle:
  assumes "failed ec"
  shows "let nd1 = process_register_description N c m desc nd;
             nd2 = answer_session (SK_RegisterDescription c m) ec r nd1;
             nd3 = answer_session (SK_UnregisterDescription c m') No_error r' nd2;
             nd4 = process_unregister_description N c m'' nd3
         in ses_description (node_session nd1 c) = Some (instance_of_pb (ad_description desc))
            \<and> ses_description (node_session nd2 c) = ses_description (node_session nd1 c)
            \<and> ses_description (node_session nd3 c) = None \<and> nd4 = nd3
            \<and> \<not> session_match F (node_session nd3 c) q
            \<and> public_key nd4 c = public_key nd c"
proof -
  have f: "node_session (nd\<lparr>nd_search := x\<rparr>) c = node_session nd c"
    "node_session (nd\<lparr>nd_sent := y\<rparr>) c = node_session nd c" for nd x y c
    by (simp_all add: node_session_def)
  show ?thesis
    using assms
    by (simp add: process_register_description_def process_unregister_description_def send_defs f
        session_match_def public_key_def Let_def)
qed

lemma description_lifecycle_witness:
  "ses_description (node_session (answer_session (SK_RegisterDescription 0 5) (Errno 61) osr_nothing
     (process_register_description example_node_env 0 5 \<lparr>ad_description = ins_pb turing_instance\<rparr>
       (example_node []))) 0) = Some (instance_of_pb (ins_pb turing_instance))"
  using description_lifecycle [of "Errno 61" example_node_env 0 5
      "\<lparr>ad_description = ins_pb turing_instance\<rparr>" "example_node []" osr_nothing]
  by (simp add: Let_def)

section \<open>A search, from the agent and back\<close>

lemma process_search_message_local:
  assumes "umap_find (sc_handles cl) (ucast (th_id hdr - 1)) = Some h"
    and "mh_operation h = ''search-local''" "ts_success (th_status hdr)"
  shows "process_search_message E hdr (Some buf) cl =
    (cl\<lparr>sc_handles := umap_erase (ucast (th_id hdr - 1)) (sc_handles cl)\<rparr>,
     (mh_continuation h, No_error, osr_local (local_agents (snd (se_get_search_response E buf)))))"
  using assms
  by (simp add: process_search_message_def msg_handle_get_def msg_handle_erase_def
      pbs_deserialize_def case_prod_unfold Let_def)

text \<open>
  C2: A service search of an agent under whose request key no handle waits, with the
  client listening: once its message is written and the next message of OEF Search is a
  successful answer with a payload and the id of that message, exactly one answer goes
  to that agent, its message id and all agent keys of the response in order, and the
  handle table is as before. (A request whose key is taken is forgotten, see
  colliding_request_forgotten.)
\<close>

theorem search_end_to_end:
  fixes nd :: node
  assumes "key = handle_key (ne_search N) (public_key nd c) m"
    and "umap_find (sc_handles (nd_search nd)) key = None" "sc_listening (nd_search nd)"
    and "search_receive (ne_search N) (sc_in (nd_search nd)) = (Recv_call No_error hdr (Some buf), s)"
    and "th_id hdr = th_id (generate_header uri key)" "ts_success (th_status hdr)"
  shows "\<exists>nd2 nd3.
     node_search_event N (CE_Written (length (sc_writes (nd_search nd))) No_error n)
       (process_envelope N c (msg_search_services m q) nd) = Some nd2
     \<and> node_search_event N CE_Message nd2 = Some nd3
     \<and> nd_sent nd3 = nd_sent nd @
         [(c, Out_Server \<lparr>sm_answer_id = m, sm_payload =
            SP_Agents (local_agents (snd (se_get_search_response (ne_search N) buf)))\<rparr>)]
     \<and> umap_find (sc_handles (nd_search nd3)) = umap_find (sc_handles (nd_search nd))
     \<and> sc_writes (nd_search nd3) = sc_writes (nd_search nd)"
proof -
  let ?cl = "nd_search nd" and ?h = "\<lparr>mh_operation = ''search-local'',
    mh_continuation = Registered (SK_SearchService c m), mh_amsg_id = m, mh_agent_id = public_key nd c\<rparr>"
  let ?cl2 = "?cl\<lparr>sc_handles := umap_set key ?h (sc_handles ?cl)\<rparr>"
  have k: "ucast (generate_smsg_id (ne_search N) (public_key nd c) m) = key"
    "ucast (th_id hdr - 1) = key"
    using header_id_key [of uri key] assms(5) by (simp_all add: assms(1) handle_key_def)
  have s2: "node_search_event N (CE_Written (length (sc_writes ?cl)) No_error n)
      (process_envelope N c (msg_search_services m q) nd) = Some (nd\<lparr>nd_search := ?cl2\<rparr>)"
    using assms(2)
    by (simp add: node_search_event_def process_envelope_def msg_search_services_def
        process_search_service_def query_of_pb_def search_service_def begin_write_def
        basic_send_async_def write_completed_def schedule_rcv_callback_def msg_handle_save_def k Let_def)
  have "umap_find (sc_handles (?cl2\<lparr>sc_in := s\<rparr>)) (ucast (th_id hdr - 1)) = Some ?h"
    by (simp add: k)
  from process_search_message_local [OF this _ assms(6)]
  have s3: "node_search_event N CE_Message (nd\<lparr>nd_search := ?cl2\<rparr>) =
    Some (session_send c \<lparr>sm_answer_id = m, sm_payload =
            SP_Agents (local_agents (snd (se_get_search_response (ne_search N) buf)))\<rparr>
       (nd\<lparr>nd_search := ?cl2\<lparr>sc_in := s, sc_handles := umap_erase key (sc_handles ?cl2)\<rparr>\<rparr>))"
    using assms(3,4)
    by (simp add: node_search_event_def handle_message_def k osr_local_def Let_def)
  show ?thesis
    using assms(2) by (simp add: s2 s3 send_defs fun_eq_iff)
qed

theorem search_end_to_end_witness:
  "\<exists>nd2 nd3.
     node_search_event example_node_env (CE_Written 0 No_error 9)
       (process_envelope example_node_env 0 (msg_search_services 3 \<lparr>pm_constraints = [], pm_model = None\<rparr>)
         (example_node [0, 0, 0, 2, 0, 0, 0, 1, 1, 2, 5])) = Some nd2
     \<and> node_search_event example_node_env CE_Message nd2 = Some nd3
     \<and> nd_sent nd3 = [(0, Out_Server \<lparr>sm_answer_id = 3, sm_payload = SP_Agents [''alice'', ''bob'']\<rparr>)]"
proof -
  let ?bs = "[0, 0, 0, 2, 0, 0, 0, 1, 1, 2, 5] :: buffer"
  have f: "search_receive example_env \<lparr>st_in = ?bs, st_end = 2\<rparr> =
      (Recv_call No_error example_header (Some [5]), \<lparr>st_in = [], st_end = 2\<rparr>)"
    by (subst search_receive_frame [of _ LittleEndian 2 1 "[1, 2, 5]"])
      (simp_all add: wire_size example_env_def Let_def)
  have k: "handle_key example_env ''alice'' 3 = 6"
    by (simp add: handle_key_xor example_env_def)
  from search_end_to_end [of 6 example_node_env "example_node ?bs" 0 3 example_header "[5]"
      "\<lparr>st_in = [], st_end = 2\<rparr>" "''search''" 9 "\<lparr>pm_constraints = [], pm_model = None\<rparr>"] f k
  have "\<exists>nd2 nd3.
     node_search_event example_node_env (CE_Written 0 No_error 9)
       (process_envelope example_node_env 0 (msg_search_services 3 \<lparr>pm_constraints = [], pm_model = None\<rparr>)
         (example_node ?bs)) = Some nd2
     \<and> node_search_event example_node_env CE_Message nd2 = Some nd3
     \<and> nd_sent nd3 = [(0, Out_Server \<lparr>sm_answer_id = 3, sm_payload = SP_Agents
          (local_agents (snd (se_get_search_response example_env [5])))\<rparr>)]"
    by (simp add: example_node_env_def example_header_def generate_header_def) blast
  then show ?thesis by (simp add: example_env_def local_agents_def)
qed

end
