(* ===== verification/Oef_Server_Facts.thy ===== *)
theory Oef_Server_Facts
  imports Oef_Server Oef_Session_Facts
begin

text \<open>
  What holds in every state the core can reach: the directory is the table of the live
  sessions, every connection is talked to in the order of the handshake, and forwarded
  messages name their sender; and how single connections and the accept loop end.
\<close>

section \<open>What a handler of a session may change\<close>

definition has_session :: "node \<Rightarrow> conn \<Rightarrow> bool" where
  "has_session nd c \<longleftrightarrow> umap_find (nd_sessions nd) c \<noteq> None"

definition origin_known :: "node \<Rightarrow> out_msg \<Rightarrow> bool" where
  "origin_known nd m \<longleftrightarrow>
     (\<forall>a ct. m = Out_Server \<lparr>sm_answer_id = a, sm_payload = SP_Content ct\<rparr> \<longrightarrow>
        (\<exists>c. has_session nd c \<and> public_key nd c = ct_origin ct))"

text \<open>Every request the search client may still answer belongs to a session.\<close>

definition requests_owned :: "node \<Rightarrow> bool" where
  "requests_owned nd \<longleftrightarrow> (\<forall>k \<in># waiting (nd_search nd). has_session nd (request_conn k))"

definition directory_owned :: "node \<Rightarrow> bool" where
  "directory_owned nd \<longleftrightarrow> (\<forall>k c. dir_session (nd_dir nd) k = Some c \<longrightarrow> has_session nd c)"

definition node_ok :: "node \<Rightarrow> bool" where
  "node_ok nd \<longleftrightarrow> requests_owned nd \<and> directory_owned nd"

definition session_msg :: "node \<Rightarrow> conn \<times> out_msg \<Rightarrow> bool" where
  "session_msg nd m \<longleftrightarrow> has_session nd (fst m) \<and> (\<exists>sm. snd m = Out_Server sm) \<and> origin_known nd (snd m)"

text \<open>The effect of a handler that only talks to sessions: \<open>node_step nd nd'\<close>.\<close>

definition node_step :: "node \<Rightarrow> node \<Rightarrow> bool" where
  "node_step nd nd' \<longleftrightarrow>
     nd_dir nd' = nd_dir nd \<and> has_session nd' = has_session nd \<and> public_key nd' = public_key nd
     \<and> requests_owned nd'
     \<and> (\<exists>ms. nd_sent nd' = nd_sent nd @ ms \<and> (\<forall>m \<in> set ms. session_msg nd m))"

lemma session_msg_cong:
  "has_session nd' = has_session nd \<Longrightarrow> public_key nd' = public_key nd \<Longrightarrow> session_msg nd' = session_msg nd"
  by (simp add: session_msg_def origin_known_def fun_eq_iff)

lemma node_step_refl: "requests_owned nd \<Longrightarrow> node_step nd nd"
  by (simp add: node_step_def)

lemma node_step_trans:
  assumes "node_step nd nd1" "node_step nd1 nd2"
  shows "node_step nd nd2"
proof -
  have "session_msg nd1 = session_msg nd"
    using assms(1) by (intro session_msg_cong) (simp_all add: node_step_def)
  with assms show ?thesis
    unfolding node_step_def by (metis (no_types, lifting) Un_iff append_assoc set_append)
qed

lemma node_step_ok: "node_step nd nd' \<Longrightarrow> node_ok nd \<Longrightarrow> node_ok nd'"
  by (simp add: node_step_def node_ok_def directory_owned_def)

lemma requests_owned_cong:
  "nd_search nd' = nd_search nd \<Longrightarrow> has_session nd' = has_session nd \<Longrightarrow>
     requests_owned nd' = requests_owned nd"
  by (simp add: requests_owned_def)

lemma has_session_cong: "nd_sessions nd' = nd_sessions nd \<Longrightarrow> has_session nd' = has_session nd"
  by (simp add: has_session_def fun_eq_iff)

lemma public_key_fun_cong: "nd_sessions nd' = nd_sessions nd \<Longrightarrow> public_key nd' = public_key nd"
  by (simp add: public_key_def node_session_def fun_eq_iff)

lemma has_session_frame [simp]:
  "has_session (nd\<lparr>nd_dir := d\<rparr>) = has_session nd"
  "has_session (nd\<lparr>nd_search := cl\<rparr>) = has_session nd"
  "has_session (nd\<lparr>nd_sent := ms\<rparr>) = has_session nd"
  "has_session (nd\<lparr>nd_forwards := fs\<rparr>) = has_session nd"
  by (simp_all add: has_session_def fun_eq_iff)

lemma public_key_frame [simp]:
  "public_key (nd\<lparr>nd_dir := d\<rparr>) = public_key nd"
  "public_key (nd\<lparr>nd_search := cl\<rparr>) = public_key nd"
  "public_key (nd\<lparr>nd_sent := ms\<rparr>) = public_key nd"
  "public_key (nd\<lparr>nd_forwards := fs\<rparr>) = public_key nd"
  by (simp_all add: public_key_def node_session_def fun_eq_iff)

lemma node_step_send:
  assumes "requests_owned nd" "has_session nd c" "origin_known nd (Out_Server m)"
    and "nd_dir nd' = nd_dir nd" "nd_sessions nd' = nd_sessions nd" "nd_search nd' = nd_search nd"
    and "nd_sent nd' = nd_sent nd @ [(c, Out_Server m)]"
  shows "node_step nd nd'"
  using assms has_session_cong [OF assms(5)] public_key_fun_cong [OF assms(5)]
  by (simp add: node_step_def session_msg_def requests_owned_def)

lemma node_step_search:
  assumes "requests_owned nd" "waiting (nd_search nd') = waiting (nd_search nd) + {#k#}"
    and "has_session nd (request_conn k)" "nd_dir nd' = nd_dir nd"
    and "has_session nd' = has_session nd" "public_key nd' = public_key nd" "nd_sent nd' = nd_sent nd"
  shows "node_step nd nd'"
  using assms by (auto simp: node_step_def requests_owned_def)

lemma has_session_set_description [simp]:
  "has_session nd c \<Longrightarrow> has_session (set_description c d nd) = has_session nd"
  by (auto simp: has_session_def set_description_def fun_eq_iff)

lemma public_key_fun_set_description [simp]: "public_key (set_description c d nd) = public_key nd"
  by (simp add: fun_eq_iff)

section \<open>The handlers of a session\<close>

lemma origin_known_other:
  "(\<forall>ct. p \<noteq> SP_Content ct) \<Longrightarrow> origin_known nd (Out_Server \<lparr>sm_answer_id = a, sm_payload = p\<rparr>)"
  by (simp add: origin_known_def)

lemma process_envelope_step:
  assumes "node_ok nd" "has_session nd c"
  shows "node_step nd (process_envelope N c env nd)"
proof -
  have r: "requests_owned nd" and d: "directory_owned nd"
    using assms(1) by (simp_all add: node_ok_def)
  note ops = operations_waiting register_description_def unregister_description_def search_agents_def
  have reg: "node_step nd (process_register_description N c m desc nd)" for m desc
    using assms(2) r by (intro node_step_search [where k = "SK_RegisterDescription c m"])
      (simp_all add: process_register_description_def ops Let_def)
  have unreg: "node_step nd (process_unregister_description N c m nd)" for m
  proof (cases "ses_description (node_session nd c)")
    case None
    with r show ?thesis by (simp add: process_unregister_description_def node_step_refl)
  next
    case (Some i)
    with assms(2) r show ?thesis
      by (intro node_step_search [where k = "SK_UnregisterDescription c m"])
        (simp_all add: process_unregister_description_def ops)
  qed
  have rs: "node_step nd (process_register_service N c m desc nd)" for m desc
    using assms(2) r by (intro node_step_search [where k = "SK_RegisterService c m"])
      (simp_all add: process_register_service_def ops)
  have us: "node_step nd (process_unregister_service N c m desc nd)" for m desc
    using assms(2) r by (intro node_step_search [where k = "SK_UnregisterService c m"])
      (simp_all add: process_unregister_service_def ops)
  have sa: "node_step nd (process_search_agents N c m q nd)" for m q
    using assms(2) r by (intro node_step_search [where k = "SK_SearchAgents c m"])
      (simp_all add: process_search_agents_def ops)
  have ss: "node_step nd (process_search_service N c m q nd)" for m q
    using assms(2) r by (intro node_step_search [where k = "SK_SearchService c m"])
      (simp_all add: process_search_service_def ops)
  have sw: "node_step nd (process_search_service_wide N c m q nd)" for m q
    using assms(2) r by (intro node_step_search [where k = "SK_SearchServiceWide c m"])
      (simp_all add: process_search_service_wide_def ops)
  have pm: "node_step nd (process_message c m msg nd)" for m msg
  proof (cases "dir_session (nd_dir nd) (am_destination msg)")
    case None
    then show ?thesis
      using r assms(2)
      by (intro node_step_send [where c = c and m = "\<lparr>sm_answer_id = m,
            sm_payload = SP_DialogueError (am_dialogue_id msg) (am_destination msg)\<rparr>"])
        (simp_all add: process_message_def send_defs origin_known_other)
  next
    case (Some e)
    then have "has_session nd e" using d by (simp add: directory_owned_def)
    with Some show ?thesis
      using r assms(2)
      by (intro node_step_send [where c = e and m = "\<lparr>sm_answer_id = m,
            sm_payload = SP_Content \<lparr>ct_dialogue_id = am_dialogue_id msg, ct_origin = public_key nd c,
              ct_payload = am_payload msg\<rparr>\<rparr>"])
        (auto simp: process_message_def send_defs origin_known_def Let_def split: pb_payload.split)
  qed
  show ?thesis
    using r by (simp add: process_envelope_def Let_def reg unreg rs us sa ss sw pm node_step_refl
        split: pb_envelope_payload.split)
qed

lemma answer_session_step:
  assumes "requests_owned nd" "has_session nd (request_conn k)"
  shows "node_step nd (answer_session k ec r nd)"
proof -
  have d: "node_step nd (set_description c None nd)" if "has_session nd c" for c
    using assms(1) that
    by (simp add: node_step_def requests_owned_cong [of "set_description c None nd" nd])
  have s: "node_step nd (session_send c \<lparr>sm_answer_id = a, sm_payload = p\<rparr> nd)"
    if "has_session nd c" "\<forall>ct. p \<noteq> SP_Content ct" for c a p
    using assms(1) that
    by (intro node_step_send [of nd c "\<lparr>sm_answer_id = a, sm_payload = p\<rparr>"])
      (simp_all add: send_defs origin_known_other)
  show ?thesis
    using assms by (cases k) (simp_all add: d s send_error_def node_step_refl)
qed

lemma answer_calls_step:
  assumes "requests_owned nd" "\<forall>k \<in># called calls. has_session nd (request_conn k)"
  shows "node_step nd (answer_calls calls nd)"
  using assms
proof (induction calls nd rule: answer_calls.induct)
  case (1 nd)
  then show ?case by (simp add: node_step_refl)
next
  case (2 k ec r calls nd)
  have s: "node_step nd (answer_session k ec r nd)"
    using 2 by (intro answer_session_step) simp_all
  moreover from s have "node_step (answer_session k ec r nd) (answer_calls calls (answer_session k ec r nd))"
    using 2 by (intro 2) (auto simp: node_step_def)
  ultimately show ?case by (simp add: node_step_trans [OF s])
next
  case (3 i ec r calls nd)
  then show ?case by simp
qed

lemma node_search_event_step:
  assumes "node_ok nd" "node_search_event N ev nd = Some nd'" "issued ev = {#}"
  shows "node_step nd nd'"
proof -
  obtain cl calls where r: "client_step (ne_search N) ev (nd_search nd) = Some (cl, calls)"
      "nd' = answer_calls calls (nd\<lparr>nd_search := cl\<rparr>)"
    using assms(2) by (auto simp: node_search_event_def split: option.splits)
  let ?nd1 = "nd\<lparr>nd_search := cl\<rparr>"
  have sub: "called calls + waiting cl \<subseteq># waiting (nd_search nd)"
    using client_step_waiting [OF r(1)] assms(3) by simp
  have "\<forall>k \<in># called calls + waiting cl. has_session nd (request_conn k)"
    using assms(1) sub by (meson mset_subset_eqD node_ok_def requests_owned_def)
  then have o1: "requests_owned ?nd1" and o2: "\<forall>k \<in># called calls. has_session ?nd1 (request_conn k)"
    by (auto simp: requests_owned_def)
  have "node_step nd ?nd1"
    using o1 by (simp add: node_step_def)
  then show ?thesis
    using answer_calls_step [OF o1 o2] r(2) node_step_trans by blast
qed

lemma forward_completed_step:
  "requests_owned nd \<Longrightarrow> node_step nd (forward_completed i ec n nd)"
  by (auto simp: forward_completed_def comm_send_async_def forward_written_def node_step_def
      requests_owned_def Let_def)

section \<open>The invariant of the core\<close>

definition msgs_to :: "conn \<Rightarrow> (conn \<times> out_msg) list \<Rightarrow> out_msg list" where
  "msgs_to c sent = map snd (filter (\<lambda>m. fst m = c) sent)"

lemma msgs_to_append [simp]: "msgs_to c (xs @ ys) = msgs_to c xs @ msgs_to c ys"
  by (simp add: msgs_to_def)

lemma msgs_to_pairs [simp]: "msgs_to c (map (Pair d) ms) = (if c = d then ms else [])"
  by (induction ms) (auto simp: msgs_to_def)

lemma msgs_to_single [simp]: "msgs_to c [(d, m)] = (if c = d then [m] else [])"
  by (simp add: msgs_to_def)

abbreviation phrase_msg :: out_msg where
  "phrase_msg \<equiv> Out_Phrase (Ph_Phrase ''RandomlyGeneratedString'')"

abbreviation connected_msg :: "bool \<Rightarrow> out_msg" where
  "connected_msg b \<equiv> Out_Connected \<lparr>cn_status = b\<rparr>"

text \<open>What a connection that has no session may have been sent, by its state.\<close>

fun handshake_prefixes :: "conn_state option \<Rightarrow> out_msg list set" where
  "handshake_prefixes None = {[]}"
| "handshake_prefixes (Some CS_AwaitId) = {[]}"
| "handshake_prefixes (Some (CS_AwaitAnswer k)) = {[phrase_msg]}"
| "handshake_prefixes (Some CS_Reading) = {}"
| "handshake_prefixes (Some CS_Closed) =
     {[], [Out_Phrase Ph_Failure], [phrase_msg], [phrase_msg, connected_msg False]}"

definition conn_ok :: "node \<Rightarrow> conn_state option \<Rightarrow> conn \<Rightarrow> bool" where
  "conn_ok nd st c \<longleftrightarrow>
     (if has_session nd c
      then st \<in> {Some CS_Reading, Some CS_Closed} \<and>
           (\<exists>ms. msgs_to c (nd_sent nd) = phrase_msg # connected_msg True # map Out_Server ms)
      else msgs_to c (nd_sent nd) \<in> handshake_prefixes st)"

definition registry_ok :: "server \<Rightarrow> bool" where
  "registry_ok s \<longleftrightarrow>
     (\<forall>k c. dir_session (nd_dir (sv_node s)) k = Some c \<longleftrightarrow>
        conn_of s c = Some CS_Reading \<and> public_key (sv_node s) c = k)"

definition server_inv :: "server \<Rightarrow> bool" where
  "server_inv s \<longleftrightarrow>
     node_ok (sv_node s) \<and> dir_wf (nd_dir (sv_node s)) \<and> registry_ok s
     \<and> (\<forall>c. conn_ok (sv_node s) (conn_of s c) c)
     \<and> (\<forall>c \<ge> sv_next s. conn_of s c = None)
     \<and> (\<forall>m \<in> set (nd_sent (sv_node s)). origin_known (sv_node s) (snd m))"

lemma server_invD:
  assumes "server_inv s"
  shows "requests_owned (sv_node s)" "directory_owned (sv_node s)" "node_ok (sv_node s)"
    "dir_wf (nd_dir (sv_node s))" "registry_ok s" "conn_ok (sv_node s) (conn_of s c) c"
    "sv_next s \<le> c \<Longrightarrow> conn_of s c = None"
    "m \<in> set (nd_sent (sv_node s)) \<Longrightarrow> origin_known (sv_node s) (snd m)"
  using assms by (auto simp: server_inv_def node_ok_def)

lemma conn_okD:
  assumes "conn_ok nd st c"
  shows "st = Some CS_Reading \<Longrightarrow> has_session nd c"
    and "has_session nd c \<Longrightarrow> st \<in> {Some CS_Reading, Some CS_Closed}"
    and "\<not> has_session nd c \<Longrightarrow> msgs_to c (nd_sent nd) \<in> handshake_prefixes st"
  using assms by (auto simp: conn_ok_def split: if_splits)

lemma origin_known_cong:
  "has_session nd' = has_session nd \<Longrightarrow> public_key nd' = public_key nd \<Longrightarrow> origin_known nd' = origin_known nd"
  by (simp add: origin_known_def fun_eq_iff)

lemma map_Out_Server: "(\<forall>m \<in> set ms. \<exists>sm. snd m = Out_Server sm) \<Longrightarrow> \<exists>sms. msgs_to c ms = map Out_Server sms"
proof (induction ms)
  case Nil
  then show ?case by (simp add: msgs_to_def)
next
  case (Cons m ms)
  then obtain sms sm where "msgs_to c ms = map Out_Server sms" "snd m = Out_Server sm" by auto
  then have "msgs_to c (m # ms) = map Out_Server (if fst m = c then sm # sms else sms)"
    by (simp add: msgs_to_def)
  then show ?case by blast
qed

lemma conn_ok_step:
  assumes "conn_ok nd st c" "node_step nd nd'"
  shows "conn_ok nd' st c"
proof -
  from assms(2) obtain ms where ms: "nd_sent nd' = nd_sent nd @ ms" "\<forall>m \<in> set ms. session_msg nd m"
    and h: "has_session nd' = has_session nd" by (auto simp: node_step_def)
  show ?thesis
  proof (cases "has_session nd c")
    case True
    from ms(2) have "\<forall>m \<in> set ms. \<exists>sm. snd m = Out_Server sm" by (auto simp: session_msg_def)
    then obtain sms where "msgs_to c ms = map Out_Server sms" using map_Out_Server by blast
    with assms(1) True show ?thesis
      by (auto simp: conn_ok_def h ms(1) simp flip: map_append)
  next
    case False
    with ms(2) have "msgs_to c ms = []"
      by (auto simp: msgs_to_def session_msg_def filter_empty_conv)
    with assms(1) False show ?thesis
      by (simp add: conn_ok_def h ms(1))
  qed
qed

lemma server_inv_node_step:
  assumes "server_inv s" "node_step (sv_node s) nd"
  shows "server_inv (s\<lparr>sv_node := nd\<rparr>)"
proof -
  from assms(2) have e: "nd_dir nd = nd_dir (sv_node s)" "has_session nd = has_session (sv_node s)"
      "public_key nd = public_key (sv_node s)"
    by (simp_all add: node_step_def)
  from assms(2) obtain ms where "nd_sent nd = nd_sent (sv_node s) @ ms" "\<forall>m \<in> set ms. session_msg (sv_node s) m"
    by (auto simp: node_step_def)
  then have "\<forall>m \<in> set (nd_sent nd). origin_known nd (snd m)"
    using server_invD(8) [OF assms(1)] origin_known_cong [OF e(2,3)] by (auto simp: session_msg_def)
  moreover have "node_ok nd"
    using node_step_ok [OF assms(2)] server_invD(3) [OF assms(1)] by blast
  moreover have "conn_ok nd (conn_of s c) c" for c
    using conn_ok_step [OF _ assms(2)] server_invD(6) [OF assms(1)] by blast
  ultimately show ?thesis
    using assms(1) by (auto simp: server_inv_def registry_ok_def e)
qed

text \<open>A move of a connection that has no session and does not get one.\<close>

lemma server_inv_handshake:
  assumes inv: "server_inv s" and c: "conn_of s c = Some st0" "st0 \<in> {CS_AwaitId, CS_AwaitAnswer k}"
    and st: "st \<noteq> CS_Reading" "\<forall>m \<in> set ms. \<forall>sm. m \<noteq> Out_Server sm"
    and pre: "\<And>ms0. ms0 \<in> handshake_prefixes (Some st0) \<Longrightarrow> ms0 @ ms \<in> handshake_prefixes (Some st)"
    and s': "s' = set_conn c st (s\<lparr>sv_node := (sv_node s)\<lparr>nd_sent := nd_sent (sv_node s) @ map (Pair c) ms\<rparr>\<rparr>)"
  shows "server_inv s'"
proof -
  let ?nd = "sv_node s" and ?nd' = "sv_node s'"
  have nd': "?nd' = ?nd\<lparr>nd_sent := nd_sent ?nd @ map (Pair c) ms\<rparr>"
    by (simp add: s' set_conn_def)
  have co: "conn_of s' d = (if d = c then Some st else conn_of s d)" for d
    by (simp add: s' set_conn_def)
  have no: "\<not> has_session ?nd c"
    using conn_okD(2) [OF server_invD(6) [OF inv, of c]] c by auto
  have "conn_ok ?nd' (conn_of s' d) d" for d
  proof (cases "d = c")
    case True
    with no pre [OF conn_okD(3) [OF server_invD(6) [OF inv, of c] no, unfolded c(1)]] show ?thesis
      by (simp add: conn_ok_def nd' co)
  next
    case False
    with server_invD(6) [OF inv, of d] show ?thesis
      by (auto simp: conn_ok_def nd' co split: if_splits)
  qed
  moreover have "registry_ok s'"
    using server_invD(5) [OF inv] c st(1) by (auto simp: registry_ok_def nd' co)
  moreover have "node_ok ?nd'"
    using server_invD(3) [OF inv] by (simp add: node_ok_def requests_owned_def directory_owned_def nd')
  moreover have "\<forall>m \<in> set (nd_sent ?nd'). origin_known ?nd' (snd m)"
    using server_invD(8) [OF inv] st(2) origin_known_cong [of ?nd' ?nd] nd'
    by (auto simp: origin_known_def)
  moreover have "\<forall>d \<ge> sv_next s'. conn_of s' d = None"
    using server_invD(7) [OF inv] c(1) by (auto simp: co) (auto simp: s' set_conn_def)
  ultimately show ?thesis
    using server_invD(4) [OF inv] by (simp add: server_inv_def nd')
qed

section \<open>Every step keeps the invariant\<close>

lemma server_inv_new_session:
  assumes "server_inv s"
  shows "server_inv (new_session s)"
proof -
  have none: "conn_of s (sv_next s) = None"
    using server_invD(7) [OF assms] by simp
  have co: "conn_of (new_session s) d = (if d = sv_next s then Some CS_AwaitId else conn_of s d)" for d
    by (simp add: new_session_def set_conn_def)
  have nd: "sv_node (new_session s) = sv_node s" "sv_next (new_session s) = Suc (sv_next s)"
    by (simp_all add: new_session_def set_conn_def)
  have "conn_ok (sv_node s) (conn_of (new_session s) d) d" for d
    using server_invD(6) [OF assms, of d] none by (auto simp: co conn_ok_def split: if_splits)
  then show ?thesis
    using assms none unfolding server_inv_def registry_ok_def nd by (auto simp: co)
qed

lemma server_inv_accepts [simp]: "server_inv (s\<lparr>sv_accepts := n\<rparr>) = server_inv s"
  by (simp add: server_inv_def registry_ok_def)

lemma server_inv_do_accept [simp]: "server_inv (do_accept s) = server_inv s"
  by (simp add: do_accept_def)

lemma server_inv_close:
  assumes "server_inv s" "conn_of s c = Some st0" "st0 \<in> {CS_AwaitId, CS_AwaitAnswer k}"
  shows "server_inv (set_conn c CS_Closed s)"
  using assms(2,3)
  by (intro server_inv_handshake [OF assms, of CS_Closed "[]"]) auto

lemma server_inv_id:
  assumes "server_inv s" "conn_of s c = Some CS_AwaitId"
  shows "server_inv (id_received N c ec buf s)"
proof -
  have "server_inv (secret_handshake c k s)" for k
    using assms(2)
    by (intro server_inv_handshake [OF assms(1,2), of k "CS_AwaitAnswer k" "[phrase_msg]"])
      (auto simp: secret_handshake_def server_send_def comm_send_def)
  moreover have "server_inv (set_conn c CS_Closed (server_send c (Out_Phrase Ph_Failure) s))"
    using assms(2)
    by (intro server_inv_handshake [OF assms(1,2), of _ CS_Closed "[Out_Phrase Ph_Failure]"])
      (auto simp: server_send_def comm_send_def)
  moreover have "server_inv (set_conn c CS_Closed s)"
    using assms by (intro server_inv_close) auto
  ultimately show ?thesis by (simp add: id_received_def Let_def)
qed

lemma server_inv_session_added:
  assumes inv: "server_inv s" and c: "conn_of s c = Some (CS_AwaitAnswer k)"
    and free: "dir_session (nd_dir (sv_node s)) k = None"
    and s': "s' = set_conn c CS_Reading (s\<lparr>sv_node := (sv_node s)\<lparr>
        nd_dir := snd (dir_add k c (nd_dir (sv_node s))),
        nd_sessions := umap_set c (session_make k) (nd_sessions (sv_node s)),
        nd_sent := nd_sent (sv_node s) @ [(c, connected_msg True)]\<rparr>\<rparr>)"
  shows "server_inv s'"
proof -
  let ?nd = "sv_node s" and ?nd' = "sv_node s'"
  have nd': "?nd' = ?nd\<lparr>nd_dir := snd (dir_add k c (nd_dir ?nd)),
        nd_sessions := umap_set c (session_make k) (nd_sessions ?nd),
        nd_sent := nd_sent ?nd @ [(c, connected_msg True)]\<rparr>"
    by (simp add: s' set_conn_def)
  have co: "conn_of s' d = (if d = c then Some CS_Reading else conn_of s d)" for d
    by (simp add: s' set_conn_def)
  have no: "\<not> has_session ?nd c"
    using conn_okD(2) [OF server_invD(6) [OF inv, of c]] c by auto
  have sent: "nd_sent ?nd' = nd_sent ?nd @ [(c, connected_msg True)]"
    by (simp add: nd')
  have hs: "has_session ?nd' d = (d = c \<or> has_session ?nd d)" for d
    by (simp add: has_session_def nd')
  have pk: "public_key ?nd' d = (if d = c then k else public_key ?nd d)" for d
    by (simp add: public_key_def node_session_def nd' session_make_def)
  have ds: "dir_session (nd_dir ?nd') j = (if j = k then Some c else dir_session (nd_dir ?nd) j)" for j
    using dir.add_fresh [of "nd_dir ?nd" k c, OF free] by (simp add: nd')
  have "conn_ok ?nd' (conn_of s' d) d" for d
  proof (cases "d = c")
    case True
    have "msgs_to c (nd_sent ?nd) = [phrase_msg]"
      using conn_okD(3) [OF server_invD(6) [OF inv, of c] no] c by simp
    then have "msgs_to c (nd_sent ?nd') = phrase_msg # connected_msg True # map Out_Server []"
      by (simp add: nd')
    with True show ?thesis
      unfolding conn_ok_def by (auto simp: hs co)
  next
    case False
    with server_invD(6) [OF inv, of d] show ?thesis
      by (auto simp: conn_ok_def co hs sent split: if_splits)
  qed
  moreover have "registry_ok s'"
    unfolding registry_ok_def
  proof (intro allI)
    fix j d
    have "dir_session (nd_dir ?nd) j = Some d \<longleftrightarrow> conn_of s d = Some CS_Reading \<and> public_key ?nd d = j" for j
      using server_invD(5) [OF inv] by (simp add: registry_ok_def)
    from this [of j] this [of k] show
      "dir_session (nd_dir ?nd') j = Some d \<longleftrightarrow> conn_of s' d = Some CS_Reading \<and> public_key ?nd' d = j"
      unfolding ds co pk using free c by auto
  qed
  moreover have "node_ok ?nd'"
    using server_invD(1,2) [OF inv]
    by (auto simp: node_ok_def requests_owned_def directory_owned_def hs ds) (simp_all add: nd')
  moreover have "origin_known ?nd' (snd m)" if "m \<in> set (nd_sent ?nd')" for m
  proof (cases "m = (c, connected_msg True)")
    case True
    then show ?thesis by (simp add: origin_known_def)
  next
    case False
    with that have "m \<in> set (nd_sent ?nd)" by (simp add: nd')
    from server_invD(8) [OF inv this] no show ?thesis
      unfolding origin_known_def hs pk by metis
  qed
  moreover have "\<forall>d \<ge> sv_next s'. conn_of s' d = None"
    using server_invD(7) [OF inv] c by (auto simp: co) (auto simp: s' set_conn_def)
  moreover have "dir_wf (nd_dir ?nd')"
    using dir_wf_add [OF server_invD(4) [OF inv]] by (simp add: nd')
  ultimately show ?thesis
    by (simp add: server_inv_def)
qed

lemma dir_add_split: "dir_add k c d = (dir_session d k = None, snd (dir_add k c d))"
  by (simp add: dir.add_result prod_eq_iff)

lemma answer_accepted:
  assumes "dir_session (nd_dir (sv_node s)) k = None"
  shows "answer_received N c k No_error buf s =
    server_send c (connected_msg True) (set_conn c CS_Reading
      (s\<lparr>sv_node := (sv_node s)\<lparr>nd_dir := snd (dir_add k c (nd_dir (sv_node s))),
         nd_sessions := umap_set c (session_make k) (nd_sessions (sv_node s))\<rparr>\<rparr>))"
  using assms by (subst answer_received_def, subst dir_add_split) (simp add: Let_def)

lemma answer_refused:
  assumes "dir_session (nd_dir (sv_node s)) k = Some c'"
  shows "answer_received N c k No_error buf s =
    set_conn c CS_Closed (server_send c (connected_msg False) s)"
  using assms by (subst answer_received_def, subst dir_add_split) (simp add: Let_def)

lemma server_inv_answer:
  assumes "server_inv s" "conn_of s c = Some (CS_AwaitAnswer k)"
  shows "server_inv (answer_received N c k ec buf s)"
proof -
  have a: "server_inv (server_send c (connected_msg True) (set_conn c CS_Reading
      (s\<lparr>sv_node := (sv_node s)\<lparr>nd_dir := snd (dir_add k c (nd_dir (sv_node s))),
         nd_sessions := umap_set c (session_make k) (nd_sessions (sv_node s))\<rparr>\<rparr>)))"
    if "dir_session (nd_dir (sv_node s)) k = None"
    by (rule server_inv_session_added [OF assms that]) (simp add: server_send_def comm_send_def set_conn_def)
  have "server_inv (set_conn c CS_Closed (server_send c (connected_msg False) s))"
    using assms(2)
    by (intro server_inv_handshake [OF assms, of k CS_Closed "[connected_msg False]"])
      (auto simp: server_send_def comm_send_def)
  moreover have "server_inv (set_conn c CS_Closed s)"
    using assms by (intro server_inv_close) auto
  ultimately show ?thesis
    using a by (subst answer_received_def, subst dir_add_split) (simp add: Let_def)
qed

lemma server_inv_session_ended:
  assumes inv: "server_inv s" and c: "conn_of s c = Some CS_Reading"
  shows "server_inv (set_conn c CS_Closed (s\<lparr>sv_node := (sv_node s)\<lparr>
      nd_dir := snd (dir_remove (public_key (sv_node s) c) (nd_dir (sv_node s)))\<rparr>\<rparr>))"
    (is "server_inv ?s'")
proof -
  let ?nd = "sv_node s" and ?nd' = "sv_node ?s'"
  have nd': "?nd' = ?nd\<lparr>nd_dir := snd (dir_remove (public_key ?nd c) (nd_dir ?nd))\<rparr>"
    by (simp add: set_conn_def)
  have co: "conn_of ?s' d = (if d = c then Some CS_Closed else conn_of s d)" for d
    by (simp add: set_conn_def)
  have ds: "dir_session (nd_dir ?nd') j = (if j = public_key ?nd c then None else dir_session (nd_dir ?nd) j)" for j
    by (simp add: nd' dir.del_look)
  have reg: "dir_session (nd_dir ?nd) k = Some d \<longleftrightarrow> conn_of s d = Some CS_Reading \<and> public_key ?nd d = k" for k d
    using server_invD(5) [OF inv] by (simp add: registry_ok_def)
  have "registry_ok ?s'"
    unfolding registry_ok_def
  proof (intro allI)
    fix k d
    have "conn_of s d = Some CS_Reading \<and> public_key ?nd d = public_key ?nd c \<Longrightarrow> d = c"
      using reg [of "public_key ?nd c" d] reg [of "public_key ?nd c" c] c by auto
    then show "dir_session (nd_dir ?nd') k = Some d \<longleftrightarrow> conn_of ?s' d = Some CS_Reading \<and> public_key ?nd' d = k"
      unfolding ds co using reg [of k d] by (auto simp: nd')
  qed
  moreover have "conn_ok ?nd' (conn_of ?s' d) d" for d
    using server_invD(6) [OF inv, of d] c by (auto simp: conn_ok_def co nd' split: if_splits)
  moreover have "node_ok ?nd'"
    using server_invD(1,2) [OF inv]
    by (auto simp: node_ok_def requests_owned_def directory_owned_def ds split: if_splits) (simp_all add: nd')
  moreover have "\<forall>m \<in> set (nd_sent ?nd'). origin_known ?nd' (snd m)"
    using server_invD(8) [OF inv] origin_known_cong [of ?nd' ?nd] by (simp add: nd')
  moreover have "\<forall>d \<ge> sv_next ?s'. conn_of ?s' d = None"
    using server_invD(7) [OF inv] c by (auto simp: co) (auto simp: set_conn_def)
  moreover have "dir_wf (nd_dir ?nd')"
    using dir_wf_remove [OF server_invD(4) [OF inv]] by (simp add: nd')
  ultimately show ?thesis
    by (simp add: server_inv_def)
qed

lemma server_inv_message:
  assumes "server_inv s" "conn_of s c = Some CS_Reading"
  shows "server_inv (message_received N c ec buf s)"
proof (cases "failed ec")
  case True
  then show ?thesis
    using server_inv_session_ended [OF assms] by (simp add: message_received_def session_read_def)
next
  case False
  have "has_session (sv_node s) c"
    using conn_okD(1) [OF server_invD(6) [OF assms(1), of c]] assms(2) by simp
  then have "node_step (sv_node s) (session_process N c buf (sv_node s))"
    using process_envelope_step [OF server_invD(3) [OF assms(1)]] by (simp add: session_process_def)
  with False show ?thesis
    using server_inv_node_step [OF assms(1)] by (simp add: message_received_def session_read_def)
qed

lemma server_inv_step:
  assumes "server_step N s ev s'" "server_inv s"
  shows "server_inv s'"
  using assms
proof (induction rule: server_step.induct)
  case (step_accept s N ec)
  then show ?case
    by (simp add: acceptor_completed_def accept_continuation_def server_inv_new_session)
next
  case (step_forwarded i s N ec n)
  then show ?case
    using server_inv_node_step forward_completed_step server_invD(1) by blast
next
  case (step_search_written i s N ec n nd)
  then have "node_step (sv_node s) nd"
    by (intro node_search_event_step [where ev = "CE_Written i ec n"] server_invD(3)) simp_all
  with step_search_written show ?case by (simp add: server_inv_node_step)
next
  case (step_search_message s N nd)
  then have "node_step (sv_node s) nd"
    by (intro node_search_event_step [where ev = CE_Message] server_invD(3)) simp_all
  with step_search_message show ?case by (simp add: server_inv_node_step)
qed (simp_all add: server_inv_id server_inv_answer server_inv_message)

lemma server_inv_steps: "server_steps N s evs s' \<Longrightarrow> server_inv s \<Longrightarrow> server_inv s'"
  by (induction rule: server_steps.induct) (auto dest: server_inv_step)

lemma server_inv_run: "server_inv (server_run n s) = server_inv s"
  by (induction n) (simp_all add: server_run_def)

lemma server_inv_make: "server_inv (server_make key ip port strm)"
  by (auto simp: server_inv_def server_make_def node_ok_def requests_owned_def directory_owned_def
      waiting_def search_client_make_def registry_ok_def conn_ok_def has_session_def msgs_to_def)

lemma server_inv_reachable: "server_reachable N s \<Longrightarrow> server_inv s"
  using server_inv_steps server_inv_run server_inv_make by (fastforce simp: server_reachable_def)

section \<open>An example\<close>

text \<open>One connection is accepted, sends an ID and an answer, and becomes the session of alice.\<close>

definition example_start :: server where
  "example_start = server_run 1 (server_make ''core'' ''127.0.0.1'' 3333 \<lparr>st_in = [], st_end = 2\<rparr>)"

definition example_accepted :: server where
  "example_accepted =
     acceptor_completed accept_continuation No_error (example_start\<lparr>sv_accepts := sv_accepts example_start - 1\<rparr>)"

definition example_asked :: server where
  "example_asked = id_received example_node_env 0 No_error [1] example_accepted"

definition example_online :: server where
  "example_online = answer_received example_node_env 0 ''alice'' No_error [1] example_asked"

lemmas example_server_defs = example_start_def example_accepted_def example_asked_def example_online_def
  server_run_def server_make_def do_accept_def acceptor_completed_def accept_continuation_def
  new_session_def set_conn_def id_received_def example_node_env_def pbs_deserialize_def
  secret_handshake_def server_send_def comm_send_def answer_received_def dir_exist_def dir_add_def
  dir_empty_def

lemma example_online_eq:
  "example_online =
     \<lparr>sv_node = \<lparr>nd_dir = \<lparr>ad_sessions = [(''alice'', 0)]\<rparr>, nd_sessions = [(0, session_make ''alice'')],
        nd_search = search_client_make ''core'' ''127.0.0.1'' 3333 \<lparr>st_in = [], st_end = 2\<rparr>,
        nd_sent = [(0, phrase_msg), (0, connected_msg True)], nd_forwards = []\<rparr>,
      sv_conns = [(0, CS_Reading)], sv_next = 1, sv_accepts = 1\<rparr>"
  by (simp add: example_server_defs)

lemma example_steps:
  "server_steps example_node_env example_start
     [SE_Accept No_error, SE_Receive 0 No_error [1], SE_Receive 0 No_error [1]] example_online"
proof -
  have a: "server_step example_node_env example_start (SE_Accept No_error) example_accepted"
    unfolding example_accepted_def by (rule step_accept) (simp add: example_server_defs)
  have b: "server_step example_node_env example_accepted (SE_Receive 0 No_error [1]) example_asked"
    unfolding example_asked_def by (rule step_id) (simp add: example_server_defs)
  have c: "server_step example_node_env example_asked (SE_Receive 0 No_error [1]) example_online"
    unfolding example_online_def by (rule step_answer) (simp add: example_server_defs)
  show ?thesis
    by (rule steps_cons [OF a steps_cons [OF b steps_cons [OF c steps_nil]]])
qed

lemma example_reachable: "server_reachable example_node_env example_online"
  using example_steps unfolding server_reachable_def example_start_def by blast

lemma server_steps_snoc:
  "server_steps N s evs s1 \<Longrightarrow> server_step N s1 ev s2 \<Longrightarrow> server_steps N s (evs @ [ev]) s2"
  by (induction rule: server_steps.induct) (auto intro: server_steps.intros)

lemma server_reachable_step: "server_reachable N s \<Longrightarrow> server_step N s ev s' \<Longrightarrow> server_reachable N s'"
  using server_steps_snoc unfolding server_reachable_def by blast

text \<open>Alice sends a message to herself.\<close>

definition example_talking :: server where
  "example_talking = message_received example_node_env 0 No_error [7] example_online"

lemma example_talking_reachable: "server_reachable example_node_env example_talking"
proof (rule server_reachable_step [OF example_reachable])
  show "server_step example_node_env example_online (SE_Receive 0 No_error [7]) example_talking"
    unfolding example_talking_def by (rule step_message) (simp add: example_online_eq)
qed

lemma example_talking_sent:
  "nd_sent (sv_node example_talking) = [(0, phrase_msg), (0, connected_msg True),
     (0, Out_Server \<lparr>sm_answer_id = 3, sm_payload = SP_Content
       \<lparr>ct_dialogue_id = 6, ct_origin = ''alice'', ct_payload = PL_Content ''hi''\<rparr>\<rparr>)]"
  by (simp add: example_talking_def message_received_def session_read_def session_process_def
      pbs_deserialize_def example_node_env_def process_envelope_def process_message_def send_defs
      example_online_eq dir_session_def public_key_def node_session_def session_make_def)

section \<open>The directory\<close>

text \<open>
  C1: In every reachable state of the core the directory maps a key to a connection
  exactly when that connection is in its read loop with that key; live sessions have
  distinct keys, and nb_agents is their number.
\<close>

theorem directory_is_live_sessions:
  assumes "server_reachable N s"
  shows "(\<forall>k c. dir_session (nd_dir (sv_node s)) k = Some c \<longleftrightarrow>
            conn_of s c = Some CS_Reading \<and> public_key (sv_node s) c = k)
    \<and> server_nb_agents s = card {c. conn_of s c = Some CS_Reading}
    \<and> inj_on (public_key (sv_node s)) {c. conn_of s c = Some CS_Reading}"
proof -
  let ?D = "dir_session (nd_dir (sv_node s))" and ?R = "{c. conn_of s c = Some CS_Reading}"
  note inv = server_inv_reachable [OF assms]
  have reg: "?D k = Some c \<longleftrightarrow> conn_of s c = Some CS_Reading \<and> public_key (sv_node s) c = k" for k c
    using server_invD(5) [OF inv] by (simp add: registry_ok_def)
  have inj: "inj_on (public_key (sv_node s)) ?R"
  proof (rule inj_onI)
    fix c1 c2
    assume "c1 \<in> ?R" "c2 \<in> ?R" "public_key (sv_node s) c1 = public_key (sv_node s) c2"
    with reg [of "public_key (sv_node s) c1" c1] reg [of "public_key (sv_node s) c1" c2]
    show "c1 = c2" by simp
  qed
  have "dom ?D = public_key (sv_node s) ` ?R"
    by (auto simp: reg dom_def)
  then have "server_nb_agents s = card ?R"
    using dir_size_sessions [OF server_invD(4) [OF inv]] inj
    by (simp add: server_nb_agents_def card_image)
  with reg inj show ?thesis by blast
qed

theorem directory_is_live_sessions_witness:
  "server_nb_agents example_online = card {c. conn_of example_online c = Some CS_Reading}
   \<and> dir_session (nd_dir (sv_node example_online)) ''alice'' = Some 0"
  using directory_is_live_sessions [OF example_reachable]
  by (simp add: example_online_eq public_key_def node_session_def session_make_def)

section \<open>The handshake\<close>

text \<open>
  C4: In every reachable state, what each connection has been sent follows the
  handshake: nothing before its ID, the phrase before its answer, then Connected(true)
  and only server messages after it, or one of the refusals and nothing more.
\<close>

theorem handshake_protocol:
  assumes "server_reachable N s"
  shows "case conn_of s c of
      None \<Rightarrow> msgs_to c (nd_sent (sv_node s)) = []
    | Some CS_AwaitId \<Rightarrow> msgs_to c (nd_sent (sv_node s)) = []
    | Some (CS_AwaitAnswer k) \<Rightarrow> msgs_to c (nd_sent (sv_node s)) = [phrase_msg]
    | Some CS_Reading \<Rightarrow>
        (\<exists>ms. msgs_to c (nd_sent (sv_node s)) = phrase_msg # connected_msg True # map Out_Server ms)
    | Some CS_Closed \<Rightarrow>
        msgs_to c (nd_sent (sv_node s)) \<in>
          {[], [Out_Phrase Ph_Failure], [phrase_msg], [phrase_msg, connected_msg False]}
        \<or> (\<exists>ms. msgs_to c (nd_sent (sv_node s)) = phrase_msg # connected_msg True # map Out_Server ms)"
  using server_invD(6) [OF server_inv_reachable [OF assms], of c]
  by (auto simp: conn_ok_def split: option.split conn_state.split if_splits)

theorem handshake_protocol_witness:
  "\<exists>ms. msgs_to 0 (nd_sent (sv_node example_online)) = phrase_msg # connected_msg True # map Out_Server ms"
  using handshake_protocol [OF example_reachable, of 0] by (simp add: example_online_eq)

text \<open>At any later time the origin of a content is the key of a connection that has a session.\<close>

lemma origins_are_sessions:
  assumes "server_reachable N s"
    and "(d, Out_Server \<lparr>sm_answer_id = a, sm_payload = SP_Content ct\<rparr>) \<in> set (nd_sent (sv_node s))"
  shows "\<exists>c. connected_msg True \<in> set (msgs_to c (nd_sent (sv_node s))) \<and> public_key (sv_node s) c = ct_origin ct"
proof -
  note inv = server_inv_reachable [OF assms(1)]
  obtain c where c: "has_session (sv_node s) c" "public_key (sv_node s) c = ct_origin ct"
    using server_invD(8) [OF inv assms(2)] by (auto simp: origin_known_def)
  have "connected_msg True \<in> set (msgs_to c (nd_sent (sv_node s)))"
    using server_invD(6) [OF inv, of c] c(1) by (auto simp: conn_ok_def)
  with c(2) show ?thesis by blast
qed

text \<open>The forwarded contents among the messages sent.\<close>

fun is_content :: "out_msg \<Rightarrow> bool" where
  "is_content (Out_Server sm) = (case sm_payload sm of SP_Content ct \<Rightarrow> True | _ \<Rightarrow> False)"
| "is_content _ = False"

text \<open>A handler that adds no content to the messages sent.\<close>

definition quiet :: "node \<Rightarrow> node \<Rightarrow> bool" where
  "quiet nd nd' \<longleftrightarrow> (\<exists>ms. nd_sent nd' = nd_sent nd @ ms \<and> (\<forall>m \<in> set ms. \<not> is_content (snd m)))"

lemma quiet_same: "nd_sent nd' = nd_sent nd \<Longrightarrow> quiet nd nd'"
  by (simp add: quiet_def)

lemma quiet_trans:
  assumes "quiet nd nd1" "quiet nd1 nd2" shows "quiet nd nd2"
proof -
  obtain ms where "nd_sent nd1 = nd_sent nd @ ms" "\<forall>m \<in> set ms. \<not> is_content (snd m)"
    using assms(1) by (auto simp: quiet_def)
  moreover obtain ms' where "nd_sent nd2 = nd_sent nd1 @ ms'" "\<forall>m \<in> set ms'. \<not> is_content (snd m)"
    using assms(2) by (auto simp: quiet_def)
  ultimately show ?thesis unfolding quiet_def by (intro exI [of _ "ms @ ms'"]) auto
qed

text \<open>The content that the handler of a message forwards.\<close>

definition forwarded :: "conn \<Rightarrow> u32 \<Rightarrow> pb_agent_msg \<Rightarrow> node \<Rightarrow> (conn \<times> out_msg) list" where
  "forwarded c m msg nd =
     (case dir_session (nd_dir nd) (am_destination msg) of
        None \<Rightarrow> []
      | Some d \<Rightarrow> [(d, Out_Server \<lparr>sm_answer_id = m, sm_payload = SP_Content
          \<lparr>ct_dialogue_id = am_dialogue_id msg, ct_origin = public_key nd c, ct_payload = am_payload msg\<rparr>\<rparr>)])"

lemma process_envelope_sends:
  "quiet nd (process_envelope N c env nd) \<or>
   (\<exists>msg m. ev_payload env = EP_SendMessage msg \<and> forwarded c (ev_msg_id env) msg nd = [m] \<and>
      nd_sent (process_envelope N c env nd) = nd_sent nd @ [m])"
proof (cases "ev_payload env")
  case (EP_SendMessage msg)
  show ?thesis
  proof (cases "dir_session (nd_dir nd) (am_destination msg)")
    case None
    with EP_SendMessage have "quiet nd (process_envelope N c env nd)"
      by (simp add: quiet_def process_envelope_def process_message_def send_defs Let_def)
    then show ?thesis ..
  next
    case (Some d)
    with EP_SendMessage show ?thesis
      by (simp add: process_envelope_def process_message_def send_defs forwarded_def Let_def split: pb_payload.split)
  qed
next
  case EP_UnregisterDescription
  then have "quiet nd (process_envelope N c env nd)"
    by (intro quiet_same) (simp add: process_envelope_def process_unregister_description_def Let_def split: option.split)
  then show ?thesis ..
qed (simp_all add: quiet_same process_envelope_def session_request_defs Let_def)

lemma quiet_answer_session: "quiet nd (answer_session k ec r nd)"
  by (cases k) (auto simp: send_defs quiet_def)

lemma quiet_answer_calls: "quiet nd (answer_calls calls nd)"
  by (induction calls nd rule: answer_calls.induct) (auto simp: quiet_same intro: quiet_trans quiet_answer_session)

lemma quiet_search_event: "node_search_event N ev nd = Some nd' \<Longrightarrow> quiet nd nd'"
  by (auto simp: node_search_event_def intro: quiet_trans [OF quiet_same quiet_answer_calls] split: option.splits)

lemma quiet_forward_completed: "quiet nd (forward_completed i ec n nd)"
  by (simp add: forward_completed_def comm_send_async_def forward_written_def send_defs quiet_def Let_def split: option.split)

text \<open>A content is sent by the step in which a session reads the message.\<close>

definition relays :: "node_env \<Rightarrow> server \<Rightarrow> server_event \<Rightarrow> server \<Rightarrow> conn \<times> out_msg \<Rightarrow> bool" where
  "relays N s ev s' m \<longleftrightarrow> (\<exists>c ec buf msg env. ev = SE_Receive c ec buf \<and> \<not> failed ec \<and> conn_of s c = Some CS_Reading
     \<and> env = pbs_deserialize (ne_get_envelope N) buf \<and> ev_payload env = EP_SendMessage msg
     \<and> forwarded c (ev_msg_id env) msg (sv_node s) = [m] \<and> nd_sent (sv_node s') = nd_sent (sv_node s) @ [m])"

lemma step_sends:
  assumes "server_step N s ev s'"
  shows "quiet (sv_node s) (sv_node s') \<or> (\<exists>m. relays N s ev s' m)"
  using assms
proof cases
  case (step_accept ec)
  then show ?thesis
    by (auto simp: acceptor_completed_def accept_continuation_def do_accept_def new_session_def set_conn_def quiet_same)
next
  case (step_id c ec buf)
  then show ?thesis
    by (auto simp: id_received_def secret_handshake_def server_send_def comm_send_def set_conn_def quiet_def Let_def)
next
  case (step_answer c k ec buf)
  then show ?thesis
    by (auto simp: answer_received_def server_send_def comm_send_def set_conn_def quiet_def Let_def split: prod.split)
next
  case (step_message c ec buf)
  show ?thesis
  proof (cases "failed ec")
    case True
    with step_message show ?thesis by (simp add: message_received_def session_read_def set_conn_def quiet_same)
  next
    case False
    let ?env = "pbs_deserialize (ne_get_envelope N) buf"
    have "sv_node s' = process_envelope N c ?env (sv_node s)"
      using step_message False by (simp add: message_received_def session_read_def session_process_def)
    with process_envelope_sends [of "sv_node s" N c ?env] step_message False show ?thesis
      unfolding relays_def by metis
  qed
qed (simp_all add: quiet_forward_completed quiet_search_event)

lemma steps_relay:
  assumes "server_steps N s evs s'" "length (nd_sent (sv_node s)) \<le> i" "i < length (nd_sent (sv_node s'))"
    and "is_content (snd (nd_sent (sv_node s') ! i))"
  shows "\<exists>before ev after s0 s1. server_steps N s before s0 \<and> server_step N s0 ev s1 \<and> server_steps N s1 after s' \<and>
    length (nd_sent (sv_node s0)) = i \<and> relays N s0 ev s1 (nd_sent (sv_node s') ! i)"
proof -
  have grow: "\<exists>ms. nd_sent (sv_node s') = nd_sent (sv_node s) @ ms" if "server_steps N s evs s'" for N s evs s'
    using that
  proof (induction rule: server_steps.induct)
    case (steps_cons N s ev s1 evs s2)
    with step_sends [OF steps_cons(1)] show ?case by (auto simp: quiet_def relays_def)
  qed simp
  show ?thesis
    using assms
  proof (induction rule: server_steps.induct)
    case (steps_cons N s ev s1 evs s2)
    show ?case
    proof (cases "length (nd_sent (sv_node s1)) \<le> i")
      case True
      from steps_cons.IH [OF True steps_cons(5,6)] server_steps.steps_cons [OF steps_cons(1)] show ?thesis by blast
    next
      case False
      obtain ms where ms: "nd_sent (sv_node s2) = nd_sent (sv_node s1) @ ms" using grow [OF steps_cons(2)] by blast
      with False have e: "nd_sent (sv_node s2) ! i = nd_sent (sv_node s1) ! i" by (simp add: nth_append)
      from step_sends [OF steps_cons(1)] show ?thesis
      proof
        assume "quiet (sv_node s) (sv_node s1)"
        then have "\<not> is_content (snd (nd_sent (sv_node s1) ! i))"
          using False steps_cons(4) by (auto simp: quiet_def nth_append)
        with e steps_cons(6) show ?thesis by simp
      next
        assume "\<exists>m. relays N s ev s1 m"
        then obtain m where m: "relays N s ev s1 m" by blast
        then have "nd_sent (sv_node s1) = nd_sent (sv_node s) @ [m]" by (auto simp: relays_def)
        moreover from this False steps_cons(4) have i: "i = length (nd_sent (sv_node s))" by simp
        ultimately have "nd_sent (sv_node s1) ! i = m" by simp
        with i m e steps_cons(1,2) steps_nil show ?thesis by metis
      qed
    qed
  qed simp
qed

text \<open>
  C3: In every reachable state, each forwarded content that was sent, say the i-th
  message, was sent by the step in which a connection in its read loop, that had
  completed the handshake, delivered an envelope asking to send it: with the dialogue
  id, payload and message id of that envelope, the public key of that very connection as
  origin, and to the connection, also past its handshake, that the directory then held
  for the destination of the envelope.
\<close>

theorem origins_are_genuine:
  assumes "server_reachable N s" "i < length (nd_sent (sv_node s))"
    and "nd_sent (sv_node s) ! i = (d, Out_Server \<lparr>sm_answer_id = a, sm_payload = SP_Content ct\<rparr>)"
  shows "\<exists>s0 c ec buf s1 after env msg. server_reachable N s0 \<and> server_step N s0 (SE_Receive c ec buf) s1
      \<and> server_steps N s1 after s \<and> length (nd_sent (sv_node s0)) = i
      \<and> nd_sent (sv_node s1) = nd_sent (sv_node s0) @ [nd_sent (sv_node s) ! i]
      \<and> \<not> failed ec \<and> conn_of s0 c = Some CS_Reading \<and> connected_msg True \<in> set (msgs_to c (nd_sent (sv_node s0)))
      \<and> env = pbs_deserialize (ne_get_envelope N) buf \<and> ev_payload env = EP_SendMessage msg
      \<and> a = ev_msg_id env \<and> ct_dialogue_id ct = am_dialogue_id msg \<and> ct_payload ct = am_payload msg
      \<and> ct_origin ct = public_key (sv_node s0) c
      \<and> dir_session (nd_dir (sv_node s0)) (am_destination msg) = Some d
      \<and> connected_msg True \<in> set (msgs_to d (nd_sent (sv_node s0)))"
proof -
  obtain key ip port strm threads evs where
    run: "server_steps N (server_run threads (server_make key ip port strm)) evs s" (is "server_steps N ?s _ _")
    using assms(1) by (auto simp: server_reachable_def)
  have "sv_node (server_run n r) = sv_node r" for n r by (induction n) (simp_all add: server_run_def do_accept_def)
  then have "length (nd_sent (sv_node ?s)) \<le> i" by (simp add: server_make_def)
  from steps_relay [OF run this assms(2)] obtain before ev after s0 s1 where
    r: "server_steps N ?s before s0" "server_step N s0 ev s1" "server_steps N s1 after s" "length (nd_sent (sv_node s0)) = i"
      "relays N s0 ev s1 (nd_sent (sv_node s) ! i)" using assms(3) by auto
  from r(5) obtain c ec buf msg env where
    m: "ev = SE_Receive c ec buf" "\<not> failed ec" "conn_of s0 c = Some CS_Reading"
      "env = pbs_deserialize (ne_get_envelope N) buf" "ev_payload env = EP_SendMessage msg"
      "forwarded c (ev_msg_id env) msg (sv_node s0) = [nd_sent (sv_node s) ! i]"
      "nd_sent (sv_node s1) = nd_sent (sv_node s0) @ [nd_sent (sv_node s) ! i]" unfolding relays_def by blast
  have reach: "server_reachable N s0" using r(1) unfolding server_reachable_def by blast
  note inv = server_inv_reachable [OF reach]
  have f: "dir_session (nd_dir (sv_node s0)) (am_destination msg) = Some d" "a = ev_msg_id env"
      "ct = \<lparr>ct_dialogue_id = am_dialogue_id msg, ct_origin = public_key (sv_node s0) c, ct_payload = am_payload msg\<rparr>"
    using m(6) assms(3) by (auto simp: forwarded_def split: option.splits)
  have told: "connected_msg True \<in> set (msgs_to e (nd_sent (sv_node s0)))" if "conn_of s0 e = Some CS_Reading" for e
    using server_invD(6) [OF inv, of e] that by (auto simp: conn_ok_def split: if_splits)
  have "conn_of s0 d = Some CS_Reading" using server_invD(5) [OF inv] f(1) by (simp add: registry_ok_def)
  from reach r(2-4) m(1-5,7) f told [OF m(3)] told [OF this] show ?thesis
    by (intro exI [of _ s0] exI [of _ c] exI [of _ ec] exI [of _ buf] exI [of _ s1] exI [of _ after] exI [of _ env]
        exI [of _ msg]) simp
qed

theorem origins_are_genuine_witness:
  "\<exists>s0 c. server_reachable example_node_env s0 \<and> conn_of s0 c = Some CS_Reading \<and> public_key (sv_node s0) c = ''alice''
     \<and> length (nd_sent (sv_node s0)) = 2"
proof -
  let ?ct = "\<lparr>ct_dialogue_id = 6, ct_origin = ''alice'', ct_payload = PL_Content ''hi''\<rparr>"
  have "2 < length (nd_sent (sv_node example_talking))"
    "nd_sent (sv_node example_talking) ! 2 = (0, Out_Server \<lparr>sm_answer_id = 3, sm_payload = SP_Content ?ct\<rparr>)"
    by (simp_all add: example_talking_sent)
  from origins_are_genuine [OF example_talking_reachable this] obtain s0 c where
    "server_reachable example_node_env s0" "conn_of s0 c = Some CS_Reading" "ct_origin ?ct = public_key (sv_node s0) c"
    "length (nd_sent (sv_node s0)) = 2" by blast
  then show ?thesis by (intro exI [of _ s0] exI [of _ c]) simp
qed

text \<open>
  C15: A connection that sends an ID whose key is free, parsable or not, and then any
  answer at all, becomes the session of that key: the answer is not checked.
\<close>

theorem any_answer_connects:
  assumes "snd (ne_get_id N buf) = \<lparr>id_public_key = k\<rparr>"
    and "dir_session (nd_dir (sv_node s)) k = None"
  shows "let s1 = id_received N c No_error buf s;
             s2 = answer_received N c k No_error ans s1
         in conn_of s1 c = Some (CS_AwaitAnswer k)
            \<and> conn_of s2 c = Some CS_Reading
            \<and> dir_session (nd_dir (sv_node s2)) k = Some c
            \<and> public_key (sv_node s2) c = k
            \<and> nd_sent (sv_node s2) = nd_sent (sv_node s) @ [(c, phrase_msg), (c, connected_msg True)]"
  using assms
  by (auto simp: id_received_def answer_received_def pbs_deserialize_def dir_exist_session dir_add_def
      secret_handshake_def server_send_def comm_send_def set_conn_def case_prod_unfold Let_def
      dir_session_def public_key_def node_session_def session_make_def)

theorem any_answer_connects_witness:
  "conn_of (answer_received example_node_env 0 ''alice'' No_error [] (id_received example_node_env 0 No_error []
     example_accepted)) 0 = Some CS_Reading"
  using any_answer_connects [of example_node_env "[]" "''alice''" example_accepted 0 "[]"]
  by (simp add: example_node_env_def example_server_defs dir_session_def Let_def)

text \<open>
  Of two connections that are in the handshake with the same key, the first to
  answer becomes the session and the second is told Connected(false) and closed.
\<close>

lemma interleaved_handshakes:
  assumes "conn_of s c1 = Some (CS_AwaitAnswer k)" "conn_of s c2 = Some (CS_AwaitAnswer k)" "c1 \<noteq> c2"
    and "dir_session (nd_dir (sv_node s)) k = None"
  shows "let s1 = answer_received N c1 k No_error a1 s;
             s2 = answer_received N c2 k No_error a2 s1
         in nd_sent (sv_node s2) = nd_sent (sv_node s) @ [(c1, connected_msg True), (c2, connected_msg False)]
            \<and> dir_session (nd_dir (sv_node s2)) k = Some c1
            \<and> conn_of s2 c1 = Some CS_Reading \<and> conn_of s2 c2 = Some CS_Closed"
proof -
  let ?s1 = "answer_received N c1 k No_error a1 s"
  note s1 = answer_accepted [OF assms(4), of N c1 a1]
  have d1: "dir_session (nd_dir (sv_node ?s1)) k = Some c1"
    using assms(4) by (simp add: s1 server_send_def comm_send_def set_conn_def dir.add_look)
  show ?thesis
    unfolding Let_def answer_refused [OF d1]
    using d1 assms(3)
    by (simp add: server_send_def comm_send_def set_conn_def) (simp add: s1 server_send_def comm_send_def set_conn_def)
qed

lemma interleaved_handshakes_witness:
  "let s = example_online\<lparr>sv_conns := [(1, CS_AwaitAnswer ''bob''), (2, CS_AwaitAnswer ''bob'')]\<rparr>;
       s1 = answer_received example_node_env 1 ''bob'' No_error [] s;
       s2 = answer_received example_node_env 2 ''bob'' No_error [] s1
   in conn_of s2 1 = Some CS_Reading \<and> conn_of s2 2 = Some CS_Closed"
  using interleaved_handshakes [of "example_online\<lparr>sv_conns := [(1, CS_AwaitAnswer ''bob''), (2, CS_AwaitAnswer ''bob'')]\<rparr>"
      1 "''bob''" 2 example_node_env "[]" "[]"]
  by (simp add: example_online_eq dir_session_def Let_def)

section \<open>The end of a session and of the accept loop\<close>

text \<open>
  When the read loop of a live session ends, exactly its own entry leaves the
  directory, its connection is closed, nothing is sent, and a new session with the key
  can be added.
\<close>

lemma session_end_frees_key:
  assumes "server_reachable N s" "conn_of s c = Some CS_Reading" "failed ec"
  shows "let k = public_key (sv_node s) c; s' = message_received N c ec buf s
         in dir_session (nd_dir (sv_node s)) k = Some c
            \<and> dir_session (nd_dir (sv_node s')) = (dir_session (nd_dir (sv_node s)))(k := None)
            \<and> conn_of s' c = Some CS_Closed \<and> nd_sent (sv_node s') = nd_sent (sv_node s)
            \<and> fst (dir_add k c' (nd_dir (sv_node s')))"
proof -
  have "dir_session (nd_dir (sv_node s)) (public_key (sv_node s) c) = Some c"
    using server_invD(5) [OF server_inv_reachable [OF assms(1)]] assms(2) by (simp add: registry_ok_def)
  with assms(3) show ?thesis
    by (simp add: message_received_def session_read_def set_conn_def dir.del_look dir.add_after_del Let_def)
qed

lemma session_end_frees_key_witness:
  "dir_session (nd_dir (sv_node (message_received example_node_env 0 (Errno 2) [] example_online))) ''alice'' = None"
  using session_end_frees_key [OF example_reachable, of 0 "Errno 2" "[]"]
  by (simp add: example_online_eq public_key_def node_session_def session_make_def Let_def)

lemma step_accepts:
  assumes "server_step N s ev s'" "sv_accepts s = 0"
  shows "sv_accepts s' = 0 \<and> sv_next s' = sv_next s \<and> (\<forall>ec. ev \<noteq> SE_Accept ec)"
  using assms
  by (cases rule: server_step.cases)
    (auto simp: id_received_def answer_received_def message_received_def secret_handshake_def
      server_send_def set_conn_def case_prod_unfold Let_def)

lemma steps_accepts:
  assumes "server_steps N s evs s'" "sv_accepts s = 0"
  shows "sv_accepts s' = 0 \<and> sv_next s' = sv_next s \<and> (\<forall>ec. SE_Accept ec \<notin> set evs)"
  using assms by (induction rule: server_steps.induct) (auto dest: step_accepts)

text \<open>
  C16: In the single-threaded server, after one failed accept no connection is ever
  accepted again.
\<close>

theorem accept_error_is_final:
  assumes "sv_accepts s = 1" "server_step N s (SE_Accept (Errno n)) s1" "server_steps N s1 evs s2"
  shows "sv_next s2 = sv_next s \<and> (\<forall>ec. SE_Accept ec \<notin> set evs)"
proof -
  from assms(1,2) have "sv_accepts s1 = 0" "sv_next s1 = sv_next s"
    by (auto elim!: accept_stepE simp: acceptor_completed_def)
  with steps_accepts [OF assms(3)] show ?thesis by simp
qed

theorem accept_error_is_final_witness:
  "\<exists>s1. server_step example_node_env example_start (SE_Accept (Errno 24)) s1
     \<and> sv_next s1 = sv_next example_start"
proof -
  have a: "sv_accepts example_start = 1"
    by (simp add: example_server_defs)
  have "server_step example_node_env example_start (SE_Accept (Errno 24))
      (acceptor_completed accept_continuation (Errno 24) (example_start\<lparr>sv_accepts := sv_accepts example_start - 1\<rparr>))"
    by (rule step_accept) (simp add: a)
  with accept_error_is_final [OF a this steps_nil] show ?thesis by blast
qed

end
