(* ===== verification/Oef_Asio_Socket.thy ===== *)
theory Oef_Asio_Socket
  imports Oef_Prelude
begin

unbundle bit_operations_syntax

text \<open>
  The socket operations of \<open>asio\<close> on a POSIX system:
  \<open>3rd/asio/asio/detail/impl/socket_ops.ipp\<close>, the part of
  \<open>detail/impl/reactive_socket_service_base.ipp\<close> that keeps the state of a socket, and the
  operations the reactor performs (\<open>detail/reactive_socket_recv_op.hpp\<close>,
  \<open>reactive_socket_send_op.hpp\<close>).

  The system calls are an argument, the record \<open>posix\<close>: each maps the world to its result,
  the \<open>errno\<close> it leaves and the next world. A loop that retries for as long as the system
  says so is a partial function into \<open>option\<close>: \<open>None\<close> is a call that never returns.
\<close>

section \<open>Error codes\<close>

text \<open>
  A value and its category. The values of the system category are those of Linux; a
  default constructed \<open>error_code\<close> is 0 in the system category.
\<close>

datatype asio_ec = System_error nat | Misc_error nat | Netdb_error nat | Addrinfo_error int

definition ec_ok :: asio_ec where "ec_ok = System_error 0"

definition ec_value :: "asio_ec \<Rightarrow> int" where
  "ec_value ec =
     (case ec of System_error n \<Rightarrow> int n | Misc_error n \<Rightarrow> int n | Netdb_error n \<Rightarrow> int n | Addrinfo_error v \<Rightarrow> v)"

text \<open>\<open>!!ec\<close>.\<close>

definition ec_failed :: "asio_ec \<Rightarrow> bool" where
  "ec_failed ec \<longleftrightarrow> ec_value ec \<noteq> 0"

definition interrupted :: asio_ec where "interrupted = System_error 4"
definition bad_descriptor :: asio_ec where "bad_descriptor = System_error 9"
definition try_again :: asio_ec where "try_again = System_error 11"
definition would_block :: asio_ec where "would_block = System_error 11"
definition invalid_argument :: asio_ec where "invalid_argument = System_error 22"
definition not_a_tty :: asio_ec where "not_a_tty = System_error 25"
definition protocol_error :: asio_ec where "protocol_error = System_error 71"
definition not_socket :: asio_ec where "not_socket = System_error 88"
definition connection_aborted :: asio_ec where "connection_aborted = System_error 103"
definition no_buffer_space :: asio_ec where "no_buffer_space = System_error 105"
definition in_progress :: asio_ec where "in_progress = System_error 115"
definition already_open :: asio_ec where "already_open = Misc_error 1"
definition eof :: asio_ec where "eof = Misc_error 2"
definition not_found :: asio_ec where "not_found = Misc_error 3"

lemmas ec_defs = ec_ok_def interrupted_def bad_descriptor_def try_again_def would_block_def
  invalid_argument_def not_a_tty_def protocol_error_def not_socket_def connection_aborted_def
  no_buffer_space_def in_progress_def already_open_def eof_def not_found_def

lemma ec_failed_simps [simp]:
  "ec_failed (System_error n) \<longleftrightarrow> n \<noteq> 0" "ec_failed (Misc_error n) \<longleftrightarrow> n \<noteq> 0"
  "ec_failed (Netdb_error n) \<longleftrightarrow> n \<noteq> 0" "ec_failed (Addrinfo_error v) \<longleftrightarrow> v \<noteq> 0"
  "\<not> ec_failed ec_ok" "ec_failed eof" "ec_failed bad_descriptor" "ec_failed already_open"
  "ec_failed not_found"
  by (simp_all add: ec_failed_def ec_value_def ec_defs)

section \<open>The state bits of a socket\<close>

type_synonym socket_state = "8 word"

definition user_set_non_blocking :: socket_state where "user_set_non_blocking = 1"
definition internal_non_blocking :: socket_state where "internal_non_blocking = 2"
definition non_blocking :: socket_state where
  "non_blocking = user_set_non_blocking OR internal_non_blocking"
definition enable_connection_aborted :: socket_state where "enable_connection_aborted = 4"
definition user_set_linger :: socket_state where "user_set_linger = 8"
definition stream_oriented :: socket_state where "stream_oriented = 16"
definition datagram_oriented :: socket_state where "datagram_oriented = 32"
definition possible_dup :: socket_state where "possible_dup = 64"

lemmas state_bit_defs = user_set_non_blocking_def internal_non_blocking_def non_blocking_def
  enable_connection_aborted_def user_set_linger_def stream_oriented_def datagram_oriented_def
  possible_dup_def

definition has :: "socket_state \<Rightarrow> socket_state \<Rightarrow> bool" where
  "has st bits \<longleftrightarrow> st AND bits \<noteq> 0"

section \<open>System calls\<close>

type_synonym socket_type = int

definition invalid_socket :: socket_type where "invalid_socket = -1"

text \<open>An endpoint of TCP (\<open>ip/detail/endpoint.hpp\<close>): family, port and address.\<close>

datatype address_family = AF_INET | AF_INET6

record endpoint =
  ep_family :: address_family
  ep_port :: "16 word"
  ep_address :: "byte list"

datatype poll_event = POLLIN | POLLOUT | POLLERR

text \<open>
  \<open>px_recvmsg\<close> gets the room in the buffers and yields the bytes it stored there;
  \<open>px_ioctl_nbio\<close> is \<open>ioctl(s, FIONBIO, &arg)\<close>, \<open>px_linger_off\<close> the \<open>setsockopt\<close> of
  \<open>close\<close>, \<open>px_so_error\<close> the \<open>getsockopt\<close> of \<open>SO_ERROR\<close> (with the value it reads),
  \<open>px_setsockopt\<close> another option of an integer (level, name and value), \<open>px_fionread\<close> the \<open>ioctl\<close> of \<open>FIONREAD\<close>.
\<close>

datatype socket_kind = SOCK_STREAM | SOCK_DGRAM | SOCK_OTHER

record 'w posix =
  px_socket :: "address_family \<Rightarrow> socket_kind \<Rightarrow> 'w \<Rightarrow> socket_type \<times> nat \<times> 'w"
  px_accept :: "socket_type \<Rightarrow> 'w \<Rightarrow> socket_type \<times> nat \<times> 'w"
  px_close :: "socket_type \<Rightarrow> 'w \<Rightarrow> int \<times> nat \<times> 'w"
  px_linger_off :: "socket_type \<Rightarrow> 'w \<Rightarrow> int \<times> nat \<times> 'w"
  px_ioctl_nbio :: "socket_type \<Rightarrow> bool \<Rightarrow> 'w \<Rightarrow> int \<times> nat \<times> 'w"
  px_fionread :: "socket_type \<Rightarrow> 'w \<Rightarrow> int \<times> nat \<times> nat \<times> 'w"
  px_shutdown :: "socket_type \<Rightarrow> nat \<Rightarrow> 'w \<Rightarrow> int \<times> nat \<times> 'w"
  px_bind :: "socket_type \<Rightarrow> endpoint \<Rightarrow> 'w \<Rightarrow> int \<times> nat \<times> 'w"
  px_setsockopt :: "socket_type \<Rightarrow> int \<Rightarrow> int \<Rightarrow> int \<Rightarrow> 'w \<Rightarrow> int \<times> nat \<times> 'w"
  px_connect :: "socket_type \<Rightarrow> endpoint \<Rightarrow> 'w \<Rightarrow> int \<times> nat \<times> 'w"
  px_so_error :: "socket_type \<Rightarrow> 'w \<Rightarrow> int \<times> nat \<times> nat \<times> 'w"
  px_listen :: "socket_type \<Rightarrow> int \<Rightarrow> 'w \<Rightarrow> int \<times> nat \<times> 'w"
  px_recvmsg :: "socket_type \<Rightarrow> nat \<Rightarrow> 'w \<Rightarrow> int \<times> nat \<times> byte list \<times> 'w"
  px_sendmsg :: "socket_type \<Rightarrow> byte list list \<Rightarrow> 'w \<Rightarrow> int \<times> nat \<times> 'w"
  px_poll :: "socket_type \<Rightarrow> poll_event \<Rightarrow> int \<Rightarrow> 'w \<Rightarrow> int \<times> nat \<times> 'w"

text \<open>\<open>error_wrapper\<close>: the error code that \<open>errno\<close> stands for.\<close>

definition error_wrapper :: "nat \<Rightarrow> asio_ec" where
  "error_wrapper errno = System_error errno"

section \<open>Waiting for readiness\<close>

definition poll_result :: "socket_state \<Rightarrow> int \<times> nat \<times> 'w \<Rightarrow> int \<times> asio_ec \<times> 'w" where
  "poll_result st r =
     (let (res, errno, w) = r in
      (res,
       if res = 0 then (if has st user_set_non_blocking then would_block else ec_ok)
       else if res > 0 then ec_ok else error_wrapper errno, w))"

definition poll_read ::
  "'w posix \<Rightarrow> socket_type \<Rightarrow> socket_state \<Rightarrow> int \<Rightarrow> 'w \<Rightarrow> int \<times> asio_ec \<times> 'w" where
  "poll_read P s st msec w =
     (if s = invalid_socket then (-1, bad_descriptor, w)
      else poll_result st
             (px_poll P s POLLIN (if has st user_set_non_blocking then 0 else msec) w))"

definition poll_write ::
  "'w posix \<Rightarrow> socket_type \<Rightarrow> socket_state \<Rightarrow> int \<Rightarrow> 'w \<Rightarrow> int \<times> asio_ec \<times> 'w" where
  "poll_write P s st msec w =
     (if s = invalid_socket then (-1, bad_descriptor, w)
      else poll_result st
             (px_poll P s POLLOUT (if has st user_set_non_blocking then 0 else msec) w))"

definition poll_error ::
  "'w posix \<Rightarrow> socket_type \<Rightarrow> socket_state \<Rightarrow> int \<Rightarrow> 'w \<Rightarrow> int \<times> asio_ec \<times> 'w" where
  "poll_error P s st msec w =
     (if s = invalid_socket then (-1, bad_descriptor, w)
      else poll_result st
             (px_poll P s POLLERR (if has st user_set_non_blocking then 0 else msec) w))"

definition poll_connect ::
  "'w posix \<Rightarrow> socket_type \<Rightarrow> int \<Rightarrow> 'w \<Rightarrow> int \<times> asio_ec \<times> 'w" where
  "poll_connect P s msec w =
     (if s = invalid_socket then (-1, bad_descriptor, w)
      else let (res, errno, w') = px_poll P s POLLOUT msec w
           in (res, if res \<ge> 0 then ec_ok else error_wrapper errno, w'))"

section \<open>Accepting\<close>

definition socket_accept ::
  "'w posix \<Rightarrow> socket_type \<Rightarrow> 'w \<Rightarrow> socket_type \<times> asio_ec \<times> 'w" where
  "socket_accept P s w =
     (if s = invalid_socket then (invalid_socket, bad_descriptor, w)
      else let (new_s, errno, w') = px_accept P s w in
           if new_s = invalid_socket then (new_s, error_wrapper errno, w')
           else (new_s, ec_ok, w'))"

text \<open>Whether a failed \<open>accept\<close> ends the operation, or is to be retried.\<close>

definition accept_gives_up :: "socket_state \<Rightarrow> asio_ec \<Rightarrow> bool" where
  "accept_gives_up st ec =
     (if ec = would_block \<or> ec = try_again then has st user_set_non_blocking
      else if ec = connection_aborted then has st enable_connection_aborted
      else if ec = protocol_error then has st enable_connection_aborted
      else True)"

partial_function (option) sync_accept ::
  "'w posix \<Rightarrow> socket_type \<Rightarrow> socket_state \<Rightarrow> 'w \<Rightarrow> (socket_type \<times> asio_ec \<times> 'w) option" where
  "sync_accept P s st w =
     (let (new_socket, ec, w1) = socket_accept P s w in
      if new_socket \<noteq> invalid_socket then Some (new_socket, ec, w1)
      else if accept_gives_up st ec then Some (invalid_socket, ec, w1)
      else let (r, ec2, w2) = poll_read P s 0 (-1) w1 in
           if r < 0 then Some (invalid_socket, ec2, w2)
           else sync_accept P s st w2)"

text \<open>\<open>True\<close> in the first component: the operation is done.\<close>

partial_function (option) non_blocking_accept ::
  "'w posix \<Rightarrow> socket_type \<Rightarrow> socket_state \<Rightarrow> 'w \<Rightarrow> (bool \<times> socket_type \<times> asio_ec \<times> 'w) option"
where
  "non_blocking_accept P s st w =
     (let (new_socket, ec, w1) = socket_accept P s w in
      if new_socket \<noteq> invalid_socket then Some (True, new_socket, ec, w1)
      else if ec = interrupted then non_blocking_accept P s st w1
      else if ec = would_block \<or> ec = try_again then Some (False, new_socket, ec, w1)
      else if ec = connection_aborted then
        Some (has st enable_connection_aborted, new_socket, ec, w1)
      else if ec = protocol_error then
        Some (has st enable_connection_aborted, new_socket, ec, w1)
      else Some (True, new_socket, ec, w1))"

section \<open>Connecting\<close>

definition socket_connect :: "'w posix \<Rightarrow> socket_type \<Rightarrow> endpoint \<Rightarrow> 'w \<Rightarrow> int \<times> asio_ec \<times> 'w" where
  "socket_connect P s ep w =
     (if s = invalid_socket then (-1, bad_descriptor, w)
      else let (res, errno, w') = px_connect P s ep w;
               ec = error_wrapper errno
           in (res, if res = 0 then ec_ok else if ec = try_again then no_buffer_space else ec, w'))"

text \<open>\<open>getsockopt(s, 0, SOL_SOCKET, SO_ERROR, ...)\<close>, with the value read.\<close>

definition socket_so_error ::
  "'w posix \<Rightarrow> socket_type \<Rightarrow> 'w \<Rightarrow> int \<times> asio_ec \<times> nat \<times> 'w" where
  "socket_so_error P s w =
     (if s = invalid_socket then (-1, bad_descriptor, 0, w)
      else let (res, errno, v, w') = px_so_error P s w
           in (res, if res = 0 then ec_ok else error_wrapper errno, v, w'))"

definition sync_connect :: "'w posix \<Rightarrow> socket_type \<Rightarrow> endpoint \<Rightarrow> 'w \<Rightarrow> asio_ec \<times> 'w" where
  "sync_connect P s ep w =
     (let (_, ec, w1) = socket_connect P s ep w in
      if ec \<noteq> in_progress \<and> ec \<noteq> would_block then (ec, w1)
      else let (r, ec2, w2) = poll_connect P s (-1) w1 in
           if r < 0 then (ec2, w2)
           else let (r3, ec3, connect_error, w3) = socket_so_error P s w2 in
                if r3 = -1 then (ec3, w3)
                else (System_error connect_error, w3))"

text \<open>\<open>non_blocking_connect\<close>: no error code is the one of the caller, left as it is.\<close>

definition non_blocking_connect ::
  "'w posix \<Rightarrow> socket_type \<Rightarrow> 'w \<Rightarrow> bool \<times> asio_ec option \<times> 'w" where
  "non_blocking_connect P s w =
     (let (ready, _, w1) = px_poll P s POLLOUT 0 w in
      if ready = 0 then (False, None, w1)
      else let (r, ec, connect_error, w2) = socket_so_error P s w1 in
           if r = 0 then
             (True, Some (if connect_error \<noteq> 0 then System_error connect_error else ec_ok), w2)
           else (True, Some ec, w2))"

section \<open>Receiving\<close>

definition socket_recv ::
  "'w posix \<Rightarrow> socket_type \<Rightarrow> nat \<Rightarrow> 'w \<Rightarrow> int \<times> asio_ec \<times> byte list \<times> 'w" where
  "socket_recv P s room w =
     (let (res, errno, bs, w') = px_recvmsg P s room w
      in (res, if res \<ge> 0 then ec_ok else error_wrapper errno, bs, w'))"

text \<open>
  The loop of \<open>sync_recv\<close>, and \<open>sync_recv\<close>: the error code, the number of bytes and the
  bytes stored in the buffers.
\<close>

partial_function (option) sync_recv_loop ::
  "'w posix \<Rightarrow> socket_type \<Rightarrow> socket_state \<Rightarrow> nat \<Rightarrow> 'w
     \<Rightarrow> (asio_ec \<times> nat \<times> byte list \<times> 'w) option" where
  "sync_recv_loop P s st room w =
     (let (bytes, ec, bs, w1) = socket_recv P s room w in
      if bytes > 0 then Some (ec, nat bytes, bs, w1)
      else if has st stream_oriented \<and> bytes = 0 then Some (eof, 0, bs, w1)
      else if has st user_set_non_blocking \<or> (ec \<noteq> would_block \<and> ec \<noteq> try_again)
      then Some (ec, 0, bs, w1)
      else let (r, ec2, w2) = poll_read P s 0 (-1) w1 in
           if r < 0 then Some (ec2, 0, bs, w2)
           else sync_recv_loop P s st room w2)"

definition sync_recv ::
  "'w posix \<Rightarrow> socket_type \<Rightarrow> socket_state \<Rightarrow> nat \<Rightarrow> bool \<Rightarrow> 'w
     \<Rightarrow> (asio_ec \<times> nat \<times> byte list \<times> 'w) option" where
  "sync_recv P s st room all_empty w =
     (if s = invalid_socket then Some (bad_descriptor, 0, [], w)
      else if all_empty \<and> has st stream_oriented then Some (ec_ok, 0, [], w)
      else sync_recv_loop P s st room w)"

text \<open>\<open>bytes0\<close> is what \<open>bytes_transferred\<close> held: the end of a stream leaves it as it is.\<close>

partial_function (option) non_blocking_recv ::
  "'w posix \<Rightarrow> socket_type \<Rightarrow> nat \<Rightarrow> bool \<Rightarrow> nat \<Rightarrow> 'w
     \<Rightarrow> (bool \<times> asio_ec \<times> nat \<times> byte list \<times> 'w) option" where
  "non_blocking_recv P s room is_stream bytes0 w =
     (let (bytes, ec, bs, w1) = socket_recv P s room w in
      if is_stream \<and> bytes = 0 then Some (True, eof, bytes0, bs, w1)
      else if ec = interrupted then non_blocking_recv P s room is_stream bytes0 w1
      else if ec = would_block \<or> ec = try_again then Some (False, ec, bytes0, bs, w1)
      else if bytes \<ge> 0 then Some (True, ec_ok, nat bytes, bs, w1)
      else Some (True, ec, 0, bs, w1))"

section \<open>Sending\<close>

definition socket_send ::
  "'w posix \<Rightarrow> socket_type \<Rightarrow> byte list list \<Rightarrow> 'w \<Rightarrow> int \<times> asio_ec \<times> 'w" where
  "socket_send P s bufs w =
     (let (res, errno, w') = px_sendmsg P s bufs w
      in (res, if res \<ge> 0 then ec_ok else error_wrapper errno, w'))"

partial_function (option) sync_send_loop ::
  "'w posix \<Rightarrow> socket_type \<Rightarrow> socket_state \<Rightarrow> byte list list \<Rightarrow> 'w
     \<Rightarrow> (asio_ec \<times> nat \<times> 'w) option" where
  "sync_send_loop P s st bufs w =
     (let (bytes, ec, w1) = socket_send P s bufs w in
      if bytes \<ge> 0 then Some (ec, nat bytes, w1)
      else if has st user_set_non_blocking \<or> (ec \<noteq> would_block \<and> ec \<noteq> try_again)
      then Some (ec, 0, w1)
      else let (r, ec2, w2) = poll_write P s 0 (-1) w1 in
           if r < 0 then Some (ec2, 0, w2)
           else sync_send_loop P s st bufs w2)"

definition sync_send ::
  "'w posix \<Rightarrow> socket_type \<Rightarrow> socket_state \<Rightarrow> byte list list \<Rightarrow> bool \<Rightarrow> 'w
     \<Rightarrow> (asio_ec \<times> nat \<times> 'w) option" where
  "sync_send P s st bufs all_empty w =
     (if s = invalid_socket then Some (bad_descriptor, 0, w)
      else if all_empty \<and> has st stream_oriented then Some (ec_ok, 0, w)
      else sync_send_loop P s st bufs w)"

partial_function (option) non_blocking_send ::
  "'w posix \<Rightarrow> socket_type \<Rightarrow> byte list list \<Rightarrow> nat \<Rightarrow> 'w
     \<Rightarrow> (bool \<times> asio_ec \<times> nat \<times> 'w) option" where
  "non_blocking_send P s bufs bytes0 w =
     (let (bytes, ec, w1) = socket_send P s bufs w in
      if ec = interrupted then non_blocking_send P s bufs bytes0 w1
      else if ec = would_block \<or> ec = try_again then Some (False, ec, bytes0, w1)
      else if bytes \<ge> 0 then Some (True, ec_ok, nat bytes, w1)
      else Some (True, ec, 0, w1))"

section \<open>Closing, and the blocking mode\<close>

text \<open>\<open>close\<close>: a close that would block is tried again in blocking mode.\<close>

definition socket_close ::
  "'w posix \<Rightarrow> socket_type \<Rightarrow> socket_state \<Rightarrow> bool \<Rightarrow> 'w
     \<Rightarrow> int \<times> asio_ec \<times> socket_state \<times> 'w" where
  "socket_close P s st destruction w =
     (if s = invalid_socket then (0, ec_ok, st, w)
      else
        let (st0, w0) =
              (if destruction \<and> has st user_set_linger
               then let (_, _, w') = px_linger_off P s w in (st OR user_set_linger, w')
               else (st, w));
            (res1, errno1, w1) = px_close P s w0;
            ec1 = error_wrapper errno1;
            (res, ec, st2, w2) =
              (if res1 \<noteq> 0 \<and> (ec1 = would_block \<or> ec1 = try_again)
               then let (_, _, w') = px_ioctl_nbio P s False w1;
                        (res2, errno2, w'') = px_close P s w'
                    in (res2, error_wrapper errno2, st0 AND NOT non_blocking, w'')
               else (res1, ec1, st0, w1))
        in (res, if res = 0 then ec_ok else ec, st2, w2))"

definition set_user_non_blocking ::
  "'w posix \<Rightarrow> socket_type \<Rightarrow> socket_state \<Rightarrow> bool \<Rightarrow> 'w
     \<Rightarrow> bool \<times> asio_ec \<times> socket_state \<times> 'w" where
  "set_user_non_blocking P s st v w =
     (if s = invalid_socket then (False, bad_descriptor, st, w)
      else let (res, errno, w') = px_ioctl_nbio P s v w in
           if res \<ge> 0 then
             (True, ec_ok,
              if v then st OR user_set_non_blocking
              else st AND NOT (user_set_non_blocking OR internal_non_blocking), w')
           else (False, error_wrapper errno, st, w'))"

definition set_internal_non_blocking ::
  "'w posix \<Rightarrow> socket_type \<Rightarrow> socket_state \<Rightarrow> bool \<Rightarrow> 'w
     \<Rightarrow> bool \<times> asio_ec \<times> socket_state \<times> 'w" where
  "set_internal_non_blocking P s st v w =
     (if s = invalid_socket then (False, bad_descriptor, st, w)
      else if \<not> v \<and> has st user_set_non_blocking then (False, invalid_argument, st, w)
      else let (res, errno, w') = px_ioctl_nbio P s v w in
           if res \<ge> 0 then
             (True, ec_ok,
              if v then st OR internal_non_blocking else st AND NOT internal_non_blocking, w')
           else (False, error_wrapper errno, st, w'))"

definition socket_shutdown ::
  "'w posix \<Rightarrow> socket_type \<Rightarrow> nat \<Rightarrow> 'w \<Rightarrow> int \<times> asio_ec \<times> 'w" where
  "socket_shutdown P s how w =
     (if s = invalid_socket then (-1, bad_descriptor, w)
      else let (res, errno, w') = px_shutdown P s how w
           in (res, if res = 0 then ec_ok else error_wrapper errno, w'))"

definition socket_available :: "'w posix \<Rightarrow> socket_type \<Rightarrow> 'w \<Rightarrow> nat \<times> asio_ec \<times> 'w" where
  "socket_available P s w =
     (if s = invalid_socket then (0, bad_descriptor, w)
      else let (res, errno, v, w') = px_fionread P s w;
               ec = (if res = 0 then ec_ok else error_wrapper errno);
               ec' = (if ec_value ec = ec_value not_a_tty then not_socket else ec)
           in (if ec_failed ec' then 0 else v, ec', w'))"

definition socket_listen ::
  "'w posix \<Rightarrow> socket_type \<Rightarrow> int \<Rightarrow> 'w \<Rightarrow> int \<times> asio_ec \<times> 'w" where
  "socket_listen P s backlog w =
     (if s = invalid_socket then (-1, bad_descriptor, w)
      else let (res, errno, w') = px_listen P s backlog w
           in (res, if res = 0 then ec_ok else error_wrapper errno, w'))"

definition socket_bind ::
  "'w posix \<Rightarrow> socket_type \<Rightarrow> endpoint \<Rightarrow> 'w \<Rightarrow> int \<times> asio_ec \<times> 'w" where
  "socket_bind P s ep w =
     (if s = invalid_socket then (-1, bad_descriptor, w)
      else let (res, errno, w') = px_bind P s ep w
           in (res, if res = 0 then ec_ok else error_wrapper errno, w'))"

text \<open>
  \<open>setsockopt\<close> of an option whose value is an integer; \<open>optlen\<close> is the size it claims. The
  level and the two options that asio keeps to itself are those of \<open>detail/socket_types.hpp\<close>,
  \<open>SOL_SOCKET\<close>, \<open>SO_REUSEADDR\<close> and \<open>SO_LINGER\<close> those of Linux.
\<close>

definition sol_socket :: int where "sol_socket = 1"
definition so_reuseaddr :: int where "so_reuseaddr = 2"
definition so_linger :: int where "so_linger = 13"
definition custom_socket_option_level :: int where "custom_socket_option_level = -1525678080"
definition enable_connection_aborted_option :: int where "enable_connection_aborted_option = 1"
definition always_fail_option :: int where "always_fail_option = 2"

definition socket_setsockopt ::
  "'w posix \<Rightarrow> socket_type \<Rightarrow> socket_state \<Rightarrow> int \<Rightarrow> int \<Rightarrow> int \<Rightarrow> nat \<Rightarrow> 'w
     \<Rightarrow> int \<times> asio_ec \<times> socket_state \<times> 'w" where
  "socket_setsockopt P s st level optname optval optlen w =
     (if s = invalid_socket then (-1, bad_descriptor, st, w)
      else if level = custom_socket_option_level \<and> optname = always_fail_option
      then (-1, invalid_argument, st, w)
      else if level = custom_socket_option_level \<and> optname = enable_connection_aborted_option then
        (if optlen \<noteq> 4 then (-1, invalid_argument, st, w)
         else (0, ec_ok, if optval \<noteq> 0 then st OR enable_connection_aborted
                         else st AND NOT enable_connection_aborted, w))
      else
        let st = (if level = sol_socket \<and> optname = so_linger then st OR user_set_linger else st);
            (res, errno, w') = px_setsockopt P s level optname optval w
        in (res, if res = 0 then ec_ok else error_wrapper errno, st, w'))"

section \<open>The socket service\<close>

text \<open>
  \<open>base_implementation_type\<close>. Of the reactor the model keeps the descriptors that are
  registered with it; whether a registration fails is an argument.
\<close>

record base_impl =
  im_socket :: socket_type
  im_state :: socket_state

record service =
  rv_impl :: base_impl
  rv_registered :: "socket_type list"

definition is_open :: "base_impl \<Rightarrow> bool" where
  "is_open im \<longleftrightarrow> im_socket im \<noteq> invalid_socket"

definition impl_construct :: base_impl where
  "impl_construct = \<lparr>im_socket = invalid_socket, im_state = 0\<rparr>"

definition deregister :: "socket_type \<Rightarrow> socket_type list \<Rightarrow> socket_type list" where
  "deregister s r = removeAll s r"

definition kind_state :: "socket_kind \<Rightarrow> socket_state" where
  "kind_state k = (case k of SOCK_STREAM \<Rightarrow> stream_oriented | SOCK_DGRAM \<Rightarrow> datagram_oriented
     | SOCK_OTHER \<Rightarrow> 0)"

definition impl_destroy :: "'w posix \<Rightarrow> service \<Rightarrow> 'w \<Rightarrow> service \<times> 'w" where
  "impl_destroy P v w =
     (let im = rv_impl v in
      if im_socket im \<noteq> invalid_socket then
        let (_, _, st, w') = socket_close P (im_socket im) (im_state im) True w
        in (\<lparr>rv_impl = im\<lparr>im_state := st\<rparr>, rv_registered = deregister (im_socket im) (rv_registered v)\<rparr>, w')
      else (v, w))"

definition impl_close :: "'w posix \<Rightarrow> service \<Rightarrow> 'w \<Rightarrow> asio_ec \<times> service \<times> 'w" where
  "impl_close P v w =
     (let im = rv_impl v in
      if is_open im then
        let (_, ec, _, w') = socket_close P (im_socket im) (im_state im) False w
        in (ec, \<lparr>rv_impl = impl_construct,
                 rv_registered = deregister (im_socket im) (rv_registered v)\<rparr>, w')
      else (ec_ok, v\<lparr>rv_impl := impl_construct\<rparr>, w))"

definition impl_release :: "service \<Rightarrow> socket_type \<times> asio_ec \<times> service" where
  "impl_release v =
     (let im = rv_impl v in
      if \<not> is_open im then (invalid_socket, bad_descriptor, v)
      else (im_socket im, ec_ok,
            \<lparr>rv_impl = impl_construct, rv_registered = deregister (im_socket im) (rv_registered v)\<rparr>))"

definition socket_socket ::
  "'w posix \<Rightarrow> address_family \<Rightarrow> socket_kind \<Rightarrow> 'w \<Rightarrow> socket_type \<times> asio_ec \<times> 'w" where
  "socket_socket P af k w =
     (let (s, errno, w') = px_socket P af k w
      in (s, if s \<ge> 0 then ec_ok else error_wrapper errno, w'))"

text \<open>\<open>~socket_holder\<close>.\<close>

definition socket_holder_destroy :: "'w posix \<Rightarrow> socket_type \<Rightarrow> 'w \<Rightarrow> 'w" where
  "socket_holder_destroy P s w =
     (if s \<noteq> invalid_socket then let (_, _, _, w') = socket_close P s 0 True w in w' else w)"

text \<open>
  \<open>do_open\<close>: \<open>err\<close> is what the reactor's registration returned. The new socket is closed
  again when the registration fails.
\<close>

definition impl_open ::
  "'w posix \<Rightarrow> address_family \<Rightarrow> socket_kind \<Rightarrow> nat \<Rightarrow> service \<Rightarrow> 'w \<Rightarrow> asio_ec \<times> service \<times> 'w" where
  "impl_open P af k err v w =
     (if is_open (rv_impl v) then (already_open, v, w)
      else let (sock, ec, w1) = socket_socket P af k w in
           if sock = invalid_socket then (ec, v, w1)
           else if err \<noteq> 0 then (System_error err, v, socket_holder_destroy P sock w1)
           else (ec_ok, \<lparr>rv_impl = \<lparr>im_socket = sock, im_state = kind_state k\<rparr>,
                         rv_registered = sock # rv_registered v\<rparr>, w1))"

definition impl_assign :: "socket_kind \<Rightarrow> socket_type \<Rightarrow> nat \<Rightarrow> service \<Rightarrow> asio_ec \<times> service" where
  "impl_assign k native err v =
     (if is_open (rv_impl v) then (already_open, v)
      else if err \<noteq> 0 then (System_error err, v)
      else (ec_ok, \<lparr>rv_impl = \<lparr>im_socket = native, im_state = kind_state k OR possible_dup\<rparr>,
                    rv_registered = native # rv_registered v\<rparr>))"

text \<open>
  \<open>start_op\<close> hands the operation to the reactor or completes it at once, with the error
  code it holds then.
\<close>

datatype op_start = Reactor_start | Immediate asio_ec

definition start_op ::
  "'w posix \<Rightarrow> bool \<Rightarrow> base_impl \<Rightarrow> 'w \<Rightarrow> op_start \<times> base_impl \<times> 'w" where
  "start_op P noop im w =
     (if \<not> noop then
        if has (im_state im) non_blocking then (Reactor_start, im, w)
        else let (ok, ec, st, w') = set_internal_non_blocking P (im_socket im) (im_state im) True w
             in (if ok then Reactor_start else Immediate ec, im\<lparr>im_state := st\<rparr>, w')
      else (Immediate ec_ok, im, w))"

definition start_accept_op ::
  "'w posix \<Rightarrow> bool \<Rightarrow> base_impl \<Rightarrow> 'w \<Rightarrow> op_start \<times> base_impl \<times> 'w" where
  "start_accept_op P peer_is_open im w =
     (if \<not> peer_is_open then start_op P False im w else (Immediate already_open, im, w))"

definition start_connect_op ::
  "'w posix \<Rightarrow> endpoint \<Rightarrow> base_impl \<Rightarrow> 'w \<Rightarrow> op_start \<times> base_impl \<times> 'w" where
  "start_connect_op P ep im w =
     (let (ok, ec0, st, w0) =
            (if has (im_state im) non_blocking then (True, ec_ok, im_state im, w)
             else set_internal_non_blocking P (im_socket im) (im_state im) True w);
          im' = im\<lparr>im_state := st\<rparr>
      in if ok then
           let (res, ec, w') = socket_connect P (im_socket im) ep w0 in
           if res \<noteq> 0 \<and> (ec = in_progress \<or> ec = would_block) then (Reactor_start, im', w')
           else (Immediate ec, im', w')
         else (Immediate ec0, im', w0))"

section \<open>The operations of the reactor\<close>

datatype op_status = Not_done | Done | Done_and_exhausted

definition recv_op_perform ::
  "'w posix \<Rightarrow> base_impl \<Rightarrow> nat \<Rightarrow> nat \<Rightarrow> 'w
     \<Rightarrow> (op_status \<times> asio_ec \<times> nat \<times> byte list \<times> 'w) option" where
  "recv_op_perform P im room bytes0 w =
     (case non_blocking_recv P (im_socket im) room (has (im_state im) stream_oriented) bytes0 w of
        None \<Rightarrow> None
      | Some (fin, ec, n, bs, w') \<Rightarrow>
          Some (if \<not> fin then Not_done
                else if has (im_state im) stream_oriented \<and> n = 0 then Done_and_exhausted
                else Done, ec, n, bs, w'))"

definition send_op_perform ::
  "'w posix \<Rightarrow> base_impl \<Rightarrow> byte list list \<Rightarrow> nat \<Rightarrow> 'w
     \<Rightarrow> (op_status \<times> asio_ec \<times> nat \<times> 'w) option" where
  "send_op_perform P im bufs bytes0 w =
     (case non_blocking_send P (im_socket im) bufs bytes0 w of
        None \<Rightarrow> None
      | Some (fin, ec, n, w') \<Rightarrow>
          Some (if \<not> fin then Not_done
                else if has (im_state im) stream_oriented \<and> n < length (concat bufs)
                then Done_and_exhausted
                else Done, ec, n, w'))"

definition accept_op_perform ::
  "'w posix \<Rightarrow> base_impl \<Rightarrow> 'w \<Rightarrow> (op_status \<times> socket_type \<times> asio_ec \<times> 'w) option" where
  "accept_op_perform P im w =
     (case non_blocking_accept P (im_socket im) (im_state im) w of
        None \<Rightarrow> None
      | Some (fin, new_socket, ec, w') \<Rightarrow>
          Some (if fin then Done else Not_done, new_socket, ec, w'))"

end
