(* ===== verification/Oef_Asio_Socket_Facts.thy ===== *)
theory Oef_Asio_Socket_Facts
  imports Oef_Asio_Socket
begin

text \<open>
  The socket service keeps its books: a socket is registered with the reactor exactly
  while it is open, and the state bits tell the blocking mode the system has it in. The
  second part needs the documented behaviour of the calls that set the mode
  (\<open>sets_mode\<close>). Then the outcomes of accepting and of starting an operation.
\<close>

section \<open>State bits\<close>

lemma has_bit:
  "has st user_set_non_blocking \<longleftrightarrow> bit st 0" "has st internal_non_blocking \<longleftrightarrow> bit st 1"
  "has st non_blocking \<longleftrightarrow> bit st 0 \<or> bit st 1"
proof -
  have one: "st AND 1 = 0 \<longleftrightarrow> \<not> bit st 0" and two: "st AND 2 = 0 \<longleftrightarrow> \<not> bit st 1"
    using and_exp_eq_0_iff_not_bit [of st 0] and_exp_eq_0_iff_not_bit [of st 1] by simp_all
  then show "has st user_set_non_blocking \<longleftrightarrow> bit st 0" "has st internal_non_blocking \<longleftrightarrow> bit st 1"
    by (simp_all add: has_def state_bit_defs)
  have "st AND (1 OR 2) = 0 \<longleftrightarrow> st AND 1 = 0 \<and> st AND 2 = 0"
    by (simp only: bit.conj_disj_distrib or_eq_0_iff)
  then show "has st non_blocking \<longleftrightarrow> bit st 0 \<or> bit st 1"
    using one two by (simp add: has_def non_blocking_def user_set_non_blocking_def internal_non_blocking_def)
qed

lemma has_simps [simp]:
  "has (st OR user_set_non_blocking) non_blocking" "has (st OR internal_non_blocking) non_blocking"
  "\<not> has (st AND NOT (user_set_non_blocking OR internal_non_blocking)) non_blocking"
  "\<not> has (st AND NOT user_set_non_blocking AND NOT internal_non_blocking) non_blocking"
  "\<not> has (st AND NOT non_blocking) non_blocking"
  "has (st AND NOT internal_non_blocking) non_blocking \<longleftrightarrow> has st user_set_non_blocking"
  "has (st OR possible_dup) non_blocking \<longleftrightarrow> has st non_blocking"
  "has (st OR user_set_linger) non_blocking \<longleftrightarrow> has st non_blocking"
  "has (st OR enable_connection_aborted) non_blocking \<longleftrightarrow> has st non_blocking"
  "has (st AND NOT enable_connection_aborted) non_blocking \<longleftrightarrow> has st non_blocking"
  "\<not> has 0 bits" "\<not> has stream_oriented non_blocking" "\<not> has datagram_oriented non_blocking"
  unfolding has_bit has_def [of 0] by (simp_all add: state_bit_defs bit_simps)

lemma kind_state_mode [simp]: "\<not> has (kind_state k) non_blocking"
  by (simp add: kind_state_def split: socket_kind.split)

section \<open>The service\<close>

text \<open>
  What a socket object can be told to do, and what it answers. An \<open>assign\<close> gets a
  descriptor that is in blocking mode, as \<open>::accept\<close> makes it.
\<close>

inductive service_step ::
  "'w posix \<Rightarrow> (socket_type \<Rightarrow> 'w \<Rightarrow> bool) \<Rightarrow> service \<times> 'w \<Rightarrow> service \<times> 'w \<Rightarrow> bool"
  for P :: "'w posix" and nb :: "socket_type \<Rightarrow> 'w \<Rightarrow> bool" where
  step_open: "impl_open P af k err v w = (ec, v', w') \<Longrightarrow> service_step P nb (v, w) (v', w')"
| step_assign: "s \<noteq> invalid_socket \<Longrightarrow> \<not> nb s w \<Longrightarrow> impl_assign k s err v = (ec, v') \<Longrightarrow>
    service_step P nb (v, w) (v', w)"
| step_close: "impl_close P v w = (ec, v', w') \<Longrightarrow> service_step P nb (v, w) (v', w')"
| step_release: "impl_release v = (s, ec, v') \<Longrightarrow> service_step P nb (v, w) (v', w)"
| step_user_mode: "set_user_non_blocking P (im_socket (rv_impl v)) (im_state (rv_impl v)) b w
    = (ok, ec, st, w') \<Longrightarrow>
    service_step P nb (v, w) (v\<lparr>rv_impl := (rv_impl v)\<lparr>im_state := st\<rparr>\<rparr>, w')"
| step_internal_mode: "set_internal_non_blocking P (im_socket (rv_impl v)) (im_state (rv_impl v)) b w
    = (ok, ec, st, w') \<Longrightarrow>
    service_step P nb (v, w) (v\<lparr>rv_impl := (rv_impl v)\<lparr>im_state := st\<rparr>\<rparr>, w')"
| step_start_op: "start_op P noop (rv_impl v) w = (r, im, w') \<Longrightarrow>
    service_step P nb (v, w) (v\<lparr>rv_impl := im\<rparr>, w')"
| step_start_accept: "start_accept_op P peer_is_open (rv_impl v) w = (r, im, w') \<Longrightarrow>
    service_step P nb (v, w) (v\<lparr>rv_impl := im\<rparr>, w')"
| step_start_connect: "start_connect_op P ep (rv_impl v) w = (r, im, w') \<Longrightarrow>
    service_step P nb (v, w) (v\<lparr>rv_impl := im\<rparr>, w')"
| step_option: "socket_setsockopt P (im_socket (rv_impl v)) (im_state (rv_impl v)) level optname optval len w
    = (r, ec, st, w') \<Longrightarrow>
    service_step P nb (v, w) (v\<lparr>rv_impl := (rv_impl v)\<lparr>im_state := st\<rparr>\<rparr>, w')"
| step_bind: "socket_bind P (im_socket (rv_impl v)) ep w = (r, ec, w') \<Longrightarrow>
    service_step P nb (v, w) (v, w')"

inductive service_reachable ::
  "'w posix \<Rightarrow> (socket_type \<Rightarrow> 'w \<Rightarrow> bool) \<Rightarrow> service \<times> 'w \<Rightarrow> bool"
  for P :: "'w posix" and nb :: "socket_type \<Rightarrow> 'w \<Rightarrow> bool" where
  reach_new: "service_reachable P nb (\<lparr>rv_impl = impl_construct, rv_registered = []\<rparr>, w)"
| reach_step: "service_reachable P nb vw \<Longrightarrow> service_step P nb vw vw' \<Longrightarrow> service_reachable P nb vw'"

text \<open>
  The system: \<open>ioctl(FIONBIO)\<close> sets the mode when it succeeds and leaves it otherwise, a
  new descriptor is in blocking mode, and connecting, binding and setting other options do
  not touch the mode.
\<close>

definition sets_mode :: "'w posix \<Rightarrow> (socket_type \<Rightarrow> 'w \<Rightarrow> bool) \<Rightarrow> bool" where
  "sets_mode P nb \<longleftrightarrow>
     (\<forall>s b w res errno w'. px_ioctl_nbio P s b w = (res, errno, w') \<longrightarrow>
        nb s w' = (if res \<ge> 0 then b else nb s w)) \<and>
     (\<forall>af k w s errno w'. px_socket P af k w = (s, errno, w') \<longrightarrow> \<not> nb s w') \<and>
     (\<forall>s ep w res errno w'. px_connect P s ep w = (res, errno, w') \<longrightarrow> nb s w' = nb s w) \<and>
     (\<forall>s ep w res errno w'. px_bind P s ep w = (res, errno, w') \<longrightarrow> nb s w' = nb s w) \<and>
     (\<forall>s l n v w res errno w'. px_setsockopt P s l n v w = (res, errno, w') \<longrightarrow> nb s w' = nb s w)"

definition registered_inv :: "service \<Rightarrow> bool" where
  "registered_inv v \<longleftrightarrow>
     rv_registered v = (if is_open (rv_impl v) then [im_socket (rv_impl v)] else [])"

definition mode_inv :: "(socket_type \<Rightarrow> 'w \<Rightarrow> bool) \<Rightarrow> service \<Rightarrow> 'w \<Rightarrow> bool" where
  "mode_inv nb v w \<longleftrightarrow>
     (is_open (rv_impl v) \<longrightarrow>
        nb (im_socket (rv_impl v)) w = has (im_state (rv_impl v)) non_blocking)"

lemma impl_construct_closed [simp]: "\<not> is_open impl_construct"
  by (simp add: is_open_def impl_construct_def)

lemma start_op_socket: "start_op P noop im w = (r, im', w') \<Longrightarrow> im_socket im' = im_socket im"
  by (auto simp: start_op_def split: if_splits prod.splits)

lemma start_connect_op_socket:
  "start_connect_op P ep im w = (r, im', w') \<Longrightarrow> im_socket im' = im_socket im"
  by (auto simp: start_connect_op_def Let_def split: if_splits prod.splits)

lemma registered_step:
  assumes "service_step P nb (v, w) (v', w')" "registered_inv v"
  shows "registered_inv v'"
  using assms(1)
proof cases
  case step_open
  then show ?thesis using assms(2)
    by (auto simp: impl_open_def registered_inv_def is_open_def split: if_splits prod.splits)
next
  case step_assign
  then show ?thesis using assms(2)
    by (auto simp: impl_assign_def registered_inv_def is_open_def split: if_splits)
next
  case step_close
  then show ?thesis using assms(2)
    by (auto simp: impl_close_def registered_inv_def deregister_def Let_def split: if_splits prod.splits)
next
  case step_release
  then show ?thesis using assms(2)
    by (auto simp: impl_release_def registered_inv_def deregister_def Let_def split: if_splits)
next
  case step_user_mode
  then show ?thesis using assms(2) by (simp add: registered_inv_def is_open_def)
next
  case step_internal_mode
  then show ?thesis using assms(2) by (simp add: registered_inv_def is_open_def)
next
  case step_start_op
  then show ?thesis using assms(2)
    by (auto simp: registered_inv_def is_open_def dest!: start_op_socket)
next
  case step_start_accept
  then show ?thesis using assms(2)
    by (auto simp: start_accept_op_def registered_inv_def is_open_def start_op_socket split: if_splits)
next
  case step_start_connect
  then show ?thesis using assms(2)
    by (auto simp: registered_inv_def is_open_def dest!: start_connect_op_socket)
next
  case step_option
  then show ?thesis using assms(2) by (simp add: registered_inv_def is_open_def)
next
  case step_bind
  then show ?thesis using assms(2) by simp
qed

lemma ioctl_mode:
  assumes "sets_mode P nb" "px_ioctl_nbio P s b w = (res, errno, w')"
  shows "nb s w' = (if res \<ge> 0 then b else nb s w)"
proof -
  have "\<forall>s b w res errno w'. px_ioctl_nbio P s b w = (res, errno, w') \<longrightarrow>
      nb s w' = (if res \<ge> 0 then b else nb s w)"
    using assms(1) by (simp add: sets_mode_def)
  with assms(2) show ?thesis by blast
qed

lemma set_user_mode:
  assumes "sets_mode P nb" "set_user_non_blocking P s st b w = (ok, ec, st', w')"
    "nb s w = has st non_blocking"
  shows "nb s w' = has st' non_blocking"
  using assms(2,3)
  by (auto simp: set_user_non_blocking_def split: if_splits prod.splits dest!: ioctl_mode [OF assms(1)])

lemma set_internal_mode:
  assumes "sets_mode P nb" "set_internal_non_blocking P s st b w = (ok, ec, st', w')"
    "nb s w = has st non_blocking"
  shows "nb s w' = has st' non_blocking"
  using assms(2,3)
  by (auto simp: set_internal_non_blocking_def split: if_splits prod.splits dest!: ioctl_mode [OF assms(1)])

lemma set_internal_on:
  assumes "set_internal_non_blocking P s st True w = (True, ec, st', w')"
  shows "has st' non_blocking"
  using assms by (auto simp: set_internal_non_blocking_def split: if_splits prod.splits)

lemma start_op_mode:
  assumes "sets_mode P nb" "start_op P noop im w = (r, im', w')"
    "nb (im_socket im) w = has (im_state im) non_blocking"
  shows "nb (im_socket im') w' = has (im_state im') non_blocking"
  using assms set_internal_mode [OF assms(1)]
  by (auto simp: start_op_def split: if_splits prod.splits)

lemma socket_connect_mode:
  "sets_mode P nb \<Longrightarrow> socket_connect P s ep w = (res, ec, w') \<Longrightarrow> nb s w' = nb s w"
  by (auto simp: socket_connect_def sets_mode_def Let_def split: if_splits prod.splits)

lemma start_connect_op_mode:
  assumes "sets_mode P nb" "start_connect_op P ep im w = (r, im', w')"
    "nb (im_socket im) w = has (im_state im) non_blocking"
  shows "nb (im_socket im') w' = has (im_state im') non_blocking"
proof -
  obtain ok ec0 st w0 where
    mode: "(if has (im_state im) non_blocking then (True, ec_ok, im_state im, w)
      else set_internal_non_blocking P (im_socket im) (im_state im) True w) = (ok, ec0, st, w0)"
    by (metis prod_cases4)
  then have "nb (im_socket im) w0 = has st non_blocking"
    using assms(3) set_internal_mode [OF assms(1)] by (auto split: if_splits)
  then show ?thesis
    using assms(2) mode socket_connect_mode [OF assms(1)]
    by (auto simp: start_connect_op_def Let_def split: if_splits prod.splits)
qed

lemma set_option_mode:
  assumes "sets_mode P nb" "socket_setsockopt P s st level optname optval len w = (r, ec, st', w')"
    "nb s w = has st non_blocking"
  shows "nb s w' = has st' non_blocking"
proof -
  have "px_setsockopt P s level optname optval w = (res, errno, w') \<Longrightarrow> nb s w' = nb s w" for res errno w'
    using assms(1) unfolding sets_mode_def by blast
  with assms(2,3) show ?thesis
    by (auto simp: socket_setsockopt_def Let_def split: if_splits prod.splits)
qed

lemma socket_bind_mode: "sets_mode P nb \<Longrightarrow> socket_bind P s ep w = (r, ec, w') \<Longrightarrow> nb s w' = nb s w"
  by (auto simp: socket_bind_def sets_mode_def split: if_splits prod.splits)

lemma mode_step:
  assumes "sets_mode P nb" "service_step P nb (v, w) (v', w')" "mode_inv nb v w"
  shows "mode_inv nb v' w'"
  using assms(2)
proof cases
  case step_open
  then show ?thesis using assms
    by (auto simp: impl_open_def mode_inv_def socket_socket_def sets_mode_def split: if_splits prod.splits)
next
  case step_assign
  then show ?thesis using assms by (auto simp: impl_assign_def mode_inv_def split: if_splits)
next
  case step_close
  then show ?thesis using assms
    by (auto simp: impl_close_def mode_inv_def Let_def split: if_splits prod.splits)
next
  case step_release
  then show ?thesis using assms by (auto simp: impl_release_def mode_inv_def Let_def split: if_splits)
next
  case step_user_mode
  then show ?thesis using assms(3) set_user_mode [OF assms(1) step_user_mode(2)]
    by (simp add: mode_inv_def is_open_def)
next
  case step_internal_mode
  then show ?thesis using assms(3) set_internal_mode [OF assms(1) step_internal_mode(2)]
    by (simp add: mode_inv_def is_open_def)
next
  case step_start_op
  then show ?thesis
    using assms(3) start_op_mode [OF assms(1) step_start_op(2)] start_op_socket [OF step_start_op(2)]
    by (simp add: mode_inv_def is_open_def)
next
  case (step_start_accept peer_is_open r im)
  show ?thesis
  proof (cases "peer_is_open")
    case True
    then show ?thesis using step_start_accept assms(3)
      by (auto simp: start_accept_op_def mode_inv_def)
  next
    case False
    then have "start_op P False (rv_impl v) w = (r, im, w')"
      using step_start_accept by (simp add: start_accept_op_def)
    from start_op_mode [OF assms(1) this] start_op_socket [OF this] show ?thesis
      using step_start_accept(1) assms(3) by (simp add: mode_inv_def is_open_def)
  qed
next
  case step_start_connect
  then show ?thesis
    using assms(3) start_connect_op_mode [OF assms(1) step_start_connect(2)]
      start_connect_op_socket [OF step_start_connect(2)]
    by (simp add: mode_inv_def is_open_def)
next
  case step_option
  then show ?thesis using assms(3) set_option_mode [OF assms(1) step_option(2)]
    by (simp add: mode_inv_def is_open_def)
next
  case step_bind
  then show ?thesis using assms(3) socket_bind_mode [OF assms(1) step_bind(2)]
    by (simp add: mode_inv_def)
qed

lemma service_invariants:
  assumes "service_reachable P nb vw" "sets_mode P nb"
  shows "registered_inv (fst vw) \<and> mode_inv nb (fst vw) (snd vw)"
  using assms(1)
proof induction
  case (reach_new w)
  show ?case by (simp add: registered_inv_def mode_inv_def)
next
  case (reach_step vw vw')
  then show ?case
    using registered_step [of P nb "fst vw" "snd vw" "fst vw'" "snd vw'"]
      mode_step [OF assms(2), of "fst vw" "snd vw" "fst vw'" "snd vw'"] by simp
qed

text \<open>
  C35: In every reachable state of a socket the reactor knows exactly the open
  descriptor, the state bits of an open socket tell the blocking mode the system has it
  in, and none of the three ways to start an operation on an open socket (transfers,
  accepts, connects) hands it to the reactor unless the system has the socket in non-
  blocking mode then.
\<close>

theorem service_keeps_its_books:
  assumes "service_reachable P nb (v, w)" "sets_mode P nb"
  shows "rv_registered v = (if is_open (rv_impl v) then [im_socket (rv_impl v)] else [])
    \<and> (is_open (rv_impl v) \<longrightarrow>
         nb (im_socket (rv_impl v)) w = has (im_state (rv_impl v)) non_blocking)
    \<and> (start_op P noop (rv_impl v) w = (Reactor_start, im, w') \<and> is_open (rv_impl v) \<longrightarrow>
         nb (im_socket im) w')
    \<and> (start_accept_op P peer_is_open (rv_impl v) w = (Reactor_start, im, w') \<and> is_open (rv_impl v) \<longrightarrow>
         nb (im_socket im) w')
    \<and> (start_connect_op P ep (rv_impl v) w = (Reactor_start, im, w') \<and> is_open (rv_impl v) \<longrightarrow>
         nb (im_socket im) w')"
proof -
  have inv: "registered_inv v" "mode_inv nb v w"
    using service_invariants [OF assms] by simp_all
  have op: "nb (im_socket im) w'"
    if "start_op P noop (rv_impl v) w = (Reactor_start, im, w')" "is_open (rv_impl v)" for noop
  proof -
    have "has (im_state im) non_blocking"
      using that by (auto simp: start_op_def split: if_splits prod.splits dest: set_internal_on)
    then show ?thesis
      using start_op_mode [OF assms(2) that(1)] inv that(2) by (simp add: mode_inv_def)
  qed
  moreover have "nb (im_socket im) w'"
    if "start_accept_op P peer_is_open (rv_impl v) w = (Reactor_start, im, w')" "is_open (rv_impl v)"
    using op [of False] that by (auto simp: start_accept_op_def split: if_splits)
  moreover have "nb (im_socket im) w'"
    if "start_connect_op P ep (rv_impl v) w = (Reactor_start, im, w')" "is_open (rv_impl v)"
  proof -
    have "has (im_state im) non_blocking"
      using that by (auto simp: start_connect_op_def Let_def split: if_splits prod.splits dest: set_internal_on)
    then show ?thesis
      using start_connect_op_mode [OF assms(2) that(1)] inv that(2) by (simp add: mode_inv_def)
  qed
  ultimately show ?thesis using inv by (auto simp: registered_inv_def mode_inv_def)
qed

text \<open>The world of one descriptor: its mode.\<close>

definition mode_posix :: "bool posix" where
  "mode_posix = \<lparr>
     px_socket = (\<lambda>af k w. (7, 0, False)), px_accept = (\<lambda>s w. (8, 0, w)), px_close = (\<lambda>s w. (0, 0, w)),
     px_linger_off = (\<lambda>s w. (0, 0, w)), px_ioctl_nbio = (\<lambda>s v w. (0, 0, v)),
     px_fionread = (\<lambda>s w. (0, 0, 0, w)), px_shutdown = (\<lambda>s how w. (0, 0, w)),
     px_bind = (\<lambda>s ep w. (0, 0, w)),
     px_setsockopt = (\<lambda>s level optname v w. (0, 0, w)), px_connect = (\<lambda>s ep w. (-1, 115, w)), px_so_error = (\<lambda>s w. (0, 0, 0, w)),
     px_listen = (\<lambda>s n w. (0, 0, w)), px_recvmsg = (\<lambda>s room w. (0, 0, [], w)),
     px_sendmsg = (\<lambda>s bufs w. (int (length (concat bufs)), 0, w)),
     px_poll = (\<lambda>s ev msec w. (1, 0, w))\<rparr>"

definition example_open :: service where
  "example_open = \<lparr>rv_impl = \<lparr>im_socket = 7, im_state = stream_oriented\<rparr>, rv_registered = [7]\<rparr>"

lemma mode_posix_sets_mode: "sets_mode mode_posix (\<lambda>_ w. w)"
  by (simp add: sets_mode_def mode_posix_def)

lemma example_open_reachable: "service_reachable mode_posix (\<lambda>_ w. w) (example_open, False)"
proof -
  have "impl_open mode_posix AF_INET SOCK_STREAM 0 \<lparr>rv_impl = impl_construct, rv_registered = []\<rparr> True
      = (ec_ok, example_open, False)"
    by (simp add: impl_open_def is_open_def impl_construct_def socket_socket_def mode_posix_def
      example_open_def kind_state_def invalid_socket_def)
  then show ?thesis
    by (blast intro: service_reachable.intros service_step.intros)
qed

theorem service_keeps_its_books_witness:
  "start_op mode_posix False (rv_impl example_open) False
     = (Reactor_start, \<lparr>im_socket = 7, im_state = 18\<rparr>, True)
   \<and> rv_registered example_open = [7]"
proof -
  have "start_op mode_posix False (rv_impl example_open) False
      = (Reactor_start, \<lparr>im_socket = 7, im_state = 18\<rparr>, True)"
    by (simp add: start_op_def set_internal_non_blocking_def mode_posix_def example_open_def has_def
      state_bit_defs invalid_socket_def)
  then show ?thesis
    using service_keeps_its_books [OF example_open_reachable mode_posix_sets_mode, of False
        "\<lparr>im_socket = 7, im_state = 18\<rparr>" True]
    by (simp add: example_open_def is_open_def invalid_socket_def)
qed

section \<open>Outcomes\<close>

text \<open>A call that fails leaves an error number.\<close>

definition reports_errno :: "'w posix \<Rightarrow> bool" where
  "reports_errno P \<longleftrightarrow>
     (\<forall>s w res errno w'. px_accept P s w = (res, errno, w') \<and> res = invalid_socket \<longrightarrow> errno \<noteq> 0) \<and>
     (\<forall>s ev msec w res errno w'. px_poll P s ev msec w = (res, errno, w') \<and> res < 0 \<longrightarrow> errno \<noteq> 0) \<and>
     (\<forall>s room w res errno bs w'. px_recvmsg P s room w = (res, errno, bs, w') \<and> res < 0 \<longrightarrow> errno \<noteq> 0) \<and>
     (\<forall>s bufs w res errno w'. px_sendmsg P s bufs w = (res, errno, w') \<and> res < 0 \<longrightarrow> errno \<noteq> 0)"

lemma errno_rules:
  assumes "reports_errno P"
  shows "px_accept P s w = (invalid_socket, errno, w') \<Longrightarrow> errno \<noteq> 0"
    and "px_poll P s ev msec w = (res, errno, w') \<Longrightarrow> res < 0 \<Longrightarrow> errno \<noteq> 0"
    and "px_recvmsg P s room w = (res, errno, bs, w') \<Longrightarrow> res < 0 \<Longrightarrow> errno \<noteq> 0"
    and "px_sendmsg P s bufs w = (res, errno, w') \<Longrightarrow> res < 0 \<Longrightarrow> errno \<noteq> 0"
  using assms unfolding reports_errno_def by (metis, metis, metis, metis)

lemma socket_accept_reports:
  "reports_errno P \<Longrightarrow> socket_accept P s w = (new_s, ec, w') \<Longrightarrow>
     if new_s = invalid_socket then ec_failed ec else ec = ec_ok"
  by (auto simp: socket_accept_def error_wrapper_def split: if_splits prod.splits
    dest: errno_rules(1))

lemma poll_read_reports:
  "reports_errno P \<Longrightarrow> poll_read P s st msec w = (r, ec, w') \<Longrightarrow> r < 0 \<Longrightarrow> ec_failed ec"
  by (auto simp: poll_read_def poll_result_def error_wrapper_def split: if_splits prod.splits
    dest: errno_rules(2))

lemma poll_write_reports:
  "reports_errno P \<Longrightarrow> poll_write P s st msec w = (r, ec, w') \<Longrightarrow> r < 0 \<Longrightarrow> ec_failed ec"
  by (auto simp: poll_write_def poll_result_def error_wrapper_def split: if_splits prod.splits
    dest: errno_rules(2))

lemma socket_recv_reports:
  "reports_errno P \<Longrightarrow> socket_recv P s room w = (res, ec, bs, w') \<Longrightarrow>
     if res < 0 then ec_failed ec else ec = ec_ok"
  by (auto simp: socket_recv_def error_wrapper_def split: if_splits prod.splits dest: errno_rules(3))

lemma socket_send_reports:
  "reports_errno P \<Longrightarrow> socket_send P s bufs w = (res, ec, w') \<Longrightarrow>
     if res < 0 then ec_failed ec else ec = ec_ok"
  by (auto simp: socket_send_def error_wrapper_def split: if_splits prod.splits dest: errno_rules(4))

text \<open>
  An operation reports: it yields something, or an error. Each of the loops keeps this, so
  the induction of its partial function gives it for every result.
\<close>

definition accept_reports :: "socket_type \<times> asio_ec \<times> 'w \<Rightarrow> bool" where
  "accept_reports r = (case r of (new_s, ec, _) \<Rightarrow>
     if new_s = invalid_socket then ec_failed ec else ec = ec_ok)"

definition recv_reports :: "asio_ec \<times> nat \<times> byte list \<times> 'w \<Rightarrow> bool" where
  "recv_reports r = (case r of (ec, n, _, _) \<Rightarrow> if n = 0 then ec_failed ec else ec = ec_ok)"

definition send_reports :: "asio_ec \<times> nat \<times> 'w \<Rightarrow> bool" where
  "send_reports r = (case r of (ec, n, _) \<Rightarrow> ec = ec_ok \<or> n = 0 \<and> ec_failed ec)"

lemmas reports_defs = accept_reports_def recv_reports_def send_reports_def

lemma sync_accept_reports:
  assumes "reports_errno P" "sync_accept P s st w = Some r"
  shows "accept_reports r"
proof -
  let ?Q = "\<lambda>(((P, s), st), w) r. reports_errno P \<longrightarrow> accept_reports r"
  have "?Q (((P, s), st), w) r"
  proof (rule sync_accept.raw_induct [OF _ assms(2)])
    fix f P s st w r
    assume ih: "\<And>P' s' st' w' r'. f P' s' st' w' = Some r' \<Longrightarrow> ?Q (((P', s'), st'), w') r'"
      and body: "(let (new_socket, ec, w1) = socket_accept P s w
        in if new_socket \<noteq> invalid_socket then Some (new_socket, ec, w1)
           else if accept_gives_up st ec then Some (invalid_socket, ec, w1)
                else let (r, ec2, w2) = poll_read P s 0 (-1) w1
                     in if r < 0 then Some (invalid_socket, ec2, w2) else f P s st w2) = Some r"
    obtain new_s ec w1 where acc: "socket_accept P s w = (new_s, ec, w1)" by (metis prod_cases3)
    obtain pr ec2 w2 where poll: "poll_read P s 0 (-1) w1 = (pr, ec2, w2)" by (metis prod_cases3)
    show "?Q (((P, s), st), w) r"
      using body ih [of P s st w2 r] acc poll
        socket_accept_reports [OF _ acc] poll_read_reports [OF _ poll]
      by (auto simp: Let_def reports_defs split: if_splits)
  qed
  then show ?thesis using assms(1) by simp
qed

lemma sync_recv_loop_reports:
  assumes "reports_errno P" "has st stream_oriented" "sync_recv_loop P s st room w = Some r"
  shows "recv_reports r"
proof -
  let ?Q = "\<lambda>((((P, s), st), room), w) r.
    reports_errno P \<longrightarrow> has st stream_oriented \<longrightarrow> recv_reports r"
  have "?Q ((((P, s), st), room), w) r"
  proof (rule sync_recv_loop.raw_induct [OF _ assms(3)])
    fix f P s st room w r
    assume ih: "\<And>P' s' st' room' w' r'. f P' s' st' room' w' = Some r' \<Longrightarrow>
        ?Q ((((P', s'), st'), room'), w') r'"
      and body: "(let (bytes, ec, bs, w1) = socket_recv P s room w in
        if bytes > 0 then Some (ec, nat bytes, bs, w1)
        else if has st stream_oriented \<and> bytes = 0 then Some (eof, 0, bs, w1)
        else if has st user_set_non_blocking \<or> (ec \<noteq> would_block \<and> ec \<noteq> try_again)
        then Some (ec, 0, bs, w1)
        else let (r, ec2, w2) = poll_read P s 0 (-1) w1 in
             if r < 0 then Some (ec2, 0, bs, w2) else f P s st room w2) = Some r"
    obtain n ec bs w1 where recv: "socket_recv P s room w = (n, ec, bs, w1)" by (metis prod_cases4)
    obtain pr ec2 w2 where poll: "poll_read P s 0 (-1) w1 = (pr, ec2, w2)" by (metis prod_cases3)
    show "?Q ((((P, s), st), room), w) r"
      using body ih [of P s st room w2 r] recv poll
        socket_recv_reports [OF _ recv] poll_read_reports [OF _ poll]
      by (auto simp: Let_def reports_defs split: if_splits)
  qed
  then show ?thesis using assms by simp
qed

lemma sync_send_loop_reports:
  assumes "reports_errno P" "sync_send_loop P s st bufs w = Some r"
  shows "send_reports r"
proof -
  let ?Q = "\<lambda>((((P, s), st), bufs), w) r. reports_errno P \<longrightarrow> send_reports r"
  have "?Q ((((P, s), st), bufs), w) r"
  proof (rule sync_send_loop.raw_induct [OF _ assms(2)])
    fix f P s st bufs w r
    assume ih: "\<And>P' s' st' bufs' w' r'. f P' s' st' bufs' w' = Some r' \<Longrightarrow>
        ?Q ((((P', s'), st'), bufs'), w') r'"
      and body: "(let (bytes, ec, w1) = socket_send P s bufs w in
        if bytes \<ge> 0 then Some (ec, nat bytes, w1)
        else if has st user_set_non_blocking \<or> (ec \<noteq> would_block \<and> ec \<noteq> try_again)
        then Some (ec, 0, w1)
        else let (r, ec2, w2) = poll_write P s 0 (-1) w1 in
             if r < 0 then Some (ec2, 0, w2) else f P s st bufs w2) = Some r"
    obtain n ec w1 where send: "socket_send P s bufs w = (n, ec, w1)" by (metis prod_cases3)
    obtain pr ec2 w2 where poll: "poll_write P s 0 (-1) w1 = (pr, ec2, w2)" by (metis prod_cases3)
    show "?Q ((((P, s), st), bufs), w) r"
      using body ih [of P s st bufs w2 r] send poll
        socket_send_reports [OF _ send] poll_write_reports [OF _ poll]
      by (auto simp: Let_def reports_defs split: if_splits)
  qed
  then show ?thesis using assms by simp
qed

text \<open>
  Whatever a system does that leaves an error number with each failure: a
  synchronous accept yields a socket or an error, a receive from a stream bytes or an
  error, and a send that fails has an error and sent nothing.
\<close>

lemma sync_operations_report:
  assumes "reports_errno P"
  shows "(\<forall>r. sync_accept P s st w = Some r \<longrightarrow> accept_reports r)
    \<and> (\<forall>r. sync_send P s st bufs all_empty w = Some r \<longrightarrow> send_reports r)
    \<and> (\<forall>r. has st stream_oriented \<and> sync_recv P s st room False w = Some r \<longrightarrow> recv_reports r)"
proof (intro conjI allI impI)
  show "accept_reports r" if "sync_accept P s st w = Some r" for r
    using assms that by (rule sync_accept_reports)
  show "send_reports r" if "sync_send P s st bufs all_empty w = Some r" for r
    using that sync_send_loop_reports [OF assms, of s st bufs w r]
    by (auto simp: sync_send_def split: if_splits) (simp_all add: send_reports_def)
  show "recv_reports r" if "has st stream_oriented \<and> sync_recv P s st room False w = Some r" for r
    using that sync_recv_loop_reports [OF assms, of st s room w r]
    by (auto simp: sync_recv_def split: if_splits) (simp add: recv_reports_def)
qed

lemma mode_posix_reports: "reports_errno mode_posix"
  by (simp add: reports_errno_def mode_posix_def invalid_socket_def)

lemma sync_operations_report_witness:
  "accept_reports (8, ec_ok, False)
    \<and> sync_accept mode_posix 7 stream_oriented False = Some (8, ec_ok, False)"
proof -
  have "sync_accept mode_posix 7 stream_oriented False = Some (8, ec_ok, False)"
    by (subst sync_accept.simps) (simp add: socket_accept_def mode_posix_def invalid_socket_def)
  then show ?thesis
    using sync_operations_report [OF mode_posix_reports, of 7 stream_oriented False] by blast
qed

end
