(* ===== verification/Oef_Asio_Resolve.thy ===== *)
theory Oef_Asio_Resolve
  imports Oef_Asio_Socket_Facts
begin

text \<open>
  Resolving a name: \<open>resolve\<close> of \<open>3rd/asio/asio/ip/basic_resolver.hpp\<close> with the query
  (\<open>ip/basic_resolver_query.hpp\<close>), the service (\<open>detail/resolver_service.hpp\<close>), the results
  (\<open>ip/basic_resolver_results.hpp\<close>) and \<open>getaddrinfo\<close> of \<open>detail/impl/socket_ops.ipp\<close>. The system
  call is an argument: it yields its code, the \<open>errno\<close> it leaves, and the list of addresses.
\<close>

section \<open>Exceptions\<close>

text \<open>An exception is an error code and the place that threw it; the text of its \<open>what()\<close> is an
  argument of the model.\<close>

datatype system_error = System_failure asio_ec string

definition throw_error :: "asio_ec \<Rightarrow> string \<Rightarrow> system_error option" where
  "throw_error ec location = (if ec_failed ec then Some (System_failure ec location) else None)"

section \<open>The system call\<close>

record gai_hints =
  gh_flags :: nat
  gh_family :: nat
  gh_socktype :: socket_kind
  gh_protocol :: nat

text \<open>\<open>ai_addr\<close> is the address for the families AF_INET (2) and AF_INET6 (10).\<close>

record addrinfo =
  ai_family :: nat
  ai_addrlen :: nat
  ai_addr :: endpoint
  ai_canonname :: "string option"

record 'w net_env =
  ne_posix :: "'w posix"
  ne_register :: "'w \<Rightarrow> nat"
  ne_getaddrinfo :: "string option \<Rightarrow> string option \<Rightarrow> gai_hints \<Rightarrow> 'w \<Rightarrow> int \<times> nat \<times> addrinfo list \<times> 'w"
  ne_what :: "system_error \<Rightarrow> string"
  ne_somaxconn :: int

text \<open>The codes of \<open>getaddrinfo\<close> are those of glibc; a code without a case, \<open>EAI_SYSTEM\<close> among them,
  is the \<open>errno\<close>.\<close>

definition translate_addrinfo_error :: "int \<Rightarrow> nat \<Rightarrow> asio_ec" where
  "translate_addrinfo_error error errno =
     (if error = 0 then ec_ok
      else if error = -3 then Netdb_error 2
      else if error = -1 then invalid_argument
      else if error = -4 then Netdb_error 3
      else if error = -6 then System_error 97
      else if error = -10 then System_error 12
      else if error = -2 \<or> error = -9 \<or> error = -5 then Netdb_error 1
      else if error = -8 then Addrinfo_error (-8)
      else if error = -7 then Addrinfo_error (-7)
      else System_error errno)"

definition socket_getaddrinfo ::
    "'w net_env \<Rightarrow> string \<Rightarrow> string \<Rightarrow> gai_hints \<Rightarrow> 'w \<Rightarrow> asio_ec \<times> addrinfo list \<times> 'w" where
  "socket_getaddrinfo E host service hints w =
     (let (error, errno, address_info, w) =
            ne_getaddrinfo E (if host \<noteq> [] then Some host else None)
              (if service \<noteq> [] then Some service else None) hints w
      in (translate_addrinfo_error error errno, address_info, w))"

section \<open>The resolver\<close>

text \<open>The hints of a query of TCP.\<close>

definition query_hints :: "nat \<Rightarrow> gai_hints" where
  "query_hints resolve_flags =
     \<lparr>gh_flags = resolve_flags, gh_family = 0, gh_socktype = SOCK_STREAM, gh_protocol = 6\<rparr>"

record resolver_entry =
  re_endpoint :: endpoint
  re_host_name :: string
  re_service_name :: string

definition endpoint_capacity :: nat where "endpoint_capacity = 128"

text \<open>This exception names no place.\<close>

definition endpoint_resize :: "nat \<Rightarrow> system_error option" where
  "endpoint_resize new_size = (if new_size > endpoint_capacity then throw_error invalid_argument [] else None)"

fun results_loop :: "string \<Rightarrow> string \<Rightarrow> addrinfo list \<Rightarrow> system_error + resolver_entry list" where
  "results_loop actual_host_name service_name [] = Inr []"
| "results_loop actual_host_name service_name (ai # ais) =
     (if ai_family ai = 2 \<or> ai_family ai = 10 then
        case endpoint_resize (ai_addrlen ai) of
          Some e \<Rightarrow> Inl e
        | None \<Rightarrow>
            (case results_loop actual_host_name service_name ais of
               Inl e \<Rightarrow> Inl e
             | Inr entries \<Rightarrow>
                 Inr (\<lparr>re_endpoint = ai_addr ai, re_host_name = actual_host_name,
                        re_service_name = service_name\<rparr> # entries))
      else results_loop actual_host_name service_name ais)"

definition results_create :: "addrinfo list \<Rightarrow> string \<Rightarrow> string \<Rightarrow> system_error + resolver_entry list" where
  "results_create address_info host_name service_name =
     (case address_info of
        [] \<Rightarrow> Inr []
      | ai # _ \<Rightarrow>
          results_loop (case ai_canonname ai of Some name \<Rightarrow> name | None \<Rightarrow> host_name) service_name address_info)"

definition service_resolve ::
    "'w net_env \<Rightarrow> string \<Rightarrow> string \<Rightarrow> gai_hints \<Rightarrow> 'w \<Rightarrow> asio_ec \<times> (system_error + resolver_entry list) \<times> 'w" where
  "service_resolve E host_name service_name hints w =
     (let (ec, address_info, w) = socket_getaddrinfo E host_name service_name hints w
      in (ec, if ec_failed ec then Inr [] else results_create address_info host_name service_name, w))"

definition resolver_resolve ::
    "'w net_env \<Rightarrow> string \<Rightarrow> string \<Rightarrow> 'w \<Rightarrow> (system_error + resolver_entry list) \<times> 'w" where
  "resolver_resolve E host service w =
     (let (ec, r, w) = service_resolve E host service (query_hints 0) w
      in (case throw_error ec ''resolve'' of Some e \<Rightarrow> Inl e | None \<Rightarrow> r, w))"

section \<open>What it yields\<close>

definition ip_endpoints :: "addrinfo list \<Rightarrow> endpoint list" where
  "ip_endpoints ais = map ai_addr (filter (\<lambda>ai. ai_family ai = 2 \<or> ai_family ai = 10) ais)"

lemma results_loop_endpoints:
  "\<forall>ai\<in>set ais. ai_addrlen ai \<le> endpoint_capacity \<Longrightarrow>
   \<exists>entries. results_loop h s ais = Inr entries \<and> map re_endpoint entries = ip_endpoints ais"
  by (induction ais) (auto simp: ip_endpoints_def endpoint_resize_def)

text \<open>The addresses of the system in its order, or its error.\<close>

lemma resolver_outcome:
  assumes "ne_getaddrinfo E (if host \<noteq> [] then Some host else None) (if service \<noteq> [] then Some service else None)
      (query_hints 0) w = (error, errno, ais, w1)"
    and "\<forall>ai\<in>set ais. ai_addrlen ai \<le> endpoint_capacity"
  shows "\<exists>r. resolver_resolve E host service w = (r, w1) \<and>
    (if ec_failed (translate_addrinfo_error error errno)
     then r = Inl (System_failure (translate_addrinfo_error error errno) ''resolve'')
     else \<exists>entries. r = Inr entries \<and> map re_endpoint entries = ip_endpoints ais)"
proof -
  have "\<exists>entries. results_create ais host service = Inr entries \<and> map re_endpoint entries = ip_endpoints ais"
  proof (cases ais)
    case (Cons ai rest)
    with results_loop_endpoints [OF assms(2), of "case ai_canonname ai of Some name \<Rightarrow> name | None \<Rightarrow> host" service]
    show ?thesis by (simp add: results_create_def)
  qed (simp add: results_create_def ip_endpoints_def)
  with assms(1) show ?thesis
    by (auto simp: resolver_resolve_def service_resolve_def socket_getaddrinfo_def throw_error_def)
qed

lemma resolver_world:
  assumes "ne_getaddrinfo E (if host \<noteq> [] then Some host else None) (if service \<noteq> [] then Some service else None)
      (query_hints 0) w = (error, errno, ais, w1)"
  shows "snd (resolver_resolve E host service w) = w1"
  using assms by (simp add: resolver_resolve_def service_resolve_def socket_getaddrinfo_def)

text \<open>A code of \<open>getaddrinfo\<close> that has no case and leaves no \<open>errno\<close> is taken for success.\<close>

lemma unknown_codes_are_success:
  "error \<notin> {-1, -2, -3, -4, -5, -6, -7, -8, -9, -10} \<Longrightarrow> \<not> ec_failed (translate_addrinfo_error error 0)"
  by (simp add: translate_addrinfo_error_def)

end
