(* ===== verification/Oef_Log_Digits.thy ===== *)
theory Oef_Log_Digits
  imports Oef_Prelude "HOL-Library.Signed_Division"
begin

text \<open>
  Decimal numbers of the log: the digit counters and the integer formatter of the bundled
  \<open>fmt\<close> (\<open>3rd/spdlog/fmt/bundled/format.h\<close>, tables in \<open>format-inl.h\<close>) and the padding
  helpers of \<open>3rd/spdlog/details/fmt_helper.h\<close>. The optimised routines agree with the
  plain division by ten, \<open>decimal\<close>, on every value of their width.
\<close>

section \<open>The reference\<close>

definition digit_char :: "nat \<Rightarrow> char" where
  "digit_char d = char_of (48 + d)"

fun decimal :: "nat \<Rightarrow> string" where
  "decimal n = (if n < 10 then [digit_char n] else decimal (n div 10) @ [digit_char (n mod 10)])"

declare decimal.simps [simp del]

definition decimal_int :: "int \<Rightarrow> string" where
  "decimal_int n = (if n < 0 then CHR ''-'' # decimal (nat (- n)) else decimal (nat n))"

lemma decimal_small [simp]: "n < 10 \<Longrightarrow> decimal n = [digit_char n]"
  by (subst decimal.simps) simp

lemma decimal_ten: "10 \<le> n \<Longrightarrow> decimal n = decimal (n div 10) @ [digit_char (n mod 10)]"
  by (subst decimal.simps) simp

lemma decimal_hundred:
  "100 \<le> n \<Longrightarrow> decimal n =
     decimal (n div 100) @ [digit_char (n mod 100 div 10), digit_char (n mod 100 mod 10)]"
  by (simp add: decimal_ten div_mult2_eq [of n 10 10, symmetric] mod_mod_cancel
    mod_mult2_eq [of n 10 10, simplified])

lemma decimal_length: "10 ^ d \<le> n \<Longrightarrow> n < 10 ^ Suc d \<Longrightarrow> length (decimal n) = Suc d"
proof (induction d arbitrary: n)
  case (Suc d)
  then have "10 ^ d \<le> n div 10" "n div 10 < 10 ^ Suc d" "10 \<le> n"
    by (simp_all add: less_eq_div_iff_mult_less_eq div_less_iff_less_mult mult.commute)
      (metis Suc.prems(1) le_trans one_le_numeral one_le_power mult_le_mono2 power_Suc mult.right_neutral)
  with Suc.IH [of "n div 10"] show ?case by (simp add: decimal_ten)
qed simp

section \<open>Counting digits\<close>

text \<open>\<open>__builtin_clzll(n)\<close> is 64 minus the number of bits of \<open>n\<close>, for \<open>n > 0\<close>.\<close>

fun bit_length :: "nat \<Rightarrow> nat" where
  "bit_length n = (if n = 0 then 0 else Suc (bit_length (n div 2)))"

declare bit_length.simps [simp del]

definition clz :: "nat \<Rightarrow> nat \<Rightarrow> nat" where
  "clz w n = w - bit_length n"

definition zero_or_powers_of_10_64 :: "nat list" where
  "zero_or_powers_of_10_64 = [0,
     10, 100, 1000, 10000, 100000, 1000000, 10000000, 100000000, 1000000000,
     10000000000, 100000000000, 1000000000000, 10000000000000, 100000000000000,
     1000000000000000, 10000000000000000, 100000000000000000, 1000000000000000000,
     10000000000000000000]"

definition zero_or_powers_of_10_32 :: "nat list" where
  "zero_or_powers_of_10_32 = [0,
     10, 100, 1000, 10000, 100000, 1000000, 10000000, 100000000, 1000000000]"

definition count_digits_64 :: "nat \<Rightarrow> nat" where
  "count_digits_64 n =
     (let t = (64 - clz 64 (or n 1)) * 1233 div 2 ^ 12
      in t - (if n < zero_or_powers_of_10_64 ! t then 1 else 0) + 1)"

definition count_digits_32 :: "nat \<Rightarrow> nat" where
  "count_digits_32 n =
     (let t = (32 - clz 32 (or n 1)) * 1233 div 2 ^ 12
      in t - (if n < zero_or_powers_of_10_32 ! t then 1 else 0) + 1)"

text \<open>The version without the builtin, four digits at a time.\<close>

function count_digits_fallback :: "nat \<Rightarrow> nat \<Rightarrow> nat" where
  "count_digits_fallback acc n =
     (if n < 10 then acc else if n < 100 then acc + 1 else if n < 1000 then acc + 2
      else if n < 10000 then acc + 3 else count_digits_fallback (acc + 4) (n div 10000))"
  by pat_completeness auto
termination by (relation "measure snd") auto

declare count_digits_fallback.simps [simp del]

lemma or_one: "or n (1 :: nat) = (if even n then Suc n else n)"
  by (simp only: or_one_eq) simp

lemma bit_length_bounds: "0 < n \<Longrightarrow> 2 ^ (bit_length n - 1) \<le> n \<and> n < 2 ^ bit_length n \<and> 0 < bit_length n"
proof (induction n rule: bit_length.induct)
  case (1 n)
  show ?case
  proof (cases "n div 2 = 0")
    case True
    with 1 have "n = 1" by simp
    then show ?thesis by (simp add: bit_length.simps [of "Suc 0"] bit_length.simps [of 0])
  next
    case False
    then have "2 ^ (bit_length (n div 2) - 1) \<le> n div 2 \<and> n div 2 < 2 ^ bit_length (n div 2)
        \<and> 0 < bit_length (n div 2)"
      using 1 by simp
    moreover have "bit_length n = Suc (bit_length (n div 2))"
      using 1 by (subst bit_length.simps) simp
    moreover from calculation obtain k where "bit_length (n div 2) = Suc k"
      by (metis gr0_implies_Suc)
    ultimately show ?thesis by auto
  qed
qed

text \<open>The estimate of the logarithm by 1233 / 4096, for every number of bits.\<close>

definition digits_estimate :: "nat \<Rightarrow> nat" where
  "digits_estimate k = k * 1233 div 4096"

lemma estimate_64:
  "list_all (\<lambda>k. let t = digits_estimate k in
     zero_or_powers_of_10_64 ! t = (if t = 0 then 0 else 10 ^ t) \<and>
     (t = 0 \<or> 10 ^ (t - 1) < (2 :: nat) ^ (k - 1)) \<and> (2 :: nat) ^ k \<le> 10 ^ (t + 1)) [1..<65]"
  by (simp add: digits_estimate_def zero_or_powers_of_10_64_def upt_rec)

lemma estimate_32:
  "list_all (\<lambda>k. let t = digits_estimate k in
     zero_or_powers_of_10_32 ! t = (if t = 0 then 0 else 10 ^ t) \<and>
     (t = 0 \<or> 10 ^ (t - 1) < (2 :: nat) ^ (k - 1)) \<and> (2 :: nat) ^ k \<le> 10 ^ (t + 1)) [1..<33]"
  by (simp add: digits_estimate_def zero_or_powers_of_10_32_def upt_rec)

lemma decimal_length_estimate:
  assumes "t = 0 \<or> 10 ^ (t - 1) < (2 :: nat) ^ (k - 1)" "(2 :: nat) ^ k \<le> 10 ^ (t + 1)"
    and "2 ^ (k - 1) \<le> or n 1" "or n 1 < 2 ^ k"
  shows "length (decimal n) = t - (if n < (if t = 0 then 0 else 10 ^ t) then 1 else 0) + 1"
proof -
  have n: "n < 10 ^ Suc t" "2 ^ (k - 1) \<le> Suc n"
    using assms(2-4) unfolding or_one by (auto split: if_splits)
  show ?thesis
  proof (cases t)
    case 0
    with n show ?thesis by simp
  next
    case (Suc d)
    with assms(1) n have "10 ^ d \<le> n" by simp
    with Suc n show ?thesis
      using decimal_length [of d n] decimal_length [of t n] by (cases "n < 10 ^ t") simp_all
  qed
qed

lemma bit_length_upper: "n < 2 ^ w \<Longrightarrow> bit_length n \<le> w"
proof (rule ccontr)
  assume n: "n < 2 ^ w" "\<not> bit_length n \<le> w"
  then have "n \<noteq> 0" by (cases n) (auto simp: bit_length.simps [of 0])
  then have "2 ^ (bit_length n - 1) \<le> n" using bit_length_bounds by simp
  moreover have "(2 :: nat) ^ w \<le> 2 ^ (bit_length n - 1)"
    by (rule power_increasing) (use n in simp_all)
  ultimately show False using n by linarith
qed

lemma or_one_bits:
  assumes "n < 2 ^ w" "0 < w"
  shows "1 \<le> bit_length (or n 1)" "bit_length (or n 1) \<le> w"
    "2 ^ (bit_length (or n 1) - 1) \<le> or n 1" "or n 1 < 2 ^ bit_length (or n 1)"
proof -
  have even: "even ((2 :: nat) ^ w)" using assms(2) by simp
  have m: "0 < or n 1" unfolding or_one by (auto intro: odd_pos)
  have "or n 1 < 2 ^ w"
    using assms(1) even unfolding or_one by (metis Suc_lessI even_Suc)
  with m show "1 \<le> bit_length (or n 1)" "bit_length (or n 1) \<le> w"
    "2 ^ (bit_length (or n 1) - 1) \<le> or n 1" "or n 1 < 2 ^ bit_length (or n 1)"
    using bit_length_bounds [OF m] bit_length_upper by auto
qed

lemma count_digits_64_eq:
  assumes "n < 2 ^ 64"
  shows "count_digits_64 n = length (decimal n)"
proof -
  let ?k = "bit_length (or n 1)"
  note k = or_one_bits [OF assms, simplified]
  have "?k \<in> set [1..<65]" using k by simp
  from bspec [OF estimate_64 [unfolded list_all_iff] this] show ?thesis
    using k decimal_length_estimate [of "digits_estimate ?k" ?k n]
    by (simp add: count_digits_64_def clz_def digits_estimate_def Let_def)
qed

lemma count_digits_32_eq:
  assumes "n < 2 ^ 32"
  shows "count_digits_32 n = length (decimal n)"
proof -
  let ?k = "bit_length (or n 1)"
  note k = or_one_bits [OF assms, simplified]
  have "?k \<in> set [1..<33]" using k by simp
  from bspec [OF estimate_32 [unfolded list_all_iff] this] show ?thesis
    using k decimal_length_estimate [of "digits_estimate ?k" ?k n]
    by (simp add: count_digits_32_def clz_def digits_estimate_def Let_def)
qed

lemma count_digits_fallback_eq: "count_digits_fallback (Suc acc) n = acc + length (decimal n)"
proof (induction acc n rule: count_digits_fallback.induct)
  case (1 acc n)
  have four: "length (decimal n) = length (decimal (n div 10000)) + 4" if "10000 \<le> n"
    using that by (simp add: decimal_ten div_mult2_eq [symmetric])
  show ?case
    using 1 four
    by (subst count_digits_fallback.simps) (simp add: decimal_ten div_mult2_eq [symmetric])
qed

section \<open>Integers to text\<close>

definition digits_table :: string where
  "digits_table =
    ''0001020304050607080910111213141516171819'' @
    ''2021222324252627282930313233343536373839'' @
    ''4041424344454647484950515253545556575859'' @
    ''6061626364656667686970717273747576777879'' @
    ''8081828384858687888990919293949596979899''"

text \<open>\<open>format_int\<close> fills its buffer from the end; \<open>out\<close> is what stands from \<open>ptr\<close> on.\<close>

function format_decimal :: "nat \<Rightarrow> string \<Rightarrow> string" where
  "format_decimal v out =
     (if 100 \<le> v then
        (let i = v mod 100 * 2
         in format_decimal (v div 100) (digits_table ! i # digits_table ! (i + 1) # out))
      else if v < 10 then char_of (48 + v) # out
      else let i = v * 2 in digits_table ! i # digits_table ! (i + 1) # out)"
  by pat_completeness auto
termination by (relation "measure fst") auto

declare format_decimal.simps [simp del]

definition format_int_buffer_size :: nat where
  "format_int_buffer_size = 19 + 3"

definition format_signed :: "64 word \<Rightarrow> string" where
  "format_signed v =
     (let negative = v <s 0; a = if negative then 0 - v else v; s = format_decimal (unat a) []
      in if negative then CHR ''-'' # s else s)"

lemma digits_table_pair:
  assumes "d < 100"
  shows "digits_table ! (d * 2) = digit_char (d div 10)"
    and "digits_table ! Suc (d * 2) = digit_char (d mod 10)"
proof -
  have "list_all (\<lambda>d. digits_table ! (d * 2) = digit_char (d div 10) \<and>
      digits_table ! Suc (d * 2) = digit_char (d mod 10)) [0..<100]"
    by (simp add: digits_table_def digit_char_def upt_rec char_of_def bit_simps)
  with assms show "digits_table ! (d * 2) = digit_char (d div 10)"
    and "digits_table ! Suc (d * 2) = digit_char (d mod 10)"
    by (simp_all add: list_all_iff)
qed

lemma format_decimal_eq: "format_decimal v out = decimal v @ out"
proof (induction v out rule: format_decimal.induct)
  case (1 v out)
  have two: "decimal v = [digit_char (v div 10), digit_char (v mod 10)]" if "10 \<le> v" "v < 100"
    using that by (simp add: decimal_ten)
  show ?case
    using 1 digits_table_pair [of "v mod 100"] digits_table_pair [of v] two
    by (subst format_decimal.simps)
      (auto simp: Let_def decimal_hundred digit_char_def)
qed

lemma format_signed_eq: "format_signed v = decimal_int (sint v)"
proof -
  have v: "uint v = sint v mod 2 ^ 64"
    by (simp add: uint_sint take_bit_eq_mod)
  have bounds: "- (2 ^ 63) \<le> sint v" "sint v < 2 ^ 63"
    using sint_ge [of v] sint_less [of v] by simp_all
  have "uint (- v) = (- sint v) mod 2 ^ 64"
    by (simp add: uint_word_ariths v mod_minus_eq)
  then have "unat (0 - v) = nat (- sint v)" if "sint v < 0"
    using that bounds by (simp add: unat_eq_nat_uint)
  moreover have "unat v = nat (sint v)" if "0 \<le> sint v"
    using that bounds v by (simp add: unat_eq_nat_uint)
  ultimately show ?thesis
    by (auto simp: format_signed_def decimal_int_def format_decimal_eq word_sless_alt Let_def)
qed

lemma decimal_length_le: "n < 10 ^ Suc d \<Longrightarrow> length (decimal n) \<le> Suc d"
proof (induction d arbitrary: n)
  case (Suc d)
  then show ?case
    by (cases "n < 10") (simp_all add: decimal_ten div_less_iff_less_mult mult.commute)
qed simp

lemma decimal_length_pos: "0 < length (decimal n)"
  by (cases "n < 10") (simp_all add: decimal_ten)

lemma decimal_word_length: "length (decimal (unat (v :: 64 word))) \<le> 20"
  using decimal_length_le [of "unat v" 19] unsigned_less [of v, where ?'a = nat] by simp

lemma format_signed_fits: "length (format_signed v) < format_int_buffer_size"
  using decimal_word_length [of "0 - v"] decimal_word_length [of v]
  by (auto simp: format_signed_def format_decimal_eq format_int_buffer_size_def Let_def)

section \<open>The padding helpers\<close>

text \<open>\<open>dest\<close> is the text buffer a helper appends to. \<open>append_int\<close> is the instance at
  signed types, \<open>append_uint\<close> the one at unsigned types.\<close>

definition append_int :: "int \<Rightarrow> string \<Rightarrow> string" where
  "append_int n dest = dest @ format_signed (word_of_int n)"

definition append_uint :: "nat \<Rightarrow> string \<Rightarrow> string" where
  "append_uint n dest = dest @ format_decimal n []"

definition pad2 :: "int \<Rightarrow> string \<Rightarrow> string" where
  "pad2 n dest =
     (if n > 99 then append_int n dest
      else if n > 9 then
        dest @ [char_of (48 + nat (n div 10)), char_of (48 + nat (n mod 10))]
      else if n \<ge> 0 then dest @ [CHR ''0'', char_of (48 + nat n)]
      else dest @ decimal_int n)"

text \<open>The digit counter is chosen by the size of the type: 32 bits or more.\<close>

definition count_digits :: "nat \<Rightarrow> nat \<Rightarrow> nat" where
  "count_digits bytes n = (if bytes > 4 then count_digits_64 n else count_digits_32 n)"

definition pad_uint :: "nat \<Rightarrow> nat \<Rightarrow> nat \<Rightarrow> string \<Rightarrow> string" where
  "pad_uint bytes n width dest =
     (let digits = count_digits bytes n;
          dest = (if width > digits
                  then dest @ take (width - digits) (replicate 19 (CHR ''0'')) else dest)
      in append_uint n dest)"

definition pad3 :: "nat \<Rightarrow> nat \<Rightarrow> string \<Rightarrow> string" where
  "pad3 bytes n dest = pad_uint bytes n 3 dest"

definition pad6 :: "nat \<Rightarrow> nat \<Rightarrow> string \<Rightarrow> string" where
  "pad6 bytes n dest = pad_uint bytes n 6 dest"

definition pad9 :: "nat \<Rightarrow> nat \<Rightarrow> string \<Rightarrow> string" where
  "pad9 bytes n dest = pad_uint bytes n 9 dest"

text \<open>A time point is the signed count of nanoseconds since the epoch, and \<open>duration_cast\<close>
  truncates towards zero; \<open>unit\<close> is the length of the target unit in nanoseconds.\<close>

definition duration_cast :: "int \<Rightarrow> int \<Rightarrow> int" where
  "duration_cast unit d = d sdiv unit"

definition time_fraction :: "int \<Rightarrow> int \<Rightarrow> int" where
  "time_fraction unit tp =
     (let secs = duration_cast 1000000000 tp
      in duration_cast unit tp - secs * (1000000000 sdiv unit))"

text \<open>The reference of the padded numbers: leading zeros up to the width.\<close>

definition zero_padded :: "nat \<Rightarrow> nat \<Rightarrow> string" where
  "zero_padded width n = replicate (width - length (decimal n)) (CHR ''0'') @ decimal n"

lemma append_int_eq:
  assumes "- (2 ^ 63) \<le> n" "n < 2 ^ 63"
  shows "append_int n dest = dest @ decimal_int n"
proof -
  have "sint (word_of_int n :: 64 word) = n"
    using assms by (simp add: signed_of_int signed_take_bit_int_eq_self)
  then show ?thesis by (simp add: append_int_def format_signed_eq)
qed

lemma append_uint_eq [simp]: "append_uint n dest = dest @ decimal n"
  by (simp add: append_uint_def format_decimal_eq)

lemma decimal_two: "n < 100 \<Longrightarrow> 10 \<le> n \<Longrightarrow> decimal n = [digit_char (n div 10), digit_char (n mod 10)]"
  by (simp add: decimal_ten)

lemma pad2_eq:
  assumes "0 \<le> n" "n < 2 ^ 31"
  shows "pad2 n dest = dest @ zero_padded 2 (nat n)"
proof -
  obtain m where m: "n = int m" using assms(1) nonneg_int_cases by blast
  consider "m > 99" | "m \<le> 99" "m > 9" | "m \<le> 9" by linarith
  then show ?thesis
  proof cases
    case 1
    then have "2 \<le> length (decimal m)"
      using decimal_length_pos [of "m div 10"] by (simp add: decimal_ten)
    with 1 assms m show ?thesis
      by (simp add: pad2_def zero_padded_def append_int_eq decimal_int_def)
  next
    case 2
    then have "length (decimal m) = 2" by (simp add: decimal_two)
    with 2 m show ?thesis
      by (simp add: pad2_def zero_padded_def decimal_two digit_char_def nat_div_distrib
        nat_mod_distrib)
  next
    case 3
    with m show ?thesis by (simp add: pad2_def zero_padded_def digit_char_def)
  qed
qed

lemma pad_uint_eq:
  assumes "width \<le> 19" "if bytes > 4 then n < 2 ^ 64 else n < 2 ^ 32"
  shows "pad_uint bytes n width dest = dest @ zero_padded width n"
proof -
  have "count_digits bytes n = length (decimal n)"
    using assms(2) by (auto simp: count_digits_def count_digits_64_eq count_digits_32_eq split: if_splits)
  then show ?thesis
    using assms(1) by (simp add: pad_uint_def zero_padded_def Let_def min_absorb1)
qed

lemma zero_padded_length: "length (zero_padded width n) = max width (length (decimal n))"
  by (simp add: zero_padded_def)

lemma sdiv_nonneg: "0 \<le> a \<Longrightarrow> 0 < b \<Longrightarrow> a sdiv b = a div (b :: int)"
  by (cases "a = 0") (simp_all add: signed_divide_int_def)

lemma time_fraction_bounds:
  assumes "0 \<le> tp" "0 < unit" "unit dvd 1000000000"
  shows "0 \<le> time_fraction unit tp" "time_fraction unit tp < 1000000000 div unit"
    and "time_fraction unit tp = tp mod 1000000000 div unit"
proof -
  from assms(3) obtain k where k: "1000000000 = unit * k" by blast
  have k0: "0 < k" using k assms(2) by (metis zero_less_mult_pos zero_less_numeral)
  have "tp div unit - tp div (unit * k) * k = tp mod (unit * k) div unit"
    using assms(2) k0 by (simp add: div_mult2_eq minus_div_mult_eq_mod zmod_zmult2_eq zdiv_zmult2_eq)
  then show eq: "time_fraction unit tp = tp mod 1000000000 div unit"
    using assms(1,2) k0 by (simp add: time_fraction_def duration_cast_def sdiv_nonneg Let_def k)
  have "tp mod (unit * k) div unit = tp div unit mod k"
    using assms(2) k0 by (simp add: zmod_zmult2_eq)
  then have "tp mod (unit * k) div unit < k" using k0 by simp
  then show "time_fraction unit tp < 1000000000 div unit" "0 \<le> time_fraction unit tp"
    using assms eq k0 by (simp_all add: k pos_imp_zdiv_nonneg_iff)
qed

end
