(* ===== verification/Oef_Asio_Connect.thy ===== *)
theory Oef_Asio_Connect
  imports Oef_Asio_Resolve Oef_Log_Digits
begin

text \<open>
  Making and breaking connections: the range connect of \<open>3rd/asio/asio/impl/connect.hpp\<close> with the
  socket object's operations it uses (\<open>basic_socket.hpp\<close>), the constructor of an acceptor
  (\<open>basic_socket_acceptor.hpp\<close>), and the constructors and \<open>disconnect\<close> of \<open>AsioComm\<close>
  (\<open>lib/src/asio_communicator.cpp\<close>), \<open>AsioBasicComm\<close> (\<open>lib/include/asio_basic_communicator.hpp\<close>)
  and \<open>AsioAcceptor\<close> (\<open>lib/include/asio_acceptor.hpp\<close>).

  The result of registering a new descriptor with the reactor is a function of the world.
\<close>

section \<open>The socket object\<close>

definition service_open :: "'w net_env \<Rightarrow> address_family \<Rightarrow> service \<Rightarrow> 'w \<Rightarrow> asio_ec \<times> service \<times> 'w" where
  "service_open E af v w = impl_open (ne_posix E) af SOCK_STREAM (ne_register E w) v w"

definition basic_connect :: "'w net_env \<Rightarrow> endpoint \<Rightarrow> service \<Rightarrow> 'w \<Rightarrow> asio_ec \<times> service \<times> 'w" where
  "basic_connect E peer_endpoint v w =
     (let (ec, v, w) = (if \<not> is_open (rv_impl v) then service_open E (ep_family peer_endpoint) v w
                        else (ec_ok, v, w))
      in if ec_failed ec then (ec, v, w)
         else let (ec, w) = sync_connect (ne_posix E) (im_socket (rv_impl v)) peer_endpoint w
              in (ec, v, w))"

definition basic_shutdown :: "'w net_env \<Rightarrow> nat \<Rightarrow> service \<Rightarrow> 'w \<Rightarrow> system_error option \<times> 'w" where
  "basic_shutdown E how v w =
     (let (_, ec, w) = socket_shutdown (ne_posix E) (im_socket (rv_impl v)) how w
      in (throw_error ec ''shutdown'', w))"

definition shutdown_both :: nat where "shutdown_both = 2"

definition basic_close :: "'w net_env \<Rightarrow> service \<Rightarrow> 'w \<Rightarrow> system_error option \<times> service \<times> 'w" where
  "basic_close E v w =
     (let (ec, v, w) = impl_close (ne_posix E) v w in (throw_error ec ''close'', v, w))"

section \<open>Connecting to one of several endpoints\<close>

text \<open>The loop of \<open>connect\<close> with the default condition, which accepts every endpoint: \<open>None\<close> is
  the end of the range.\<close>

fun connect_loop ::
  "'w net_env \<Rightarrow> endpoint list \<Rightarrow> asio_ec \<Rightarrow> service \<Rightarrow> 'w \<Rightarrow> endpoint option \<times> asio_ec \<times> service \<times> 'w" where
  "connect_loop E [] ec v w = (None, if \<not> ec_failed ec then not_found else ec, v, w)"
| "connect_loop E (ep # eps) ec v w =
     (let (_, v, w) = impl_close (ne_posix E) v w;
          (ec, v, w) = basic_connect E ep v w
      in if \<not> ec_failed ec then (Some ep, ec, v, w) else connect_loop E eps ec v w)"

definition asio_connect ::
  "'w net_env \<Rightarrow> endpoint list \<Rightarrow> service \<Rightarrow> 'w \<Rightarrow> (system_error + endpoint option) \<times> service \<times> 'w" where
  "asio_connect E endpoints v w =
     (let (result, ec, v, w) = connect_loop E endpoints ec_ok v w
      in (case throw_error ec ''connect'' of Some e \<Rightarrow> Inl e | None \<Rightarrow> Inr result, v, w))"

section \<open>The communicators\<close>

definition socket_make :: service where
  "socket_make = \<lparr>rv_impl = impl_construct, rv_registered = []\<rparr>"

text \<open>What both constructors do: resolve, connect, and report a failure under the name \<open>who\<close>
  before throwing it on; the socket is a member and is destroyed then.\<close>

definition comm_open ::
  "'w net_env \<Rightarrow> string \<Rightarrow> string \<Rightarrow> u32 \<Rightarrow> 'w \<Rightarrow> (system_error + service) \<times> string list \<times> 'w" where
  "comm_open E who to_ip_addr to_port w =
     (let (results, w) = resolver_resolve E to_ip_addr (decimal (unat to_port)) w;
          (r, v, w) = (case results of
                         Inl e \<Rightarrow> (Inl e, socket_make, w)
                       | Inr entries \<Rightarrow> asio_connect E (map re_endpoint entries) socket_make w)
      in case r of
           Inr _ \<Rightarrow> (Inr v, [], w)
         | Inl e \<Rightarrow>
             (Inl e, [who @ '': error connecting to '' @ to_ip_addr @ '':'' @ decimal (unat to_port)
                      @ '' : '' @ ne_what E e],
              snd (impl_destroy (ne_posix E) v w)))"

definition asio_comm_open ::
  "'w net_env \<Rightarrow> string \<Rightarrow> u32 \<Rightarrow> 'w \<Rightarrow> (system_error + service) \<times> string list \<times> 'w" where
  "asio_comm_open E = comm_open E ''AsioComm::AsioComm''"

definition basic_comm_open ::
  "'w net_env \<Rightarrow> string \<Rightarrow> u32 \<Rightarrow> 'w \<Rightarrow> (system_error + service) \<times> string list \<times> 'w" where
  "basic_comm_open E = comm_open E ''AsioBasicComm::AsioBasicComm''"

text \<open>\<open>AsioBasicComm::disconnect\<close> throws, \<open>AsioComm::disconnect\<close> reports. A failed shutdown skips
  the close.\<close>

definition basic_comm_disconnect :: "'w net_env \<Rightarrow> service \<Rightarrow> 'w \<Rightarrow> system_error option \<times> service \<times> 'w" where
  "basic_comm_disconnect E v w =
     (case basic_shutdown E shutdown_both v w of
        (Some e, w) \<Rightarrow> (Some e, v, w)
      | (None, w) \<Rightarrow> basic_close E v w)"

definition comm_disconnect :: "'w net_env \<Rightarrow> service \<Rightarrow> 'w \<Rightarrow> string list \<times> service \<times> 'w" where
  "comm_disconnect E v w =
     (let (e, v, w) = basic_comm_disconnect E v w
      in (case e of None \<Rightarrow> [] | Some e \<Rightarrow> [''Exception during disconnect: '' @ ne_what E e], v, w))"

text \<open>\<open>~AsioComm\<close>: \<open>disconnect\<close>, then the destructor of the socket.\<close>

definition comm_destroy :: "'w net_env \<Rightarrow> service \<Rightarrow> 'w \<Rightarrow> string list \<times> 'w" where
  "comm_destroy E v w =
     (let (err, v, w) = comm_disconnect E v w in (err, snd (impl_destroy (ne_posix E) v w)))"

section \<open>The acceptor\<close>

definition any_v4 :: "16 word \<Rightarrow> endpoint" where
  "any_v4 port_num = \<lparr>ep_family = AF_INET, ep_port = port_num, ep_address = [0, 0, 0, 0]\<rparr>"

definition acceptor_set_reuse :: "'w net_env \<Rightarrow> service \<Rightarrow> 'w \<Rightarrow> asio_ec \<times> service \<times> 'w" where
  "acceptor_set_reuse E v w =
     (let (_, ec, st, w) = socket_setsockopt (ne_posix E) (im_socket (rv_impl v)) (im_state (rv_impl v))
                             sol_socket so_reuseaddr 1 4 w
      in (ec, v\<lparr>rv_impl := (rv_impl v)\<lparr>im_state := st\<rparr>\<rparr>, w))"

text \<open>The constructor of \<open>basic_socket_acceptor\<close> on an endpoint, with \<open>reuse_addr\<close>. The second
  component is the state in which it ends or throws.\<close>

definition basic_acceptor_open ::
  "'w net_env \<Rightarrow> endpoint \<Rightarrow> bool \<Rightarrow> 'w \<Rightarrow> system_error option \<times> service \<times> 'w" where
  "basic_acceptor_open E ep reuse_addr w =
     (let (ec, v, w) = service_open E (ep_family ep) socket_make w
      in case throw_error ec ''open'' of
           Some e \<Rightarrow> (Some e, v, w)
         | None \<Rightarrow>
             let (ec, v, w) = (if reuse_addr then acceptor_set_reuse E v w else (ec_ok, v, w))
             in case throw_error ec ''set_option'' of
                  Some e \<Rightarrow> (Some e, v, w)
                | None \<Rightarrow>
                    let (_, ec, w) = socket_bind (ne_posix E) (im_socket (rv_impl v)) ep w
                    in case throw_error ec ''bind'' of
                         Some e \<Rightarrow> (Some e, v, w)
                       | None \<Rightarrow>
                           let (_, ec, w) = socket_listen (ne_posix E) (im_socket (rv_impl v)) (ne_somaxconn E) w
                           in (throw_error ec ''listen'', v, w))"

text \<open>The constructor of \<open>AsioAcceptor\<close>: the port is narrowed to 16 bits, the backlog is converted
  to \<open>int\<close>. When the constructor of the base throws, the base destroys its descriptor; when the
  second \<open>listen\<close> throws, the member is destroyed.\<close>

definition acceptor_open ::
  "'w net_env \<Rightarrow> u32 \<Rightarrow> u32 \<Rightarrow> 'w \<Rightarrow> (system_error + service) \<times> 'w" where
  "acceptor_open E port backlog w =
     (let (e, v, w) = basic_acceptor_open E (any_v4 (ucast port)) True w
      in case e of
           Some e \<Rightarrow> (Inl e, snd (impl_destroy (ne_posix E) v w))
         | None \<Rightarrow>
             let (_, ec, w) = socket_listen (ne_posix E) (im_socket (rv_impl v)) (sint backlog) w
             in case throw_error ec ''listen'' of
                  Some e \<Rightarrow> (Inl e, snd (impl_destroy (ne_posix E) v w))
                | None \<Rightarrow> (Inr v, w))"

end
