(* ===== verification/Oef_Asio_Connect_Facts.thy ===== *)
theory Oef_Asio_Connect_Facts
  imports Oef_Asio_Connect
begin

text \<open>
  Facts about making and breaking connections: no descriptor is leaked on any path, and a
  connection is made to the first endpoint that accepts one.
\<close>

section \<open>Descriptors\<close>

text \<open>A socket object owns its descriptor, besides the descriptors \<open>base\<close> of the others.\<close>

definition owns :: "('w \<Rightarrow> socket_type set) \<Rightarrow> socket_type set \<Rightarrow> service \<Rightarrow> 'w \<Rightarrow> bool" where
  "owns opens base v w \<longleftrightarrow>
     (if is_open (rv_impl v)
      then im_socket (rv_impl v) \<notin> base \<and> opens w = insert (im_socket (rv_impl v)) base
      else opens w = base)"

text \<open>What a system keeps of its open descriptors: \<open>socket\<close> opens a new one or fails with an error
  number, \<open>close\<close> closes, and nothing else changes them.\<close>

locale ledger =
  fixes E :: "'w net_env" and opens :: "'w \<Rightarrow> socket_type set"
  assumes socket_law: "px_socket (ne_posix E) af k w = (s, errno, w') \<Longrightarrow>
      if s = invalid_socket then errno \<noteq> 0 \<and> opens w' = opens w
      else s \<notin> opens w \<and> opens w' = insert s (opens w)"
    and close_law: "px_close (ne_posix E) s w = (r, errno, w') \<Longrightarrow> opens w' = opens w - {s}"
    and linger_law: "px_linger_off (ne_posix E) s w = (r, errno, w') \<Longrightarrow> opens w' = opens w"
    and ioctl_law: "px_ioctl_nbio (ne_posix E) s b w = (r, errno, w') \<Longrightarrow> opens w' = opens w"
    and shutdown_law: "px_shutdown (ne_posix E) s how w = (r, errno, w') \<Longrightarrow> opens w' = opens w"
    and bind_law: "px_bind (ne_posix E) s ep w = (r, errno, w') \<Longrightarrow> opens w' = opens w"
    and option_law: "px_setsockopt (ne_posix E) s lev n val w = (r, errno, w') \<Longrightarrow> opens w' = opens w"
    and connect_law: "px_connect (ne_posix E) s ep w = (r, errno, w') \<Longrightarrow> opens w' = opens w"
    and so_error_law: "px_so_error (ne_posix E) s w = (r, errno, v, w') \<Longrightarrow> opens w' = opens w"
    and listen_law: "px_listen (ne_posix E) s len w = (r, errno, w') \<Longrightarrow> opens w' = opens w"
    and poll_law: "px_poll (ne_posix E) s ev msec w = (r, errno, w') \<Longrightarrow> opens w' = opens w"
    and resolve_law: "ne_getaddrinfo E host serv hints w = (error, errno, ais, w') \<Longrightarrow> opens w' = opens w"
begin

lemma socket_close_ledger:
  "socket_close (ne_posix E) s st destruction w = (r, ec, st', w') \<Longrightarrow>
   opens w' = (if s = invalid_socket then opens w else opens w - {s})"
  by (auto simp: socket_close_def Let_def split: if_splits prod.splits dest!: close_law linger_law ioctl_law)

lemma impl_open_ledger:
  assumes "impl_open (ne_posix E) af k err v w = (ec, v', w')" "owns opens base v w" "\<not> is_open (rv_impl v)"
  shows "owns opens base v' w' \<and> (ec_failed ec \<longleftrightarrow> \<not> is_open (rv_impl v'))"
proof -
  obtain s errno w1 where 1: "px_socket (ne_posix E) af k w = (s, errno, w1)" by (metis prod_cases3)
  have c: "opens w = base" using assms(2,3) by (simp add: owns_def)
  show ?thesis
  proof (cases "s = invalid_socket")
    case True
    then have "errno \<noteq> 0 \<and> opens w1 = opens w" using socket_law [OF 1] by simp
    with assms 1 True c show ?thesis
      by (auto simp: impl_open_def owns_def socket_socket_def error_wrapper_def invalid_socket_def)
  next
    case False
    then have s: "s \<notin> opens w \<and> opens w1 = insert s (opens w)" using socket_law [OF 1] by simp
    obtain r ec2 st w2 where 2: "socket_close (ne_posix E) s 0 True w1 = (r, ec2, st, w2)"
      by (metis prod_cases4)
    from socket_close_ledger [OF 2] assms 1 2 False s c show ?thesis
      by (auto simp: impl_open_def owns_def is_open_def socket_socket_def socket_holder_destroy_def
        split: if_splits)
  qed
qed

lemma impl_close_ledger:
  assumes "impl_close (ne_posix E) v w = (ec, v', w')" "owns opens base v w"
  shows "owns opens base v' w' \<and> \<not> is_open (rv_impl v')"
  using assms
  by (auto simp: impl_close_def owns_def is_open_def impl_construct_def Let_def split: if_splits prod.splits dest!: socket_close_ledger)

lemma impl_destroy_ledger:
  assumes "owns opens base v w"
  shows "opens (snd (impl_destroy (ne_posix E) v w)) = base"
  using assms
  by (auto simp: impl_destroy_def owns_def is_open_def Let_def split: if_splits prod.splits dest!: socket_close_ledger)

lemma sync_connect_ledger: "sync_connect (ne_posix E) s ep w = (ec, w') \<Longrightarrow> opens w' = opens w"
  by (auto simp: sync_connect_def socket_connect_def poll_connect_def socket_so_error_def Let_def
      split: if_splits prod.splits dest!: connect_law so_error_law poll_law)

lemma owns_same: "owns opens base v w \<Longrightarrow> opens w' = opens w \<Longrightarrow> owns opens base v w'"
  by (simp add: owns_def)

lemma basic_connect_ledger:
  assumes "basic_connect E ep v w = (ec, v', w')" "owns opens base v w" "\<not> is_open (rv_impl v)"
  shows "owns opens base v' w' \<and> (\<not> ec_failed ec \<longrightarrow> is_open (rv_impl v'))"
proof -
  obtain ec1 v1 w1 where 1: "impl_open (ne_posix E) (ep_family ep) SOCK_STREAM (ne_register E w) v w = (ec1, v1, w1)"
    by (metis prod_cases3)
  note o = impl_open_ledger [OF 1 assms(2,3)]
  show ?thesis
  proof (cases "ec_failed ec1")
    case True
    with assms(1,3) 1 o show ?thesis by (simp add: basic_connect_def service_open_def)
  next
    case False
    obtain ec2 w2 where 2: "sync_connect (ne_posix E) (im_socket (rv_impl v1)) ep w1 = (ec2, w2)"
      by fastforce
    with assms(1,3) 1 False have "v' = v1" "w' = w2" by (simp_all add: basic_connect_def service_open_def)
    with o False owns_same [OF _ sync_connect_ledger [OF 2]] show ?thesis by simp
  qed
qed

lemma connect_loop_ledger:
  "connect_loop E eps ec v w = (r, ec', v', w') \<Longrightarrow> owns opens base v w \<Longrightarrow>
   owns opens base v' w' \<and> (r \<noteq> None \<longrightarrow> is_open (rv_impl v')) \<and> (r = None \<longleftrightarrow> ec_failed ec')"
proof (induction eps arbitrary: ec v w)
  case (Cons ep eps)
  obtain ec1 v1 w1 where 1: "impl_close (ne_posix E) v w = (ec1, v1, w1)" by (metis prod_cases3)
  obtain ec2 v2 w2 where 2: "basic_connect E ep v1 w1 = (ec2, v2, w2)" by (metis prod_cases3)
  note c = impl_close_ledger [OF 1 Cons.prems(2)]
  then have o: "owns opens base v2 w2 \<and> (\<not> ec_failed ec2 \<longrightarrow> is_open (rv_impl v2))"
    using basic_connect_ledger [OF 2] by blast
  show ?case
  proof (cases "ec_failed ec2")
    case True
    with Cons.prems(1) 1 2 have "connect_loop E eps ec2 v2 w2 = (r, ec', v', w')" by simp
    with Cons.IH o show ?thesis by blast
  next
    case False
    with Cons.prems(1) 1 2 o show ?thesis by auto
  qed
qed auto

lemma asio_connect_ledger:
  assumes "asio_connect E eps v w = (r, v', w')" "owns opens base v w"
  shows "owns opens base v' w' \<and> (\<not> isl r \<longrightarrow> is_open (rv_impl v'))"
proof -
  obtain r1 ec1 v1 w1 where 1: "connect_loop E eps ec_ok v w = (r1, ec1, v1, w1)" by (metis prod_cases4)
  from connect_loop_ledger [OF this assms(2)] assms(1) 1 show ?thesis
    by (auto simp: asio_connect_def throw_error_def split: if_splits)
qed

lemma socket_make_owns: "opens w = base \<Longrightarrow> owns opens base socket_make w"
  by (simp add: owns_def socket_make_def)

lemma comm_open_ledger:
  assumes "comm_open E who ip port w = (r, err, w')"
  shows "(case r of Inl e \<Rightarrow> opens w' = opens w \<and> length err = 1
     | Inr v \<Rightarrow> owns opens (opens w) v w' \<and> is_open (rv_impl v) \<and> err = [])"
proof -
  obtain q w1 where 1: "resolver_resolve E ip (decimal (unat port)) w = (q, w1)" by (metis surj_pair)
  obtain error errno ais w2 where 2: "ne_getaddrinfo E (if ip \<noteq> [] then Some ip else None)
      (if decimal (unat port) \<noteq> [] then Some (decimal (unat port)) else None) (query_hints 0) w =
      (error, errno, ais, w2)" by (metis prod_cases4)
  have "opens w1 = opens w" using resolver_world [OF 2] 1 resolve_law [OF 2] by simp
  note base = socket_make_owns [OF this]
  show ?thesis
  proof (cases q)
    case (Inl e)
    with assms 1 impl_destroy_ledger [OF base] show ?thesis by (auto simp: comm_open_def)
  next
    case (Inr entries)
    obtain r2 v2 w2 where 2: "asio_connect E (map re_endpoint entries) socket_make w1 = (r2, v2, w2)"
      by (metis prod_cases3)
    note o = asio_connect_ledger [OF 2 base]
    with assms 1 2 Inr impl_destroy_ledger [of "opens w" v2 w2] show ?thesis
      by (auto simp: comm_open_def split: sum.splits)
  qed
qed

lemma disconnect_ledger:
  assumes "owns opens base v w" "basic_comm_disconnect E v w = (e, v', w')"
  shows "owns opens base v' w'"
proof -
  obtain n ec w1 where 1: "socket_shutdown (ne_posix E) (im_socket (rv_impl v)) shutdown_both w = (n, ec, w1)"
    by (metis prod_cases3)
  have o: "owns opens base v w1"
    using 1 assms(1) by (auto simp: socket_shutdown_def intro: owns_same split: if_splits prod.splits dest!: shutdown_law)
  obtain ec2 v2 w2 where 2: "impl_close (ne_posix E) v w1 = (ec2, v2, w2)" by (metis prod_cases3)
  from impl_close_ledger [OF 2 o] o assms(2) 1 2 show ?thesis
    by (auto simp: basic_comm_disconnect_def basic_shutdown_def basic_close_def throw_error_def
      split: if_splits)
qed

lemma comm_destroy_ledger: "owns opens base v w \<Longrightarrow> opens (snd (comm_destroy E v w)) = base"
proof -
  assume o: "owns opens base v w"
  obtain e v' w' where 1: "basic_comm_disconnect E v w = (e, v', w')" by (metis prod_cases3)
  from impl_destroy_ledger [OF disconnect_ledger [OF o 1]] show ?thesis
    by (simp add: comm_destroy_def comm_disconnect_def 1)
qed

lemma acceptor_step:
  "owns opens base v w \<Longrightarrow> opens w' = opens w \<Longrightarrow> owns opens base v w' \<and>
   opens (snd (impl_destroy (ne_posix E) v w')) = base"
  using owns_same impl_destroy_ledger by blast

lemma basic_acceptor_open_ledger:
  assumes "basic_acceptor_open E ep reuse w = (e, v, w')"
  shows "owns opens (opens w) v w' \<and> (e = None \<longrightarrow> is_open (rv_impl v))"
proof -
  obtain ec1 v1 w1 where 1: "impl_open (ne_posix E) (ep_family ep) SOCK_STREAM (ne_register E w) socket_make w
      = (ec1, v1, w1)" by (metis prod_cases3)
  have o1: "owns opens (opens w) v1 w1 \<and> (ec_failed ec1 \<longleftrightarrow> \<not> is_open (rv_impl v1))"
    using impl_open_ledger [OF 1 socket_make_owns] by (simp add: socket_make_def)
  show ?thesis
  proof (cases "ec_failed ec1")
    case True
    with assms 1 o1 show ?thesis by (auto simp: basic_acceptor_open_def service_open_def throw_error_def)
  next
    case False
    obtain ec2 v2 w2 where 2:
      "(if reuse then acceptor_set_reuse E v1 w1 else (ec_ok, v1, w1)) = (ec2, v2, w2)"
      by (metis prod_cases3)
    have "opens w2 = opens w1" and v2: "im_socket (rv_impl v2) = im_socket (rv_impl v1)"
      using 2 by (auto simp: acceptor_set_reuse_def socket_setsockopt_def Let_def
        split: if_splits prod.splits dest: option_law)
    with o1 False have o2: "owns opens (opens w) v2 w2" "is_open (rv_impl v2)"
      by (auto simp: owns_def is_open_def)
    obtain r3 ec3 w3 where 3: "socket_bind (ne_posix E) (im_socket (rv_impl v2)) ep w2 = (r3, ec3, w3)"
      by (metis prod_cases3)
    then have o3: "opens w3 = opens w2"
      by (auto simp: socket_bind_def split: if_splits prod.splits dest: bind_law)
    obtain r4 ec4 w4 where 4:
      "socket_listen (ne_posix E) (im_socket (rv_impl v2)) (ne_somaxconn E) w3 = (r4, ec4, w4)"
      by (metis prod_cases3)
    then have o4: "opens w4 = opens w2"
      using o3 by (auto simp: socket_listen_def split: if_splits prod.splits dest: listen_law)
    show ?thesis
      using assms 1 2 3 4 False o2 owns_same [OF o2(1) o3] owns_same [OF o2(1) o4]
      by (auto simp: basic_acceptor_open_def service_open_def throw_error_def split: if_splits)
  qed
qed

lemma acceptor_open_ledger:
  assumes "acceptor_open E port backlog w = (r, w')"
  shows "case r of Inl e \<Rightarrow> opens w' = opens w | Inr v \<Rightarrow> owns opens (opens w) v w' \<and> is_open (rv_impl v)"
proof -
  obtain e1 v1 w1 where 1: "basic_acceptor_open E (any_v4 (ucast port)) True w = (e1, v1, w1)"
    by (metis prod_cases3)
  note o = basic_acceptor_open_ledger [OF 1]
  obtain n ec2 w2 where 2: "socket_listen (ne_posix E) (im_socket (rv_impl v1)) (sint backlog) w1 = (n, ec2, w2)"
    by (metis prod_cases3)
  then have "opens w2 = opens w1"
    by (auto simp: socket_listen_def split: if_splits prod.splits dest: listen_law)
  with assms 1 2 o impl_destroy_ledger [of "opens w" v1] owns_same [of "opens w" v1 w1 w2] show ?thesis
    by (auto simp: acceptor_open_def throw_error_def split: option.splits if_splits)
qed

end

section \<open>The first endpoint that accepts\<close>

text \<open>A network in which an attempt to connect to an endpoint has the outcome \<open>answers\<close>.\<close>

definition network_answers :: "'w net_env \<Rightarrow> (endpoint \<Rightarrow> asio_ec) \<Rightarrow> bool" where
  "network_answers E answers \<longleftrightarrow>
     (\<forall>s ep w. s \<noteq> invalid_socket \<longrightarrow> fst (sync_connect (ne_posix E) s ep w) = answers ep) \<and>
     (\<forall>af k w. 0 \<le> fst (px_socket (ne_posix E) af k w)) \<and> (\<forall>w. ne_register E w = 0)"

lemma basic_connect_answers:
  assumes "network_answers E answers" "basic_connect E ep v w = (ec, v', w')" "\<not> is_open (rv_impl v)"
  shows "ec = answers ep"
proof -
  obtain s errno w1 where 1: "px_socket (ne_posix E) (ep_family ep) SOCK_STREAM w = (s, errno, w1)"
    by (metis prod_cases3)
  have "0 \<le> fst (px_socket (ne_posix E) (ep_family ep) SOCK_STREAM w)" "ne_register E w = 0"
    using assms(1) by (simp_all add: network_answers_def)
  then have s: "s \<noteq> invalid_socket" "ne_register E w = 0" "0 \<le> s"
    using 1 by (simp_all add: invalid_socket_def)
  obtain ec2 w2 where 2: "sync_connect (ne_posix E) s ep w1 = (ec2, w2)" by fastforce
  have "fst (sync_connect (ne_posix E) s ep w1) = answers ep"
    using assms(1) s(1) by (simp add: network_answers_def)
  with assms(2,3) 1 2 s show ?thesis
    by (simp add: basic_connect_def service_open_def impl_open_def socket_socket_def)
qed

lemma connect_loop_answers:
  assumes "network_answers E answers"
  shows "fst (connect_loop E eps ec v w) = find (\<lambda>ep. \<not> ec_failed (answers ep)) eps \<and>
    (find (\<lambda>ep. \<not> ec_failed (answers ep)) eps = None \<longrightarrow>
       fst (snd (connect_loop E eps ec v w)) =
         (if eps = [] then if ec_failed ec then ec else not_found else answers (last eps)))"
proof (induction eps arbitrary: ec v w)
  case (Cons ep eps)
  obtain ec1 v1 w1 where 1: "impl_close (ne_posix E) v w = (ec1, v1, w1)" by (metis prod_cases3)
  obtain ec2 v2 w2 where 2: "basic_connect E ep v1 w1 = (ec2, v2, w2)" by (metis prod_cases3)
  have "\<not> is_open (rv_impl v1)"
    using 1 by (auto simp: impl_close_def Let_def split: if_splits prod.splits)
  from basic_connect_answers [OF assms 2 this] Cons.IH [of ec2 v2 w2] 1 2 show ?case by simp
qed simp

lemma connect_loop_failed: "connect_loop E eps ec v w = (r, ec', v', w') \<Longrightarrow> r = None \<longleftrightarrow> ec_failed ec'"
  by (induction eps arbitrary: ec v w) (auto split: prod.splits if_splits)

section \<open>A system of descriptors\<close>

text \<open>The next descriptor and the open ones; a connection to port 1 is refused, names resolve to
  the same address on ports 1 and 80.\<close>

type_synonym fd_world = "nat \<times> socket_type set"

definition fd_opens :: "fd_world \<Rightarrow> socket_type set" where
  "fd_opens w = {s \<in> snd w. s < int (fst w)}"

definition fd_posix :: "fd_world posix" where
  "fd_posix = \<lparr>
     px_socket = (\<lambda>af k (n, fds). (int n, 0, (Suc n, insert (int n) fds))),
     px_accept = (\<lambda>s w. (-1, 11, w)), px_close = (\<lambda>s (n, fds). (0, 0, (n, fds - {s}))),
     px_linger_off = (\<lambda>s w. (0, 0, w)), px_ioctl_nbio = (\<lambda>s v w. (0, 0, w)),
     px_fionread = (\<lambda>s w. (0, 0, 0, w)), px_shutdown = (\<lambda>s how w. (0, 0, w)),
     px_bind = (\<lambda>s ep w. (0, 0, w)), px_setsockopt = (\<lambda>s level optname v w. (0, 0, w)),
     px_connect = (\<lambda>s ep w. if ep_port ep = 1 then (-1, 111, w) else (0, 0, w)),
     px_so_error = (\<lambda>s w. (0, 0, 0, w)), px_listen = (\<lambda>s n w. (0, 0, w)),
     px_recvmsg = (\<lambda>s room w. (0, 0, [], w)),
     px_sendmsg = (\<lambda>s bufs w. (int (length (concat bufs)), 0, w)),
     px_poll = (\<lambda>s ev msec w. (1, 0, w))\<rparr>"

definition local_endpoint :: "16 word \<Rightarrow> endpoint" where
  "local_endpoint p = \<lparr>ep_family = AF_INET, ep_port = p, ep_address = [127, 0, 0, 1]\<rparr>"

definition local_info :: "16 word \<Rightarrow> addrinfo" where
  "local_info p = \<lparr>ai_family = 2, ai_addrlen = 16, ai_addr = local_endpoint p, ai_canonname = None\<rparr>"

lemmas resolve_defs = resolver_resolve_def service_resolve_def socket_getaddrinfo_def results_create_def
  translate_addrinfo_error_def endpoint_resize_def endpoint_capacity_def local_info_def

definition fd_env :: "fd_world net_env" where
  "fd_env = \<lparr>ne_posix = fd_posix, ne_register = (\<lambda>_. 0),
     ne_getaddrinfo = (\<lambda>host serv hints w. (0, 0, [local_info 1, local_info 80], w)),
     ne_what = (\<lambda>e. case e of System_failure ec location \<Rightarrow> location), ne_somaxconn = 128\<rparr>"

interpretation fds: ledger fd_env fd_opens
  by unfold_locales
    (auto simp: fd_env_def fd_posix_def fd_opens_def invalid_socket_def split: if_splits)

lemma asio_connect_answers:
  assumes "network_answers E answers"
  shows "fst (asio_connect E endpoints v w) =
    (case find (\<lambda>ep. \<not> ec_failed (answers ep)) endpoints of
       Some ep \<Rightarrow> Inr (Some ep)
     | None \<Rightarrow> Inl (System_failure (if endpoints = [] then not_found else answers (last endpoints)) ''connect''))"
proof -
  obtain r ec v' w' where 1: "connect_loop E endpoints ec_ok v w = (r, ec, v', w')" by (metis prod_cases4)
  from connect_loop_answers [OF assms, of endpoints ec_ok v w] 1 have
    "r = find (\<lambda>ep. \<not> ec_failed (answers ep)) endpoints"
    "r = None \<Longrightarrow> ec = (if endpoints = [] then not_found else answers (last endpoints))" by auto
  moreover have "r = None \<longleftrightarrow> ec_failed ec" using connect_loop_failed [OF 1] .
  ultimately show ?thesis
    using 1 by (auto simp: asio_connect_def throw_error_def split: option.splits)
qed

section \<open>Properties\<close>

lemma fd_connect: "asio_comm_open fd_env ''localhost'' 80 (3, {1, 2})
    = (Inr \<lparr>rv_impl = \<lparr>im_socket = 4, im_state = stream_oriented\<rparr>, rv_registered = [4]\<rparr>, [], (5, {1, 2, 4}))"
  by (simp add: asio_comm_open_def comm_open_def resolve_defs fd_env_def asio_connect_def impl_close_def impl_construct_def
    basic_connect_def service_open_def impl_open_def socket_socket_def fd_posix_def is_open_def invalid_socket_def
    local_endpoint_def kind_state_def sync_connect_def socket_connect_def error_wrapper_def throw_error_def
    socket_close_def socket_make_def deregister_def in_progress_def would_block_def try_again_def
    no_buffer_space_def ec_ok_def ec_failed_def ec_value_def Let_def has_def insert_commute insert_Diff_if)

lemma fd_answers: "network_answers fd_env (\<lambda>ep. if ep_port ep = 1 then System_error 111 else ec_ok)"
  by (auto simp: network_answers_def fd_env_def fd_posix_def sync_connect_def socket_connect_def
    error_wrapper_def in_progress_def would_block_def try_again_def no_buffer_space_def ec_ok_def Let_def)

lemma decimal_not_empty [simp]: "decimal n \<noteq> []"
  by (subst decimal.simps) simp

text \<open>
  Connecting to a list of endpoints yields the first one that accepts; and a
  communicator is constructed exactly when the name resolves and one of its IP endpoints
  accepts. Otherwise the exception carries the error of the resolution, or that of the
  last endpoint, or not_found for an empty list.
\<close>

lemma connect_tries_in_order:
  assumes "network_answers E answers"
    and gai: "ne_getaddrinfo E (if host \<noteq> [] then Some host else None) (Some (decimal (unat port))) (query_hints 0) w =
      (error, errno, ais, w1)"
    and fits: "\<forall>ai\<in>set ais. ai_addrlen ai \<le> endpoint_capacity"
  shows "fst (asio_connect E endpoints v w2) =
      (case find (\<lambda>ep. \<not> ec_failed (answers ep)) endpoints of
         Some ep \<Rightarrow> Inr (Some ep)
       | None \<Rightarrow> Inl (System_failure (if endpoints = [] then not_found else answers (last endpoints)) ''connect'')) \<and>
    (case fst (asio_comm_open E host port w) of
       Inr v \<Rightarrow> \<not> ec_failed (translate_addrinfo_error error errno) \<and>
         (\<exists>ep\<in>set (ip_endpoints ais). \<not> ec_failed (answers ep))
     | Inl e \<Rightarrow>
         if ec_failed (translate_addrinfo_error error errno)
         then e = System_failure (translate_addrinfo_error error errno) ''resolve''
         else (\<forall>ep\<in>set (ip_endpoints ais). ec_failed (answers ep)) \<and>
           e = System_failure (if ip_endpoints ais = [] then not_found else answers (last (ip_endpoints ais))) ''connect'')"
proof -
  let ?ec = "translate_addrinfo_error error errno"
  note order = asio_connect_answers [OF assms(1)]
  have g: "ne_getaddrinfo E (if host \<noteq> [] then Some host else None)
      (if decimal (unat port) \<noteq> [] then Some (decimal (unat port)) else None) (query_hints 0) w = (error, errno, ais, w1)"
    using gai by simp
  from resolver_outcome [OF g fits] obtain r where
    r: "resolver_resolve E host (decimal (unat port)) w = (r, w1)"
      "if ec_failed ?ec then r = Inl (System_failure ?ec ''resolve'')
       else \<exists>entries. r = Inr entries \<and> map re_endpoint entries = ip_endpoints ais" by blast
  show ?thesis
  proof (cases "ec_failed ?ec")
    case True
    with r order show ?thesis by (simp add: asio_comm_open_def comm_open_def)
  next
    case False
    then obtain entries where e: "r = Inr entries" "map re_endpoint entries = ip_endpoints ais" using r(2) by auto
    obtain q v' w' where c: "asio_connect E (ip_endpoints ais) socket_make w1 = (q, v', w')" by (metis prod_cases3)
    have q: "q = (case find (\<lambda>ep. \<not> ec_failed (answers ep)) (ip_endpoints ais) of
         Some ep \<Rightarrow> Inr (Some ep)
       | None \<Rightarrow> Inl (System_failure (if ip_endpoints ais = [] then not_found else answers (last (ip_endpoints ais))) ''connect''))"
      using order [of "ip_endpoints ais" socket_make w1] c by simp
    with False r(1) e c order show ?thesis
      by (auto simp: asio_comm_open_def comm_open_def find_None_iff find_Some_iff split: option.splits)
  qed
qed

lemma connect_tries_in_order_witness:
  "fst (asio_connect fd_env [local_endpoint 1, local_endpoint 80, local_endpoint 81] socket_make (3, {}))
     = Inr (Some (local_endpoint 80)) \<and>
   (\<exists>v. fst (asio_comm_open fd_env ''localhost'' 80 (3, {})) = Inr v)"
proof -
  have g: "ne_getaddrinfo fd_env (if ''localhost'' \<noteq> [] then Some ''localhost'' else None) (Some (decimal (unat 80)))
      (query_hints 0) (3, {}) = (0, 0, [local_info 1, local_info 80], (3, {}))" by (simp add: fd_env_def)
  have f: "\<forall>ai\<in>set [local_info 1, local_info 80]. ai_addrlen ai \<le> endpoint_capacity"
    by (simp add: local_info_def endpoint_capacity_def)
  from connect_tries_in_order [OF fd_answers g f,
      of "[local_endpoint 1, local_endpoint 80, local_endpoint 81]" socket_make "(3, {})"]
  show ?thesis
    by (auto simp: local_endpoint_def local_info_def ip_endpoints_def translate_addrinfo_error_def split: sum.splits)
qed

end
