(* ===== verification/Oef_Asio_Op_Queue.thy ===== *)
theory Oef_Asio_Op_Queue
  imports Oef_Prelude
begin

text \<open>
  The intrusive queue of operations (\<open>3rd/asio/asio/detail/op_queue.hpp\<close>): the operations
  carry the links, so the store \<open>next\<close> is explicit; an operation is an address and \<open>None\<close> is
  the null pointer. \<open>oq_holds h q xs\<close> says that the queue \<open>q\<close> in the store \<open>h\<close> is the list
  \<open>xs\<close>; every operation refines the list operation.
\<close>

section \<open>The queue\<close>

type_synonym op_links = "nat \<Rightarrow> nat option"

record op_queue =
  oq_front :: "nat option"
  oq_back :: "nat option"

definition oq_new :: op_queue where
  "oq_new = \<lparr>oq_front = None, oq_back = None\<rparr>"

definition oq_pop :: "op_links \<Rightarrow> op_queue \<Rightarrow> op_links \<times> op_queue" where
  "oq_pop h q =
     (case oq_front q of
        None \<Rightarrow> (h, q)
      | Some tmp \<Rightarrow>
          let front = h tmp;
              back = (if front = None then None else oq_back q)
          in (h(tmp := None), \<lparr>oq_front = front, oq_back = back\<rparr>))"

definition oq_push :: "nat \<Rightarrow> op_links \<Rightarrow> op_queue \<Rightarrow> op_links \<times> op_queue" where
  "oq_push p h q =
     (let h = h(p := None)
      in case oq_back q of
           Some b \<Rightarrow> (h(b := Some p), q\<lparr>oq_back := Some p\<rparr>)
         | None \<Rightarrow> (h, \<lparr>oq_front = Some p, oq_back = Some p\<rparr>))"

text \<open>\<open>push(op_queue& q)\<close>; the result holds the emptied other queue last.\<close>

definition oq_push_queue ::
    "op_queue \<Rightarrow> op_links \<Rightarrow> op_queue \<Rightarrow> op_links \<times> op_queue \<times> op_queue" where
  "oq_push_queue other h q =
     (case oq_front other of
        None \<Rightarrow> (h, q, other)
      | Some other_front \<Rightarrow>
          let (h, front) =
                (case oq_back q of
                   Some b \<Rightarrow> (h(b := Some other_front), oq_front q)
                 | None \<Rightarrow> (h, Some other_front))
          in (h, \<lparr>oq_front = front, oq_back = oq_back other\<rparr>, oq_new))"

definition oq_empty :: "op_queue \<Rightarrow> bool" where
  "oq_empty q \<longleftrightarrow> oq_front q = None"

definition oq_is_enqueued :: "nat \<Rightarrow> op_links \<Rightarrow> op_queue \<Rightarrow> bool" where
  "oq_is_enqueued p h q \<longleftrightarrow> h p \<noteq> None \<or> oq_back q = Some p"

text \<open>The destructor pops and destroys; the result is the order of destruction.\<close>

partial_function (option) oq_destroy :: "op_links \<Rightarrow> op_queue \<Rightarrow> (nat list \<times> op_links \<times> op_queue) option" where
  "oq_destroy h q =
     (case oq_front q of
        None \<Rightarrow> Some ([], h, q)
      | Some p \<Rightarrow>
          Option.bind (oq_destroy (fst (oq_pop h q)) (snd (oq_pop h q)))
            (\<lambda>(ps, h, q). Some (p # ps, h, q)))"

section \<open>The list a queue stands for\<close>

fun links :: "op_links \<Rightarrow> nat list \<Rightarrow> bool" where
  "links h [] \<longleftrightarrow> True"
| "links h [x] \<longleftrightarrow> h x = None"
| "links h (x # y # xs) \<longleftrightarrow> h x = Some y \<and> links h (y # xs)"

definition oq_holds :: "op_links \<Rightarrow> op_queue \<Rightarrow> nat list \<Rightarrow> bool" where
  "oq_holds h q xs \<longleftrightarrow> distinct xs \<and> links h xs \<and>
     (if xs = [] then oq_front q = None \<and> oq_back q = None
      else oq_front q = Some (hd xs) \<and> oq_back q = Some (last xs))"

lemma links_other: "p \<notin> set xs \<Longrightarrow> links (h(p := v)) xs = links h xs"
  by (induction h xs rule: links.induct) auto

lemma links_append:
  "links h xs \<Longrightarrow> links h ys \<Longrightarrow> xs \<noteq> [] \<Longrightarrow> ys \<noteq> [] \<Longrightarrow> distinct (xs @ ys) \<Longrightarrow>
   links (h(last xs := Some (hd ys))) (xs @ ys)"
proof (induction h xs rule: links.induct)
  case (2 h x)
  then have "links (h(x := Some (hd ys))) ys" by (simp add: links_other)
  with 2 show ?case by (cases ys) (simp_all add: fun_upd_same del: fun_upd_apply)
qed auto

lemma links_last: "links h xs \<Longrightarrow> xs \<noteq> [] \<Longrightarrow> h (last xs) = None"
  by (induction h xs rule: links.induct) auto

lemma links_inner: "links h xs \<Longrightarrow> p \<in> set xs \<Longrightarrow> p \<noteq> last xs \<Longrightarrow> h p \<noteq> None"
  by (induction h xs rule: links.induct) auto

lemma links_tl: "links h (x # xs) \<Longrightarrow> links h xs"
  by (cases xs) auto

text \<open>An operation on one queue leaves a queue of other operations as it is.\<close>

lemma oq_holds_other: "oq_holds h q ys \<Longrightarrow> p \<notin> set ys \<Longrightarrow> oq_holds (h(p := v)) q ys"
  by (simp add: oq_holds_def links_other)

lemma oq_new_holds: "oq_holds h oq_new []"
  by (simp add: oq_holds_def oq_new_def)

lemma oq_empty_iff: "oq_holds h q xs \<Longrightarrow> oq_empty q \<longleftrightarrow> xs = []"
  by (auto simp: oq_holds_def oq_empty_def split: if_splits)

lemma oq_push_holds:
  assumes "oq_holds h q xs" "p \<notin> set xs" "oq_push p h q = (h', q')"
  shows "oq_holds h' q' (xs @ [p])"
proof (cases "xs = []")
  case True
  with assms show ?thesis by (auto simp: oq_holds_def oq_push_def Let_def)
next
  case False
  then have "links (h(p := None)) xs" "links (h(p := None)) [p]"
    using assms(1,2) by (simp_all add: oq_holds_def links_other)
  from links_append [OF this False] assms False show ?thesis
    by (auto simp: oq_holds_def oq_push_def Let_def)
qed

lemma oq_push_other:
  assumes "oq_holds h q xs" "oq_push p h q = (h', q')"
    and "oq_holds h r ys" "p \<notin> set ys" "set xs \<inter> set ys = {}"
  shows "oq_holds h' r ys"
proof -
  have "oq_back q = Some b \<Longrightarrow> b \<in> set xs" for b
    using assms(1) by (auto simp: oq_holds_def split: if_splits)
  then have "oq_back q = Some b \<Longrightarrow> b \<notin> set ys" for b using assms(5) by blast
  then show ?thesis
    using assms by (auto simp: oq_push_def Let_def intro!: oq_holds_other split: option.splits)
qed

lemma oq_pop_holds:
  assumes "oq_holds h q xs" "oq_pop h q = (h', q')"
  shows "oq_holds h' q' (tl xs)"
proof (cases xs)
  case (Cons x ys)
  with assms show ?thesis
    by (cases ys) (auto simp: oq_holds_def oq_pop_def links_other Let_def)
qed (use assms in \<open>auto simp: oq_holds_def oq_pop_def\<close>)

lemma oq_pop_unlinks: "oq_holds h q (x # xs) \<Longrightarrow> oq_pop h q = (h', q') \<Longrightarrow> h' x = None"
  by (auto simp: oq_holds_def oq_pop_def Let_def)

lemma oq_pop_other:
  assumes "oq_holds h q xs" "oq_pop h q = (h', q')" "oq_holds h r ys" "set xs \<inter> set ys = {}"
  shows "oq_holds h' r ys"
proof -
  have "oq_front q = Some b \<Longrightarrow> b \<in> set xs" for b
    using assms(1) by (auto simp: oq_holds_def split: if_splits)
  then have "oq_front q = Some b \<Longrightarrow> b \<notin> set ys" for b using assms(4) by blast
  then show ?thesis
    using assms by (auto simp: oq_pop_def Let_def intro!: oq_holds_other split: option.splits)
qed

lemma oq_push_queue_holds:
  assumes "oq_holds h q xs" "oq_holds h other ys" "set xs \<inter> set ys = {}"
    and "oq_push_queue other h q = (h', q', other')"
  shows "oq_holds h' q' (xs @ ys) \<and> oq_holds h' other' []"
proof (cases "ys = []")
  case True
  with assms show ?thesis by (auto simp: oq_holds_def oq_push_queue_def)
next
  case ys: False
  show ?thesis
  proof (cases "xs = []")
    case True
    with assms ys show ?thesis by (auto simp: oq_holds_def oq_push_queue_def oq_new_def)
  next
    case False
    with links_append [of h xs ys] assms ys show ?thesis
      by (auto simp: oq_holds_def oq_push_queue_def oq_new_def Let_def)
  qed
qed

text \<open>The test whether an operation is enqueued is right for operations that are in no other
  queue: those have no link.\<close>

lemma oq_is_enqueued_iff:
  assumes "oq_holds h q xs" "p \<notin> set xs \<Longrightarrow> h p = None"
  shows "oq_is_enqueued p h q \<longleftrightarrow> p \<in> set xs"
proof (cases "p \<in> set xs")
  case True
  with assms(1) links_inner [of h xs p] show ?thesis
    by (cases "p = last xs") (auto simp: oq_is_enqueued_def oq_holds_def split: if_splits)
next
  case False
  with assms show ?thesis
    by (auto simp: oq_is_enqueued_def oq_holds_def split: if_splits)
qed

lemma oq_destroy_order:
  assumes "oq_holds h q xs"
  shows "\<exists>h' q'. oq_destroy h q = Some (xs, h', q') \<and> oq_holds h' q' []"
  using assms
proof (induction xs arbitrary: h q)
  case Nil
  then show ?case by (subst oq_destroy.simps) (auto simp: oq_holds_def)
next
  case (Cons x xs)
  obtain h1 q1 where 1: "oq_pop h q = (h1, q1)" by fastforce
  from oq_pop_holds [OF Cons.prems 1] Cons.IH [of h1 q1] obtain h2 q2 where
    "oq_destroy h1 q1 = Some (xs, h2, q2)" "oq_holds h2 q2 []" by auto
  then show ?case
    using 1 Cons.prems by (subst oq_destroy.simps) (simp add: oq_holds_def)
qed

end
