(* ===== verification/Oef_Asio_Scheduler.thy ===== *)
theory Oef_Asio_Scheduler
  imports Oef_Asio_Op_Queue
begin

unbundle bit_operations_syntax

text \<open>
  The scheduler of \<open>io_context\<close> (\<open>3rd/asio/asio/detail/impl/scheduler.ipp\<close>,
  \<open>detail/scheduler.hpp\<close>) as one thread runs it, which is how the node runs it
  (\<open>CoreServer::run_in_thread\<close>). The queue of operations is a list; \<open>Oef_Asio_Op_Queue\<close> shows
  that the linked queue of the code is one. With one thread nobody waits on the event of the
  scheduler, so waking a thread can only interrupt the reactor, and an empty queue blocks.
  The loop itself, which also runs the reactor, is in \<open>Oef_Asio_Loop\<close>.
\<close>

section \<open>The scheduler\<close>

text \<open>\<open>task_operation_\<close> marks the place of the reactor in the queue.\<close>

datatype 'op sched_item = Task_operation | Operation 'op

record 'op scheduler =
  sd_one_thread :: bool
  sd_task :: bool
  sd_task_interrupted :: bool
  sd_outstanding_work :: int
  sd_op_queue :: "'op sched_item list"
  sd_stopped :: bool
  sd_shutdown :: bool

record 'op thread_info =
  ti_private_work :: int
  ti_private_queue :: "'op list"

text \<open>The concurrency hint (\<open>detail/concurrency_hint.hpp\<close>): a special hint says which facilities
  lock, any other that all do. The hint of a default constructed \<open>io_context\<close> is -1.\<close>

definition locking_scheduler :: "32 word" where "locking_scheduler = 0x1"
definition locking_reactor_io :: "32 word" where "locking_reactor_io = 0x4"

definition hint_is_locking :: "32 word \<Rightarrow> 32 word \<Rightarrow> bool" where
  "hint_is_locking facility hint \<longleftrightarrow> ((hint AND (0xFFFF0000 OR facility)) XOR 0xA5100000) \<noteq> 0"

definition default_hint :: "32 word" where "default_hint = -1"

definition scheduler_make :: "32 word \<Rightarrow> 'op scheduler" where
  "scheduler_make concurrency_hint =
     \<lparr>sd_one_thread = (concurrency_hint = 1 \<or> \<not> hint_is_locking locking_scheduler concurrency_hint
        \<or> \<not> hint_is_locking locking_reactor_io concurrency_hint),
      sd_task = False, sd_task_interrupted = True,
      sd_outstanding_work = 0, sd_op_queue = [], sd_stopped = False, sd_shutdown = False\<rparr>"

definition thread_info_make :: "'op thread_info" where
  "thread_info_make = \<lparr>ti_private_work = 0, ti_private_queue = []\<rparr>"

definition wake_one_thread :: "'op scheduler \<Rightarrow> 'op scheduler" where
  "wake_one_thread sd =
     (if \<not> sd_task_interrupted sd \<and> sd_task sd then sd\<lparr>sd_task_interrupted := True\<rparr> else sd)"

definition stop_all_threads :: "'op scheduler \<Rightarrow> 'op scheduler" where
  "stop_all_threads sd =
     (let sd = sd\<lparr>sd_stopped := True\<rparr>
      in if \<not> sd_task_interrupted sd \<and> sd_task sd then sd\<lparr>sd_task_interrupted := True\<rparr> else sd)"

definition sched_stop :: "'op scheduler \<Rightarrow> 'op scheduler" where
  "sched_stop sd = stop_all_threads sd"

definition sched_restart :: "'op scheduler \<Rightarrow> 'op scheduler" where
  "sched_restart sd = sd\<lparr>sd_stopped := False\<rparr>"

definition sched_push :: "'op sched_item list \<Rightarrow> 'op scheduler \<Rightarrow> 'op scheduler" where
  "sched_push items sd = sd\<lparr>sd_op_queue := sd_op_queue sd @ items\<rparr>"

definition init_task :: "'op scheduler \<Rightarrow> 'op scheduler" where
  "init_task sd =
     (if \<not> sd_shutdown sd \<and> \<not> sd_task sd
      then wake_one_thread (sched_push [Task_operation] (sd\<lparr>sd_task := True\<rparr>)) else sd)"

fun queued :: "'op sched_item list \<Rightarrow> 'op list" where
  "queued [] = []"
| "queued (Task_operation # q) = queued q"
| "queued (Operation p # q) = p # queued q"

text \<open>The result of \<open>shutdown\<close> is the operations it destroys, in order.\<close>

definition sched_shutdown :: "'op scheduler \<Rightarrow> 'op list \<times> 'op scheduler" where
  "sched_shutdown sd =
     (queued (sd_op_queue sd),
      sd\<lparr>sd_shutdown := True, sd_op_queue := [], sd_task := False\<rparr>)"

definition work_started :: "'op scheduler \<Rightarrow> 'op scheduler" where
  "work_started sd = sd\<lparr>sd_outstanding_work := sd_outstanding_work sd + 1\<rparr>"

definition work_finished :: "'op scheduler \<Rightarrow> 'op scheduler" where
  "work_finished sd =
     (let sd = sd\<lparr>sd_outstanding_work := sd_outstanding_work sd - 1\<rparr>
      in if sd_outstanding_work sd = 0 then sched_stop sd else sd)"

text \<open>The calls that depend on whether the caller runs the scheduler: \<open>in_thread\<close> is
  \<open>thread_call_stack::contains(this)\<close>.\<close>

definition compensating_work_started :: "'op thread_info \<Rightarrow> 'op thread_info" where
  "compensating_work_started ti = ti\<lparr>ti_private_work := ti_private_work ti + 1\<rparr>"

definition post_immediate_completion ::
    "'op \<Rightarrow> bool \<Rightarrow> bool \<Rightarrow> 'op scheduler \<times> 'op thread_info \<Rightarrow> 'op scheduler \<times> 'op thread_info" where
  "post_immediate_completion p is_continuation in_thread s =
     (let (sd, ti) = s
      in if (sd_one_thread sd \<or> is_continuation) \<and> in_thread then
           (sd, ti\<lparr>ti_private_work := ti_private_work ti + 1,
                   ti_private_queue := ti_private_queue ti @ [p]\<rparr>)
         else (wake_one_thread (sched_push [Operation p] (work_started sd)), ti))"

definition post_deferred_completion ::
    "'op \<Rightarrow> bool \<Rightarrow> 'op scheduler \<times> 'op thread_info \<Rightarrow> 'op scheduler \<times> 'op thread_info" where
  "post_deferred_completion p in_thread s =
     (let (sd, ti) = s
      in if sd_one_thread sd \<and> in_thread then
           (sd, ti\<lparr>ti_private_queue := ti_private_queue ti @ [p]\<rparr>)
         else (wake_one_thread (sched_push [Operation p] sd), ti))"

definition post_deferred_completions ::
    "'op list \<Rightarrow> bool \<Rightarrow> 'op scheduler \<times> 'op thread_info \<Rightarrow> 'op scheduler \<times> 'op thread_info" where
  "post_deferred_completions ps in_thread s =
     (let (sd, ti) = s
      in if ps = [] then (sd, ti)
         else if sd_one_thread sd \<and> in_thread then
           (sd, ti\<lparr>ti_private_queue := ti_private_queue ti @ ps\<rparr>)
         else (wake_one_thread (sched_push (map Operation ps) sd), ti))"

definition do_dispatch ::
    "'op \<Rightarrow> 'op scheduler \<times> 'op thread_info \<Rightarrow> 'op scheduler \<times> 'op thread_info" where
  "do_dispatch p s =
     (let (sd, ti) = s in (wake_one_thread (sched_push [Operation p] (work_started sd)), ti))"

text \<open>The destructors that end a turn of the loop.\<close>

definition task_cleanup :: "'op scheduler \<times> 'op thread_info \<Rightarrow> 'op scheduler \<times> 'op thread_info" where
  "task_cleanup s =
     (let (sd, ti) = s;
          sd = (if ti_private_work ti > 0
                then sd\<lparr>sd_outstanding_work := sd_outstanding_work sd + ti_private_work ti\<rparr> else sd);
          sd = sd\<lparr>sd_task_interrupted := True\<rparr>;
          sd = sched_push (map Operation (ti_private_queue ti)) sd
      in (sched_push [Task_operation] sd, \<lparr>ti_private_work = 0, ti_private_queue = []\<rparr>))"

definition work_cleanup :: "'op scheduler \<times> 'op thread_info \<Rightarrow> 'op scheduler \<times> 'op thread_info" where
  "work_cleanup s =
     (let (sd, ti) = s;
          sd = (if ti_private_work ti > 1
                then sd\<lparr>sd_outstanding_work := sd_outstanding_work sd + (ti_private_work ti - 1)\<rparr>
                else if ti_private_work ti < 1 then work_finished sd else sd)
      in (sched_push (map Operation (ti_private_queue ti)) sd,
          \<lparr>ti_private_work = 0, ti_private_queue = []\<rparr>))"

end
