(* ===== verification/Oef_Asio_Reactor.thy ===== *)
theory Oef_Asio_Reactor
  imports Oef_Asio_Scheduler Oef_Asio_Socket
begin

text \<open>
  The reactor on Linux (\<open>3rd/asio/asio/detail/impl/epoll_reactor.ipp\<close>, \<open>detail/epoll_reactor.hpp\<close>)
  and the pool its descriptor states live in (\<open>detail/object_pool.hpp\<close>).

  A descriptor state is an address of the pool, \<open>None\<close> the null pointer. An operation of a socket
  is a value of an arbitrary type; performing it is an argument, which maps the world to the
  status and the next world, and the errors the reactor writes into operations are the list
  \<open>er_errors\<close>. The result of \<open>epoll_ctl\<close> is an argument, what \<open>epoll_wait\<close> delivers an input.
  The node has no timers, so the timer queues are empty and left out.
\<close>

section \<open>Descriptor states and their pool\<close>

datatype op_type = Read_op | Write_op | Except_op

definition connect_op :: op_type where "connect_op = Write_op"

type_synonym epoll_mask = "32 word"

definition epollin :: epoll_mask where "epollin = 0x001"
definition epollpri :: epoll_mask where "epollpri = 0x002"
definition epollout :: epoll_mask where "epollout = 0x004"
definition epollerr :: epoll_mask where "epollerr = 0x008"
definition epollhup :: epoll_mask where "epollhup = 0x010"
definition epollet :: epoll_mask where "epollet = 0x80000000"

fun op_flag :: "op_type \<Rightarrow> epoll_mask" where
  "op_flag Read_op = epollin"
| "op_flag Write_op = epollout"
| "op_flag Except_op = epollpri"

record 'u descriptor_state =
  ds_descriptor :: socket_type
  ds_registered_events :: epoll_mask
  ds_queue :: "op_type \<Rightarrow> 'u list"
  ds_try_speculative :: "op_type \<Rightarrow> bool"
  ds_shutdown :: bool
  ds_task_result :: epoll_mask

definition descriptor_state_make :: "'u descriptor_state" where
  "descriptor_state_make =
     \<lparr>ds_descriptor = 0, ds_registered_events = 0, ds_queue = (\<lambda>_. []),
      ds_try_speculative = (\<lambda>_. False), ds_shutdown = False, ds_task_result = 0\<rparr>"

text \<open>The operations of a state in the order of their types.\<close>

definition ds_operations :: "'u descriptor_state \<Rightarrow> 'u list" where
  "ds_operations ds = ds_queue ds Read_op @ ds_queue ds Write_op @ ds_queue ds Except_op"

record 'u reactor =
  er_states :: "'u descriptor_state list"
  er_live :: "nat list"
  er_free :: "nat list"
  er_errors :: "('u \<times> asio_ec) list"
  er_shutdown :: bool

definition reactor_make :: "'u reactor" where
  "reactor_make = \<lparr>er_states = [], er_live = [], er_free = [], er_errors = [], er_shutdown = False\<rparr>"

definition er_update :: "nat \<Rightarrow> ('u descriptor_state \<Rightarrow> 'u descriptor_state) \<Rightarrow> 'u reactor \<Rightarrow> 'u reactor" where
  "er_update i f er = er\<lparr>er_states := (er_states er)[i := f (er_states er ! i)]\<rparr>"

definition er_fail :: "'u list \<Rightarrow> asio_ec \<Rightarrow> 'u reactor \<Rightarrow> 'u reactor" where
  "er_fail ps ec er = er\<lparr>er_errors := er_errors er @ map (\<lambda>p. (p, ec)) ps\<rparr>"

definition allocate_descriptor_state :: "'u reactor \<Rightarrow> nat \<times> 'u reactor" where
  "allocate_descriptor_state er =
     (case er_free er of
        i # rest \<Rightarrow> (i, er\<lparr>er_free := rest, er_live := i # er_live er\<rparr>)
      | [] \<Rightarrow>
          let i = length (er_states er)
          in (i, er\<lparr>er_states := er_states er @ [descriptor_state_make], er_live := i # er_live er\<rparr>))"

definition free_descriptor_state :: "nat \<Rightarrow> 'u reactor \<Rightarrow> 'u reactor" where
  "free_descriptor_state i er = er\<lparr>er_live := remove1 i (er_live er), er_free := i # er_free er\<rparr>"

section \<open>Registration\<close>

definition eperm :: nat where "eperm = 1"

text \<open>\<open>ctl\<close> is what \<open>epoll_ctl\<close> returns and the \<open>errno\<close> it leaves. The state stays allocated when the
  registration fails.\<close>

definition register_descriptor ::
    "socket_type \<Rightarrow> int \<times> nat \<Rightarrow> 'u reactor \<Rightarrow> nat \<times> nat \<times> 'u reactor" where
  "register_descriptor descriptor ctl er =
     (let (i, er) = allocate_descriptor_state er;
          er = er_update i (\<lambda>ds. ds\<lparr>ds_descriptor := descriptor, ds_shutdown := False,
                 ds_try_speculative := (\<lambda>_. True),
                 ds_registered_events := epollin OR epollerr OR epollhup OR epollpri OR epollet\<rparr>) er;
          (result, errno) = ctl
      in if result \<noteq> 0 then
           if errno = eperm then (i, 0, er_update i (\<lambda>ds. ds\<lparr>ds_registered_events := 0\<rparr>) er)
           else (i, errno, er)
         else (i, 0, er))"

definition move_descriptor :: "nat option \<Rightarrow> nat option \<times> nat option" where
  "move_descriptor source = (source, None)"

definition cleanup_descriptor_data :: "nat option \<Rightarrow> 'u reactor \<Rightarrow> nat option \<times> 'u reactor" where
  "cleanup_descriptor_data data er =
     (case data of None \<Rightarrow> (None, er) | Some i \<Rightarrow> (None, free_descriptor_state i er))"

section \<open>Operations\<close>

text \<open>What the queue of the scheduler holds: operations of sockets, and descriptor states, whose
  completion performs the operations of the state.\<close>

datatype 'u reactor_item = User 'u | Descriptor nat

type_synonym 'u sched_thread = "'u reactor_item scheduler \<times> 'u reactor_item thread_info"

definition operation_aborted :: asio_ec where "operation_aborted = System_error 125"
definition operation_not_supported :: asio_ec where "operation_not_supported = System_error 95"

definition queue_op :: "nat \<Rightarrow> op_type \<Rightarrow> 'u \<Rightarrow> 'u reactor \<times> 'u sched_thread \<Rightarrow> 'u reactor \<times> 'u sched_thread" where
  "queue_op i ot p s =
     (let (er, sd, ti) = s
      in (er_update i (\<lambda>ds. ds\<lparr>ds_queue := (ds_queue ds)(ot := ds_queue ds ot @ [p])\<rparr>) er,
          work_started sd, ti))"

definition reactor_start_op ::
    "('u \<Rightarrow> 'w \<Rightarrow> op_status \<times> 'w) \<Rightarrow> op_type \<Rightarrow> nat option \<Rightarrow> 'u \<Rightarrow> bool \<Rightarrow> bool \<Rightarrow> int \<times> nat \<Rightarrow> bool \<Rightarrow>
     'u reactor \<times> 'u sched_thread \<Rightarrow> 'w \<Rightarrow> ('u reactor \<times> 'u sched_thread) \<times> 'w" where
  "reactor_start_op perform ot data p is_continuation allow_speculative ctl in_thread s w =
     (let (er, st) = s;
          post = (\<lambda>er. (er, post_immediate_completion (User p) is_continuation in_thread st))
      in case data of
        None \<Rightarrow> (post (er_fail [p] bad_descriptor er), w)
      | Some i \<Rightarrow>
          let ds = er_states er ! i
          in if ds_shutdown ds then (post er, w)
          else if ds_queue ds ot \<noteq> [] then (queue_op i ot p s, w)
          else if allow_speculative \<and> (ot \<noteq> Read_op \<or> ds_queue ds Except_op = []) then
            let (status, w) = (if ds_try_speculative ds ot then perform p w else (Not_done, w))
            in if status \<noteq> Not_done then
                 (post (if status = Done_and_exhausted \<and> ds_registered_events ds \<noteq> 0
                        then er_update i (\<lambda>ds. ds\<lparr>ds_try_speculative := (ds_try_speculative ds)(ot := False)\<rparr>) er
                        else er), w)
               else if ds_registered_events ds = 0 then (post (er_fail [p] operation_not_supported er), w)
               else if ot = Write_op \<and> ds_registered_events ds AND epollout = 0 then
                 (if fst ctl = 0 then
                    (queue_op i ot p
                      (er_update i (\<lambda>ds. ds\<lparr>ds_registered_events := ds_registered_events ds OR epollout\<rparr>) er, st), w)
                  else (post (er_fail [p] (System_error (snd ctl)) er), w))
               else (queue_op i ot p s, w)
          else if ds_registered_events ds = 0 then (post (er_fail [p] operation_not_supported er), w)
          else if ot = Write_op then
            (queue_op i ot p
              (er_update i (\<lambda>ds. ds\<lparr>ds_registered_events := ds_registered_events ds OR epollout\<rparr>) er, st), w)
          else (queue_op i ot p s, w))"

text \<open>Cancelling takes every operation of the state and posts it with an error.\<close>

definition abort_ops ::
    "nat \<Rightarrow> bool \<Rightarrow> 'u reactor \<times> 'u sched_thread \<Rightarrow> 'u reactor \<times> 'u sched_thread" where
  "abort_ops i in_thread s =
     (let (er, st) = s;
          ops = ds_operations (er_states er ! i)
      in (er_update i (\<lambda>ds. ds\<lparr>ds_queue := (\<lambda>_. [])\<rparr>) (er_fail ops operation_aborted er),
          post_deferred_completions (map User ops) in_thread st))"

definition cancel_ops ::
    "nat option \<Rightarrow> bool \<Rightarrow> 'u reactor \<times> 'u sched_thread \<Rightarrow> 'u reactor \<times> 'u sched_thread" where
  "cancel_ops data in_thread s = (case data of None \<Rightarrow> s | Some i \<Rightarrow> abort_ops i in_thread s)"

text \<open>The result is the pointer the socket is left with.\<close>

definition deregister_descriptor ::
    "nat option \<Rightarrow> bool \<Rightarrow> 'u reactor \<times> 'u sched_thread \<Rightarrow> nat option \<times> 'u reactor \<times> 'u sched_thread" where
  "deregister_descriptor data in_thread s =
     (case data of
        None \<Rightarrow> (None, s)
      | Some i \<Rightarrow>
          if \<not> ds_shutdown (er_states (fst s) ! i) then
            let (er, st) = abort_ops i in_thread s
            in (Some i, er_update i (\<lambda>ds. ds\<lparr>ds_descriptor := invalid_socket, ds_shutdown := True\<rparr>) er, st)
          else (None, s))"

section \<open>Waiting for events\<close>

datatype epoll_ptr = Ptr_interrupter | Ptr_timer | Ptr_state nat

text \<open>The loop over the events: \<open>ops\<close> is the private queue of the thread.\<close>

fun dispatch_events ::
    "(epoll_ptr \<times> epoll_mask) list \<Rightarrow> 'u reactor \<Rightarrow> 'u reactor_item list \<Rightarrow> 'u reactor \<times> 'u reactor_item list" where
  "dispatch_events [] er ops = (er, ops)"
| "dispatch_events ((Ptr_interrupter, evmask) # evs) er ops = dispatch_events evs er ops"
| "dispatch_events ((Ptr_timer, evmask) # evs) er ops = dispatch_events evs er ops"
| "dispatch_events ((Ptr_state i, evmask) # evs) er ops =
     (if Descriptor i \<notin> set ops
      then dispatch_events evs (er_update i (\<lambda>ds. ds\<lparr>ds_task_result := evmask\<rparr>) er) (ops @ [Descriptor i])
      else dispatch_events evs
        (er_update i (\<lambda>ds. ds\<lparr>ds_task_result := ds_task_result ds OR evmask\<rparr>) er) ops)"

definition max_epoll_events :: nat where "max_epoll_events = 128"

definition reactor_run ::
    "(epoll_ptr \<times> epoll_mask) list \<Rightarrow> 'u reactor \<times> 'u reactor_item thread_info \<Rightarrow>
     'u reactor \<times> 'u reactor_item thread_info" where
  "reactor_run events s =
     (let (er, ti) = s; (er, ops) = dispatch_events events er (ti_private_queue ti)
      in (er, ti\<lparr>ti_private_queue := ops\<rparr>))"

section \<open>Performing the operations of a descriptor\<close>

text \<open>The operations of one queue, in order, until one is not done or exhausts the descriptor:
  those completed, those left, and whether it is exhausted.\<close>

fun perform_queue ::
    "('u \<Rightarrow> 'w \<Rightarrow> op_status \<times> 'w) \<Rightarrow> 'u list \<Rightarrow> 'w \<Rightarrow> 'u list \<times> 'u list \<times> bool \<times> 'w" where
  "perform_queue perform [] w = ([], [], False, w)"
| "perform_queue perform (p # ps) w =
     (case perform p w of
        (Not_done, w) \<Rightarrow> ([], p # ps, False, w)
      | (Done, w) \<Rightarrow> let (completed, rest, exhausted, w) = perform_queue perform ps w
                     in (p # completed, rest, exhausted, w)
      | (Done_and_exhausted, w) \<Rightarrow> ([p], ps, True, w))"

definition perform_type ::
    "('u \<Rightarrow> 'w \<Rightarrow> op_status \<times> 'w) \<Rightarrow> epoll_mask \<Rightarrow> op_type \<Rightarrow>
     'u descriptor_state \<times> 'u list \<times> 'w \<Rightarrow> 'u descriptor_state \<times> 'u list \<times> 'w" where
  "perform_type perform events ot s =
     (let (ds, ops, w) = s
      in if events AND (op_flag ot OR epollerr OR epollhup) \<noteq> 0 then
           let (completed, rest, exhausted, w) = perform_queue perform (ds_queue ds ot) w
           in (ds\<lparr>ds_queue := (ds_queue ds)(ot := rest),
                  ds_try_speculative := (ds_try_speculative ds)(ot := \<not> exhausted)\<rparr>, ops @ completed, w)
         else (ds, ops, w))"

definition perform_io ::
    "('u \<Rightarrow> 'w \<Rightarrow> op_status \<times> 'w) \<Rightarrow> epoll_mask \<Rightarrow> 'u descriptor_state \<Rightarrow> 'w \<Rightarrow>
     'u descriptor_state \<times> 'u list \<times> 'w" where
  "perform_io perform events ds w =
     perform_type perform events Read_op
       (perform_type perform events Write_op
         (perform_type perform events Except_op (ds, [], w)))"

text \<open>\<open>perform_io_cleanup_on_block_exit\<close>: the first completed operation is completed by the caller,
  the others are posted; if there is none, the work that the scheduler will take off is put on.\<close>

definition io_cleanup :: "'u list \<Rightarrow> 'u sched_thread \<Rightarrow> 'u option \<times> 'u sched_thread" where
  "io_cleanup ops st =
     (case ops of
        p # rest \<Rightarrow>
          (Some p, if rest \<noteq> [] then post_deferred_completions (map User rest) True st else st)
      | [] \<Rightarrow> let (sd, ti) = st in (None, sd, compensating_work_started ti))"

definition descriptor_complete ::
    "('u \<Rightarrow> 'w \<Rightarrow> op_status \<times> 'w) \<Rightarrow> nat \<Rightarrow> 'u reactor \<times> 'u sched_thread \<Rightarrow> 'w \<Rightarrow>
     'u option \<times> ('u reactor \<times> 'u sched_thread) \<times> 'w" where
  "descriptor_complete perform i s w =
     (let (er, st) = s;
          ds = er_states er ! i;
          (ds, ops, w) = perform_io perform (ds_task_result ds) ds w;
          (first, st) = io_cleanup ops st
      in (first, (er_update i (\<lambda>_. ds) er, st), w))"

section \<open>Shutdown\<close>

text \<open>The operations of all live states, which the scheduler abandons.\<close>

definition reactor_shutdown :: "'u reactor \<Rightarrow> 'u list \<times> 'u reactor" where
  "reactor_shutdown er =
     (concat (map (\<lambda>i. ds_operations (er_states er ! i)) (er_live er)),
      er\<lparr>er_shutdown := True, er_live := [], er_free := rev (er_live er) @ er_free er,
         er_states := map (\<lambda>i. if i \<in> set (er_live er)
           then (er_states er ! i)\<lparr>ds_queue := (\<lambda>_. []), ds_shutdown := True\<rparr>
           else er_states er ! i) [0..<length (er_states er)]\<rparr>)"

end
