(* ===== verification/Oef_Asio_Loop.thy ===== *)
theory Oef_Asio_Loop
  imports Oef_Asio_Reactor
begin

text \<open>
  The event loop: \<open>do_run_one\<close> and \<open>run\<close> of \<open>3rd/asio/asio/detail/impl/scheduler.ipp\<close> with the
  reactor of \<open>Oef_Asio_Reactor\<close> as its task.

  What a handler does to the scheduler and the reactor is a list of calls, and what
  \<open>epoll_wait\<close> delivers a list of events: both are the events of a run. \<open>sr_guards\<close> stands for
  work that was announced without an operation, \<open>sr_done\<close> for the record of the operations whose
  handlers were executed, \<open>sr_world\<close> for what performing an operation changes.
\<close>

section \<open>Calls\<close>

datatype 'u sched_call =
    Call_post 'u bool
  | Call_dispatch 'u
  | Call_register socket_type "int \<times> nat"
  | Call_start op_type "nat option" 'u bool bool "int \<times> nat"
  | Call_cancel "nat option"
  | Call_deregister "nat option"
  | Call_cleanup "nat option"
  | Call_work_started
  | Call_work_finished
  | Call_stop

record ('u, 'w) loop_state =
  sr_sched :: "'u reactor_item scheduler"
  sr_thread :: "'u reactor_item thread_info"
  sr_reactor :: "'u reactor"
  sr_guards :: nat
  sr_done :: "'u list"
  sr_world :: 'w

definition loop_state_make :: "32 word \<Rightarrow> 'w \<Rightarrow> ('u, 'w) loop_state" where
  "loop_state_make concurrency_hint w =
     \<lparr>sr_sched = init_task (scheduler_make concurrency_hint), sr_thread = thread_info_make,
      sr_reactor = reactor_make, sr_guards = 0, sr_done = [], sr_world = w\<rparr>"

definition on_sched :: "('u sched_thread \<Rightarrow> 'u sched_thread) \<Rightarrow> ('u, 'w) loop_state \<Rightarrow> ('u, 'w) loop_state" where
  "on_sched f r =
     (let (sd, ti) = f (sr_sched r, sr_thread r) in r\<lparr>sr_sched := sd, sr_thread := ti\<rparr>)"

definition on_reactor ::
    "('u reactor \<times> 'u sched_thread \<Rightarrow> 'u reactor \<times> 'u sched_thread) \<Rightarrow>
     ('u, 'w) loop_state \<Rightarrow> ('u, 'w) loop_state" where
  "on_reactor f r =
     (let (er, sd, ti) = f (sr_reactor r, sr_sched r, sr_thread r)
      in r\<lparr>sr_reactor := er, sr_sched := sd, sr_thread := ti\<rparr>)"

text \<open>A pointer is null or leads to a live state.\<close>

definition valid_data :: "nat option \<Rightarrow> 'u reactor \<Rightarrow> bool" where
  "valid_data data er \<longleftrightarrow> (case data of None \<Rightarrow> True | Some i \<Rightarrow> i \<in> set (er_live er))"

text \<open>One call, made by a handler (\<open>in_thread\<close>) or outside the loop; \<open>None\<close> if it passes a dangling
  pointer or ends work that was not announced.\<close>

fun make_call ::
    "('u \<Rightarrow> 'w \<Rightarrow> op_status \<times> 'w) \<Rightarrow> bool \<Rightarrow> 'u sched_call \<Rightarrow> ('u, 'w) loop_state \<Rightarrow>
     ('u, 'w) loop_state option" where
  "make_call perform in_thread (Call_post p is_continuation) r =
     Some (on_sched (post_immediate_completion (User p) is_continuation in_thread) r)"
| "make_call perform in_thread (Call_dispatch p) r = Some (on_sched (do_dispatch (User p)) r)"
| "make_call perform in_thread (Call_register descriptor ctl) r =
     (let (_, _, er) = register_descriptor descriptor ctl (sr_reactor r) in Some (r\<lparr>sr_reactor := er\<rparr>))"
| "make_call perform in_thread (Call_start ot data p is_continuation allow_speculative ctl) r =
     (if valid_data data (sr_reactor r) then
        let ((er, sd, ti), w) = reactor_start_op perform ot data p is_continuation allow_speculative ctl in_thread
              (sr_reactor r, sr_sched r, sr_thread r) (sr_world r)
        in Some (r\<lparr>sr_reactor := er, sr_sched := sd, sr_thread := ti, sr_world := w\<rparr>)
      else None)"
| "make_call perform in_thread (Call_cancel data) r =
     (if valid_data data (sr_reactor r) then Some (on_reactor (cancel_ops data in_thread) r) else None)"
| "make_call perform in_thread (Call_deregister data) r =
     (if valid_data data (sr_reactor r)
      then Some (on_reactor (\<lambda>s. snd (deregister_descriptor data in_thread s)) r) else None)"
| "make_call perform in_thread (Call_cleanup data) r =
     (if valid_data data (sr_reactor r)
      then Some (r\<lparr>sr_reactor := snd (cleanup_descriptor_data data (sr_reactor r))\<rparr>) else None)"
| "make_call perform in_thread Call_work_started r =
     Some (r\<lparr>sr_sched := work_started (sr_sched r), sr_guards := sr_guards r + 1\<rparr>)"
| "make_call perform in_thread Call_work_finished r =
     (if sr_guards r = 0 then None
      else Some (r\<lparr>sr_sched := work_finished (sr_sched r), sr_guards := sr_guards r - 1\<rparr>))"
| "make_call perform in_thread Call_stop r = Some (r\<lparr>sr_sched := sched_stop (sr_sched r)\<rparr>)"

fun make_calls ::
    "('u \<Rightarrow> 'w \<Rightarrow> op_status \<times> 'w) \<Rightarrow> bool \<Rightarrow> 'u sched_call list \<Rightarrow> ('u, 'w) loop_state \<Rightarrow>
     ('u, 'w) loop_state option" where
  "make_calls perform in_thread [] r = Some r"
| "make_calls perform in_thread (c # cs) r =
     (case make_call perform in_thread c r of None \<Rightarrow> None | Some r \<Rightarrow> make_calls perform in_thread cs r)"

section \<open>Turns of the loop\<close>

datatype 'u sched_event = Poll "(epoll_ptr \<times> epoll_mask) list" | Handler "'u sched_call list"

fun live_event :: "'u reactor \<Rightarrow> epoll_ptr \<times> epoll_mask \<Rightarrow> bool" where
  "live_event er (Ptr_state i, evmask) \<longleftrightarrow> i \<in> set (er_live er)"
| "live_event er _ \<longleftrightarrow> True"

text \<open>The turn that runs the reactor, and the one that executes an operation: the operation of a
  descriptor performs the operations of the descriptor and completes the first of them, if any.\<close>

definition task_turn ::
    "'u reactor_item sched_item list \<Rightarrow> (epoll_ptr \<times> epoll_mask) list \<Rightarrow> ('u, 'w) loop_state \<Rightarrow>
     ('u, 'w) loop_state" where
  "task_turn rest events r =
     (let more_handlers = (rest \<noteq> []);
          sd = (sr_sched r)\<lparr>sd_op_queue := rest, sd_task_interrupted := more_handlers\<rparr>;
          (er, ti) = reactor_run events (sr_reactor r, sr_thread r)
      in on_sched task_cleanup (r\<lparr>sr_sched := sd, sr_reactor := er, sr_thread := ti\<rparr>))"

definition take_operation ::
    "('u \<Rightarrow> 'w \<Rightarrow> op_status \<times> 'w) \<Rightarrow> 'u reactor_item \<Rightarrow> ('u, 'w) loop_state \<Rightarrow>
     'u option \<times> ('u, 'w) loop_state" where
  "take_operation perform item r =
     (case item of
        User p \<Rightarrow> (Some p, r\<lparr>sr_done := sr_done r @ [p]\<rparr>)
      | Descriptor i \<Rightarrow>
          let (first, (er, sd, ti), w) =
                descriptor_complete perform i (sr_reactor r, sr_sched r, sr_thread r) (sr_world r);
              r = r\<lparr>sr_reactor := er, sr_sched := sd, sr_thread := ti, sr_world := w\<rparr>
          in (first, case first of None \<Rightarrow> r | Some p \<Rightarrow> r\<lparr>sr_done := sr_done r @ [p]\<rparr>))"

definition operation_turn ::
    "('u \<Rightarrow> 'w \<Rightarrow> op_status \<times> 'w) \<Rightarrow> 'u reactor_item sched_item list \<Rightarrow> 'u reactor_item \<Rightarrow>
     'u sched_call list \<Rightarrow> ('u, 'w) loop_state \<Rightarrow> ('u, 'w) loop_state option" where
  "operation_turn perform rest item calls r =
     (let sd = (sr_sched r)\<lparr>sd_op_queue := rest\<rparr>;
          sd = (if rest \<noteq> [] \<and> \<not> sd_one_thread sd then wake_one_thread sd else sd);
          (handler, r) = take_operation perform item (r\<lparr>sr_sched := sd\<rparr>)
      in if handler = None \<and> calls \<noteq> [] then None
         else map_option (on_sched work_cleanup) (make_calls perform True calls r))"

text \<open>\<open>None\<close> when the loop has stopped, blocks, or the event does not fit.\<close>

definition sched_turn ::
    "('u \<Rightarrow> 'w \<Rightarrow> op_status \<times> 'w) \<Rightarrow> 'u sched_event \<Rightarrow> ('u, 'w) loop_state \<Rightarrow> ('u, 'w) loop_state option" where
  "sched_turn perform ev r =
     (if sd_stopped (sr_sched r) then None
      else case sd_op_queue (sr_sched r) of
        [] \<Rightarrow> None
      | Task_operation # rest \<Rightarrow>
          (case ev of
             Handler calls \<Rightarrow> None
           | Poll events \<Rightarrow>
               if length events \<le> max_epoll_events \<and> list_all (live_event (sr_reactor r)) events
               then Some (task_turn rest events r) else None)
      | Operation item # rest \<Rightarrow>
          (case ev of
             Poll events \<Rightarrow> None
           | Handler calls \<Rightarrow> operation_turn perform rest item calls r))"

fun sched_turns ::
    "('u \<Rightarrow> 'w \<Rightarrow> op_status \<times> 'w) \<Rightarrow> 'u sched_event list \<Rightarrow> ('u, 'w) loop_state \<Rightarrow>
     ('u, 'w) loop_state option" where
  "sched_turns perform [] r = Some r"
| "sched_turns perform (ev # evs) r =
     (case sched_turn perform ev r of None \<Rightarrow> None | Some r \<Rightarrow> sched_turns perform evs r)"

fun is_handler :: "'u sched_event \<Rightarrow> bool" where
  "is_handler (Handler calls) \<longleftrightarrow> True"
| "is_handler (Poll events) \<longleftrightarrow> False"

text \<open>\<open>run\<close> stops at once when there is no work. The events are the turns the loop takes; the
  result is the number of operations it executed and the state in which it returns, or \<open>None\<close>
  when it has not returned after these events.\<close>

definition sched_run ::
    "('u \<Rightarrow> 'w \<Rightarrow> op_status \<times> 'w) \<Rightarrow> 'u sched_event list \<Rightarrow> ('u, 'w) loop_state \<Rightarrow>
     (nat \<times> ('u, 'w) loop_state) option" where
  "sched_run perform evs r =
     (if sd_outstanding_work (sr_sched r) = 0
      then if evs = [] then Some (0, r\<lparr>sr_sched := sched_stop (sr_sched r)\<rparr>) else None
      else case sched_turns perform evs (r\<lparr>sr_thread := thread_info_make\<rparr>) of
        None \<Rightarrow> None
      | Some r' \<Rightarrow>
          if sd_stopped (sr_sched r') then Some (length (filter is_handler evs), r') else None)"

text \<open>States after any calls from outside the loop, any turns of it and any restarts; the world may
  change on its own, and an error may be written into an operation before it is started.\<close>

inductive sched_reachable :: "('u \<Rightarrow> 'w \<Rightarrow> op_status \<times> 'w) \<Rightarrow> ('u, 'w) loop_state \<Rightarrow> bool"
  for perform :: "'u \<Rightarrow> 'w \<Rightarrow> op_status \<times> 'w" where
  sched_start: "sched_reachable perform (loop_state_make concurrency_hint w)"
| sched_outside: "sched_reachable perform r \<Longrightarrow> make_call perform False c r = Some r' \<Longrightarrow> sched_reachable perform r'"
| sched_loop: "sched_reachable perform r \<Longrightarrow> sched_turn perform ev r = Some r' \<Longrightarrow> sched_reachable perform r'"
| sched_again: "sched_reachable perform r \<Longrightarrow>
    sched_reachable perform (r\<lparr>sr_sched := sched_restart (sr_sched r)\<rparr>)"
| sched_world: "sched_reachable perform r \<Longrightarrow>
    sched_reachable perform (r\<lparr>sr_reactor := er_fail ps ec (sr_reactor r), sr_world := w\<rparr>)"

end
