(* ===== verification/Oef_Asio_Scheduler_Facts.thy ===== *)
theory Oef_Asio_Scheduler_Facts
  imports Oef_Asio_Scheduler
begin

text \<open>
  Facts about the queue of operations and the scheduler: the linked queue is a FIFO queue, and
  what the operations of the scheduler do to its fields.
\<close>

section \<open>A FIFO queue\<close>

datatype 'a fifo_op = Fifo_push 'a | Fifo_pop

text \<open>A script on a queue given by its operations; the result is what the front was at each
  pop. A push is of an element that is not in the queue.\<close>

fun fifo_run ::
    "('a \<Rightarrow> 's \<Rightarrow> 's) \<Rightarrow> ('s \<Rightarrow> 's) \<Rightarrow> ('s \<Rightarrow> 'a option) \<Rightarrow> 'a fifo_op list \<Rightarrow> 's \<Rightarrow> 'a option list" where
  "fifo_run push pop front [] s = []"
| "fifo_run push pop front (Fifo_push x # ops) s = fifo_run push pop front ops (push x s)"
| "fifo_run push pop front (Fifo_pop # ops) s = front s # fifo_run push pop front ops (pop s)"

definition list_front :: "'a list \<Rightarrow> 'a option" where
  "list_front xs = (case xs of [] \<Rightarrow> None | x # _ \<Rightarrow> Some x)"

fun fifo_script_ok :: "'a fifo_op list \<Rightarrow> 'a list \<Rightarrow> bool" where
  "fifo_script_ok [] xs \<longleftrightarrow> True"
| "fifo_script_ok (Fifo_push x # ops) xs \<longleftrightarrow> x \<notin> set xs \<and> fifo_script_ok ops (xs @ [x])"
| "fifo_script_ok (Fifo_pop # ops) xs \<longleftrightarrow> fifo_script_ok ops (tl xs)"

locale fifo =
  fixes holds :: "'s \<Rightarrow> 'a list \<Rightarrow> bool"
    and push :: "'a \<Rightarrow> 's \<Rightarrow> 's"
    and pop :: "'s \<Rightarrow> 's"
    and front :: "'s \<Rightarrow> 'a option"
  assumes push_law: "holds s xs \<Longrightarrow> x \<notin> set xs \<Longrightarrow> holds (push x s) (xs @ [x])"
    and pop_law: "holds s xs \<Longrightarrow> holds (pop s) (tl xs)"
    and front_law: "holds s xs \<Longrightarrow> front s = list_front xs"
begin

lemma run_refines:
  "holds s xs \<Longrightarrow> fifo_script_ok ops xs \<Longrightarrow>
   fifo_run push pop front ops s = fifo_run (\<lambda>x xs. xs @ [x]) tl list_front ops xs"
proof (induction ops xs arbitrary: s rule: fifo_script_ok.induct)
  case (2 x ops xs)
  then show ?case using push_law by simp
next
  case (3 ops xs)
  then show ?case using pop_law front_law by simp
qed simp

end

interpretation linked: fifo "\<lambda>(h, q) xs. oq_holds h q xs" "\<lambda>p (h, q). oq_push p h q"
    "\<lambda>(h, q). oq_pop h q" "\<lambda>(h, q). oq_front q"
proof (unfold_locales, goal_cases)
  case (1 s xs x)
  then show ?case
    by (cases s; cases "oq_push x (fst s) (snd s)") (auto dest: oq_push_holds)
next
  case (2 s xs)
  then show ?case
    by (cases s; cases "oq_pop (fst s) (snd s)") (auto dest: oq_pop_holds)
next
  case (3 s xs)
  then show ?case
    by (cases s; cases xs) (auto simp: oq_holds_def list_front_def)
qed

section \<open>The scheduler\<close>

lemma queued_append [simp]: "queued (xs @ ys) = queued xs @ queued ys"
  by (induction xs rule: queued.induct) auto

lemma queued_operations [simp]: "queued (map Operation ps) = ps"
  by (induction ps) auto

lemma queued_map_comp [simp]: "queued (map (Operation \<circ> f) ps) = map f ps"
  by (induction ps) auto

lemma sched_queue_simps [simp]:
  "sd_op_queue (wake_one_thread sd) = sd_op_queue sd"
  "sd_outstanding_work (wake_one_thread sd) = sd_outstanding_work sd"
  "sd_stopped (wake_one_thread sd) = sd_stopped sd" "sd_one_thread (wake_one_thread sd) = sd_one_thread sd"
  "sd_op_queue (sched_stop sd) = sd_op_queue sd"
  "sd_outstanding_work (sched_stop sd) = sd_outstanding_work sd" "sd_stopped (sched_stop sd) = True"
  "sd_one_thread (sched_stop sd) = sd_one_thread sd"
  "sd_op_queue (work_finished sd) = sd_op_queue sd"
  "sd_outstanding_work (work_finished sd) = sd_outstanding_work sd - 1"
  "sd_stopped (work_finished sd) = (sd_stopped sd \<or> sd_outstanding_work sd = 1)"
  by (auto simp: wake_one_thread_def sched_stop_def stop_all_threads_def work_finished_def Let_def)

lemma sched_push_simps [simp]:
  "sd_op_queue (sched_push items sd) = sd_op_queue sd @ items"
  "sd_outstanding_work (sched_push items sd) = sd_outstanding_work sd"
  "sd_stopped (sched_push items sd) = sd_stopped sd" "sd_one_thread (sched_push items sd) = sd_one_thread sd"
  "sd_outstanding_work (work_started sd) = sd_outstanding_work sd + 1"
  "sd_op_queue (work_started sd) = sd_op_queue sd" "sd_stopped (work_started sd) = sd_stopped sd"
  by (simp_all add: sched_push_def work_started_def)

lemma default_hint_locks [simp]:
  "hint_is_locking locking_scheduler default_hint" "hint_is_locking locking_reactor_io default_hint"
  "default_hint \<noteq> 1"
  by (simp_all add: hint_is_locking_def default_hint_def locking_scheduler_def locking_reactor_io_def)

section \<open>Properties\<close>

text \<open>
  Every sequence of pushes and pops on the linked queue of operations shows the
  fronts that a list shows.
\<close>

lemma op_queue_is_fifo:
  assumes "oq_holds h q xs" "fifo_script_ok ops xs"
  shows "fifo_run (\<lambda>p (h, q). oq_push p h q) (\<lambda>(h, q). oq_pop h q) (\<lambda>(h, q). oq_front q) ops (h, q) =
    fifo_run (\<lambda>p xs. xs @ [p]) tl list_front ops xs"
  using linked.run_refines [of "(h, q)" xs ops] assms by simp

lemma op_queue_is_fifo_witness:
  "fifo_run (\<lambda>p (h, q). oq_push p h q) (\<lambda>(h, q). oq_pop h q) (\<lambda>(h, q). oq_front q)
      [Fifo_push 7, Fifo_push 3, Fifo_pop, Fifo_push 7, Fifo_pop, Fifo_pop, Fifo_pop] (\<lambda>_. Some 9, oq_new) =
    [Some 7, Some 3, Some 7, None]"
  using op_queue_is_fifo [OF oq_new_holds [of "\<lambda>_. Some 9"],
      of "[Fifo_push 7, Fifo_push 3, Fifo_pop, Fifo_push 7, Fifo_pop, Fifo_pop, Fifo_pop]"]
  by (simp add: list_front_def)

end
