(* ===== verification/Oef_Asio_Reactor_Facts.thy ===== *)
theory Oef_Asio_Reactor_Facts
  imports Oef_Asio_Reactor Oef_Asio_Scheduler_Facts
begin

text \<open>
  Facts about the reactor: the operations of its states as a multiset and what each function
  does to it, the order in which the operations of a descriptor are performed, and what the
  loop over the events of \<open>epoll_wait\<close> puts into the queue.
\<close>

section \<open>The operations the reactor holds\<close>

definition pending :: "'u reactor \<Rightarrow> 'u list" where
  "pending er = concat (map ds_operations (er_states er))"

definition pool_ok :: "'u reactor \<Rightarrow> bool" where
  "pool_ok er \<longleftrightarrow> (\<forall>i\<in>set (er_live er) \<union> set (er_free er). i < length (er_states er))"

lemma ds_operations_update [simp]:
  "ds_operations (ds\<lparr>ds_queue := (ds_queue ds)(ot := q)\<rparr>) =
     (if ot = Read_op then q else ds_queue ds Read_op) @
     (if ot = Write_op then q else ds_queue ds Write_op) @
     (if ot = Except_op then q else ds_queue ds Except_op)"
  "ds_operations (ds\<lparr>ds_queue := (\<lambda>_. [])\<rparr>) = []"
  "ds_operations (ds\<lparr>ds_task_result := m\<rparr>) = ds_operations ds"
  "ds_operations (ds\<lparr>ds_registered_events := m\<rparr>) = ds_operations ds"
  "ds_operations (ds\<lparr>ds_try_speculative := t\<rparr>) = ds_operations ds"
  "ds_operations (ds\<lparr>ds_shutdown := b\<rparr>) = ds_operations ds"
  "ds_operations (ds\<lparr>ds_descriptor := d\<rparr>) = ds_operations ds"
  "ds_operations descriptor_state_make = []"
  by (simp_all add: ds_operations_def descriptor_state_make_def)

lemma er_update_simps [simp]:
  "length (er_states (er_update i f er)) = length (er_states er)"
  "er_live (er_update i f er) = er_live er" "er_free (er_update i f er) = er_free er"
  "i < length (er_states er) \<Longrightarrow> er_states (er_update i f er) ! i = f (er_states er ! i)"
  "er_states (er_fail ps ec er) = er_states er" "er_live (er_fail ps ec er) = er_live er"
  "er_free (er_fail ps ec er) = er_free er"
  by (simp_all add: er_update_def er_fail_def)

lemma pending_fail [simp]: "pending (er_fail ps ec er) = pending er"
  by (simp add: pending_def)

lemma pending_update:
  assumes "i < length (er_states er)"
  shows "mset (pending (er_update i f er)) + mset (ds_operations (er_states er ! i)) =
    mset (pending er) + mset (ds_operations (f (er_states er ! i)))"
proof -
  let ?xs = "er_states er"
  have "?xs = take i ?xs @ ?xs ! i # drop (Suc i) ?xs" using assms by (rule id_take_nth_drop)
  then have "pending er = concat (map ds_operations (take i ?xs @ ?xs ! i # drop (Suc i) ?xs))"
    by (simp add: pending_def)
  moreover have "pending (er_update i f er) =
      concat (map ds_operations (take i ?xs @ f (?xs ! i) # drop (Suc i) ?xs))"
    using assms by (simp add: pending_def er_update_def upd_conv_take_nth_drop)
  ultimately show ?thesis by simp
qed

lemma pending_update_same:
  "i < length (er_states er) \<Longrightarrow> ds_operations (f (er_states er ! i)) = ds_operations (er_states er ! i) \<Longrightarrow>
   mset (pending (er_update i f er)) = mset (pending er)"
  using pending_update [of i er f] by simp

lemma pool_ok_update [simp]: "pool_ok (er_update i f er) = pool_ok er" "pool_ok (er_fail ps ec er) = pool_ok er"
  by (simp_all add: pool_ok_def)

lemma allocate_pool:
  assumes "allocate_descriptor_state er = (i, er')" "pool_ok er"
  shows "pool_ok er' \<and> i < length (er_states er') \<and> pending er' = pending er \<and> i \<in> set (er_live er') \<and>
    length (er_states er) \<le> length (er_states er')"
  using assms
  by (auto simp: allocate_descriptor_state_def pool_ok_def pending_def Let_def split: list.splits)
    (use less_SucI in blast)+

lemma register_pool:
  assumes "register_descriptor d ctl er = (i, n, er')" "pool_ok er"
  shows "pool_ok er' \<and> mset (pending er') = mset (pending er) \<and>
    length (er_states er) \<le> length (er_states er')"
proof -
  obtain j er1 where 1: "allocate_descriptor_state er = (j, er1)" by fastforce
  note a = allocate_pool [OF 1 assms(2)]
  with assms(1) 1 show ?thesis
    by (auto simp: register_descriptor_def Let_def pending_update_same split: prod.splits if_splits)
qed

lemma free_pool:
  "pool_ok er \<Longrightarrow> i < length (er_states er) \<Longrightarrow>
   pool_ok (free_descriptor_state i er) \<and> pending (free_descriptor_state i er) = pending er \<and>
   er_states (free_descriptor_state i er) = er_states er"
  using set_remove1_subset [of i "er_live er"]
  by (auto simp: free_descriptor_state_def pool_ok_def pending_def)

section \<open>Performing in order\<close>

lemma perform_queue_split:
  "perform_queue perform ps w = (completed, rest, exhausted, w') \<Longrightarrow> ps = completed @ rest"
  by (induction ps arbitrary: completed rest exhausted w w')
    (auto simp: Let_def split: prod.splits op_status.splits)

lemma perform_type_split:
  assumes "perform_type perform events ot (ds, ops, w) = (ds', ops', w')"
  shows "\<exists>c. ds_queue ds ot = c @ ds_queue ds' ot \<and> ops' = ops @ c \<and>
    (\<forall>t. t \<noteq> ot \<longrightarrow> ds_queue ds' t = ds_queue ds t)"
  using assms by (auto simp: perform_type_def Let_def split: prod.splits if_splits dest: perform_queue_split)

lemma perform_io_split:
  assumes "perform_io perform events ds w = (ds', ops, w')"
  shows "\<exists>ce cw cr. ops = ce @ cw @ cr \<and> ds_queue ds Except_op = ce @ ds_queue ds' Except_op \<and>
    ds_queue ds Write_op = cw @ ds_queue ds' Write_op \<and> ds_queue ds Read_op = cr @ ds_queue ds' Read_op"
proof -
  obtain ds1 ops1 w1 where 1: "perform_type perform events Except_op (ds, [], w) = (ds1, ops1, w1)"
    by (metis prod_cases3)
  obtain ds2 ops2 w2 where 2: "perform_type perform events Write_op (ds1, ops1, w1) = (ds2, ops2, w2)"
    by (metis prod_cases3)
  have 3: "perform_type perform events Read_op (ds2, ops2, w2) = (ds', ops, w')"
    using assms 1 2 by (simp add: perform_io_def)
  from perform_type_split [OF 1] perform_type_split [OF 2] perform_type_split [OF 3] show ?thesis by auto
qed

lemma perform_io_operations:
  "perform_io perform events ds w = (ds', ops, w') \<Longrightarrow>
   mset (ds_operations ds) = mset ops + mset (ds_operations ds')"
  by (drule perform_io_split) (auto simp: ds_operations_def)

section \<open>Items of the queue\<close>

fun descriptors :: "'u reactor_item list \<Rightarrow> nat list" where
  "descriptors [] = []"
| "descriptors (User p # q) = descriptors q"
| "descriptors (Descriptor i # q) = i # descriptors q"

fun users :: "'u reactor_item list \<Rightarrow> 'u list" where
  "users [] = []"
| "users (User p # q) = p # users q"
| "users (Descriptor i # q) = users q"

lemma items_append [simp]:
  "descriptors (xs @ ys) = descriptors xs @ descriptors ys" "users (xs @ ys) = users xs @ users ys"
  "descriptors (map User ps) = []" "users (map User ps) = ps"
proof -
  show "descriptors (xs @ ys) = descriptors xs @ descriptors ys" "users (xs @ ys) = users xs @ users ys"
    by (induction xs rule: descriptors.induct) simp_all
  show "descriptors (map User ps) = []" "users (map User ps) = ps" by (induction ps) simp_all
qed

lemma descriptors_set: "Descriptor i \<in> set q \<longleftrightarrow> i \<in> set (descriptors q)"
  by (induction q rule: descriptors.induct) auto

section \<open>What the operations do to the queues\<close>

text \<open>\<open>grows\<close>: the operations \<open>new\<close> came into the queue of the scheduler and \<open>priv\<close> into that of the
  thread, \<open>k\<close> units of work were announced, in all, and at most those of \<open>priv\<close> privately.\<close>

definition grows :: "'u list \<Rightarrow> 'u list \<Rightarrow> int \<Rightarrow> 'u sched_thread \<Rightarrow> 'u sched_thread \<Rightarrow> bool" where
  "grows new priv k s s' \<longleftrightarrow>
     sd_op_queue (fst s') = sd_op_queue (fst s) @ map Operation (map User new) \<and>
     ti_private_queue (snd s') = ti_private_queue (snd s) @ map User priv \<and>
     sd_outstanding_work (fst s') + ti_private_work (snd s') =
       sd_outstanding_work (fst s) + ti_private_work (snd s) + k \<and>
     ti_private_work (snd s) \<le> ti_private_work (snd s') \<and>
     ti_private_work (snd s') \<le> ti_private_work (snd s) + int (length priv) \<and>
     sd_stopped (fst s') = sd_stopped (fst s)"

lemma grows_refl [simp]: "grows [] [] 0 s s"
  by (simp add: grows_def)

lemma post_immediate_grows:
  "post_immediate_completion (User p) c in_thread s = s' \<Longrightarrow>
   \<exists>new priv. grows new priv 1 s s' \<and> mset new + mset priv = {#p#} \<and> (\<not> in_thread \<longrightarrow> priv = [])"
  by (cases "(sd_one_thread (fst s) \<or> c) \<and> in_thread"; cases s)
    (force simp: post_immediate_completion_def grows_def Let_def intro: exI [of _ "[p]"] exI [of _ "[]"])+

lemma post_deferred_grows:
  "post_deferred_completions (map User ps) in_thread s = s' \<Longrightarrow>
   \<exists>new priv. grows new priv 0 s s' \<and> mset new + mset priv = mset ps \<and> (\<not> in_thread \<longrightarrow> priv = [])"
  by (cases "ps = []"; cases "sd_one_thread (fst s) \<and> in_thread"; cases s)
    (force simp: post_deferred_completions_def grows_def Let_def intro: exI [of _ ps] exI [of _ "[]"])+

lemma work_started_grows: "grows [] [] 1 (sd, ti) (work_started sd, ti)"
  by (simp add: grows_def)

text \<open>The same with the operations the reactor holds: what came into the queues and what it holds
  now is what it held and \<open>added\<close>.\<close>

definition reactor_grows ::
    "bool \<Rightarrow> 'u list \<Rightarrow> 'u reactor \<times> 'u sched_thread \<Rightarrow> 'u reactor \<times> 'u sched_thread \<Rightarrow> bool" where
  "reactor_grows in_thread added s s' \<longleftrightarrow>
     (\<exists>new priv. grows new priv (int (length added)) (snd s) (snd s') \<and> (\<not> in_thread \<longrightarrow> priv = []) \<and>
       mset new + mset priv + mset (pending (fst s')) = mset (pending (fst s)) + mset added) \<and>
     (pool_ok (fst s) \<longrightarrow> pool_ok (fst s')) \<and> length (er_states (fst s)) \<le> length (er_states (fst s'))"

lemma reactor_growsI:
  "grows new priv (int (length added)) (snd s) (snd s') \<Longrightarrow> (\<not> in_thread \<longrightarrow> priv = []) \<Longrightarrow>
   mset new + mset priv + mset (pending (fst s')) = mset (pending (fst s)) + mset added \<Longrightarrow>
   (pool_ok (fst s) \<longrightarrow> pool_ok (fst s')) \<Longrightarrow> length (er_states (fst s)) \<le> length (er_states (fst s')) \<Longrightarrow>
   reactor_grows in_thread added s s'"
  by (auto simp: reactor_grows_def)

lemma queue_op_grows:
  assumes "queue_op i ot p s = s'" "i < length (er_states (fst s))"
  shows "reactor_grows in_thread [p] s s'"
proof -
  obtain er sd ti where s: "s = (er, sd, ti)" by (metis prod_cases3)
  from pending_update [of i er "\<lambda>ds. ds\<lparr>ds_queue := (ds_queue ds)(ot := ds_queue ds ot @ [p])\<rparr>"] assms s
  have "mset (pending (fst s')) = mset (pending er) + {#p#}"
    by (cases ot) (auto simp: queue_op_def ds_operations_def [of "er_states er ! i"])
  with assms(1) s show ?thesis
    by (auto simp: reactor_grows_def queue_op_def intro!: exI [of _ "[]"] work_started_grows)
qed

lemma post_grows:
  assumes "mset (pending er') = mset (pending er)" "pool_ok er \<longrightarrow> pool_ok er'"
    "length (er_states er) \<le> length (er_states er')"
  shows "reactor_grows in_thread [p] (er, st) (er', post_immediate_completion (User p) c in_thread st)"
  using post_immediate_grows [OF refl, where p = p and c = c and in_thread = in_thread and s = st] assms by (auto simp: reactor_grows_def)

lemma queue_op_update_grows:
  assumes "i < length (er_states er)" "\<And>ds. ds_operations (f ds) = ds_operations ds"
  shows "reactor_grows in_thread [p] (er, st) (queue_op i ot p (er_update i f er, st))"
proof -
  have "mset (pending (er_update i f er)) = mset (pending er)" using assms by (simp add: pending_update_same)
  with queue_op_grows [OF refl, where i = i and s = "(er_update i f er, st)" and in_thread = in_thread and p = p and ot = ot] assms(1) show ?thesis
    by (simp add: reactor_grows_def)
qed

lemma start_op_grows:
  assumes "reactor_start_op perform ot data p c spec ctl in_thread s w = (s', w')"
    and valid: "\<And>i. data = Some i \<Longrightarrow> i < length (er_states (fst s))"
  shows "reactor_grows in_thread [p] s s'"
proof (cases data)
  case None
  with assms(1) show ?thesis
    by (cases s) (auto simp: reactor_start_op_def Let_def intro!: post_grows)
next
  case (Some i)
  obtain er st where s: "s = (er, st)" by (metis surj_pair)
  with assms(2) Some have i: "i < length (er_states er)" by simp
  have same: "mset (pending (er_update i (\<lambda>ds. ds\<lparr>ds_try_speculative := g ds\<rparr>) er)) = mset (pending er)" for g
    using i by (simp add: pending_update_same)
  show ?thesis
    using assms(1) i
    unfolding s Some reactor_start_op_def Let_def option.case split
    by (auto split: if_splits prod.splits simp: same
      intro!: post_grows queue_op_update_grows intro: queue_op_grows)
qed

lemma abort_ops_grows:
  assumes "i < length (er_states (fst s))"
  shows "reactor_grows in_thread [] s (abort_ops i in_thread s)"
proof -
  obtain er st where s: "s = (er, st)" by (metis surj_pair)
  let ?ops = "ds_operations (er_states er ! i)"
  have "mset (pending (fst (abort_ops i in_thread s))) + mset ?ops = mset (pending er)"
    using pending_update [of i "er_fail ?ops operation_aborted er" "\<lambda>ds. ds\<lparr>ds_queue := (\<lambda>_. [])\<rparr>"] assms s
    by (simp add: abort_ops_def Let_def)
  moreover obtain new priv where g:
    "grows new priv 0 st (post_deferred_completions (map User ?ops) in_thread st)"
    "mset new + mset priv = mset ?ops" "\<not> in_thread \<longrightarrow> priv = []"
    using post_deferred_grows [OF refl, where ps = ?ops and in_thread = in_thread and s = st] by blast
  ultimately have "mset new + mset priv + mset (pending (fst (abort_ops i in_thread s))) = mset (pending er)"
    by (simp add: ac_simps)
  with g(1,3) show ?thesis
    by (intro reactor_growsI [of new priv]) (simp_all add: s abort_ops_def Let_def)
qed

lemma reactor_grows_refl [simp]: "reactor_grows in_thread [] s s"
  by (auto simp: reactor_grows_def intro!: exI [of _ "[]"])

lemma cancel_ops_grows:
  "(\<And>i. data = Some i \<Longrightarrow> i < length (er_states (fst s))) \<Longrightarrow>
   reactor_grows in_thread [] s (cancel_ops data in_thread s)"
  by (cases data) (simp_all add: cancel_ops_def abort_ops_grows)

lemma deregister_grows:
  assumes "\<And>i. data = Some i \<Longrightarrow> i < length (er_states (fst s))"
  shows "reactor_grows in_thread [] s (snd (deregister_descriptor data in_thread s))"
proof (cases data)
  case (Some i)
  obtain er st where a: "abort_ops i in_thread s = (er, st)" by (metis surj_pair)
  have i: "i < length (er_states (fst s))" using assms Some .
  note g = abort_ops_grows [OF i, of in_thread]
  then have "i < length (er_states er)" using i a by (auto simp: reactor_grows_def)
  then have "mset (pending (er_update i (\<lambda>ds. ds\<lparr>ds_descriptor := invalid_socket, ds_shutdown := True\<rparr>) er)) =
      mset (pending er)" by (simp add: pending_update_same)
  with g a Some show ?thesis by (auto simp: deregister_descriptor_def reactor_grows_def)
qed (simp add: deregister_descriptor_def)

section \<open>Descriptors as operations\<close>

text \<open>What the loop over the events appends to the queue of the thread, when no state was in it:
  every state of an event once, in the order of the first events.\<close>

lemma dispatch_events_queue:
  assumes "dispatch_events evs er ops = (er', ops')" "users ops = []" "distinct (descriptors ops)"
    and "\<forall>i m. (Ptr_state i, m) \<in> set evs \<longrightarrow> i < length (er_states er)" "pool_ok er"
    and "\<forall>i\<in>set (descriptors ops). i < length (er_states er)"
  shows "users ops' = [] \<and> distinct (descriptors ops') \<and> mset (pending er') = mset (pending er) \<and> pool_ok er' \<and>
    length (er_states er') = length (er_states er) \<and> (\<forall>i\<in>set (descriptors ops'). i < length (er_states er'))"
  using assms
proof (induction evs er ops rule: dispatch_events.induct)
  case (4 i evmask evs er ops)
  have i: "i < length (er_states er)" using "4.prems"(4) by force
  have evs: "\<forall>i m. (Ptr_state i, m) \<in> set evs \<longrightarrow> i < length (er_states er)" using "4.prems"(4) by force
  show ?case
  proof (cases "Descriptor i \<in> set ops")
    case True
    then show ?thesis
      using "4.IH"(2) "4.prems"(1,2,3,5,6) i evs by (auto simp: pending_update_same)
  next
    case False
    then show ?thesis
      using "4.IH"(1) "4.prems"(1,2,3,5,6) i evs by (auto simp: pending_update_same descriptors_set)
  qed
next
  case (1 er ops)
  then show ?case by auto
next
  case (2 evmask evs er ops)
  then show ?case by auto
next
  case (3 evmask evs er ops)
  then show ?case by auto
qed

text \<open>Completing a descriptor: a completed operation leaves the reactor and the others that were
  performed are queued.\<close>

lemma descriptor_complete_first:
  assumes "descriptor_complete perform i (er, st) w = (Some p, (er', st'), w')" "i < length (er_states er)"
  shows "(\<exists>new priv. grows new priv 0 st st' \<and>
      mset new + mset priv + mset (pending er') + {#p#} = mset (pending er)) \<and>
    (pool_ok er \<longrightarrow> pool_ok er') \<and> length (er_states er') = length (er_states er)"
proof -
  let ?ds = "er_states er ! i"
  obtain ds ops w1 where 1: "perform_io perform (ds_task_result ?ds) ?ds w = (ds, ops, w1)" by (metis prod_cases3)
  obtain rest where ops: "ops = p # rest"
    using assms(1) 1 by (cases ops) (auto simp: descriptor_complete_def io_cleanup_def split: prod.splits)
  have er': "er' = er_update i (\<lambda>_. ds) er"
    using assms(1) 1 by (auto simp: descriptor_complete_def split: prod.splits)
  have "mset (pending er') + mset ops = mset (pending er)"
    using pending_update [OF assms(2), of "\<lambda>_. ds"] perform_io_operations [OF 1] er' by simp
  moreover have "\<exists>new priv. grows new priv 0 st st' \<and> mset new + mset priv = mset rest"
  proof (cases "rest = []")
    case True
    then have "st' = st"
      using assms(1) 1 ops by (auto simp: descriptor_complete_def io_cleanup_def split: prod.splits)
    with True show ?thesis by (auto intro!: exI [of _ "[]"])
  next
    case False
    then have "post_deferred_completions (map User rest) True st = st'"
      using assms(1) 1 ops by (auto simp: descriptor_complete_def io_cleanup_def split: prod.splits)
    from post_deferred_grows [OF this] show ?thesis by blast
  qed
  ultimately show ?thesis using er' ops by (auto simp: ac_simps) (metis union_assoc)
qed

lemma descriptor_complete_none:
  assumes "descriptor_complete perform i (er, sd, ti) w = (None, (er', st'), w')" "i < length (er_states er)"
  shows "st' = (sd, compensating_work_started ti) \<and> mset (pending er') = mset (pending er) \<and>
    (pool_ok er \<longrightarrow> pool_ok er') \<and> length (er_states er') = length (er_states er)"
proof -
  let ?ds = "er_states er ! i"
  obtain ds ops w1 where 1: "perform_io perform (ds_task_result ?ds) ?ds w = (ds, ops, w1)" by (metis prod_cases3)
  have ops: "ops = []" "er' = er_update i (\<lambda>_. ds) er" "st' = (sd, compensating_work_started ti)"
    using assms(1) 1 by (auto simp: descriptor_complete_def io_cleanup_def split: prod.splits list.splits)
  with pending_update [OF assms(2), of "\<lambda>_. ds"] perform_io_operations [OF 1] show ?thesis by simp
qed

section \<open>An operation does not overtake another\<close>

text \<open>
  C25: An operation started on a descriptor where one of its type waits is not attempted
  at once, and when the descriptor is performed it completes only after all those, in
  the order in which they were started.
\<close>

theorem operations_do_not_overtake:
  assumes start: "reactor_start_op perform ot (Some i) p c spec ctl in_thread (er, st) w = ((er1, st1), w1)"
    and live: "i < length (er_states er)" "\<not> ds_shutdown (er_states er ! i)"
    and waiting: "ds_queue (er_states er ! i) ot \<noteq> []"
    and complete: "perform_io perform events (er_states er1 ! i) w2 = (ds, ops, w3)"
  shows "w1 = w \<and> (\<exists>before completed after. ops = before @ completed @ after \<and>
    ds_queue (er_states er ! i) ot @ [p] = completed @ ds_queue ds ot)"
proof -
  have 1: "er1 = fst (queue_op i ot p (er, st))" "w1 = w"
    using start live waiting by (auto simp: reactor_start_op_def Let_def)
  then have q: "ds_queue (er_states er1 ! i) ot = ds_queue (er_states er ! i) ot @ [p]"
    using live(1) by (cases st) (simp add: queue_op_def)
  from perform_io_split [OF complete] obtain ce cw cr where
    s: "ops = ce @ cw @ cr" "ds_queue (er_states er1 ! i) Except_op = ce @ ds_queue ds Except_op"
    "ds_queue (er_states er1 ! i) Write_op = cw @ ds_queue ds Write_op"
    "ds_queue (er_states er1 ! i) Read_op = cr @ ds_queue ds Read_op" by blast
  have "\<exists>before completed after. ops = before @ completed @ after \<and>
      ds_queue (er_states er ! i) ot @ [p] = completed @ ds_queue ds ot"
  proof (cases ot)
    case Read_op
    with s q show ?thesis by (intro exI [of _ "ce @ cw"] exI [of _ cr] exI [of _ "[]"]) simp
  next
    case Write_op
    with s q show ?thesis by (intro exI [of _ ce] exI [of _ cw] exI [of _ cr]) simp
  next
    case Except_op
    with s q show ?thesis by (intro exI [of _ "[]"] exI [of _ ce] exI [of _ "cw @ cr"]) simp
  qed
  with 1(2) show ?thesis by blast
qed

text \<open>A write is started while another waits, and both are performed.\<close>

definition sample_descriptor :: "nat reactor" where
  "sample_descriptor = snd (snd (register_descriptor 7 (0, 0)
     (reactor_make\<lparr>er_states := [descriptor_state_make], er_free := [0]\<rparr>)))\<lparr>er_states :=
       [descriptor_state_make\<lparr>ds_queue := (\<lambda>_. [])(Write_op := [3])\<rparr>]\<rparr>"

lemma operations_do_not_overtake_witness:
  "\<exists>er1 st1 ds before after. reactor_start_op (\<lambda>p w. (Done, w @ [p])) Write_op (Some 0) 4 False True (0, 0) True
      (sample_descriptor, scheduler_make default_hint, thread_info_make) [] = ((er1, st1), []) \<and>
    perform_io (\<lambda>p w. (Done, w @ [p])) epollout (er_states er1 ! 0) [] = (ds, before @ [3, 4] @ after, [3, 4])"
proof -
  let ?perform = "\<lambda>(p :: nat) w. (Done, w @ [p])"
  obtain er1 st1 where 1: "reactor_start_op ?perform Write_op (Some 0) 4 False True (0, 0) True
      (sample_descriptor, scheduler_make default_hint, thread_info_make) [] = ((er1, st1), [])"
    "er_states er1 = [descriptor_state_make\<lparr>ds_queue := (\<lambda>_. [])(Write_op := [3, 4])\<rparr>]"
    by (simp add: reactor_start_op_def sample_descriptor_def descriptor_state_make_def queue_op_def er_update_def
      Let_def fun_eq_iff)
  obtain ds ops where 2: "perform_io ?perform epollout (er_states er1 ! 0) [] = (ds, ops, [3, 4])"
      "ds_queue ds Write_op = []"
    by (simp add: 1(2) perform_io_def perform_type_def descriptor_state_make_def Let_def epollout_def
      epollin_def epollpri_def epollerr_def epollhup_def)
  from operations_do_not_overtake [OF 1(1) _ _ _ 2(1)] obtain before completed after where
    "ops = before @ completed @ after" "[3, 4] = completed @ ds_queue ds Write_op"
    by (auto simp: sample_descriptor_def descriptor_state_make_def)
  with 1(1) 2 show ?thesis by auto
qed

end
