(* ===== verification/Oef_Asio_Loop_Facts.thy ===== *)
theory Oef_Asio_Loop_Facts
  imports Oef_Asio_Loop Oef_Asio_Reactor_Facts
begin

text \<open>
  Facts about the event loop: the count of outstanding work is exact, no operation is lost or
  executed twice, turns are taken in the order of the queue, no descriptor state is queued when
  the reactor runs, and the loop ends by itself only when nothing is left to do.
\<close>

section \<open>What a call does\<close>

definition held :: "('u, 'w) loop_state \<Rightarrow> 'u list" where
  "held r = users (queued (sd_op_queue (sr_sched r))) @ users (ti_private_queue (sr_thread r)) @
     pending (sr_reactor r)"

definition all_operations :: "('u, 'w) loop_state \<Rightarrow> 'u multiset" where
  "all_operations r = mset (sr_done r) + mset (held r)"

definition work :: "('u, 'w) loop_state \<Rightarrow> int" where
  "work r = sd_outstanding_work (sr_sched r) + ti_private_work (sr_thread r)"

definition private_ok :: "('u, 'w) loop_state \<Rightarrow> bool" where
  "private_ok r \<longleftrightarrow> 0 \<le> ti_private_work (sr_thread r) \<and>
     ti_private_work (sr_thread r) \<le> int (length (users (ti_private_queue (sr_thread r)))) \<and>
     descriptors (ti_private_queue (sr_thread r)) = []"

fun new_operations :: "'u sched_call \<Rightarrow> 'u list" where
  "new_operations (Call_post p c) = [p]"
| "new_operations (Call_dispatch p) = [p]"
| "new_operations (Call_start ot data p c spec ctl) = [p]"
| "new_operations c = []"

fun is_stop :: "'u sched_call \<Rightarrow> bool" where
  "is_stop Call_stop = True"
| "is_stop c = False"

text \<open>\<open>e\<close> is 1 while a handler is executed.\<close>

definition books :: "int \<Rightarrow> ('u, 'w) loop_state \<Rightarrow> bool" where
  "books e r \<longleftrightarrow> work r = int (length (held r) + sr_guards r) + e \<and> private_ok r \<and> pool_ok (sr_reactor r) \<and>
     (\<forall>i\<in>set (descriptors (queued (sd_op_queue (sr_sched r)))). i < length (er_states (sr_reactor r)))"

definition idle_thread :: "('u, 'w) loop_state \<Rightarrow> bool" where
  "idle_thread r \<longleftrightarrow> sr_thread r = thread_info_make"

text \<open>What every call does to the queues, in one statement.\<close>

definition call_effect :: "bool \<Rightarrow> 'u list \<Rightarrow> ('u, 'w) loop_state \<Rightarrow> ('u, 'w) loop_state \<Rightarrow> bool" where
  "call_effect in_thread added r r' \<longleftrightarrow>
     (\<exists>new priv. sd_op_queue (sr_sched r') = sd_op_queue (sr_sched r) @ map Operation (map User new) \<and>
        ti_private_queue (sr_thread r') = ti_private_queue (sr_thread r) @ map User priv \<and>
        (\<not> in_thread \<longrightarrow> priv = [])) \<and>
     (\<not> in_thread \<longrightarrow> ti_private_work (sr_thread r') = ti_private_work (sr_thread r)) \<and>
     sr_done r' = sr_done r \<and> mset (held r') = mset (held r) + mset added \<and>
     work r' - int (sr_guards r') = work r - int (sr_guards r) + int (length added) \<and>
     (private_ok r \<longrightarrow> private_ok r') \<and> (pool_ok (sr_reactor r) \<longrightarrow> pool_ok (sr_reactor r')) \<and>
     length (er_states (sr_reactor r)) \<le> length (er_states (sr_reactor r'))"

lemma effect_refl: "call_effect in_thread [] r r"
  by (auto simp: call_effect_def intro!: exI [of _ "[]"])

lemma grows_effect:
  assumes g: "reactor_grows in_thread added (sr_reactor r, sr_sched r, sr_thread r) (er, sd, ti)"
  shows "call_effect in_thread added r (r\<lparr>sr_reactor := er, sr_sched := sd, sr_thread := ti\<rparr>)"
proof -
  from g obtain new priv where n:
    "grows new priv (int (length added)) (sr_sched r, sr_thread r) (sd, ti)" "\<not> in_thread \<longrightarrow> priv = []"
    "mset new + mset priv + mset (pending er) = mset (pending (sr_reactor r)) + mset added"
    by (auto simp: reactor_grows_def)
  have "mset (held (r\<lparr>sr_reactor := er, sr_sched := sd, sr_thread := ti\<rparr>)) =
      mset (users (queued (sd_op_queue (sr_sched r)))) + mset (users (ti_private_queue (sr_thread r))) +
      (mset new + mset priv + mset (pending er))"
    using n(1) by (simp add: held_def grows_def ac_simps)
  also have "\<dots> = mset (held r) + mset added" unfolding n(3) by (simp add: held_def ac_simps)
  finally have h: "mset (held (r\<lparr>sr_reactor := er, sr_sched := sd, sr_thread := ti\<rparr>)) = mset (held r) + mset added" .
  have "\<not> in_thread \<longrightarrow> ti_private_work ti = ti_private_work (sr_thread r)"
    using n(1,2) by (auto simp: grows_def)
  with n(1,2) g h show ?thesis
    by (auto simp: call_effect_def grows_def work_def private_ok_def reactor_grows_def)
qed

lemma effect_world [simp]:
  "call_effect in_thread added r (r'\<lparr>sr_world := w\<rparr>) = call_effect in_thread added r r'"
  by (simp add: call_effect_def held_def work_def private_ok_def)

lemma on_reactor_effect:
  "reactor_grows in_thread added (sr_reactor r, sr_sched r, sr_thread r)
     (f (sr_reactor r, sr_sched r, sr_thread r)) \<Longrightarrow> call_effect in_thread added r (on_reactor f r)"
  by (auto simp: on_reactor_def split: prod.splits intro: grows_effect)

lemma on_sched_effect:
  assumes "reactor_grows in_thread added (sr_reactor r, sr_sched r, sr_thread r)
      (sr_reactor r, f (sr_sched r, sr_thread r))"
  shows "call_effect in_thread added r (on_sched f r)"
proof -
  obtain sd ti where f: "f (sr_sched r, sr_thread r) = (sd, ti)" by fastforce
  have "on_sched f r = r\<lparr>sr_reactor := sr_reactor r, sr_sched := sd, sr_thread := ti\<rparr>"
    by (simp add: on_sched_def f)
  with grows_effect [OF assms [unfolded f]] show ?thesis by simp
qed

lemma reactor_effect:
  "mset (pending er) = mset (pending (sr_reactor r)) \<Longrightarrow> (pool_ok (sr_reactor r) \<longrightarrow> pool_ok er) \<Longrightarrow>
   length (er_states (sr_reactor r)) \<le> length (er_states er) \<Longrightarrow>
   call_effect in_thread [] r (r\<lparr>sr_reactor := er\<rparr>)"
  by (simp add: call_effect_def held_def work_def private_ok_def)

lemma dispatch_grows: "reactor_grows in_thread [p] (er, sd, ti) (er, do_dispatch (User p) (sd, ti))"
  by (auto simp: reactor_grows_def do_dispatch_def grows_def Let_def intro!: exI [of _ "[p]"] exI [of _ "[]"])

lemma valid_bound:
  "valid_data data er \<Longrightarrow> pool_ok er \<Longrightarrow> data = Some i \<Longrightarrow> i < length (er_states er)"
  by (auto simp: valid_data_def pool_ok_def)

lemma make_call_effect:
  assumes "make_call perform in_thread c r = Some r'" "pool_ok (sr_reactor r)"
  shows "call_effect in_thread (new_operations c) r r'"
proof (cases c)
  case (Call_post p cont)
  with assms(1) show ?thesis
    by (auto intro!: on_sched_effect post_grows)
next
  case (Call_dispatch p)
  with assms(1) show ?thesis by (auto intro!: on_sched_effect dispatch_grows)
next
  case (Call_register d ctl)
  obtain i n er where 1: "register_descriptor d ctl (sr_reactor r) = (i, n, er)" by (metis prod_cases3)
  with assms(1) Call_register register_pool [OF 1 assms(2)] show ?thesis by (auto intro!: reactor_effect)
next
  case (Call_start ot data p cont spec ctl)
  obtain er sd ti w where 1: "reactor_start_op perform ot data p cont spec ctl in_thread
      (sr_reactor r, sr_sched r, sr_thread r) (sr_world r) = ((er, sd, ti), w)"
    by (metis prod_cases3 surj_pair)
  have v: "valid_data data (sr_reactor r)" using assms(1) Call_start by (simp split: if_splits)
  have "reactor_grows in_thread [p] (sr_reactor r, sr_sched r, sr_thread r) (er, sd, ti)"
    by (rule start_op_grows [OF 1]) (use valid_bound [OF v assms(2)] in simp)
  with assms(1) Call_start 1 v grows_effect show ?thesis by auto
next
  case (Call_cancel data)
  with assms show ?thesis
    by (auto split: if_splits intro!: on_reactor_effect cancel_ops_grows dest: valid_bound)
next
  case (Call_deregister data)
  with assms show ?thesis
    by (auto split: if_splits intro!: on_reactor_effect deregister_grows dest: valid_bound)
next
  case (Call_cleanup data)
  show ?thesis
  proof (cases data)
    case None
    with assms(1) Call_cleanup show ?thesis
      by (auto simp: cleanup_descriptor_data_def valid_data_def effect_refl)
  next
    case (Some i)
    with assms(1) Call_cleanup have "valid_data (Some i) (sr_reactor r)"
      "r' = r\<lparr>sr_reactor := free_descriptor_state i (sr_reactor r)\<rparr>"
      by (simp_all add: cleanup_descriptor_data_def split: if_splits)
    with free_pool [OF assms(2), of i] valid_bound [OF _ assms(2)] Call_cleanup show ?thesis
      by (auto intro!: reactor_effect)
  qed
next
  case Call_work_started
  with assms(1) show ?thesis by (auto simp: call_effect_def held_def work_def private_ok_def)
next
  case Call_work_finished
  with assms(1) show ?thesis
    by (auto simp: call_effect_def held_def work_def private_ok_def split: if_splits)
next
  case Call_stop
  with assms(1) show ?thesis by (auto simp: call_effect_def held_def work_def private_ok_def)
qed

lemma effect_trans:
  assumes "call_effect in_thread a r r1" "call_effect in_thread b r1 r2"
  shows "call_effect in_thread (a @ b) r r2"
proof -
  from assms obtain n1 p1 n2 p2 where
    "sd_op_queue (sr_sched r1) = sd_op_queue (sr_sched r) @ map Operation (map User n1)"
    "ti_private_queue (sr_thread r1) = ti_private_queue (sr_thread r) @ map User p1" "\<not> in_thread \<longrightarrow> p1 = []"
    "sd_op_queue (sr_sched r2) = sd_op_queue (sr_sched r1) @ map Operation (map User n2)"
    "ti_private_queue (sr_thread r2) = ti_private_queue (sr_thread r1) @ map User p2" "\<not> in_thread \<longrightarrow> p2 = []"
    unfolding call_effect_def by (elim conjE exE) blast
  then have "\<exists>new priv. sd_op_queue (sr_sched r2) = sd_op_queue (sr_sched r) @ map Operation (map User new) \<and>
      ti_private_queue (sr_thread r2) = ti_private_queue (sr_thread r) @ map User priv \<and>
      (\<not> in_thread \<longrightarrow> priv = [])"
    by (intro exI [of _ "n1 @ n2"] exI [of _ "p1 @ p2"]) simp
  with assms show ?thesis by (simp add: call_effect_def)
qed

lemma make_calls_effect:
  "make_calls perform in_thread cs r = Some r' \<Longrightarrow> pool_ok (sr_reactor r) \<Longrightarrow>
   call_effect in_thread (concat (map new_operations cs)) r r'"
proof (induction cs arbitrary: r)
  case Nil
  then show ?case by (simp add: effect_refl)
next
  case (Cons c cs)
  then obtain r1 where 1: "make_call perform in_thread c r = Some r1" "make_calls perform in_thread cs r1 = Some r'"
    by (auto split: option.splits)
  note e = make_call_effect [OF 1(1) Cons.prems(2)]
  then have "pool_ok (sr_reactor r1)" using Cons.prems(2) by (simp add: call_effect_def)
  from effect_trans [OF e Cons.IH [OF 1(2) this]] show ?case by simp
qed

lemma effect_books:
  assumes "call_effect in_thread added r r'" "books e r" shows "books e r'"
proof -
  from assms(1) have "length (held r') = length (held r) + length added"
    using mset_eq_length [of "held r'" "held r @ added"] by (simp add: call_effect_def)
  moreover have "descriptors (queued (sd_op_queue (sr_sched r'))) = descriptors (queued (sd_op_queue (sr_sched r)))"
    using assms(1) by (auto simp: call_effect_def)
  ultimately show ?thesis
    using assms by (auto simp: books_def call_effect_def intro: less_le_trans)
qed

lemma effect_operations: "call_effect in_thread added r r' \<Longrightarrow> all_operations r' = all_operations r + mset added"
  by (simp add: call_effect_def all_operations_def)

lemma effect_idle: "call_effect False added r r' \<Longrightarrow> idle_thread r \<Longrightarrow> idle_thread r'"
  by (cases "sr_thread r'") (auto simp: call_effect_def idle_thread_def thread_info_make_def)

section \<open>What a turn does\<close>

lemma sched_turn_cases:
  assumes "sched_turn perform ev r = Some r'"
  obtains
    (poll) events rest where "ev = Poll events" "\<not> sd_stopped (sr_sched r)"
      "sd_op_queue (sr_sched r) = Task_operation # rest" "list_all (live_event (sr_reactor r)) events"
      "r' = task_turn rest events r"
  | (handle) calls item rest sd first r1 r2 where "ev = Handler calls" "\<not> sd_stopped (sr_sched r)"
      "sd_op_queue (sr_sched r) = Operation item # rest"
      "sd_op_queue sd = rest" "sd_outstanding_work sd = sd_outstanding_work (sr_sched r)" "\<not> sd_stopped sd"
      "take_operation perform item (r\<lparr>sr_sched := sd\<rparr>) = (first, r1)" "first = None \<Longrightarrow> calls = []"
      "make_calls perform True calls r1 = Some r2" "r' = on_sched work_cleanup r2"
proof (cases "sd_op_queue (sr_sched r)")
  case (Cons i rest)
  show ?thesis
  proof (cases i)
    case Task_operation
    with assms Cons show ?thesis
      by (auto simp: sched_turn_def split: if_splits sched_event.splits intro!: poll)
  next
    case (Operation item)
    then obtain calls where ev: "ev = Handler calls" "operation_turn perform rest item calls r = Some r'"
      using assms Cons by (auto simp: sched_turn_def split: if_splits sched_event.splits)
    define sd where "sd = (let sd = (sr_sched r)\<lparr>sd_op_queue := rest\<rparr>
      in if rest \<noteq> [] \<and> \<not> sd_one_thread sd then wake_one_thread sd else sd)"
    have sd: "sd_op_queue sd = rest" "sd_outstanding_work sd = sd_outstanding_work (sr_sched r)"
        "sd_stopped sd = sd_stopped (sr_sched r)"
      by (simp_all add: sd_def Let_def)
    obtain first r1 where t: "take_operation perform item (r\<lparr>sr_sched := sd\<rparr>) = (first, r1)" by fastforce
    have s: "\<not> sd_stopped (sr_sched r)" using assms by (simp add: sched_turn_def split: if_splits)
    from ev(2) t obtain r2 where "first = None \<longrightarrow> calls = []" "make_calls perform True calls r1 = Some r2"
      "r' = on_sched work_cleanup r2"
      by (auto simp: operation_turn_def sd_def Let_def split: if_splits)
    with ev(1) s Cons Operation sd t handle show ?thesis by auto
  qed
qed (use assms in \<open>simp add: sched_turn_def split: if_splits\<close>)

lemma take_operation_first:
  assumes "take_operation perform item r = (Some p, r1)"
    and "\<And>i. item = Descriptor i \<Longrightarrow> i < length (er_states (sr_reactor r))"
  shows "\<exists>new priv. sd_op_queue (sr_sched r1) = sd_op_queue (sr_sched r) @ map Operation (map User new) \<and>
      ti_private_queue (sr_thread r1) = ti_private_queue (sr_thread r) @ map User priv \<and>
      work r1 = work r \<and> ti_private_work (sr_thread r) \<le> ti_private_work (sr_thread r1) \<and>
      ti_private_work (sr_thread r1) \<le> ti_private_work (sr_thread r) + int (length priv) \<and>
      mset (users [item]) + mset (held r) = mset (held r1) + {#p#} \<and>
      sd_stopped (sr_sched r1) = sd_stopped (sr_sched r) \<and> sr_done r1 = sr_done r @ [p] \<and>
      sr_guards r1 = sr_guards r \<and> (pool_ok (sr_reactor r) \<longrightarrow> pool_ok (sr_reactor r1)) \<and>
      length (er_states (sr_reactor r1)) = length (er_states (sr_reactor r))"
proof (cases item)
  case (User q)
  with assms(1) show ?thesis
    by (auto simp: take_operation_def held_def work_def Let_def intro!: exI [of _ "[]"])
next
  case (Descriptor i)
  obtain f er sd ti w where d: "descriptor_complete perform i (sr_reactor r, sr_sched r, sr_thread r) (sr_world r)
      = (f, (er, sd, ti), w)" by (metis prod_cases3)
  with assms(1) Descriptor have f: "f = Some p"
    and r1: "r1 = r\<lparr>sr_reactor := er, sr_sched := sd, sr_thread := ti, sr_world := w, sr_done := sr_done r @ [p]\<rparr>"
    by (auto simp: take_operation_def Let_def)
  from descriptor_complete_first [OF d [unfolded f] assms(2) [OF Descriptor]] obtain new priv where
    g: "grows new priv 0 (sr_sched r, sr_thread r) (sd, ti)"
      "mset new + mset priv + mset (pending er) + {#p#} = mset (pending (sr_reactor r))"
      "(pool_ok (sr_reactor r) \<longrightarrow> pool_ok er) \<and> length (er_states er) = length (er_states (sr_reactor r))" by blast
  have "mset (held r1) + {#p#} = mset (users (queued (sd_op_queue (sr_sched r)))) +
      mset (users (ti_private_queue (sr_thread r))) + (mset new + mset priv + mset (pending er) + {#p#})"
    using g(1) by (simp add: held_def grows_def r1 ac_simps)
  then have "mset (users [item]) + mset (held r) = mset (held r1) + {#p#}"
    unfolding g(2) by (simp add: held_def Descriptor ac_simps)
  with g(1,3) show ?thesis
    by (intro exI [of _ new] exI [of _ priv]) (simp add: r1 grows_def work_def)
qed

lemma take_operation_none:
  assumes "take_operation perform item r = (None, r1)"
    and "\<And>i. item = Descriptor i \<Longrightarrow> i < length (er_states (sr_reactor r))"
  shows "users [item] = [] \<and> sr_sched r1 = sr_sched r \<and>
      sr_thread r1 = compensating_work_started (sr_thread r) \<and> mset (held r1) = mset (held r) \<and>
      sr_done r1 = sr_done r \<and> sr_guards r1 = sr_guards r \<and>
      (pool_ok (sr_reactor r) \<longrightarrow> pool_ok (sr_reactor r1)) \<and>
      length (er_states (sr_reactor r1)) = length (er_states (sr_reactor r))"
proof (cases item)
  case (Descriptor i)
  obtain f er sd ti w where d: "descriptor_complete perform i (sr_reactor r, sr_sched r, sr_thread r) (sr_world r)
      = (f, (er, sd, ti), w)" by (metis prod_cases3)
  with assms(1) Descriptor have f: "f = None"
    and r1: "r1 = r\<lparr>sr_reactor := er, sr_sched := sd, sr_thread := ti, sr_world := w\<rparr>"
    by (auto simp: take_operation_def Let_def split: option.splits)
  from descriptor_complete_none [OF d [unfolded f] assms(2) [OF Descriptor]] Descriptor show ?thesis
    by (simp add: r1 held_def compensating_work_started_def)
qed (use assms in \<open>simp add: take_operation_def\<close>)

lemma items_cons:
  "descriptors (i # q) = descriptors [i] @ descriptors q" "users (i # q) = users [i] @ users q"
  using items_append(1) [of "[i]" q] items_append(2) [of "[i]" q] by simp_all

lemma no_users: "users q = [] \<Longrightarrow> q = map Descriptor (descriptors q)"
  by (induction q rule: descriptors.induct) simp_all

lemma items_descriptors [simp]:
  "descriptors (map Descriptor is) = is" "users (map Descriptor is) = []"
  by (induction "is") simp_all

lemma queued_map_item [simp]: "queued (map (\<lambda>x. Operation (f x)) xs) = map f xs"
  by (induction xs) simp_all

lemma task_turn_effect:
  assumes b: "books 0 r" "idle_thread r" and q: "sd_op_queue (sr_sched r) = Task_operation # rest"
    and live: "list_all (live_event (sr_reactor r)) events"
  shows "\<exists>ds. sd_op_queue (sr_sched (task_turn rest events r)) =
        rest @ map Operation (map Descriptor ds) @ [Task_operation] \<and> distinct ds \<and>
      books 0 (task_turn rest events r) \<and> idle_thread (task_turn rest events r) \<and>
      sr_done (task_turn rest events r) = sr_done r \<and>
      all_operations (task_turn rest events r) = all_operations r \<and>
      sd_stopped (sr_sched (task_turn rest events r)) = sd_stopped (sr_sched r)"
proof -
  obtain er ops where d: "dispatch_events events (sr_reactor r) [] = (er, ops)" by fastforce
  have pool: "pool_ok (sr_reactor r)" using b(1) by (simp add: books_def)
  have "\<forall>i m. (Ptr_state i, m) \<in> set events \<longrightarrow> i < length (er_states (sr_reactor r))"
    using live pool by (auto simp: list_all_iff pool_ok_def dest!: bspec)
  with dispatch_events_queue [OF d] pool have
    e: "users ops = []" "distinct (descriptors ops)" "mset (pending er) = mset (pending (sr_reactor r))"
      "pool_ok er" "length (er_states er) = length (er_states (sr_reactor r))"
      "\<forall>i\<in>set (descriptors ops). i < length (er_states er)" by auto
  define ds where "ds = descriptors ops"
  have ops: "ops = map Descriptor ds" using no_users [OF e(1)] by (simp add: ds_def)
  have t: "task_turn rest events r = r\<lparr>sr_sched := (sr_sched r)\<lparr>sd_op_queue :=
        rest @ map Operation (map Descriptor ds) @ [Task_operation], sd_task_interrupted := True\<rparr>,
      sr_reactor := er, sr_thread := thread_info_make\<rparr>"
    using b(2) d
    by (cases r) (simp add: task_turn_def reactor_run_def idle_thread_def thread_info_make_def ops on_sched_def
      task_cleanup_def sched_push_def Let_def)
  have "mset (held (task_turn rest events r)) = mset (held r)"
    using b(2) q e(3) by (simp add: t held_def idle_thread_def thread_info_make_def o_def)
  moreover from this have "length (held (task_turn rest events r)) = length (held r)" by (rule mset_eq_length)
  ultimately show ?thesis
    using b q e(2,4,5,6)
    by (intro exI [of _ ds]) (auto simp: t books_def work_def private_ok_def idle_thread_def thread_info_make_def
      all_operations_def ds_def o_def)
qed

lemma cleanup_effect:
  "0 \<le> ti_private_work (sr_thread r) \<Longrightarrow>
   sd_op_queue (sr_sched (on_sched work_cleanup r)) =
     sd_op_queue (sr_sched r) @ map Operation (ti_private_queue (sr_thread r)) \<and>
   idle_thread (on_sched work_cleanup r) \<and> work (on_sched work_cleanup r) = work r - 1 \<and>
   mset (held (on_sched work_cleanup r)) = mset (held r) \<and>
   sr_done (on_sched work_cleanup r) = sr_done r \<and> sr_guards (on_sched work_cleanup r) = sr_guards r \<and>
   sr_reactor (on_sched work_cleanup r) = sr_reactor r \<and>
   (sd_stopped (sr_sched (on_sched work_cleanup r)) \<longrightarrow>
      sd_stopped (sr_sched r) \<or> sd_outstanding_work (sr_sched (on_sched work_cleanup r)) = 0)"
  by (auto simp: on_sched_def work_cleanup_def Let_def idle_thread_def thread_info_make_def work_def held_def)

lemma cleanup_books:
  assumes "books 1 r" "descriptors (ti_private_queue (sr_thread r)) = []"
  shows "books 0 (on_sched work_cleanup r)"
proof -
  have "0 \<le> ti_private_work (sr_thread r)" using assms(1) by (simp add: books_def private_ok_def)
  note c = cleanup_effect [OF this]
  then have "length (held (on_sched work_cleanup r)) = length (held r)" by (metis mset_eq_length)
  with c assms show ?thesis by (auto simp: books_def private_ok_def idle_thread_def thread_info_make_def)
qed

text \<open>Taking an operation for execution: the unit of work it had is the one of the handler that runs.\<close>

lemma take_first_books:
  assumes b: "books 0 r" "idle_thread r" and q: "sd_op_queue (sr_sched r) = Operation item # rest"
    and sd: "sd_op_queue sd = rest" "sd_outstanding_work sd = sd_outstanding_work (sr_sched r)" "\<not> sd_stopped sd"
    and t: "take_operation perform item (r\<lparr>sr_sched := sd\<rparr>) = (Some p, r1)"
  shows "\<exists>new priv. sd_op_queue (sr_sched r1) = rest @ map Operation (map User new) \<and>
    ti_private_queue (sr_thread r1) = map User priv \<and> books 1 r1 \<and> all_operations r1 = all_operations r \<and>
    sr_done r1 = sr_done r @ [p] \<and> \<not> sd_stopped (sr_sched r1)"
proof -
  have i: "i < length (er_states (sr_reactor (r\<lparr>sr_sched := sd\<rparr>)))" if "item = Descriptor i" for i
    using b(1) q that by (auto simp: books_def)
  from take_operation_first [OF t i] obtain new priv where
    f: "sd_op_queue (sr_sched r1) = rest @ map Operation (map User new)"
      "ti_private_queue (sr_thread r1) = map User priv" "work r1 = work r"
      "0 \<le> ti_private_work (sr_thread r1)" "ti_private_work (sr_thread r1) \<le> int (length priv)"
      "mset (users [item]) + mset (held (r\<lparr>sr_sched := sd\<rparr>)) = mset (held r1) + {#p#}"
      "sd_stopped (sr_sched r1) = sd_stopped sd" "sr_done r1 = sr_done r @ [p]" "sr_guards r1 = sr_guards r"
      "pool_ok (sr_reactor r1)" "length (er_states (sr_reactor r1)) = length (er_states (sr_reactor r))"
    using b sd(1,2) by (auto simp: idle_thread_def thread_info_make_def work_def books_def)
  have "mset (held r) = mset (users [item]) + mset (held (r\<lparr>sr_sched := sd\<rparr>))"
    using q sd(1) items_cons(2) [of item "queued rest"] by (simp add: held_def)
  then have h: "mset (held r) = mset (held r1) + {#p#}" using f(6) by simp
  then have len: "length (held r) = length (held r1) + 1"
    using mset_eq_length [of "held r" "held r1 @ [p]"] by simp
  have b1: "books 1 r1"
    using b(1) f len q items_cons(1) [of item "queued rest"] by (auto simp: books_def private_ok_def)
  have o1: "all_operations r1 = all_operations r" using h f(8) by (simp add: all_operations_def)
  show ?thesis using b1 o1 f(1,2,7,8) sd(3) by blast
qed

lemma operation_turn_effect:
  assumes b: "books 0 r" "idle_thread r" and q: "sd_op_queue (sr_sched r) = Operation item # rest"
    and sd: "sd_op_queue sd = rest" "sd_outstanding_work sd = sd_outstanding_work (sr_sched r)" "\<not> sd_stopped sd"
    and t: "take_operation perform item (r\<lparr>sr_sched := sd\<rparr>) = (first, r1)" and none: "first = None \<Longrightarrow> calls = []"
    and c: "make_calls perform True calls r1 = Some r2"
  defines "r' \<equiv> on_sched work_cleanup r2"
  shows "\<exists>new. sd_op_queue (sr_sched r') = rest @ map Operation (map User new) \<and>
      sr_done r' = sr_done r @ (case first of None \<Rightarrow> [] | Some p \<Rightarrow> [p]) \<and>
      (\<forall>p. item = User p \<longrightarrow> first = Some p) \<and> books 0 r' \<and> idle_thread r' \<and>
      all_operations r' = all_operations r + mset (concat (map new_operations calls)) \<and>
      (sd_stopped (sr_sched r') \<longrightarrow> sd_stopped (sr_sched r2) \<or> sd_outstanding_work (sr_sched r') = 0) \<and>
      \<not> sd_stopped (sr_sched r1) \<and> (first \<noteq> None \<longrightarrow> books 1 r1)"
proof (cases first)
  case None
  have i: "i < length (er_states (sr_reactor (r\<lparr>sr_sched := sd\<rparr>)))" if "item = Descriptor i" for i
    using b(1) q that by (auto simp: books_def)
  note n = take_operation_none [OF t [unfolded None] i]
  have r2: "r2 = r1" using c none None by simp
  have th: "sr_thread r1 = \<lparr>ti_private_work = 1, ti_private_queue = []\<rparr>"
    using n b(2) by (simp add: compensating_work_started_def idle_thread_def thread_info_make_def)
  have n1: "sr_sched r1 = sd" "sr_done r1 = sr_done r" "sr_guards r1 = sr_guards r"
      "mset (held r1) = mset (held (r\<lparr>sr_sched := sd\<rparr>))" "users [item] = []" using n by simp_all
  have r': "sr_sched r' = sd" "sr_done r' = sr_done r" "sr_guards r' = sr_guards r" "sr_reactor r' = sr_reactor r1"
      "sr_thread r' = thread_info_make"
    using n1 by (simp_all add: r'_def r2 on_sched_def work_cleanup_def Let_def th thread_info_make_def sched_push_def)
  have h: "mset (held r') = mset (held r)"
    using n1 b(2) q sd(1) items_cons(2) [of item "queued rest"]
    by (simp add: held_def r' th thread_info_make_def idle_thread_def)
  then have "length (held r') = length (held r)" by (rule mset_eq_length)
  with n b sd q h None t items_cons(1) [of item "queued rest"] r2 none show ?thesis
    by (intro exI [of _ "[]"])
      (auto simp: r' books_def work_def private_ok_def idle_thread_def thread_info_make_def all_operations_def
        take_operation_def)
next
  case (Some p)
  from take_first_books [OF b q sd t [unfolded Some]] obtain new priv where
    f: "sd_op_queue (sr_sched r1) = rest @ map Operation (map User new)" "ti_private_queue (sr_thread r1) = map User priv"
      "books 1 r1" "all_operations r1 = all_operations r" "sr_done r1 = sr_done r @ [p]" "\<not> sd_stopped (sr_sched r1)"
    by blast
  then have pool: "pool_ok (sr_reactor r1)" by (simp add: books_def)
  have e: "call_effect True (concat (map new_operations calls)) r1 r2"
    using make_calls_effect [OF c pool] .
  then obtain new2 priv2 where e2: "sd_op_queue (sr_sched r2) = sd_op_queue (sr_sched r1) @ map Operation (map User new2)"
      "ti_private_queue (sr_thread r2) = ti_private_queue (sr_thread r1) @ map User priv2"
    unfolding call_effect_def by (elim conjE exE) blast
  have b2: "books 1 r2" using effect_books [OF e f(3)] .
  have pq: "ti_private_queue (sr_thread r2) = map User (priv @ priv2)" using e2(2) f(2) by simp
  then have b3: "books 0 r'" unfolding r'_def by (intro cleanup_books [OF b2]) (simp only: items_append)
  have "0 \<le> ti_private_work (sr_thread r2)" using b2 by (simp add: books_def private_ok_def)
  note cl = cleanup_effect [OF this, folded r'_def]
  have "sd_op_queue (sr_sched r') = rest @ map Operation (map User (new @ new2 @ priv @ priv2))"
    using cl e2(1) f(1) pq by simp
  moreover have "all_operations r' = all_operations r + mset (concat (map new_operations calls))"
    using effect_operations [OF e] cl f(4) by (simp add: all_operations_def)
  moreover have "sr_done r' = sr_done r @ [p]" using cl e f(5) by (simp add: call_effect_def)
  moreover have "item = User q \<longrightarrow> q = p" for q
    using t Some by (auto simp: take_operation_def)
  ultimately show ?thesis
    using cl b3 f(3,6) Some by (intro exI [of _ "new @ new2 @ priv @ priv2"]) auto
qed

text \<open>The operations an event announces, and what a turn adds to the record of a run.\<close>

fun event_operations :: "'u sched_event \<Rightarrow> 'u list" where
  "event_operations (Poll events) = []"
| "event_operations (Handler calls) = concat (map new_operations calls)"

fun turn_done :: "'u reactor_item sched_item \<Rightarrow> 'u list \<Rightarrow> bool" where
  "turn_done Task_operation d \<longleftrightarrow> d = []"
| "turn_done (Operation (User p)) d \<longleftrightarrow> d = [p]"
| "turn_done (Operation (Descriptor i)) d \<longleftrightarrow> length d \<le> 1"

fun is_task :: "'u sched_item \<Rightarrow> bool" where
  "is_task Task_operation = True"
| "is_task (Operation p) = False"

fun no_stop :: "'u sched_event \<Rightarrow> bool" where
  "no_stop (Poll events) = True"
| "no_stop (Handler calls) = list_all (\<lambda>c. \<not> is_stop c) calls"

lemma reactor_grows_stopped: "reactor_grows in_thread added s s' \<Longrightarrow> sd_stopped (fst (snd s')) = sd_stopped (fst (snd s))"
  by (auto simp: reactor_grows_def grows_def)

lemma on_reactor_stopped:
  "reactor_grows in_thread added (sr_reactor r, sr_sched r, sr_thread r)
     (f (sr_reactor r, sr_sched r, sr_thread r)) \<Longrightarrow>
   sd_stopped (sr_sched (on_reactor f r)) = sd_stopped (sr_sched r)"
  by (drule reactor_grows_stopped) (auto simp: on_reactor_def split: prod.splits)

lemma make_call_stopped:
  assumes b: "books 1 r" and c: "make_call perform True c r = Some r'" "\<not> is_stop c"
  shows "sd_stopped (sr_sched r') = sd_stopped (sr_sched r)"
proof -
  have pool: "pool_ok (sr_reactor r)" using b by (simp add: books_def)
  show ?thesis
  proof (cases c)
    case (Call_start ot data p cont spec ctl)
    obtain er sd ti w where 1: "reactor_start_op perform ot data p cont spec ctl True
        (sr_reactor r, sr_sched r, sr_thread r) (sr_world r) = ((er, sd, ti), w)"
      by (metis prod_cases3 surj_pair)
    have v: "valid_data data (sr_reactor r)" using c(1) Call_start by (simp split: if_splits)
    have "reactor_grows True [p] (sr_reactor r, sr_sched r, sr_thread r) (er, sd, ti)"
      by (rule start_op_grows [OF 1]) (use valid_bound [OF v pool] in simp)
    with c(1) Call_start 1 v show ?thesis by (auto dest: reactor_grows_stopped)
  next
    case Call_work_finished
    then have g: "0 < sr_guards r" "r' = r\<lparr>sr_sched := work_finished (sr_sched r), sr_guards := sr_guards r - 1\<rparr>"
      using c(1) by (auto split: if_splits)
    have "sd_outstanding_work (sr_sched r) \<noteq> 1"
      using b g(1) by (auto simp: books_def work_def private_ok_def held_def)
    with g show ?thesis by simp
  qed (use c pool in \<open>auto simp: on_sched_def post_immediate_completion_def do_dispatch_def Let_def
    split: if_splits prod.splits intro!: on_reactor_stopped [where in_thread = True and added = "[]"]
      cancel_ops_grows deregister_grows dest: valid_bound\<close>)
qed

lemma make_calls_stopped:
  "books 1 r \<Longrightarrow> make_calls perform True cs r = Some r' \<Longrightarrow> list_all (\<lambda>c. \<not> is_stop c) cs \<Longrightarrow>
   sd_stopped (sr_sched r') = sd_stopped (sr_sched r)"
proof (induction cs arbitrary: r)
  case (Cons c cs)
  then obtain r1 where 1: "make_call perform True c r = Some r1" "make_calls perform True cs r1 = Some r'"
    by (auto split: option.splits)
  have "pool_ok (sr_reactor r)" using Cons.prems(1) by (simp add: books_def)
  from effect_books [OF make_call_effect [OF 1(1) this] Cons.prems(1)] have "books 1 r1" .
  with Cons.IH [of r1] Cons.prems 1 make_call_stopped [of r perform c r1] show ?case by simp
qed simp

text \<open>Everything about one turn.\<close>

lemma sched_turn_effect:
  assumes b: "books 0 r" "idle_thread r" and t: "sched_turn perform ev r = Some r'"
  shows "\<exists>i rest added d. sd_op_queue (sr_sched r) = i # rest \<and>
      sd_op_queue (sr_sched r') = rest @ map Operation added @ filter is_task [i] \<and>
      distinct (descriptors added) \<and> (\<not> is_task i \<longrightarrow> descriptors added = []) \<and>
      sr_done r' = sr_done r @ d \<and> turn_done i d \<and> books 0 r' \<and> idle_thread r' \<and>
      all_operations r' = all_operations r + mset (event_operations ev) \<and>
      (d = [] \<longrightarrow> event_operations ev = []) \<and>
      (no_stop ev \<longrightarrow> sd_stopped (sr_sched r') \<longrightarrow> sd_outstanding_work (sr_sched r') = 0)"
  using t
proof (cases rule: sched_turn_cases)
  case (poll events rest)
  from task_turn_effect [OF b poll(3,4)] poll(5) obtain ds where
    "sd_op_queue (sr_sched r') = rest @ map Operation (map Descriptor ds) @ [Task_operation]" "distinct ds"
    "books 0 r'" "idle_thread r'" "sr_done r' = sr_done r" "all_operations r' = all_operations r"
    "sd_stopped (sr_sched r') = sd_stopped (sr_sched r)" by auto
  with poll(1-3) show ?thesis
    by (intro exI [of _ Task_operation] exI [of _ rest] exI [of _ "map Descriptor ds"] exI [of _ "[]"]) simp
next
  case (handle calls item rest sd first r1 r2)
  from operation_turn_effect [OF b handle(3-9), folded handle(10)] obtain new where
    n: "sd_op_queue (sr_sched r') = rest @ map Operation (map User new)"
    "sr_done r' = sr_done r @ (case first of None \<Rightarrow> [] | Some p \<Rightarrow> [p])" "\<forall>p. item = User p \<longrightarrow> first = Some p"
    "books 0 r'" "idle_thread r'" "all_operations r' = all_operations r + mset (concat (map new_operations calls))"
    "sd_stopped (sr_sched r') \<longrightarrow> sd_stopped (sr_sched r2) \<or> sd_outstanding_work (sr_sched r') = 0"
    "\<not> sd_stopped (sr_sched r1)" "first \<noteq> None \<longrightarrow> books 1 r1" by blast
  have d: "turn_done (Operation item) (case first of None \<Rightarrow> [] | Some p \<Rightarrow> [p])"
    using n(3) by (cases item) (auto split: option.splits)
  have "\<not> sd_stopped (sr_sched r2)" if "no_stop ev"
  proof (cases first)
    case None
    with handle(8,9) n(8) show ?thesis by simp
  next
    case (Some p)
    with make_calls_stopped [OF _ handle(9)] n(8,9) that handle(1) show ?thesis by simp
  qed
  then have "no_stop ev \<longrightarrow> sd_stopped (sr_sched r') \<longrightarrow> sd_outstanding_work (sr_sched r') = 0" using n(7) by blast
  moreover have "first = None \<longrightarrow> event_operations ev = []" using handle(1,8) by auto
  ultimately show ?thesis
    using n(1,2,4-6) d handle(1,3)
    by (intro exI [of _ "Operation item"] exI [of _ rest] exI [of _ "map User new"]
        exI [of _ "case first of None \<Rightarrow> [] | Some p \<Rightarrow> [p]"]) (simp split: option.split)
qed

section \<open>Runs\<close>

text \<open>The reactor stands in the queue once; descriptor states only before it, each at most once.\<close>

definition queue_shape :: "'u reactor_item sched_item list \<Rightarrow> bool" where
  "queue_shape q \<longleftrightarrow> (\<exists>xs ys. q = map Operation xs @ Task_operation # map Operation ys \<and>
     distinct (descriptors xs) \<and> descriptors ys = [])"

lemma shape_append: "queue_shape q \<Longrightarrow> queue_shape (q @ map Operation (map User new))"
proof -
  assume "queue_shape q"
  then obtain xs ys where "q = map Operation xs @ Task_operation # map Operation ys"
    "distinct (descriptors xs)" "descriptors ys = []" by (auto simp: queue_shape_def)
  then show ?thesis
    unfolding queue_shape_def by (intro exI [of _ xs] exI [of _ "ys @ map User new"]) simp
qed

lemma shape_turn:
  assumes "queue_shape (i # rest)" "distinct (descriptors added)" "\<not> is_task i \<longrightarrow> descriptors added = []"
  shows "queue_shape (rest @ map Operation added @ filter is_task [i])"
proof -
  from assms(1) obtain xs ys where
    q: "i # rest = map Operation xs @ Task_operation # map Operation ys" "distinct (descriptors xs)"
      "descriptors ys = []" by (auto simp: queue_shape_def)
  show ?thesis
  proof (cases xs)
    case Nil
    with q(1) have "i = Task_operation" "rest = map Operation ys" by simp_all
    with assms(2) q(3) show ?thesis
      unfolding queue_shape_def by (intro exI [of _ "ys @ added"] exI [of _ "[]"]) simp
  next
    case (Cons x xs')
    with q(1) have "i = Operation x" "rest = map Operation xs' @ Task_operation # map Operation ys" by simp_all
    with Cons assms(3) q(2,3) items_cons(1) [of x xs'] show ?thesis
      unfolding queue_shape_def by (intro exI [of _ xs'] exI [of _ "ys @ added"]) simp
  qed
qed

lemma reachable_facts:
  "sched_reachable perform r \<Longrightarrow> books 0 r \<and> idle_thread r \<and> queue_shape (sd_op_queue (sr_sched r))"
proof (induction rule: sched_reachable.induct)
  case (sched_start hint w)
  have "queue_shape [Task_operation]"
    unfolding queue_shape_def by (intro exI [of _ "[]"]) simp
  then show ?case
    by (simp add: loop_state_make_def books_def idle_thread_def thread_info_make_def init_task_def work_def
      held_def private_ok_def pool_ok_def pending_def reactor_make_def scheduler_make_def)
next
  case (sched_outside r c r')
  then have e: "call_effect False (new_operations c) r r'"
    by (intro make_call_effect) (auto simp: books_def)
  then obtain new where "sd_op_queue (sr_sched r') = sd_op_queue (sr_sched r) @ map Operation (map User new)"
    unfolding call_effect_def by (elim conjE exE)
  with e effect_books [OF e] effect_idle [OF e] sched_outside(3) shape_append show ?case by metis
next
  case (sched_loop r ev r')
  with sched_turn_effect [OF _ _ sched_loop(2)] obtain i rest added where
    "sd_op_queue (sr_sched r) = i # rest" "sd_op_queue (sr_sched r') = rest @ map Operation added @ filter is_task [i]"
    "distinct (descriptors added)" "\<not> is_task i \<longrightarrow> descriptors added = []" "books 0 r'" "idle_thread r'" by blast
  with sched_loop(3) shape_turn [of i rest added] show ?case by metis
next
  case (sched_again r)
  then show ?case by (auto simp: books_def idle_thread_def sched_restart_def work_def held_def private_ok_def)
next
  case (sched_world r ps ec w)
  then show ?case by (auto simp: books_def idle_thread_def work_def held_def private_ok_def)
qed

lemma sched_turns_effect:
  assumes "books 0 r" "idle_thread r" "sched_turns perform evs r = Some r'"
  shows "books 0 r' \<and> idle_thread r' \<and>
    all_operations r' = all_operations r + mset (concat (map event_operations evs))"
  using assms
proof (induction evs arbitrary: r)
  case (Cons ev evs)
  then obtain r1 where 1: "sched_turn perform ev r = Some r1" "sched_turns perform evs r1 = Some r'"
    by (auto split: option.splits)
  from sched_turn_effect [OF Cons.prems(1,2) 1(1)] have
    "books 0 r1" "idle_thread r1" "all_operations r1 = all_operations r + mset (event_operations ev)" by blast+
  with Cons.IH [OF _ _ 1(2)] show ?case by (simp add: ac_simps)
qed simp

lemma sched_turns_order:
  assumes "books 0 r" "idle_thread r" "sched_turns perform evs r = Some r'"
    "length evs \<le> length (sd_op_queue (sr_sched r))"
  shows "\<exists>ds new. list_all2 turn_done (take (length evs) (sd_op_queue (sr_sched r))) ds \<and>
    sr_done r' = sr_done r @ concat ds \<and>
    sd_op_queue (sr_sched r') = drop (length evs) (sd_op_queue (sr_sched r)) @ new"
  using assms
proof (induction evs arbitrary: r)
  case (Cons ev evs)
  then obtain r1 where 1: "sched_turn perform ev r = Some r1" "sched_turns perform evs r1 = Some r'"
    by (auto split: option.splits)
  from sched_turn_effect [OF Cons.prems(1,2) 1(1)] obtain i rest new d where
    q: "sd_op_queue (sr_sched r) = i # rest" "sd_op_queue (sr_sched r1) = rest @ new"
      "sr_done r1 = sr_done r @ d" "turn_done i d" "books 0 r1" "idle_thread r1" by blast
  have "length evs \<le> length rest" using Cons.prems(4) q(1) by simp
  with Cons.IH [OF q(5,6) 1(2)] obtain ds new' where
    "list_all2 turn_done (take (length evs) rest) ds" "sr_done r' = sr_done r @ d @ concat ds"
    "sd_op_queue (sr_sched r') = drop (length evs) rest @ new @ new'"
    by (auto simp: q(2,3))
  with q(1,4) show ?case
    by (intro exI [of _ "d # ds"] exI [of _ "new @ new'"]) simp
qed simp

lemma sched_turns_stopped:
  assumes "books 0 r" "idle_thread r" "sched_turns perform evs r = Some r'" "list_all no_stop evs"
    and "sd_stopped (sr_sched r) \<Longrightarrow> sd_outstanding_work (sr_sched r) = 0" "sd_stopped (sr_sched r')"
  shows "sd_outstanding_work (sr_sched r') = 0"
  using assms
proof (induction evs arbitrary: r)
  case (Cons ev evs)
  then obtain r1 where 1: "sched_turn perform ev r = Some r1" "sched_turns perform evs r1 = Some r'"
    by (auto split: option.splits)
  from sched_turn_effect [OF Cons.prems(1,2) 1(1)] Cons.prems(4) have
    "books 0 r1" "idle_thread r1" "sd_stopped (sr_sched r1) \<longrightarrow> sd_outstanding_work (sr_sched r1) = 0" by auto
  with Cons.IH [OF _ _ 1(2)] Cons.prems(4,6) show ?case by simp
qed simp

lemma idle_held:
  "idle_thread r \<Longrightarrow> held r = users (queued (sd_op_queue (sr_sched r))) @ pending (sr_reactor r)"
  "idle_thread r \<Longrightarrow> work r = sd_outstanding_work (sr_sched r)"
  by (simp_all add: idle_thread_def held_def work_def thread_info_make_def)

lemma idle_run: "idle_thread r \<Longrightarrow> r\<lparr>sr_thread := thread_info_make\<rparr> = r"
  by (cases r) (simp add: idle_thread_def)

lemma books_no_work:
  "books 0 r \<Longrightarrow> idle_thread r \<Longrightarrow> sd_outstanding_work (sr_sched r) = 0 \<Longrightarrow> held r = [] \<and> sr_guards r = 0"
  by (cases "held r") (simp_all add: books_def idle_held(2))

lemma shape_tasks: "queue_shape q \<Longrightarrow> filter is_task q = [Task_operation]"
  by (auto simp: queue_shape_def filter_empty_conv)

lemma shape_descriptors:
  assumes "queue_shape q"
  shows "distinct (descriptors (queued q)) \<and> (q = Task_operation # rest \<longrightarrow> descriptors (queued rest) = [])"
proof -
  from assms obtain xs ys where
    "q = map Operation xs @ Task_operation # map Operation ys" "distinct (descriptors xs)" "descriptors ys = []"
    by (auto simp: queue_shape_def)
  with items_append(1) [of xs ys] show ?thesis by (cases xs) (auto simp del: items_append)
qed

section \<open>Properties\<close>

text \<open>
  In every reachable state of the event loop between two turns, the count of
  outstanding work is exactly the number of operations in the queue and in the reactor
  and of work guards, and the private queue and count of the thread are empty.
\<close>

lemma work_count_exact:
  assumes "sched_reachable perform r"
  shows "sd_outstanding_work (sr_sched r) =
      int (length (users (queued (sd_op_queue (sr_sched r)))) + length (pending (sr_reactor r)) + sr_guards r) \<and>
    ti_private_queue (sr_thread r) = [] \<and> ti_private_work (sr_thread r) = 0"
proof -
  have "books 0 r" "idle_thread r" using reachable_facts [OF assms] by simp_all
  moreover from this(2) have "length (held r) =
      length (users (queued (sd_op_queue (sr_sched r)))) + length (pending (sr_reactor r))"
    by (simp add: idle_held(1))
  ultimately show ?thesis by (simp add: books_def idle_held(2) idle_thread_def thread_info_make_def)
qed

text \<open>
  C19: The turns of the loop take the queue in order: after as many turns as the queue
  had items, each of its operations was executed, in order, each descriptor state
  completed at most one operation, and what came meanwhile is behind.
\<close>

theorem loop_turns_in_order:
  assumes "sched_reachable perform r" "sched_turns perform evs r = Some r'"
    "length evs \<le> length (sd_op_queue (sr_sched r))"
  shows "\<exists>ds new. list_all2 turn_done (take (length evs) (sd_op_queue (sr_sched r))) ds \<and>
    sr_done r' = sr_done r @ concat ds \<and>
    sd_op_queue (sr_sched r') = drop (length evs) (sd_op_queue (sr_sched r)) @ new"
  using sched_turns_order [OF _ _ assms(2,3)] reachable_facts [OF assms(1)] by simp

text \<open>
  The reactor stands in the queue of the scheduler exactly once; each descriptor
  state is queued at most once, and none is queued when the reactor is about to run,
  which is what its loop over the events relies on.
\<close>

lemma reactor_runs_alone:
  assumes "sched_reachable perform r"
  shows "filter is_task (sd_op_queue (sr_sched r)) = [Task_operation] \<and>
    distinct (descriptors (queued (sd_op_queue (sr_sched r)))) \<and>
    (sd_op_queue (sr_sched r) = Task_operation # rest \<longrightarrow> descriptors (queued rest) = [])"
  using reachable_facts [OF assms] shape_tasks shape_descriptors by blast

text \<open>
  C18: If run returns although no handler called stop, nothing is left: no operation in
  the queue or in the reactor and no work guard, and every operation that was there or
  was started during the run was executed exactly once.
\<close>

theorem loop_ends_without_work:
  assumes "sched_reachable perform r" "\<not> sd_stopped (sr_sched r)" "list_all no_stop evs"
    and "sched_run perform evs r = Some (n, r')"
  shows "users (queued (sd_op_queue (sr_sched r'))) = [] \<and> pending (sr_reactor r') = [] \<and> sr_guards r' = 0 \<and>
    mset (sr_done r') = mset (sr_done r) + mset (users (queued (sd_op_queue (sr_sched r)))) +
      mset (pending (sr_reactor r)) + mset (concat (map event_operations evs))"
proof -
  have b: "books 0 r" "idle_thread r" using reachable_facts [OF assms(1)] by simp_all
  have "sd_outstanding_work (sr_sched r') = 0 \<and> books 0 r' \<and> idle_thread r' \<and>
      all_operations r' = all_operations r + mset (concat (map event_operations evs))"
  proof (cases "sd_outstanding_work (sr_sched r) = 0")
    case True
    with assms(4) have "evs = []" "r' = r\<lparr>sr_sched := sched_stop (sr_sched r)\<rparr>"
      by (simp_all add: sched_run_def split: if_splits)
    with b True show ?thesis
      by (simp add: books_def idle_thread_def work_def held_def private_ok_def all_operations_def)
  next
    case False
    with assms(4) b have t: "sched_turns perform evs r = Some r'" "sd_stopped (sr_sched r')"
      by (auto simp: sched_run_def idle_run split: option.splits if_splits)
    from sched_turns_effect [OF b t(1)] sched_turns_stopped [OF b t(1) assms(3) _ t(2)] assms(2)
    show ?thesis by simp
  qed
  then have r': "all_operations r' = all_operations r + mset (concat (map event_operations evs))"
      "held r' = []" "sr_guards r' = 0" "idle_thread r'"
    using books_no_work [of r'] by simp_all
  from r'(1) have "mset (sr_done r') = mset (sr_done r) + mset (held r) + mset (concat (map event_operations evs))"
    by (simp add: all_operations_def r'(2))
  with r'(2,3) idle_held(1) [OF r'(4)] idle_held(1) [OF b(2)] show ?thesis by simp
qed

section \<open>A sample run\<close>

text \<open>The first attempt of an operation would block, later ones succeed.\<close>

definition sample_perform :: "nat \<Rightarrow> nat \<Rightarrow> op_status \<times> nat" where
  "sample_perform p w = (if w = 0 then Not_done else Done, w + 1)"

definition sample_calls :: "nat sched_call list" where
  "sample_calls = [Call_register 5 (0, 0), Call_start Read_op (Some 0) 2 False True (0, 0),
     Call_post 1 False, Call_post 3 True]"

definition sample_loop :: "(nat, nat) loop_state" where
  "sample_loop =
     (case make_calls sample_perform False sample_calls (loop_state_make default_hint 0) of
        None \<Rightarrow> loop_state_make default_hint 0 | Some r \<Rightarrow> r)"

lemma reachable_calls:
  "sched_reachable perform r \<Longrightarrow> make_calls perform False cs r = Some r' \<Longrightarrow> sched_reachable perform r'"
  by (induction cs arbitrary: r) (auto split: option.splits intro: sched_outside)

lemma sample_loop_reachable: "sched_reachable sample_perform sample_loop"
  unfolding sample_loop_def
  by (auto simp del: make_calls.simps split: option.split intro: sched_start reachable_calls [OF sched_start])

lemmas sample_defs = sample_calls_def loop_state_make_def reactor_make_def init_task_def scheduler_make_def
  register_descriptor_def allocate_descriptor_state_def er_update_def descriptor_state_make_def valid_data_def
  reactor_start_op_def queue_op_def sample_perform_def on_sched_def post_immediate_completion_def
  thread_info_make_def sched_push_def wake_one_thread_def work_started_def Let_def

lemma sample_loop_fields:
  "sd_op_queue (sr_sched sample_loop) = [Task_operation, Operation (User 1), Operation (User 3)]"
  "sr_done sample_loop = []" "pending (sr_reactor sample_loop) = [2]" "\<not> sd_stopped (sr_sched sample_loop)"
  "sr_thread sample_loop = thread_info_make" "sd_outstanding_work (sr_sched sample_loop) = 3"
  "\<not> sd_one_thread (sr_sched sample_loop)" "er_live (sr_reactor sample_loop) = [0]"
  "sr_world sample_loop = 1" "sr_guards sample_loop = 0"
  "length (er_states (sr_reactor sample_loop)) = 1"
  "ds_queue (er_states (sr_reactor sample_loop) ! 0) = (\<lambda>_. [])(Read_op := [2])"
  by (simp_all add: sample_loop_def sample_defs pending_def ds_operations_def epollin_def epollerr_def
    epollhup_def epollpri_def epollet_def fun_eq_iff)

lemma work_count_exact_witness:
  "sd_outstanding_work (sr_sched sample_loop) = 3 \<and> length (pending (sr_reactor sample_loop)) = 1"
  using work_count_exact [OF sample_loop_reachable] by (simp add: sample_loop_fields)

definition sample_events :: "nat sched_event list" where
  "sample_events = [Poll [(Ptr_state 0, epollin), (Ptr_interrupter, epollin), (Ptr_state 0, epollhup)],
     Handler [Call_post 4 True], Handler [], Handler [], Poll [], Handler []]"

lemmas sample_turn_defs = sched_turn_def max_epoll_events_def task_turn_def reactor_run_def on_sched_def
  task_cleanup_def work_cleanup_def operation_turn_def take_operation_def descriptor_complete_def perform_io_def
  perform_type_def io_cleanup_def er_update_def epollin_def epollerr_def epollhup_def epollout_def epollpri_def
  post_immediate_completion_def thread_info_make_def wake_one_thread_def sched_push_def Let_def
  work_finished_def sched_stop_def stop_all_threads_def sample_perform_def compensating_work_started_def

lemma sample_state:
  "er_states (sr_reactor sample_loop) = [er_states (sr_reactor sample_loop) ! 0]"
  using sample_loop_fields(11) by (cases "er_states (sr_reactor sample_loop)") simp_all

lemma loop_turns_in_order_witness:
  "\<exists>r ds. sched_turns sample_perform (take 3 sample_events) sample_loop = Some r \<and>
    sr_done r = concat ds \<and> list_all2 turn_done [Task_operation, Operation (User 1), Operation (User 3)] ds"
proof -
  obtain r where r: "sched_turns sample_perform (take 3 sample_events) sample_loop = Some r"
    by (simp add: sample_events_def sample_turn_defs sample_loop_fields)
  have "length (take 3 sample_events) = 3" by (simp add: sample_events_def)
  with loop_turns_in_order [OF sample_loop_reachable r] r show ?thesis by (auto simp: sample_loop_fields)
qed

lemma reactor_runs_alone_witness:
  "\<exists>r rest. sched_turn sample_perform (hd sample_events) sample_loop = Some r \<and>
    filter is_task (sd_op_queue (sr_sched r)) = [Task_operation] \<and>
    distinct (descriptors (queued (sd_op_queue (sr_sched r))))"
proof -
  obtain r where r: "sched_turn sample_perform (hd sample_events) sample_loop = Some r"
    by (simp add: sample_events_def sample_turn_defs sample_loop_fields)
  with reactor_runs_alone [OF sched_loop [OF sample_loop_reachable r]] show ?thesis by blast
qed

lemma loop_ends_without_work_witness:
  "\<exists>r. sched_run sample_perform sample_events sample_loop = Some (4, r) \<and> pending (sr_reactor r) = [] \<and>
    mset (sr_done r) = {#1, 2, 3, 4#}"
proof -
  obtain r where r: "sched_run sample_perform sample_events sample_loop = Some (4, r)"
    by (simp add: sched_run_def sample_events_def sample_turn_defs sample_loop_fields)
  from loop_ends_without_work [OF sample_loop_reachable _ _ r] have
    "pending (sr_reactor r) = []" "mset (sr_done r) = {#1, 2, 3, 4#}"
    by (auto simp: sample_loop_fields sample_events_def)
  with r show ?thesis by blast
qed

end
