(* ===== verification/Oef_Main.thy ===== *)
theory Oef_Main
  imports Oef_Server_Facts Oef_Asio_Connect_Facts Oef_Asio_Loop_Facts
begin

text \<open>
  The life of the process: \<open>main\<close> (\<open>apps/node-pluto/src/main.cpp\<close>), the constructor, \<open>run_in_thread\<close>,
  \<open>stop\<close> and the destructor of \<open>CoreServer\<close> (\<open>lib/include/core_server.hpp\<close>,
  \<open>lib/src/core_server.cpp\<close>) over the sockets of \<open>Oef_Asio_Connect\<close> and the event loop of
  \<open>Oef_Asio_Loop\<close>. What the handlers do is the machine of \<open>Oef_Server\<close>; here they are the
  operations of the loop and the calls they make to it.
\<close>

section \<open>The command line\<close>

text \<open>\<open>std::stoi\<close> in the C locale: \<open>strtol\<close> in base 10, then the range of \<open>int\<close>.\<close>

datatype stoi_error = Stoi_invalid_argument | Stoi_out_of_range

definition is_space :: "char \<Rightarrow> bool" where
  "is_space c \<longleftrightarrow> (let n = of_char c :: nat in n = 32 \<or> 9 \<le> n \<and> n \<le> 13)"

definition is_digit :: "char \<Rightarrow> bool" where
  "is_digit c \<longleftrightarrow> (let n = of_char c :: nat in 48 \<le> n \<and> n \<le> 57)"

definition digits_value :: "string \<Rightarrow> nat" where
  "digits_value ds = foldl (\<lambda>n c. 10 * n + (of_char c - 48)) 0 ds"

definition stoi :: "string \<Rightarrow> stoi_error + int" where
  "stoi str =
     (let str = dropWhile is_space str;
          (negative, str) =
            (case str of
               [] \<Rightarrow> (False, [])
             | c # cs \<Rightarrow> if c = CHR ''-'' then (True, cs) else if c = CHR ''+'' then (False, cs) else (False, str));
          ds = takeWhile is_digit str;
          n = int (digits_value ds);
          v = (if negative then - n else n)
      in if ds = [] then Inl Stoi_invalid_argument
         else if v < - (2 ^ 31) \<or> 2 ^ 31 \<le> v then Inl Stoi_out_of_range
         else Inr v)"

section \<open>Configuration\<close>

text \<open>\<open>lib/include/config.hpp\<close>: the defaults of the constructor of \<open>CoreServer\<close>, which \<open>main\<close>
  overrides but for the number of threads and the backlog.\<close>

datatype config_port = Port_ServiceDiscovery | Port_Agents | Port_Search

fun port_number :: "config_port \<Rightarrow> u32" where
  "port_number Port_ServiceDiscovery = 2222"
| "port_number Port_Agents = 3333"
| "port_number Port_Search = 7501"

definition default_ip :: string where "default_ip = ''127.0.0.1''"
definition core_default_backlog :: u32 where "core_default_backlog = 256"
definition core_default_nb_threads :: u32 where "core_default_nb_threads = 4"

section \<open>The core server\<close>

datatype core_op = Op_accept | Op_search_read | Op_session conn | Op_write nat

text \<open>\<open>me_perform\<close>: what performing an operation of the node does; \<open>me_right_to_left\<close>: the order in
  which the compiler evaluates arguments.\<close>

record 'w main_env =
  me_net :: "'w net_env"
  me_stoi_what :: "stoi_error \<Rightarrow> string"
  me_search_stream :: "'w \<Rightarrow> stream"
  me_perform :: "core_op \<Rightarrow> 'w \<Rightarrow> op_status \<times> 'w"
  me_right_to_left :: bool

text \<open>A socket and its state in the reactor: the registration of a new descriptor (its outcome is
  part of opening the socket), the start of an operation that the socket service has prepared
  (\<open>start_op\<close> or \<open>start_accept_op\<close>), and \<open>destroy\<close>.\<close>

definition loop_register :: "service \<Rightarrow> ('u, 'w) loop_state \<Rightarrow> nat option \<times> ('u, 'w) loop_state" where
  "loop_register v r =
     (let (i, _, er) = register_descriptor (im_socket (rv_impl v)) (0, 0) (sr_reactor r)
      in (Some i, r\<lparr>sr_reactor := er\<rparr>))"

definition async_start ::
    "'w main_env \<Rightarrow> core_op \<Rightarrow> nat option \<Rightarrow> op_start \<times> base_impl \<times> 'w \<Rightarrow> (core_op, 'w) loop_state \<Rightarrow>
     base_impl \<times> (core_op, 'w) loop_state" where
  "async_start E p data started r =
     (let (st, im, w) = started
      in (im, case st of
        Reactor_start \<Rightarrow>
          let ((er, sd, ti), w) = reactor_start_op (me_perform E) Read_op data p False True (0, 0) False
                (sr_reactor r, sr_sched r, sr_thread r) w
          in r\<lparr>sr_reactor := er, sr_sched := sd, sr_thread := ti, sr_world := w\<rparr>
      | Immediate ec \<Rightarrow>
          on_sched (post_immediate_completion (User p) False False)
            (r\<lparr>sr_reactor := er_fail [p] ec (sr_reactor r), sr_world := w\<rparr>)))"

definition loop_destroy ::
    "'w posix \<Rightarrow> service \<Rightarrow> nat option \<Rightarrow> ('u, 'w) loop_state \<Rightarrow> ('u, 'w) loop_state" where
  "loop_destroy P v data r =
     (if im_socket (rv_impl v) \<noteq> invalid_socket then
        let (data, er, sd, ti) = deregister_descriptor data False (sr_reactor r, sr_sched r, sr_thread r);
            w = snd (impl_destroy P v (sr_world r));
            (_, er) = cleanup_descriptor_data data er
        in r\<lparr>sr_reactor := er, sr_sched := sd, sr_thread := ti, sr_world := w\<rparr>
      else r)"

text \<open>\<open>close\<close> of a socket and of its state in the reactor.\<close>

definition loop_close ::
    "'w posix \<Rightarrow> service \<Rightarrow> nat option \<Rightarrow> ('u, 'w) loop_state \<Rightarrow>
     asio_ec \<times> service \<times> nat option \<times> ('u, 'w) loop_state" where
  "loop_close P v data r =
     (if is_open (rv_impl v) then
        let (data, er, sd, ti) = deregister_descriptor data False (sr_reactor r, sr_sched r, sr_thread r);
            (ec, v, w) = impl_close P v (sr_world r);
            (data, er) = cleanup_descriptor_data data er
        in (ec, v, data, r\<lparr>sr_reactor := er, sr_sched := sd, sr_thread := ti, sr_world := w\<rparr>)
      else (ec_ok, v\<lparr>rv_impl := impl_construct\<rparr>, data, r))"

text \<open>\<open>~AsioBasicComm\<close>: \<open>disconnect\<close>, then the destructor of the socket. A destructor may not throw, so
  the exception of a failed shutdown or close ends the process: \<open>None\<close>.\<close>

definition basic_comm_destroy ::
    "'w net_env \<Rightarrow> service \<Rightarrow> nat option \<Rightarrow> ('u, 'w) loop_state \<Rightarrow> ('u, 'w) loop_state option" where
  "basic_comm_destroy E v data r =
     (case basic_shutdown E shutdown_both v (sr_world r) of
        (Some e, w) \<Rightarrow> None
      | (None, w) \<Rightarrow>
          let (ec, v, data, r) = loop_close (ne_posix E) v data (r\<lparr>sr_world := w\<rparr>)
          in (case throw_error ec ''close'' of
                Some e \<Rightarrow> None
              | None \<Rightarrow> Some (loop_destroy (ne_posix E) v data r)))"

text \<open>The destructor of \<open>io_context\<close> shuts its services down, the reactor first; the result is the
  operations that are destroyed without being executed.\<close>

definition io_context_destroy :: "('u, 'w) loop_state \<Rightarrow> 'u list \<times> ('u, 'w) loop_state" where
  "io_context_destroy r =
     (let (ps, er) = reactor_shutdown (sr_reactor r);
          (qs, sd) = sched_shutdown (sr_sched r)
      in (ps @ concat (map (\<lambda>i. case i of User p \<Rightarrow> [p] | Descriptor _ \<Rightarrow> []) qs),
          r\<lparr>sr_reactor := er, sr_sched := sd\<rparr>))"

record 'w core =
  co_acceptor :: service
  co_acceptor_data :: "nat option"
  co_search :: "service option"
  co_search_data :: "nat option"
  co_server :: "server option"
  co_loop :: "(core_op, 'w) loop_state"

definition core_stop :: "'w core \<Rightarrow> 'w core" where
  "core_stop c = c\<lparr>co_loop := (co_loop c)\<lparr>sr_sched := sched_stop (sr_sched (co_loop c))\<rparr>\<rparr>"

definition acceptor_default_backlog :: u32 where "acceptor_default_backlog = 256"

text \<open>The constructor. Without a connection to OEF Search there is no search client, and the loop is
  stopped before it starts. The world is that of the loop.\<close>

definition core_make ::
    "'w main_env \<Rightarrow> string \<Rightarrow> string \<Rightarrow> u32 \<Rightarrow> string \<Rightarrow> u32 \<Rightarrow> 'w \<Rightarrow>
     (system_error + 'w core) \<times> string list \<times> 'w" where
  "core_make E core_key core_ip_addr core_port s_ip_addr s_port w =
     (case acceptor_open (me_net E) core_port acceptor_default_backlog w of
        (Inl e, w) \<Rightarrow> (Inl e, [], w)
      | (Inr acceptor, w) \<Rightarrow>
          let (data, loop) = loop_register acceptor (loop_state_make default_hint w);
              c = \<lparr>co_acceptor = acceptor, co_acceptor_data = data, co_search = None, co_search_data = None,
                   co_server = None, co_loop = loop\<rparr>
          in case basic_comm_open (me_net E) s_ip_addr s_port w of
               (Inl e, err, w) \<Rightarrow> (Inr (core_stop (c\<lparr>co_loop := loop\<lparr>sr_world := w\<rparr>\<rparr>)), err, w)
             | (Inr s_comm, err, w) \<Rightarrow>
                 let (s_data, loop) = loop_register s_comm (loop\<lparr>sr_world := w\<rparr>);
                     (im, loop) = async_start E Op_search_read s_data
                       (start_op (ne_posix (me_net E)) False (rv_impl s_comm) w) loop
                 in (Inr (c\<lparr>co_search := Some (s_comm\<lparr>rv_impl := im\<rparr>), co_search_data := s_data,
                         co_server := Some (server_make core_key core_ip_addr core_port (me_search_stream E w)),
                         co_loop := loop\<rparr>), err, sr_world loop))"

text \<open>The constructor with its default arguments.\<close>

definition core_make_default :: "'w main_env \<Rightarrow> 'w \<Rightarrow> (system_error + 'w core) \<times> string list \<times> 'w" where
  "core_make_default E =
     core_make E ''oef-core-pluto'' default_ip (port_number Port_Agents) default_ip (port_number Port_Search)"

text \<open>\<open>run_in_thread\<close> accepts and runs the loop; the events are the turns it takes.\<close>

definition core_start :: "'w main_env \<Rightarrow> 'w core \<Rightarrow> 'w core" where
  "core_start E c =
     (let (im, loop) = async_start E Op_accept (co_acceptor_data c)
            (start_accept_op (ne_posix (me_net E)) False (rv_impl (co_acceptor c)) (sr_world (co_loop c))) (co_loop c)
      in c\<lparr>co_server := map_option server_run_in_thread (co_server c),
           co_acceptor := (co_acceptor c)\<lparr>rv_impl := im\<rparr>, co_loop := loop\<rparr>)"

definition core_run_in_thread ::
    "'w main_env \<Rightarrow> core_op sched_event list \<Rightarrow> 'w core \<Rightarrow> (nat \<times> (core_op, 'w) loop_state) option" where
  "core_run_in_thread E evs c = sched_run (me_perform E) evs (co_loop (core_start E c))"

text \<open>The destructor: stop, clear the directory, then the members in reverse; the search client is the
  only owner of its communicator. The result is the operations that were never executed, or \<open>None\<close>
  if the process is terminated. A session whose operations are still in the loop shares the search
  client, and the communicator is then destroyed with them, after the acceptor.\<close>

definition core_destroy :: "'w main_env \<Rightarrow> 'w core \<Rightarrow> (core_op list \<times> 'w core) option" where
  "core_destroy E c =
     (let c = core_stop c;
          c = c\<lparr>co_server := map_option server_destroy (co_server c)\<rparr>
      in case (case co_search c of None \<Rightarrow> Some (co_loop c)
               | Some v \<Rightarrow> basic_comm_destroy (me_net E) v (co_search_data c) (co_loop c)) of
           None \<Rightarrow> None
         | Some loop \<Rightarrow>
             let (ps, loop) = io_context_destroy
                   (loop_destroy (ne_posix (me_net E)) (co_acceptor c) (co_acceptor_data c) loop)
             in Some (ps, c\<lparr>co_loop := loop\<rparr>))"

section \<open>The program\<close>

definition main_usage :: "string list" where
  "main_usage = [''Usage: node'',
     ''Usage: node <core_key> <core_ip> <core_port> <search_ip> <search_port>'']"

definition main_ports :: "'w main_env \<Rightarrow> string \<Rightarrow> string \<Rightarrow> stoi_error + u32 \<times> u32" where
  "main_ports E core_port search_port =
     (let a = stoi core_port; b = stoi search_port
      in case (if me_right_to_left E then b else a) of
           Inl e \<Rightarrow> Inl e
         | Inr _ \<Rightarrow>
             (case (a, b) of
                (Inr p, Inr s) \<Rightarrow> Inr (word_of_int p, word_of_int s)
              | (Inl e, _) \<Rightarrow> Inl e
              | (_, Inl e) \<Rightarrow> Inl e))"

text \<open>The exit status and what \<open>main\<close> and the constructors write to \<open>std::cerr\<close>; \<open>None\<close> while the
  loop is running. When the loop has ended the server is destroyed; a process that \<open>std::terminate\<close>
  aborts is given the status a shell shows for it.\<close>

definition abort_status :: int where "abort_status = 134"

definition node_main ::
  "'w main_env \<Rightarrow> string list \<Rightarrow> core_op sched_event list \<Rightarrow> 'w \<Rightarrow> (int \<times> string list) option" where
  "node_main E argv evs w =
     (if length argv \<noteq> 6 then Some (1, main_usage)
      else case main_ports E (argv ! 3) (argv ! 5) of
        Inl e \<Rightarrow> Some (0, [''Exception: '' @ me_stoi_what E e])
      | Inr (core_port, s_port) \<Rightarrow>
          (case core_make E (argv ! 1) (argv ! 2) core_port (argv ! 4) s_port w of
             (Inl e, err, w) \<Rightarrow> Some (0, err @ [''Exception: '' @ ne_what (me_net E) e])
           | (Inr c, err, w) \<Rightarrow>
               (case core_run_in_thread E evs c of
                  None \<Rightarrow> None
                | Some (n, loop) \<Rightarrow>
                    Some (if core_destroy E ((core_start E c)\<lparr>co_loop := loop\<rparr>) = None then abort_status else 0, err))))"

end
