(* ===== verification/Oef_Main_Facts.thy ===== *)
theory Oef_Main_Facts
  imports Oef_Main
begin

text \<open>
  Facts about the life of the process: what the command line means, when \<open>main\<close> returns and
  with which status, that the loop does not end while connections are accepted, and that the
  server gives back the descriptors it opened.
\<close>

section \<open>Numbers on the command line\<close>

lemma of_char_digit [simp]: "d < 10 \<Longrightarrow> of_char (digit_char d) = (48 + d :: nat)"
  by (simp add: digit_char_def)

lemma is_digit_char [simp]: "d < 10 \<Longrightarrow> is_digit (digit_char d)"
  by (simp add: is_digit_def)

lemma digit_char_kind [simp]: "d < 10 \<Longrightarrow> \<not> is_space (digit_char d)"
    "d < 10 \<Longrightarrow> digit_char d \<noteq> CHR ''-''" "d < 10 \<Longrightarrow> digit_char d \<noteq> CHR ''+''"
proof -
  assume d: "d < 10"
  have "of_char (digit_char d) \<noteq> (of_char CHR ''-'' :: nat)" "of_char (digit_char d) \<noteq> (of_char CHR ''+'' :: nat)"
    using d by simp_all
  then show "digit_char d \<noteq> CHR ''-''" "digit_char d \<noteq> CHR ''+''" by auto
  show "\<not> is_space (digit_char d)" using d by (simp add: is_space_def)
qed

lemma decimal_digits: "list_all is_digit (decimal n)"
  by (induction n rule: decimal.induct) (subst decimal.simps, simp)

lemma digits_value_append: "digits_value (xs @ [c]) = 10 * digits_value xs + (of_char c - 48)"
  by (simp add: digits_value_def)

lemma digits_value_decimal: "digits_value (decimal n) = n"
proof (induction n rule: decimal.induct)
  case (1 n)
  show ?case
  proof (cases "n < 10")
    case True
    then show ?thesis by (simp add: digits_value_def)
  next
    case False
    with 1 show ?thesis by (simp add: decimal_ten digits_value_append)
  qed
qed

lemma decimal_head: "\<exists>d ds. decimal n = digit_char d # ds \<and> d < 10"
proof (induction n rule: decimal.induct)
  case (1 n)
  show ?case
  proof (cases "n < 10")
    case False
    with 1 obtain d ds where "decimal (n div 10) = digit_char d # ds" "d < 10" by auto
    with False show ?thesis by (auto simp: decimal_ten intro!: exI [of _ d])
  qed auto
qed

text \<open>\<open>stoi\<close> reads what \<open>std::to_string\<close> prints, if it is in the range of \<open>int\<close>.\<close>

lemma stoi_decimal:
  "stoi (decimal n) = (if n < 2 ^ 31 then Inr (int n) else Inl Stoi_out_of_range)"
proof -
  obtain d ds where h: "decimal n = digit_char d # ds" "d < 10" using decimal_head by blast
  then have "dropWhile is_space (decimal n) = decimal n" by simp
  moreover have "takeWhile is_digit ds = ds"
    using decimal_digits [of n] h by (simp add: list_all_iff)
  ultimately show ?thesis
    using h digits_value_decimal [of n] by (simp add: stoi_def Let_def del: takeWhile_eq_all_conv)
qed

lemma stoi_empty: "stoi '''' = Inl Stoi_invalid_argument"
  by (simp add: stoi_def)

text \<open>Only the low 16 bits of the port argument say where the node listens.\<close>

lemma port_narrowed: "ucast (word_of_int (int n) :: u32) = (of_nat (n mod 65536) :: 16 word)"
proof -
  have "unat (ucast (word_of_int (int n) :: u32) :: 16 word) = unat (of_nat (n mod 65536) :: 16 word)"
    by (simp add: unsigned_ucast_eq unsigned_of_int unsigned_of_nat take_bit_eq_mod mod_mod_cancel nat_mod_distrib)
  then show ?thesis by (simp add: word_unat_eq_iff)
qed

section \<open>Starting operations\<close>

lemma register_reachable:
  assumes "loop_register v r = (data, r')" "sched_reachable perform r"
  shows "sched_reachable perform r'"
proof -
  have "make_call perform False (Call_register (im_socket (rv_impl v)) (0, 0)) r = Some r'"
    using assms(1) by (auto simp: loop_register_def Let_def split: prod.splits)
  with assms(2) show ?thesis by (rule sched_outside)
qed

lemma register_held:
  assumes "loop_register v r = (data, r')" "sched_reachable perform r"
  shows "mset (held r') = mset (held r)"
proof -
  have "make_call perform False (Call_register (im_socket (rv_impl v)) (0, 0)) r = Some r'"
    using assms(1) by (auto simp: loop_register_def Let_def split: prod.splits)
  moreover have "pool_ok (sr_reactor r)" using reachable_facts [OF assms(2)] by (simp add: books_def)
  ultimately have "call_effect False (new_operations (Call_register (im_socket (rv_impl v)) (0, 0) :: 'a sched_call)) r r'"
    by (rule make_call_effect)
  then show ?thesis by (simp add: call_effect_def)
qed

lemma register_fields:
  assumes "loop_register v r = (data, r')"
  shows "valid_data data (sr_reactor r')" "set (er_live (sr_reactor r)) \<subseteq> set (er_live (sr_reactor r'))"
    "sd_stopped (sr_sched r') = sd_stopped (sr_sched r)" "sr_world r' = sr_world r"
  using assms
  by (auto simp: loop_register_def register_descriptor_def allocate_descriptor_state_def valid_data_def Let_def
    split: prod.splits list.splits)

text \<open>Operations that wait for their turn, in the queue or in the reactor.\<close>

definition waits :: "'u \<Rightarrow> ('u, 'w) loop_state \<Rightarrow> bool" where
  "waits p r \<longleftrightarrow> p \<in> set (users (queued (sd_op_queue (sr_sched r)))) \<or> p \<in> set (pending (sr_reactor r))"

lemma waits_held: "idle_thread r \<Longrightarrow> waits p r \<longleftrightarrow> p \<in># mset (held r)"
  by (simp add: waits_def idle_held(1))

lemma sched_world_only: "sched_reachable perform r \<Longrightarrow> sched_reachable perform (r\<lparr>sr_world := w\<rparr>)"
  using sched_world [where perform = perform and r = r and ps = "[]" and ec = ec_ok and w = w] by (simp add: er_fail_def)

lemma outside_call:
  assumes "sched_reachable perform r" "make_call perform False c r = Some r'" "new_operations c = [p]"
  shows "sched_reachable perform r' \<and> waits p r' \<and> mset (held r') = mset (held r) + {#p#}"
proof -
  have r: "books 0 r" "idle_thread r" using reachable_facts [OF assms(1)] by simp_all
  then have e: "call_effect False [p] r r'" using make_call_effect [OF assms(2)] assms(3) by (simp add: books_def)
  then have "mset (held r') = mset (held r) + {#p#}" by (simp add: call_effect_def)
  with effect_idle [OF e r(2)] sched_outside [OF assms(1,2)] show ?thesis by (simp add: waits_held)
qed

lemma start_op_live:
  assumes "reactor_start_op perform ot data p c spec ctl in_thread s w = (s', w')"
  shows "er_live (fst s') = er_live (fst s)"
proof (cases data)
  case None
  with assms show ?thesis by (cases s) (auto simp: reactor_start_op_def Let_def)
next
  case (Some i)
  with assms show ?thesis
    by (cases s) (auto simp: reactor_start_op_def queue_op_def Let_def split: prod.splits if_splits)
qed

lemma async_start_effect:
  assumes a: "async_start E p data started r = (im, r')"
    and r: "sched_reachable (me_perform E) r" and v: "valid_data data (sr_reactor r)"
  shows "sched_reachable (me_perform E) r' \<and> waits p r' \<and>
    sd_stopped (sr_sched r') = sd_stopped (sr_sched r) \<and> er_live (sr_reactor r') = er_live (sr_reactor r) \<and>
    mset (held r') = mset (held r) + {#p#}"
proof -
  obtain st im1 w where s: "started = (st, im1, w)" by (metis prod_cases3)
  show ?thesis
  proof (cases st)
    case Reactor_start
    let ?r = "r\<lparr>sr_world := w\<rparr>"
    obtain er sd ti w1 where 1: "reactor_start_op (me_perform E) Read_op data p False True (0, 0) False
        (sr_reactor r, sr_sched r, sr_thread r) w = ((er, sd, ti), w1)" by (metis prod_cases3 surj_pair)
    have r': "r' = r\<lparr>sr_reactor := er, sr_sched := sd, sr_thread := ti, sr_world := w1\<rparr>"
      using a s Reactor_start 1 by (simp add: async_start_def)
    have c: "make_call (me_perform E) False (Call_start Read_op data p False True (0, 0)) ?r = Some r'"
      using v by (simp add: 1 r')
    have "pool_ok (sr_reactor r)" using reachable_facts [OF r] by (simp add: books_def)
    then have "reactor_grows False [p] (sr_reactor r, sr_sched r, sr_thread r) (er, sd, ti)"
      by (intro start_op_grows [OF 1]) (use valid_bound [OF v] in simp)
    from outside_call [OF sched_world_only [OF r] c] reactor_grows_stopped [OF this] start_op_live [OF 1] r'
    show ?thesis by (simp add: held_def)
  next
    case (Immediate ec)
    let ?r = "r\<lparr>sr_reactor := er_fail [p] ec (sr_reactor r), sr_world := w\<rparr>"
    have r': "r' = on_sched (post_immediate_completion (User p) False False) ?r"
      using a s Immediate by (simp add: async_start_def)
    then have "make_call (me_perform E) False (Call_post p False) ?r = Some r'" by simp
    from outside_call [OF sched_world [OF r] this] show ?thesis
      by (simp add: r' on_sched_def post_immediate_completion_def held_def Let_def)
  qed
qed

text \<open>The server after its constructor: the loop, and whether it is stopped.\<close>

lemma core_make_loop:
  assumes "core_make E key ip port s_ip s_port w = (Inr c, err, w')"
  shows "sched_reachable (me_perform E) (co_loop c) \<and> valid_data (co_acceptor_data c) (sr_reactor (co_loop c)) \<and>
    (sd_stopped (sr_sched (co_loop c)) \<longleftrightarrow> co_search c = None) \<and>
    (\<forall>s. co_server c = Some s \<longrightarrow>
       mset (held (co_loop c)) = {#Op_search_read#} \<and> (\<exists>strm. s = server_make key ip port strm))"
proof -
  obtain acc w1 where acc: "acceptor_open (me_net E) port acceptor_default_backlog w = (Inr acc, w1)"
    using assms by (auto simp: core_make_def split: sum.splits prod.splits)
  obtain data r1 where reg: "loop_register acc (loop_state_make default_hint w1 :: (core_op, 'a) loop_state) = (data, r1)"
    by fastforce
  have new: "\<not> sd_stopped (sr_sched (loop_state_make default_hint w1))"
    by (simp add: loop_state_make_def init_task_def scheduler_make_def)
  note reg1 = register_reachable [OF reg sched_start] register_fields [OF reg]
  have none: "held r1 = []"
    using register_held [OF reg sched_start]
    by (simp add: loop_state_make_def init_task_def scheduler_make_def held_def thread_info_make_def reactor_make_def
      pending_def)
  obtain q err1 w2 where comm: "basic_comm_open (me_net E) s_ip s_port w1 = (q, err1, w2)" by (metis prod_cases3)
  show ?thesis
  proof (cases q)
    case (Inl e)
    have c: "c = core_stop \<lparr>co_acceptor = acc, co_acceptor_data = data, co_search = None, co_search_data = None,
        co_server = None, co_loop = r1\<lparr>sr_world := w2\<rparr>\<rparr>"
      using assms acc reg comm Inl by (auto simp: core_make_def Let_def)
    have "make_call (me_perform E) False Call_stop (r1\<lparr>sr_world := w2\<rparr>) =
        Some (r1\<lparr>sr_world := w2, sr_sched := sched_stop (sr_sched r1)\<rparr>)" by simp
    from sched_outside [OF sched_world_only [OF reg1(1)] this] reg1(2) c show ?thesis by (simp add: core_stop_def)
  next
    case (Inr s_comm)
    obtain s_data r2 where reg': "loop_register s_comm (r1\<lparr>sr_world := w2\<rparr>) = (s_data, r2)" by fastforce
    note reg2 = register_reachable [OF reg' sched_world_only [OF reg1(1)]] register_fields [OF reg']
    obtain im r3 where start: "async_start E Op_search_read s_data
        (start_op (ne_posix (me_net E)) False (rv_impl s_comm) w2) r2 = (im, r3)" by fastforce
    have "co_acceptor_data c = data \<and> co_loop c = r3 \<and> co_search c \<noteq> None \<and>
        co_server c = Some (server_make key ip port (me_search_stream E w2))"
      using assms acc reg comm Inr reg' start by (auto simp: core_make_def Let_def)
    moreover have "held (r1\<lparr>sr_world := w2\<rparr>) = []" using none by (simp add: held_def)
    with register_held [OF reg' sched_world_only [OF reg1(1)]] have "held r2 = []" by simp
    ultimately show ?thesis
      using async_start_effect [OF start reg2(1,2)] reg1 reg2(3,4) new
      by (auto simp: valid_data_def split: option.splits)
  qed
qed

section \<open>The loop while connections are accepted\<close>

fun accepts_again ::
    "(core_op \<Rightarrow> 'w \<Rightarrow> op_status \<times> 'w) \<Rightarrow> core_op sched_event list \<Rightarrow> (core_op, 'w) loop_state \<Rightarrow> bool" where
  "accepts_again perform [] r \<longleftrightarrow> True"
| "accepts_again perform (ev # evs) r \<longleftrightarrow>
     (case sched_turn perform ev r of
        None \<Rightarrow> True
      | Some r' \<Rightarrow>
          (Op_accept \<in> set (drop (length (sr_done r)) (sr_done r')) \<longrightarrow> Op_accept \<in> set (event_operations ev)) \<and>
          accepts_again perform evs r')"

lemma waits_work: "books 0 r \<Longrightarrow> idle_thread r \<Longrightarrow> waits p r \<Longrightarrow> sd_outstanding_work (sr_sched r) \<noteq> 0"
  using books_no_work [of r] by (auto simp: waits_held)

text \<open>A turn takes the operation it executes and adds those its handler starts.\<close>

lemma turn_held:
  assumes b: "books 0 r" "idle_thread r" and t: "sched_turn perform ev r = Some r'"
  shows "\<exists>d. sr_done r' = sr_done r @ d \<and> length d \<le> 1 \<and> (d = [] \<longrightarrow> event_operations ev = []) \<and>
    mset d + mset (held r') = mset (held r) + mset (event_operations ev)"
proof -
  from sched_turn_effect [OF b t] obtain i d where
    d: "sr_done r' = sr_done r @ d" "turn_done i d" "d = [] \<longrightarrow> event_operations ev = []"
      "all_operations r' = all_operations r + mset (event_operations ev)" by blast
  have "length d \<le> 1" using d(2) by (cases "(i, d)" rule: turn_done.cases) simp_all
  with d show ?thesis by (auto simp: all_operations_def)
qed

text \<open>An operation that waits still waits after a turn, unless it is executed and not started again.\<close>

lemma sched_turn_waits:
  assumes b: "books 0 r" "idle_thread r" and t: "sched_turn perform ev r = Some r'" and w: "waits p r"
    and again: "p \<in> set (drop (length (sr_done r)) (sr_done r')) \<longrightarrow> p \<in> set (event_operations ev)"
  shows "waits p r'"
proof -
  from turn_held [OF b t] obtain d where
    d: "sr_done r' = sr_done r @ d" "length d \<le> 1"
      "mset d + mset (held r') = mset (held r) + mset (event_operations ev)" by blast
  have i: "idle_thread r'" using sched_turn_effect [OF b t] by blast
  have "count (mset d) p \<le> count (mset (event_operations ev)) p"
    using again d(1,2) by (cases d) (auto simp: Suc_le_eq)
  moreover have "0 < count (mset (held r)) p" using w by (simp add: waits_held [OF b(2)])
  moreover have "count (mset d) p + count (mset (held r')) p =
      count (mset (held r)) p + count (mset (event_operations ev)) p"
    using arg_cong [OF d(3), of "\<lambda>m. count m p"] by simp
  ultimately have "0 < count (mset (held r')) p" by linarith
  then show ?thesis by (simp add: waits_held [OF i])
qed

lemma sched_turns_waits:
  "books 0 r \<and> idle_thread r \<Longrightarrow> sched_turns perform evs r = Some r' \<Longrightarrow> list_all no_stop evs \<Longrightarrow>
   accepts_again perform evs r \<Longrightarrow> waits Op_accept r \<Longrightarrow> \<not> sd_stopped (sr_sched r) \<Longrightarrow>
   waits Op_accept r' \<and> \<not> sd_stopped (sr_sched r')"
proof (induction evs arbitrary: r)
  case (Cons ev evs)
  then obtain r1 where r1: "sched_turn perform ev r = Some r1" "sched_turns perform evs r1 = Some r'"
      "accepts_again perform evs r1"
    "Op_accept \<in> set (drop (length (sr_done r)) (sr_done r1)) \<longrightarrow> Op_accept \<in> set (event_operations ev)"
    by (auto split: option.splits)
  have e: "books 0 r1 \<and> idle_thread r1 \<and>
      (no_stop ev \<longrightarrow> sd_stopped (sr_sched r1) \<longrightarrow> sd_outstanding_work (sr_sched r1) = 0)"
    using sched_turn_effect [OF _ _ r1(1)] Cons.prems(1) by blast
  have w: "waits Op_accept r1" using sched_turn_waits [OF _ _ r1(1) Cons.prems(5) r1(4)] Cons.prems(1) by simp
  have "\<not> sd_stopped (sr_sched r1)" using e waits_work [OF _ _ w] Cons.prems(3) by auto
  with Cons.IH [OF _ r1(2) _ r1(3) w] e Cons.prems(3) show ?case by simp
qed simp

section \<open>Descriptors of the server\<close>

lemma loop_destroy_world:
  "sr_world (loop_destroy P v data r) =
     (if im_socket (rv_impl v) \<noteq> invalid_socket then snd (impl_destroy P v (sr_world r)) else sr_world r)"
  by (auto simp: loop_destroy_def Let_def split: prod.splits)

lemma loop_destroy_destroys: "sr_world (loop_destroy P v data r) = snd (impl_destroy P v (sr_world r))"
  by (simp add: loop_destroy_world impl_destroy_def Let_def)

definition core_owns :: "('w \<Rightarrow> socket_type set) \<Rightarrow> socket_type set \<Rightarrow> 'w core \<Rightarrow> bool" where
  "core_owns opens base c \<longleftrightarrow>
     (\<exists>mid. owns (\<lambda>_. mid) base (co_acceptor c) (sr_world (co_loop c)) \<and>
       (case co_search c of None \<Rightarrow> opens (sr_world (co_loop c)) = mid
        | Some v \<Rightarrow> owns opens mid v (sr_world (co_loop c))))"

lemma start_op_world:
  assumes "reactor_start_op perform ot data p c spec ctl in_thread s w = (s', w')"
  shows "w' = w \<or> w' = snd (perform p w)"
proof (cases data)
  case None
  with assms show ?thesis by (cases s) (auto simp: reactor_start_op_def Let_def)
next
  case (Some i)
  with assms show ?thesis
    by (cases s) (auto simp: reactor_start_op_def Let_def split: prod.splits if_splits)
qed

lemma service_start_opens:
  assumes "ledger N opens" "start_op (ne_posix N) noop im w = (st, im', w')"
  shows "opens w' = opens w"
  using assms ledger.ioctl_law [OF assms(1)]
  by (auto simp: start_op_def set_internal_non_blocking_def split: if_splits prod.splits)

lemma async_start_opens:
  assumes "ledger N opens" "async_start E p data (start_op (ne_posix N) noop im w) r = (im', r')"
    and "\<forall>w. opens (snd (me_perform E p w)) = opens w"
  shows "opens (sr_world r') = opens w \<and> im_socket im' = im_socket im"
proof -
  obtain st im1 w1 where s: "start_op (ne_posix N) noop im w = (st, im1, w1)" by (metis prod_cases3)
  note o = service_start_opens [OF assms(1) s] start_op_socket [OF s]
  show ?thesis
  proof (cases st)
    case Reactor_start
    obtain er sd ti w2 where 1: "reactor_start_op (me_perform E) Read_op data p False True (0, 0) False
        (sr_reactor r, sr_sched r, sr_thread r) w1 = ((er, sd, ti), w2)" by (metis prod_cases3 surj_pair)
    have "w2 = w1 \<or> w2 = snd (me_perform E p w1)" by (rule start_op_world [OF 1])
    with assms(3) o(1) have "opens w2 = opens w" by metis
    moreover have "sr_world r' = w2 \<and> im' = im1"
      using assms(2) by (auto simp: async_start_def s Reactor_start 1)
    ultimately show ?thesis using o(2) by simp
  next
    case (Immediate ec)
    have "sr_world r' = w1 \<and> im' = im1"
      using assms(2)
      by (auto simp: async_start_def s Immediate on_sched_def post_immediate_completion_def Let_def)
    with o show ?thesis by simp
  qed
qed

lemma core_make_owns:
  assumes led: "ledger (me_net E) opens" and read: "\<forall>w. opens (snd (me_perform E Op_search_read w)) = opens w"
    and make: "core_make E key ip port s_ip s_port w = (r, err, w')"
  shows "case r of Inl e \<Rightarrow> opens w' = opens w | Inr c \<Rightarrow> core_owns opens (opens w) c"
proof -
  obtain r1 w1 where 1: "acceptor_open (me_net E) port acceptor_default_backlog w = (r1, w1)"
    by (metis surj_pair)
  note a = ledger.acceptor_open_ledger [OF led 1]
  show ?thesis
  proof (cases r1)
    case (Inl e)
    with make 1 a show ?thesis by (auto simp: core_make_def)
  next
    case (Inr acc)
    obtain q err2 w2 where 2: "basic_comm_open (me_net E) s_ip s_port w1 = (q, err2, w2)"
      by (metis prod_cases3)
    note b = ledger.comm_open_ledger [OF led 2 [unfolded basic_comm_open_def]]
    have acc: "owns (\<lambda>_. opens w1) (opens w) acc w''" for w'' using a Inr by (simp add: owns_def)
    obtain data l1 where reg: "loop_register acc (loop_state_make default_hint w1 :: (core_op, 'a) loop_state) = (data, l1)"
      by fastforce
    show ?thesis
    proof (cases q)
      case (Inl e)
      with make 1 2 b acc \<open>r1 = Inr acc\<close> reg show ?thesis
        by (auto simp: core_make_def core_owns_def core_stop_def Let_def)
    next
      case (Inr s_comm)
      obtain s_data l2 where reg': "loop_register s_comm (l1\<lparr>sr_world := w2\<rparr>) = (s_data, l2)" by fastforce
      obtain im l3 where start: "async_start E Op_search_read s_data
          (start_op (ne_posix (me_net E)) False (rv_impl s_comm) w2) l2 = (im, l3)" by fastforce
      note o = async_start_opens [OF led start read]
      have "owns opens (opens w1) (s_comm\<lparr>rv_impl := im\<rparr>) (sr_world l3)"
        using b Inr o by (simp add: owns_def is_open_def)
      with make 1 2 acc \<open>r1 = Inr acc\<close> reg reg' start Inr show ?thesis
        by (auto simp: core_make_def core_owns_def Let_def intro!: exI [of _ "opens w1"])
    qed
  qed
qed

lemma io_context_destroy_world: "sr_world (snd (io_context_destroy r)) = sr_world r"
  by (simp add: io_context_destroy_def Let_def split: prod.splits)

lemma loop_close_closes:
  "loop_close P v data r = (ec, v', data', r') \<Longrightarrow> impl_close P v (sr_world r) = (ec, v', sr_world r')"
  by (auto simp: loop_close_def impl_close_def Let_def split: if_splits prod.splits)

text \<open>Destroying the communicator is \<open>disconnect\<close>, and if that succeeded the destructor of the socket.\<close>

lemma basic_comm_destroy_disconnects:
  assumes "basic_comm_disconnect E v (sr_world r) = (e, v', w')"
  shows "case e of Some e' \<Rightarrow> basic_comm_destroy E v data r = None
    | None \<Rightarrow> \<exists>r'. basic_comm_destroy E v data r = Some r' \<and> sr_world r' = snd (impl_destroy (ne_posix E) v' w')"
proof -
  obtain e1 w1 where 1: "basic_shutdown E shutdown_both v (sr_world r) = (e1, w1)" by (metis surj_pair)
  obtain ec v2 data2 r2 where 2: "loop_close (ne_posix E) v data (r\<lparr>sr_world := w1\<rparr>) = (ec, v2, data2, r2)"
    by (metis prod_cases4)
  from loop_close_closes [OF 2] assms 1 2 show ?thesis
    by (auto simp: basic_comm_destroy_def basic_comm_disconnect_def basic_close_def loop_destroy_destroys
      split: option.splits)
qed

lemma core_destroy_terminates:
  "core_destroy E c = None \<longleftrightarrow>
     (\<exists>v. co_search c = Some v \<and> fst (basic_comm_disconnect (me_net E) v (sr_world (co_loop c))) \<noteq> None)"
proof (cases "co_search c")
  case None
  then show ?thesis by (simp add: core_destroy_def core_stop_def Let_def split: prod.split)
next
  case (Some v)
  obtain e v' w' where d: "basic_comm_disconnect (me_net E) v (sr_world (co_loop c)) = (e, v', w')"
    by (metis prod_cases3)
  have "basic_comm_disconnect (me_net E) v (sr_world (co_loop (core_stop c))) = (e, v', w')"
    using d by (simp add: core_stop_def)
  from basic_comm_destroy_disconnects [OF this, of "co_search_data c"] d Some show ?thesis
    by (auto simp: core_destroy_def core_stop_def Let_def split: option.splits prod.split)
qed

lemma core_destroy_owns:
  assumes led: "ledger (me_net E) opens" and "core_owns opens base c" and d: "core_destroy E c = Some (ps, c')"
  shows "opens (sr_world (co_loop c')) = base"
proof -
  obtain mid where mid: "owns (\<lambda>_. mid) base (co_acceptor c) (sr_world (co_loop c))"
      "case co_search c of None \<Rightarrow> opens (sr_world (co_loop c)) = mid | Some v \<Rightarrow> owns opens mid v (sr_world (co_loop c))"
    using assms(2) by (auto simp: core_owns_def)
  obtain l where l: "(case co_search c of None \<Rightarrow> Some (co_loop (core_stop c))
      | Some v \<Rightarrow> basic_comm_destroy (me_net E) v (co_search_data c) (co_loop (core_stop c))) = Some l"
      "c' = (core_stop c)\<lparr>co_server := map_option server_destroy (co_server c),
         co_loop := snd (io_context_destroy (loop_destroy (ne_posix (me_net E)) (co_acceptor c) (co_acceptor_data c) l))\<rparr>"
    using d by (auto simp: core_destroy_def core_stop_def Let_def split: option.splits prod.splits)
  have "opens (sr_world l) = mid"
  proof (cases "co_search c")
    case None
    with mid(2) l(1) show ?thesis by (auto simp: core_stop_def)
  next
    case (Some v)
    obtain e v' w' where dis: "basic_comm_disconnect (me_net E) v (sr_world (co_loop (core_stop c))) = (e, v', w')"
      by (metis prod_cases3)
    have "owns opens mid v (sr_world (co_loop (core_stop c)))" using mid(2) Some by (simp add: core_stop_def)
    from ledger.impl_destroy_ledger [OF led ledger.disconnect_ledger [OF led this dis]]
      basic_comm_destroy_disconnects [OF dis, of "co_search_data c"] l(1) Some show ?thesis
      by (auto split: option.splits)
  qed
  with mid(1) have "owns opens base (co_acceptor c) (sr_world l)" by (simp add: owns_def)
  from ledger.impl_destroy_ledger [OF led this] have
    "opens (sr_world (loop_destroy (ne_posix (me_net E)) (co_acceptor c) (co_acceptor_data c) l)) = base"
    by (simp add: loop_destroy_destroys)
  then show ?thesis
    using io_context_destroy_world [of "loop_destroy (ne_posix (me_net E)) (co_acceptor c) (co_acceptor_data c) l"]
    by (simp add: l(2))
qed

section \<open>Properties\<close>

text \<open>
  C30: Whether they succeed or throw, the constructors of the server and of a
  communicator keep the books on descriptors: a failed one leaves none open; destroying
  a communicator that was built gives back all it opened; and so does destroying a
  server that was built, unless shutting down or closing its connection to OEF Search
  fails, which is exactly when the destructor terminates the process instead.
\<close>

theorem descriptors_given_back:
  assumes "ledger (me_net E) opens" "\<forall>w. opens (snd (me_perform E Op_search_read w)) = opens w"
    and "core_make E key ip port s_ip s_port w = (r, err, w')"
    and "asio_comm_open (me_net E) peer peer_port w = (q, err2, w2)"
  shows "(case r of Inl e \<Rightarrow> opens w' = opens w
      | Inr c \<Rightarrow>
          (core_destroy E c = None \<longleftrightarrow>
             (\<exists>v. co_search c = Some v \<and> fst (basic_comm_disconnect (me_net E) v (sr_world (co_loop c))) \<noteq> None)) \<and>
          (\<forall>ps c'. core_destroy E c = Some (ps, c') \<longrightarrow> opens (sr_world (co_loop c')) = opens w)) \<and>
    (case q of Inl e \<Rightarrow> opens w2 = opens w
      | Inr v \<Rightarrow> im_socket (rv_impl v) \<notin> opens w \<and> opens w2 = insert (im_socket (rv_impl v)) (opens w) \<and>
          opens (snd (comm_destroy (me_net E) v w2)) = opens w)"
proof -
  note comm = ledger.comm_open_ledger [OF assms(1) assms(4) [unfolded asio_comm_open_def]]
  from comm core_make_owns [OF assms(1-3)] core_destroy_owns [OF assms(1)] core_destroy_terminates [of E]
    ledger.comm_destroy_ledger [OF assms(1)] show ?thesis
    by (auto simp: owns_def split: sum.splits)
qed

text \<open>A machine on which OEF Search is reachable on port 80 (\<open>fd_env\<close>), or only refuses; nothing can
  be read, and connections can be accepted at the second attempt.\<close>

definition sample_accept :: "core_op \<Rightarrow> fd_world \<Rightarrow> op_status \<times> fd_world" where
  "sample_accept p w =
     (if p \<noteq> Op_accept then (Not_done, w)
      else let (n, fds) = w
           in if n = 6 then (Not_done, (7, fds)) else (Done, (Suc n, insert (int n) fds)))"

definition sample_env :: "bool \<Rightarrow> fd_world main_env" where
  "sample_env reachable =
     \<lparr>me_net = (if reachable then fd_env
               else fd_env\<lparr>ne_getaddrinfo := (\<lambda>host serv hints w. (0, 0, [local_info 1], w))\<rparr>),
      me_stoi_what = (\<lambda>_. ''stoi''), me_search_stream = (\<lambda>_. \<lparr>st_in = [], st_end = 2\<rparr>),
      me_perform = sample_accept, me_right_to_left = False\<rparr>"

lemma sample_ledger: "ledger (me_net (sample_env reachable)) fd_opens"
  using fds.ledger_axioms by (simp add: sample_env_def ledger_def fd_env_def)

lemma sample_acceptor: "acceptor_open (me_net (sample_env reachable)) 3333 256 (3, {}) =
    (Inr \<lparr>rv_impl = \<lparr>im_socket = 3, im_state = stream_oriented\<rparr>, rv_registered = [3]\<rparr>, (4, {3}))"
  by (simp add: acceptor_open_def basic_acceptor_open_def sample_env_def fd_env_def service_open_def
    impl_open_def impl_construct_def socket_make_def socket_socket_def fd_posix_def is_open_def
    invalid_socket_def any_v4_def kind_state_def throw_error_def acceptor_set_reuse_def
    socket_setsockopt_def sol_socket_def so_reuseaddr_def so_linger_def custom_socket_option_level_def
    socket_bind_def socket_listen_def Let_def)

lemma sample_connect: "basic_comm_open (me_net (sample_env True)) ''search'' 7501 (4, {3}) =
    (Inr \<lparr>rv_impl = \<lparr>im_socket = 5, im_state = stream_oriented\<rparr>, rv_registered = [5]\<rparr>, [], (6, {3, 5}))"
  by (simp add: basic_comm_open_def comm_open_def resolve_defs sample_env_def fd_env_def asio_connect_def impl_close_def
    impl_construct_def basic_connect_def service_open_def impl_open_def socket_socket_def fd_posix_def
    is_open_def invalid_socket_def local_endpoint_def kind_state_def sync_connect_def socket_connect_def
    error_wrapper_def throw_error_def socket_close_def socket_make_def deregister_def in_progress_def
    would_block_def try_again_def no_buffer_space_def ec_ok_def ec_failed_def ec_value_def Let_def has_def
    insert_commute insert_Diff_if)

lemma sample_fields [simp]:
  "ne_posix (me_net (sample_env reachable)) = fd_posix" "me_perform (sample_env reachable) = sample_accept"
  "sample_accept Op_search_read w = (Not_done, w)"
  by (simp_all add: sample_env_def fd_env_def sample_accept_def)

text \<open>The server on that machine.\<close>

lemma sample_start: "s \<noteq> invalid_socket \<Longrightarrow> start_op fd_posix False \<lparr>im_socket = s, im_state = stream_oriented\<rparr> w =
    (Reactor_start, \<lparr>im_socket = s, im_state = stream_oriented OR internal_non_blocking\<rparr>, w)"
  by (cases w) (simp add: start_op_def set_internal_non_blocking_def fd_posix_def has_def state_bit_defs
    stream_oriented_def)

lemma sample_sockets: "3 \<noteq> invalid_socket" "5 \<noteq> invalid_socket"
  by (simp_all add: invalid_socket_def)

definition sample_accepting :: "core_op sched_event list" where
  "sample_accepting = [Poll [(Ptr_state 0, epollin)],
     Handler [Call_register 7 (0, 0), Call_start Read_op (Some 2) (Op_session 0) False True (0, 0),
       Call_start Read_op (Some 0) Op_accept False True (0, 0)],
     Poll [(Ptr_state 1, epollin)]]"

lemmas sample_core_defs = core_make_def acceptor_default_backlog_def sample_acceptor sample_connect sample_start
  sample_sockets async_start_def loop_register_def register_descriptor_def allocate_descriptor_state_def
  loop_state_make_def reactor_make_def reactor_start_op_def queue_op_def er_update_def descriptor_state_make_def
  core_start_def start_accept_op_def sample_accept_def sample_accepting_def init_task_def scheduler_make_def
  work_started_def sample_turn_defs epollet_def valid_data_def

lemma sample_accepts:
  "\<exists>c. core_make (sample_env True) ''key'' ''127.0.0.1'' 3333 ''search'' 7501 (3, {}) = (Inr c, [], (6, {3, 5})) \<and>
    co_search c \<noteq> None \<and> (\<forall>v. co_search c = Some v \<longrightarrow> im_socket (rv_impl v) = 5) \<and>
    (\<exists>r. sched_turns sample_accept sample_accepting (co_loop (core_start (sample_env True) c)) = Some r \<and>
       sr_done r = [Op_accept]) \<and>
    accepts_again sample_accept sample_accepting (co_loop (core_start (sample_env True) c))"
  by (simp add: sample_core_defs)

text \<open>There a disconnect succeeds; elsewhere a failed shutdown, as of a connection that the peer has reset,
  terminates the process.\<close>

lemma sample_disconnect: "im_socket (rv_impl v) \<noteq> invalid_socket \<Longrightarrow>
    fst (basic_comm_disconnect (me_net (sample_env reachable)) v w) = None"
  by (cases w) (simp add: basic_comm_disconnect_def basic_shutdown_def basic_close_def socket_shutdown_def
    impl_close_def is_open_def socket_close_def fd_posix_def throw_error_def ec_ok_def ec_failed_def ec_value_def Let_def)

lemma failed_shutdown_terminates:
  assumes "co_search c = Some v" "im_socket (rv_impl v) \<noteq> invalid_socket"
    and "px_shutdown (ne_posix (me_net E)) (im_socket (rv_impl v)) 2 (sr_world (co_loop c)) = (res, errno, w)"
    and "res \<noteq> 0" "errno \<noteq> 0"
  shows "core_destroy E c = None"
  using assms by (simp add: core_destroy_terminates basic_comm_disconnect_def basic_shutdown_def socket_shutdown_def
    shutdown_both_def throw_error_def error_wrapper_def ec_failed_def ec_value_def)

theorem descriptors_given_back_witness:
  "\<exists>c ps c'. core_make (sample_env True) ''key'' ''127.0.0.1'' 3333 ''search'' 7501 (3, {}) = (Inr c, [], (6, {3, 5})) \<and>
    fd_opens (6, {3, 5}) = {3, 5} \<and> core_destroy (sample_env True) c = Some (ps, c') \<and> fd_opens (sr_world (co_loop c')) = {}"
proof -
  obtain c where c: "core_make (sample_env True) ''key'' ''127.0.0.1'' 3333 ''search'' 7501 (3, {}) =
      (Inr c, [], (6, {3, 5}))" "\<forall>v. co_search c = Some v \<longrightarrow> im_socket (rv_impl v) = 5" using sample_accepts by blast
  obtain q err2 w2 where q: "asio_comm_open (me_net (sample_env True)) ''a'' 1 (3, {}) = (q, err2, w2)"
    by (metis prod_cases3)
  have "fd_opens (3, {}) = {}" "fd_opens (6, {3, 5}) = {3, 5}" by (auto simp: fd_opens_def)
  moreover have "fst (basic_comm_disconnect (me_net (sample_env True)) v (sr_world (co_loop c))) = None"
    if "co_search c = Some v" for v
    using that c(2) by (intro sample_disconnect) (simp add: invalid_socket_def)
  ultimately show ?thesis
    using descriptors_given_back [OF sample_ledger _ c(1) q] c(1) by (cases "core_destroy (sample_env True) c") auto
qed

text \<open>
  C31: Once the node was started with a reachable OEF Search, main does not return as
  long as every executed accept starts the next and no handler stops the loop: an accept
  always waits in the queue or in the reactor.
\<close>

theorem node_keeps_running:
  assumes "length argv = 6" "main_ports E (argv ! 3) (argv ! 5) = Inr (core_port, s_port)"
    and make: "core_make E (argv ! 1) (argv ! 2) core_port (argv ! 4) s_port w = (Inr c, err, w')"
    and search: "co_search c \<noteq> None"
    and evs: "list_all no_stop evs" "accepts_again (me_perform E) evs (co_loop (core_start E c))"
  shows "node_main E argv evs w = None \<and>
    (\<forall>r. sched_turns (me_perform E) evs (co_loop (core_start E c)) = Some r \<longrightarrow> waits Op_accept r)"
proof -
  let ?r = "co_loop (core_start E c)"
  note m = core_make_loop [OF make]
  obtain im loop where start: "async_start E Op_accept (co_acceptor_data c)
      (start_accept_op (ne_posix (me_net E)) False (rv_impl (co_acceptor c)) (sr_world (co_loop c))) (co_loop c) =
      (im, loop)" by fastforce
  then have "?r = loop" by (simp add: core_start_def)
  with async_start_effect [OF start] m search have
    r: "sched_reachable (me_perform E) ?r" "waits Op_accept ?r" "\<not> sd_stopped (sr_sched ?r)" by simp_all
  have b: "books 0 ?r \<and> idle_thread ?r" using reachable_facts [OF r(1)] by simp
  have t: "waits Op_accept r \<and> \<not> sd_stopped (sr_sched r)" if "sched_turns (me_perform E) evs ?r = Some r" for r
    using sched_turns_waits [OF b that evs r(2,3)] .
  have "sched_run (me_perform E) evs ?r = None"
    using waits_work [OF _ _ r(2)] b t by (auto simp: sched_run_def idle_run split: option.splits)
  with t assms(1,2) make show ?thesis by (simp add: node_main_def core_run_in_thread_def)
qed

lemma sample_ports: "main_ports (sample_env reachable) ''3333'' ''7501'' = Inr (3333, 7501)"
  by (simp add: main_ports_def stoi_def is_digit_def is_space_def digits_value_def sample_env_def)

lemma node_keeps_running_witness:
  "node_main (sample_env True) [''node'', ''key'', ''127.0.0.1'', ''3333'', ''search'', ''7501''] sample_accepting
     (3, {}) = None"
proof -
  obtain c where c: "core_make (sample_env True) ''key'' ''127.0.0.1'' 3333 ''search'' 7501 (3, {}) =
      (Inr c, [], (6, {3, 5}))" "co_search c \<noteq> None"
      "accepts_again sample_accept sample_accepting (co_loop (core_start (sample_env True) c))"
    using sample_accepts by blast
  have "list_all no_stop sample_accepting" by (simp add: sample_accepting_def)
  with node_keeps_running [of "[''node'', ''key'', ''127.0.0.1'', ''3333'', ''search'', ''7501'']" "sample_env True"
      3333 7501 "(3, {})" c "[]" "(6, {3, 5})" sample_accepting] c sample_ports
  show ?thesis by simp
qed

text \<open>
  C32: When the node cannot start it exits: with the usage and status 1 for the wrong
  number of arguments, and with one message and status 0 for a port that is no number, a
  port that cannot be bound, or an OEF Search that cannot be reached.
\<close>

theorem failures_to_start_exit:
  "(length argv \<noteq> 6 \<longrightarrow> node_main E argv evs w = Some (1, main_usage)) \<and>
   (length argv = 6 \<longrightarrow>
     (\<forall>e. main_ports E (argv ! 3) (argv ! 5) = Inl e \<longrightarrow>
        node_main E argv evs w = Some (0, [''Exception: '' @ me_stoi_what E e])) \<and>
     (\<forall>p s. main_ports E (argv ! 3) (argv ! 5) = Inr (p, s) \<longrightarrow>
        (\<forall>e w1. acceptor_open (me_net E) p 256 w = (Inl e, w1) \<longrightarrow>
           node_main E argv evs w = Some (0, [''Exception: '' @ ne_what (me_net E) e])) \<and>
        (\<forall>acc w1 e err w2. acceptor_open (me_net E) p 256 w = (Inr acc, w1) \<and>
           basic_comm_open (me_net E) (argv ! 4) s w1 = (Inl e, err, w2) \<longrightarrow>
           length err = 1 \<and> node_main E argv evs w = (if evs = [] then Some (0, err) else None))))"
proof -
  have comm: "length err = 1" if "basic_comm_open (me_net E) ip s w1 = (Inl e, err, w2)" for ip s w1 e err w2
    using that by (auto simp: basic_comm_open_def comm_open_def Let_def split: prod.splits sum.splits option.splits)
  have loop: "node_main E argv evs w = (if evs = [] then Some (0, err) else None)"
    if asm: "length argv = 6" "main_ports E (argv ! 3) (argv ! 5) = Inr (p, s)"
      "acceptor_open (me_net E) p 256 w = (Inr acc, w1)"
      "basic_comm_open (me_net E) (argv ! 4) s w1 = (Inl e, err, w2)" for p s acc w1 e err w2
  proof -
    obtain data l1 where reg: "loop_register acc (loop_state_make default_hint w1 :: (core_op, 'a) loop_state) = (data, l1)"
      by fastforce
    obtain c where c: "core_make E (argv ! 1) (argv ! 2) p (argv ! 4) s w = (Inr c, err, w2)" "co_search c = None"
      using asm(3,4) reg by (auto simp: core_make_def acceptor_default_backlog_def core_stop_def Let_def)
    note m = core_make_loop [OF c(1)]
    obtain im r where start: "async_start E Op_accept (co_acceptor_data c)
        (start_accept_op (ne_posix (me_net E)) False (rv_impl (co_acceptor c)) (sr_world (co_loop c))) (co_loop c) =
        (im, r)" by fastforce
    with async_start_effect [OF start] m c(2) have
      r: "sched_reachable (me_perform E) r" "waits Op_accept r" "sd_stopped (sr_sched r)" by simp_all
    have "sched_run (me_perform E) evs r = (if evs = [] then Some (0, r) else None)"
      using waits_work [OF _ _ r(2)] reachable_facts [OF r(1)] r(3)
      by (cases evs) (auto simp: sched_run_def idle_run sched_turn_def)
    with c start asm(1,2) show ?thesis
      by (simp add: node_main_def core_run_in_thread_def core_start_def core_destroy_terminates)
  qed
  show ?thesis
    using comm loop by (auto simp: node_main_def core_make_def acceptor_default_backlog_def)
qed

lemma failures_to_start_exit_witness:
  "node_main (sample_env False) [''node'', ''key'', ''127.0.0.1'', ''3333'', ''search'', ''7501''] [] (3, {}) =
     Some (0, [''AsioBasicComm::AsioBasicComm: error connecting to search:'' @ decimal 7501 @ '' : connect''])"
proof -
  have "basic_comm_open (me_net (sample_env False)) ''search'' 7501 (4, {3}) =
      (Inl (System_failure (System_error 111) ''connect''),
       [''AsioBasicComm::AsioBasicComm: error connecting to search:'' @ decimal 7501 @ '' : connect''], (5, {3}))"
    by (simp add: basic_comm_open_def comm_open_def resolve_defs sample_env_def fd_env_def asio_connect_def impl_close_def
      impl_construct_def basic_connect_def service_open_def impl_open_def socket_socket_def fd_posix_def
      is_open_def invalid_socket_def local_endpoint_def kind_state_def sync_connect_def socket_connect_def
      error_wrapper_def throw_error_def socket_close_def socket_make_def deregister_def in_progress_def
      would_block_def try_again_def no_buffer_space_def ec_ok_def ec_failed_def ec_value_def Let_def has_def
      impl_destroy_def insert_Diff_if)
  with failures_to_start_exit [of "[''node'', ''key'', ''127.0.0.1'', ''3333'', ''search'', ''7501'']"
      "sample_env False" "[]" "(3, {})"] sample_ports [of False] sample_acceptor [of False]
  show ?thesis by simp
qed

end
