(* ===== verification/Oef_Node.thy ===== *)
theory Oef_Node
  imports Oef_Main_Facts
begin

text \<open>
  The running node: the machine of \<open>Oef_Server\<close> (what the handlers do to the state of the node)
  and the event loop of \<open>Oef_Asio_Loop\<close> (when they run) together. A turn of the loop that
  executes an operation runs the handler of that operation; the operations the handler starts
  are those of the code (\<open>lib/src/core_server.cpp\<close>, \<open>lib/src/agent_session.cpp\<close>,
  \<open>lib/include/oef_search_client.hpp\<close>).

  A receive or send of a communicator is a composed operation, which the loop executes in one
  or more parts: after all but the last it starts itself again. Writes are not counted: a
  handler may start any number of them.
\<close>

section \<open>What a handler starts\<close>

fun is_write :: "core_op \<Rightarrow> bool" where
  "is_write (Op_write k) \<longleftrightarrow> True"
| "is_write _ \<longleftrightarrow> False"

definition reads :: "core_op list \<Rightarrow> core_op list" where
  "reads ps = filter (\<lambda>p. \<not> is_write p) ps"

text \<open>The accepts and receives that the handler of an event starts, in the order of the code.\<close>

fun handler_reads :: "node_env \<Rightarrow> server \<Rightarrow> server_event \<Rightarrow> core_op list" where
  "handler_reads N s (SE_Accept ec) = (if failed ec then [] else [Op_session (sv_next s), Op_accept])"
| "handler_reads N s (SE_Receive c ec buf) =
     (if failed ec then []
      else case conn_of s c of
        Some CS_AwaitId \<Rightarrow>
          if dir_exist (nd_dir (sv_node s)) (id_public_key (pbs_deserialize (ne_get_id N) buf)) then []
          else [Op_session c]
      | Some (CS_AwaitAnswer k) \<Rightarrow> if fst (dir_add k c (nd_dir (sv_node s))) then [Op_session c] else []
      | Some CS_Reading \<Rightarrow> [Op_session c]
      | _ \<Rightarrow> [])"
| "handler_reads N s (SE_Forwarded i ec n) = []"
| "handler_reads N s (SE_SearchWritten i ec n) = []"
| "handler_reads N s SE_SearchMessage =
     (case node_search_event N CE_Message (sv_node s) of
        Some nd \<Rightarrow> if sc_listening (nd_search nd) then [Op_search_read] else []
      | None \<Rightarrow> [])"

text \<open>Which operation an event is the completion of.\<close>

fun completes :: "core_op \<Rightarrow> server_event \<Rightarrow> bool" where
  "completes Op_accept (SE_Accept ec) \<longleftrightarrow> True"
| "completes (Op_session c) (SE_Receive d ec buf) \<longleftrightarrow> c = d"
| "completes Op_search_read SE_SearchMessage \<longleftrightarrow> True"
| "completes (Op_write k) (SE_Forwarded i ec n) \<longleftrightarrow> True"
| "completes (Op_write k) (SE_SearchWritten i ec n) \<longleftrightarrow> True"
| "completes _ _ \<longleftrightarrow> False"

section \<open>The machine\<close>

type_synonym 'w node_run = "server \<times> (core_op, 'w) loop_state"

text \<open>A turn without a completed operation, a part of a composed operation, the end of a write
  whose handler does nothing, an event of the node, and the world going on. No handler of the
  node stops the loop.\<close>

inductive run_step :: "node_env \<Rightarrow> (core_op \<Rightarrow> 'w \<Rightarrow> op_status \<times> 'w) \<Rightarrow> 'w node_run \<Rightarrow> 'w node_run \<Rightarrow> bool"
  for N :: node_env and perform :: "core_op \<Rightarrow> 'w \<Rightarrow> op_status \<times> 'w" where
  run_idle: "sched_turn perform ev r = Some r' \<Longrightarrow> sr_done r' = sr_done r \<Longrightarrow> no_stop ev \<Longrightarrow>
    run_step N perform (s, r) (s, r')"
| run_part: "sched_turn perform ev r = Some r' \<Longrightarrow> sr_done r' = sr_done r @ [p] \<Longrightarrow> p \<noteq> Op_accept \<Longrightarrow>
    event_operations ev = [p] \<Longrightarrow> no_stop ev \<Longrightarrow> run_step N perform (s, r) (s, r')"
| run_written: "sched_turn perform ev r = Some r' \<Longrightarrow> sr_done r' = sr_done r @ [Op_write k] \<Longrightarrow>
    event_operations ev = [] \<Longrightarrow> no_stop ev \<Longrightarrow> run_step N perform (s, r) (s, r')"
| run_handler: "sched_turn perform ev r = Some r' \<Longrightarrow> sr_done r' = sr_done r @ [p] \<Longrightarrow> completes p e \<Longrightarrow>
    server_step N s e s' \<Longrightarrow> reads (event_operations ev) = handler_reads N s e \<Longrightarrow> no_stop ev \<Longrightarrow>
    run_step N perform (s, r) (s', r')"
| run_world: "run_step N perform (s, r) (s, r\<lparr>sr_world := w\<rparr>)"

text \<open>The states of a node that \<open>main\<close> has started.\<close>

inductive node_reachable :: "node_env \<Rightarrow> 'w main_env \<Rightarrow> 'w node_run \<Rightarrow> bool"
  for N :: node_env and E :: "'w main_env" where
  node_start: "core_make E key ip port s_ip s_port w = (Inr c, err, w') \<Longrightarrow>
    co_server (core_start E c) = Some s \<Longrightarrow> node_reachable N E (s, co_loop (core_start E c))"
| node_turn: "node_reachable N E x \<Longrightarrow> run_step N (me_perform E) x y \<Longrightarrow> node_reachable N E y"

section \<open>What the node waits for\<close>

fun awaited :: "server \<Rightarrow> core_op \<Rightarrow> nat" where
  "awaited s Op_accept = sv_accepts s"
| "awaited s (Op_session c) = (if conn_of s c \<in> {None, Some CS_Closed} then 0 else 1)"
| "awaited s Op_search_read = (if sc_listening (nd_search (sv_node s)) then 1 else 0)"
| "awaited s (Op_write k) = 0"

end
