(* ===== verification/Oef_Node_Facts.thy ===== *)
theory Oef_Node_Facts
  imports Oef_Node
begin

text \<open>
  Facts about the running node: at every moment the operations in the event loop are, writes
  aside, exactly those the node waits for, so the loop ends by itself only when the node waits
  for nothing; a run of the node is a run of the machine of \<open>Oef_Server\<close>.
\<close>

section \<open>What a completion changes\<close>

lemma session_listening:
  "sc_listening (nd_search (process_envelope N c env nd)) = sc_listening (nd_search nd)"
  by (simp add: process_envelope_def session_request_defs operation_frames send_defs
      set_description_def Let_def split: pb_envelope_payload.split option.split)

lemma answers_listening:
  "sc_listening (nd_search (answer_calls calls nd)) = sc_listening (nd_search nd)"
proof (induction calls nd rule: answer_calls.induct)
  case (2 k ec r calls nd)
  then show ?case
    by (cases k) (simp_all add: send_defs set_description_def)
qed simp_all

lemma forward_listening:
  "sc_listening (nd_search (forward_completed i ec n nd)) = sc_listening (nd_search nd)"
  by (simp add: forward_completed_def comm_send_async_def forward_written_def send_defs Let_def)

lemma written_listening:
  "client_step E (CE_Written i ec n) cl = Some (cl', calls) \<Longrightarrow> sc_listening cl' = sc_listening cl"
  by (auto simp: write_completed_def schedule_rcv_callback_def msg_handle_save_def basic_send_async_def Let_def
      split: if_splits option.splits prod.splits)

text \<open>A completion takes the operation it completes from what the node waits for and adds what
  its handler starts.\<close>

lemma step_awaited:
  assumes "server_step N s e s'" "server_inv s" "\<not> is_write p"
  shows "awaited s' p + (if completes p e then 1 else 0) = awaited s p + count (mset (handler_reads N s e)) p"
  using assms
proof (induction rule: server_step.induct)
  case (step_accept s N ec)
  have new: "conn_of s (sv_next s) = None" using server_invD(7) [OF step_accept.prems(1)] by simp
  show ?case
  proof (cases p)
    case Op_accept
    with step_accept show ?thesis
      by (simp add: acceptor_completed_def accept_continuation_def do_accept_def new_session_def set_conn_def)
  next
    case (Op_session c)
    with new show ?thesis
      by (simp add: acceptor_completed_def accept_continuation_def do_accept_def new_session_def set_conn_def)
  next
    case Op_search_read
    then show ?thesis
      by (simp add: acceptor_completed_def accept_continuation_def do_accept_def new_session_def set_conn_def)
  qed (use step_accept in simp)
next
  case (step_id s c N ec buf)
  then show ?case
    by (cases p) (simp_all add: id_received_def set_conn_def secret_handshake_def server_send_def comm_send_def Let_def)
next
  case (step_answer s c k N ec buf)
  then show ?case
    by (cases p) (auto simp: answer_received_def set_conn_def server_send_def comm_send_def Let_def
      split: prod.split)
next
  case (step_message s c N ec buf)
  then show ?case
    by (cases p) (simp_all add: message_received_def session_read_def session_process_def session_listening
      set_conn_def send_defs Let_def split: prod.split)
next
  case (step_forwarded i s N ec n)
  then show ?case by (cases p) (simp_all add: forward_listening)
next
  case (step_search_written i s N ec n nd)
  then show ?case
    by (cases p) (auto simp: node_search_event_def answers_listening simp del: client_step.simps
      dest: written_listening split: option.splits)
next
  case (step_search_message s N nd)
  then show ?case by (cases p) simp_all
qed

section \<open>Runs\<close>

definition run_inv :: "node_env \<Rightarrow> 'w main_env \<Rightarrow> 'w node_run \<Rightarrow> bool" where
  "run_inv N E x \<longleftrightarrow>
     (case x of (s, r) \<Rightarrow> sched_reachable (me_perform E) r \<and> server_reachable N s \<and>
        (\<forall>p. \<not> is_write p \<longrightarrow> count (mset (held r)) p = awaited s p) \<and>
        (sd_stopped (sr_sched r) \<longrightarrow> sd_outstanding_work (sr_sched r) = 0))"

lemma count_reads: "\<not> is_write p \<Longrightarrow> count (mset (reads ps)) p = count (mset ps) p"
  by (simp add: reads_def)

text \<open>A turn that executes \<open>d\<close>, told by the counts of the operations that are no writes.\<close>

lemma turn_counts:
  assumes "sched_reachable perform r" "sched_turn perform ev r = Some r'" "sr_done r' = sr_done r @ d"
  shows "sched_reachable perform r'" "d = [] \<Longrightarrow> event_operations ev = []"
    "count (mset d) p + count (mset (held r')) p = count (mset (held r)) p + count (mset (event_operations ev)) p"
    "no_stop ev \<Longrightarrow> sd_stopped (sr_sched r') \<longrightarrow> sd_outstanding_work (sr_sched r') = 0"
proof -
  have b: "books 0 r" "idle_thread r" using reachable_facts [OF assms(1)] by simp_all
  from turn_held [OF b assms(2)] assms(3) have
    h: "mset d + mset (held r') = mset (held r) + mset (event_operations ev)" and
    n: "d = [] \<longrightarrow> event_operations ev = []" by auto
  show "sched_reachable perform r'" by (rule sched_loop [OF assms(1,2)])
  show "event_operations ev = []" if "d = []" using n that by simp
  show "count (mset d) p + count (mset (held r')) p = count (mset (held r)) p + count (mset (event_operations ev)) p"
    using arg_cong [OF h, of "\<lambda>m. count m p"] by simp
  show "sd_stopped (sr_sched r') \<longrightarrow> sd_outstanding_work (sr_sched r') = 0" if "no_stop ev"
    using sched_turn_effect [OF b assms(2)] that by blast
qed

lemma run_inv_step: "run_step N (me_perform E) x y \<Longrightarrow> run_inv N E x \<Longrightarrow> run_inv N E y"
proof (induction rule: run_step.induct)
  case (run_idle ev r r' s)
  then have "sr_done r' = sr_done r @ []" by simp
  note t = turn_counts [OF _ run_idle(1) this]
  from run_idle(3,4) t t(2) show ?case by (auto simp: run_inv_def)
next
  case (run_part ev r r' p s)
  note t = turn_counts [OF _ run_part(1,2)]
  from run_part(4-6) t show ?case by (auto simp: run_inv_def)
next
  case (run_written ev r r' k s)
  note t = turn_counts [OF _ run_written(1,2)]
  have "count (mset (held r')) p = count (mset (held r)) p" if "\<not> is_write p" for p
    using run_written(3,5) t(3) [of p] that by (cases p) (auto simp: run_inv_def)
  with run_written(4,5) t(1,4) show ?case by (auto simp: run_inv_def)
next
  case (run_handler ev r r' p e s s')
  have i: "sched_reachable (me_perform E) r" "server_reachable N s"
    "\<And>q. \<not> is_write q \<Longrightarrow> count (mset (held r)) q = awaited s q"
    using run_handler(7) by (simp_all add: run_inv_def)
  note t = turn_counts [OF i(1) run_handler(1,2)]
  have "count (mset (held r')) q = awaited s' q" if q: "\<not> is_write q" for q
  proof -
    have "completes q e \<longleftrightarrow> q = p"
      using run_handler(3) q by (cases "(p, e)" rule: completes.cases) (cases q; auto)+
    with step_awaited [OF run_handler(4) server_inv_reachable [OF i(2)] q] t(3) [of q] i(3) [OF q]
      count_reads [OF q, of "event_operations ev"] run_handler(5)
    show ?thesis by (auto split: if_splits)
  qed
  with t(1) t(4) [OF run_handler(6)] server_reachable_step [OF i(2) run_handler(4)] show ?case by (simp add: run_inv_def)
next
  case (run_world s r w)
  then show ?case by (auto simp: run_inv_def held_def intro: sched_world_only)
qed

lemma run_inv_start:
  assumes "core_make E key ip port s_ip s_port w = (Inr c, err, w')" "co_server (core_start E c) = Some s"
  shows "run_inv N E (s, co_loop (core_start E c))"
proof -
  note m = core_make_loop [OF assms(1)]
  obtain im loop where start: "async_start E Op_accept (co_acceptor_data c)
      (start_accept_op (ne_posix (me_net E)) False (rv_impl (co_acceptor c)) (sr_world (co_loop c))) (co_loop c) =
      (im, loop)" by fastforce
  then have l: "co_loop (core_start E c) = loop" "co_server (core_start E c) = map_option server_run_in_thread (co_server c)"
    by (simp_all add: core_start_def)
  with assms(2) m obtain strm where
    s: "s = server_run_in_thread (server_make key ip port strm)" "mset (held (co_loop c)) = {#Op_search_read#}" by auto
  have "s = server_run 1 (server_make key ip port strm)"
    by (simp add: s(1) server_run_def server_run_in_thread_def)
  then have "server_reachable N s" unfolding server_reachable_def using steps_nil by blast
  moreover have "sched_reachable (me_perform E) loop" "mset (held loop) = {#Op_search_read, Op_accept#}"
    using async_start_effect [OF start] m s(2) by simp_all
  moreover have "count {#Op_search_read, Op_accept#} p = awaited s p" for p
    by (cases p) (simp_all add: s(1) server_run_in_thread_def do_accept_def server_make_def search_client_make_def)
  moreover have "\<not> sd_stopped (sr_sched loop)"
  proof -
    have "co_search c \<noteq> None"
      using assms l(2) by (auto simp: core_make_def core_stop_def Let_def split: sum.splits prod.splits)
    with async_start_effect [OF start] m show ?thesis by simp
  qed
  ultimately show ?thesis by (simp add: run_inv_def l)
qed

lemma node_reachable_inv: "node_reachable N E x \<Longrightarrow> run_inv N E x"
  by (induction rule: node_reachable.induct) (auto intro: run_inv_start run_inv_step)

section \<open>Properties\<close>

text \<open>
  C17: In every run of the node from main on, handlers and event loop together, the run
  is one of the server machine, and at every moment the operations in the loop are,
  writes aside, exactly those the node waits for: one accept per accept in progress, one
  receive per connection that is not closed, and the receive of the search client while
  it listens. So the loop stops only when the node waits for nothing.
\<close>

theorem loop_holds_what_node_awaits:
  assumes "node_reachable N E (s, r)"
  shows "server_reachable N s \<and>
    (\<forall>p. \<not> is_write p \<longrightarrow>
       count (mset (users (queued (sd_op_queue (sr_sched r))) @ pending (sr_reactor r))) p = awaited s p) \<and>
    (sd_stopped (sr_sched r) \<or> sd_outstanding_work (sr_sched r) = 0 \<longrightarrow>
       sv_accepts s = 0 \<and> \<not> sc_listening (nd_search (sv_node s)) \<and>
       (\<forall>c. conn_of s c \<in> {None, Some CS_Closed}))"
proof -
  have i: "sched_reachable (me_perform E) r" "server_reachable N s"
      "\<And>p. \<not> is_write p \<Longrightarrow> count (mset (held r)) p = awaited s p"
      "sd_stopped (sr_sched r) \<longrightarrow> sd_outstanding_work (sr_sched r) = 0"
    using node_reachable_inv [OF assms] by (simp_all add: run_inv_def)
  have b: "books 0 r" "idle_thread r" using reachable_facts [OF i(1)] by simp_all
  have "sv_accepts s = 0 \<and> \<not> sc_listening (nd_search (sv_node s)) \<and> conn_of s c \<in> {None, Some CS_Closed}"
    if "sd_stopped (sr_sched r) \<or> sd_outstanding_work (sr_sched r) = 0" for c
  proof -
    have "held r = []" using books_no_work [OF b] that i(4) by blast
    with i(3) [of Op_accept] i(3) [of Op_search_read] i(3) [of "Op_session c"] show ?thesis
      by (simp split: if_splits)
  qed
  with i(2,3) show ?thesis by (simp add: idle_held(1) [OF b(2)])
qed

lemma sample_run:
  "\<exists>c r1 r2 s. core_make (sample_env True) ''key'' ''127.0.0.1'' 3333 ''search'' 7501 (3, {}) = (Inr c, [], (6, {3, 5})) \<and>
    co_server (core_start (sample_env True) c) = Some s \<and> sv_accepts s = 1 \<and> sv_next s = 0 \<and>
    sr_done (co_loop (core_start (sample_env True) c)) = [] \<and>
    sched_turn sample_accept (sample_accepting ! 0) (co_loop (core_start (sample_env True) c)) = Some r1 \<and> sr_done r1 = [] \<and>
    sched_turn sample_accept (sample_accepting ! 1) r1 = Some r2 \<and> sr_done r2 = [Op_accept]"
  by (simp add: sample_core_defs server_run_in_thread_def do_accept_def server_make_def)

lemma loop_holds_what_node_awaits_witness:
  "\<exists>s r. node_reachable example_node_env (sample_env True) (s, r) \<and> conn_of s 0 = Some CS_AwaitId \<and>
    count (mset (users (queued (sd_op_queue (sr_sched r))) @ pending (sr_reactor r))) (Op_session 0) = 1"
proof -
  let ?N = example_node_env
  obtain c r1 r2 s where c: "core_make (sample_env True) ''key'' ''127.0.0.1'' 3333 ''search'' 7501 (3, {}) =
      (Inr c, [], (6, {3, 5}))" "co_server (core_start (sample_env True) c) = Some s" "sv_accepts s = 1" "sv_next s = 0"
    and r: "sr_done (co_loop (core_start (sample_env True) c)) = []"
      "sched_turn sample_accept (sample_accepting ! 0) (co_loop (core_start (sample_env True) c)) = Some r1"
      "sr_done r1 = []" "sched_turn sample_accept (sample_accepting ! 1) r1 = Some r2" "sr_done r2 = [Op_accept]"
    using sample_run by blast
  let ?s = "acceptor_completed accept_continuation No_error (s\<lparr>sv_accepts := sv_accepts s - 1\<rparr>)"
  have "run_step ?N sample_accept (s, co_loop (core_start (sample_env True) c)) (s, r1)"
    by (rule run_idle [OF r(2)]) (simp_all add: r(1,3) sample_accepting_def)
  then have "node_reachable ?N (sample_env True) (s, r1)"
    using node_turn [OF node_start [OF c(1,2)]] by simp
  moreover have step: "server_step ?N s (SE_Accept No_error) ?s" by (rule step_accept) (simp add: c(3))
  have "run_step ?N sample_accept (s, r1) (?s, r2)"
    by (rule run_handler [OF r(4) _ _ step, where p = Op_accept])
      (simp_all add: r(3,5) c(4) reads_def sample_accepting_def)
  then have "run_step ?N (me_perform (sample_env True)) (s, r1) (?s, r2)" by simp
  ultimately have n: "node_reachable ?N (sample_env True) (?s, r2)" by (rule node_turn)
  have s: "conn_of ?s 0 = Some CS_AwaitId"
    using c(4) by (simp add: acceptor_completed_def accept_continuation_def do_accept_def new_session_def set_conn_def)
  with loop_holds_what_node_awaits [OF n] have
    "count (mset (users (queued (sd_op_queue (sr_sched r2))) @ pending (sr_reactor r2))) (Op_session 0) = 1" by simp
  with n s show ?thesis by blast
qed

end
