(* ===== verification/Oef_Asio_Buffers.thy ===== *)
theory Oef_Asio_Buffers
  imports Oef_Prelude
begin

text \<open>
  Buffer sequences and the part of them that an operation has not transferred yet:
  \<open>3rd/asio/asio/buffer.hpp\<close> and \<open>3rd/asio/asio/detail/consuming_buffers.hpp\<close>.

  A buffer is the list of its cells, one for each byte of its memory range: a
  \<open>const_buffer\<close> the bytes it holds, a \<open>mutable_buffer\<close> the addresses it covers. Sizes are
  natural numbers: a buffer lies in memory, so that no sum of sizes here exceeds the range
  of \<open>std::size_t\<close>.

  The three classes that \<open>asio::read\<close> and \<open>asio::write\<close> use to consume a sequence (the
  general one, the one for a single buffer and the one for an array of two) satisfy one
  contract, the locale \<open>consuming\<close>: what is left of the sequence is what is left of the
  concatenation of its buffers.
\<close>

section \<open>Buffers\<close>

definition buf_plus :: "'a list \<Rightarrow> nat \<Rightarrow> 'a list" where
  "buf_plus b n = (let offset = (if n < length b then n else length b) in drop offset b)"

definition buf_limit :: "'a list \<Rightarrow> nat \<Rightarrow> 'a list" where
  "buf_limit b max_size = take (if length b < max_size then length b else max_size) b"

fun buffer_size_loop :: "nat \<Rightarrow> 'a list list \<Rightarrow> nat" where
  "buffer_size_loop acc [] = acc"
| "buffer_size_loop acc (b # bs) = buffer_size_loop (acc + length b) bs"

definition buffer_size :: "'a list list \<Rightarrow> nat" where
  "buffer_size bs = buffer_size_loop 0 bs"

lemma buf_plus_eq [simp]: "buf_plus b n = drop n b"
  by (simp add: buf_plus_def)

lemma buf_limit_eq [simp]: "buf_limit b n = take n b"
  by (simp add: buf_limit_def)

lemma buffer_size_loop_eq: "buffer_size_loop n bs = n + length (concat bs)"
  by (induction bs arbitrary: n) simp_all

lemma buffer_size_eq: "buffer_size bs = length (concat bs)"
  by (simp add: buffer_size_def buffer_size_loop_eq)

section \<open>consuming_buffers\<close>

text \<open>
  \<open>prepared_buffers\<close> holds at most 16 buffers, whatever number of them (64 for a sequence
  that is not an array; an \<open>iovec\<close> of the platform has no fewer) a transfer may have.
\<close>

definition prepared_buffers_max :: nat where
  "prepared_buffers_max = 64"

definition max_prepared :: nat where
  "max_prepared = (if prepared_buffers_max < 16 then prepared_buffers_max else 16)"

record 'a consuming_buffers =
  cb_buffers :: "'a list list"
  cb_total_size :: nat
  cb_total_consumed :: nat
  cb_next_elem :: nat
  cb_next_elem_offset :: nat

definition cb_make :: "'a list list \<Rightarrow> 'a consuming_buffers" where
  "cb_make bs = \<lparr>cb_buffers = bs, cb_total_size = buffer_size bs, cb_total_consumed = 0,
     cb_next_elem = 0, cb_next_elem_offset = 0\<rparr>"

definition cb_empty :: "'a consuming_buffers \<Rightarrow> bool" where
  "cb_empty c \<longleftrightarrow> cb_total_consumed c \<ge> cb_total_size c"

text \<open>
  The loop of \<open>prepare\<close>, over the buffers from \<open>next\<close> on: \<open>m\<close> is the capacity of the
  result and \<open>rs\<close> what it holds.
\<close>

fun cb_prepare_loop :: "nat \<Rightarrow> 'a list list \<Rightarrow> nat \<Rightarrow> nat \<Rightarrow> 'a list list \<Rightarrow> 'a list list" where
  "cb_prepare_loop m [] elem_offset max_size rs = rs"
| "cb_prepare_loop m (b # bs) elem_offset max_size rs =
     (if max_size > 0 \<and> length rs < m then
        let next_buf = buf_plus b elem_offset;
            elem = buf_limit next_buf max_size
        in cb_prepare_loop m bs 0 (max_size - length elem)
             (if length elem > 0 then rs @ [elem] else rs)
      else rs)"

definition cb_prepare :: "'a consuming_buffers \<Rightarrow> nat \<Rightarrow> 'a list list" where
  "cb_prepare c max_size =
     cb_prepare_loop max_prepared (drop (cb_next_elem c) (cb_buffers c))
       (cb_next_elem_offset c) max_size []"

text \<open>The loop of \<open>consume\<close>: the new \<open>next_elem_\<close> and \<open>next_elem_offset_\<close>.\<close>

fun cb_consume_loop :: "'a list list \<Rightarrow> nat \<Rightarrow> nat \<Rightarrow> nat \<Rightarrow> nat \<times> nat" where
  "cb_consume_loop [] sz elem off = (elem, off)"
| "cb_consume_loop (b # bs) sz elem off =
     (if sz > 0 then
        let next_buf = buf_plus b off in
        if sz < length next_buf then (elem, off + sz)
        else cb_consume_loop bs (sz - length next_buf) (Suc elem) 0
      else (elem, off))"

definition cb_consume :: "'a consuming_buffers \<Rightarrow> nat \<Rightarrow> 'a consuming_buffers" where
  "cb_consume c sz =
     (let (elem, off) = cb_consume_loop (drop (cb_next_elem c) (cb_buffers c)) sz
            (cb_next_elem c) (cb_next_elem_offset c)
      in c\<lparr>cb_total_consumed := cb_total_consumed c + sz,
           cb_next_elem := elem, cb_next_elem_offset := off\<rparr>)"

section \<open>The specialisations\<close>

text \<open>\<open>consuming_single_buffer\<close>, the base class of the ones for a single buffer.\<close>

record 'a consuming_single =
  cs_buffer :: "'a list"
  cs_total_consumed :: nat

definition cs_make :: "'a list \<Rightarrow> 'a consuming_single" where
  "cs_make b = \<lparr>cs_buffer = b, cs_total_consumed = 0\<rparr>"

definition cs_empty :: "'a consuming_single \<Rightarrow> bool" where
  "cs_empty c \<longleftrightarrow> cs_total_consumed c \<ge> length (cs_buffer c)"

definition cs_prepare :: "'a consuming_single \<Rightarrow> nat \<Rightarrow> 'a list list" where
  "cs_prepare c max_size = [buf_limit (buf_plus (cs_buffer c) (cs_total_consumed c)) max_size]"

definition cs_consume :: "'a consuming_single \<Rightarrow> nat \<Rightarrow> 'a consuming_single" where
  "cs_consume c sz = c\<lparr>cs_total_consumed := cs_total_consumed c + sz\<rparr>"

text \<open>The one for \<open>std::array<Elem, 2>\<close>.\<close>

record 'a consuming_pair =
  cp_buffer0 :: "'a list"
  cp_buffer1 :: "'a list"
  cp_total_consumed :: nat

definition cp_make :: "'a list \<Rightarrow> 'a list \<Rightarrow> 'a consuming_pair" where
  "cp_make b0 b1 = \<lparr>cp_buffer0 = b0, cp_buffer1 = b1, cp_total_consumed = 0\<rparr>"

definition cp_empty :: "'a consuming_pair \<Rightarrow> bool" where
  "cp_empty c \<longleftrightarrow> cp_total_consumed c \<ge> length (cp_buffer0 c) + length (cp_buffer1 c)"

definition cp_prepare :: "'a consuming_pair \<Rightarrow> nat \<Rightarrow> 'a list list" where
  "cp_prepare c max_size =
     (let buffer0_size = length (cp_buffer0 c);
          r0 = buf_limit (buf_plus (cp_buffer0 c) (cp_total_consumed c)) max_size;
          r1 = buf_limit (buf_plus (cp_buffer1 c)
                 (if cp_total_consumed c < buffer0_size then 0
                  else cp_total_consumed c - buffer0_size)) (max_size - length r0)
      in [r0, r1])"

definition cp_consume :: "'a consuming_pair \<Rightarrow> nat \<Rightarrow> 'a consuming_pair" where
  "cp_consume c sz = c\<lparr>cp_total_consumed := cp_total_consumed c + sz\<rparr>"

section \<open>The contract of the three classes\<close>

text \<open>
  \<open>rest\<close> is what is left of the sequence. A prepared transfer is a prefix of it, at most
  as long as asked for and not empty while something is left.
\<close>

locale consuming =
  fixes valid :: "'c \<Rightarrow> bool"
    and rest :: "'c \<Rightarrow> 'a list"
    and is_empty :: "'c \<Rightarrow> bool"
    and prepare :: "'c \<Rightarrow> nat \<Rightarrow> 'a list list"
    and consume :: "'c \<Rightarrow> nat \<Rightarrow> 'c"
    and total_consumed :: "'c \<Rightarrow> nat"
  assumes empty_iff: "valid c \<Longrightarrow> is_empty c \<longleftrightarrow> rest c = []"
    and prepare_prefix: "valid c \<Longrightarrow> \<exists>k \<le> n. concat (prepare c n) = take k (rest c)"
    and prepare_progress: "valid c \<Longrightarrow> rest c \<noteq> [] \<Longrightarrow> 0 < n \<Longrightarrow> concat (prepare c n) \<noteq> []"
    and valid_consume: "valid c \<Longrightarrow> valid (consume c n)"
    and rest_consume: "valid c \<Longrightarrow> rest (consume c n) = drop n (rest c)"
    and total_consume: "total_consumed (consume c n) = total_consumed c + n"
begin

lemma prepare_eq:
  "valid c \<Longrightarrow> concat (prepare c n) = take (length (concat (prepare c n))) (rest c)"
  using prepare_prefix [of c n] by (auto simp: min_def)

lemma prepare_length: "valid c \<Longrightarrow> length (concat (prepare c n)) \<le> n"
  using prepare_prefix [of c n] by auto

lemma prepare_le_rest: "valid c \<Longrightarrow> length (concat (prepare c n)) \<le> length (rest c)"
  using prepare_prefix [of c n] by auto

lemma take_prepare:
  assumes "valid c" "k \<le> length (concat (prepare c n))"
  shows "take k (concat (prepare c n)) = take k (rest c)"
proof -
  have "take k (concat (prepare c n)) = take k (take (length (concat (prepare c n))) (rest c))"
    using prepare_eq [OF assms(1), of n] by simp
  then show ?thesis using assms(2) by (simp add: min_def)
qed

end

section \<open>The general class\<close>

definition cb_rest :: "'a consuming_buffers \<Rightarrow> 'a list" where
  "cb_rest c = drop (cb_next_elem_offset c) (concat (drop (cb_next_elem c) (cb_buffers c)))"

text \<open>
  The offset lies within the next buffer, and the position is where the total says it is.
\<close>

definition cb_valid :: "'a consuming_buffers \<Rightarrow> bool" where
  "cb_valid c \<longleftrightarrow>
     cb_total_size c = length (concat (cb_buffers c)) \<and>
     cb_rest c = drop (cb_total_consumed c) (concat (cb_buffers c)) \<and>
     (case drop (cb_next_elem c) (cb_buffers c) of
        [] \<Rightarrow> cb_next_elem_offset c = 0
      | b # _ \<Rightarrow> cb_next_elem_offset c \<le> length b)"

lemma cb_valid_make: "cb_valid (cb_make bs)"
  by (simp add: cb_valid_def cb_make_def cb_rest_def buffer_size_eq split: list.split)

lemma cb_rest_make: "cb_rest (cb_make bs) = concat bs"
  by (simp add: cb_rest_def cb_make_def)

lemma cb_prepare_loop_concat:
  assumes "case bs of [] \<Rightarrow> True | b # _ \<Rightarrow> off \<le> length b"
  shows "\<exists>k \<le> n. concat (cb_prepare_loop m bs off n rs) = concat rs @ take k (drop off (concat bs))
    \<and> (length rs < m \<and> 0 < n \<and> drop off (concat bs) \<noteq> [] \<longrightarrow> 0 < k)"
  using assms
proof (induction m bs off n rs rule: cb_prepare_loop.induct)
  case (2 m b bs off n rs)
  show ?case
  proof (cases "n > 0 \<and> length rs < m")
    case True
    define elem where "elem = take n (drop off b)"
    define rs' where "rs' = (if length elem > 0 then rs @ [elem] else rs)"
    have "\<exists>k \<le> n - length elem. concat (cb_prepare_loop m bs 0 (n - length elem) rs')
        = concat rs' @ take k (drop 0 (concat bs))
        \<and> (length rs' < m \<and> 0 < n - length elem \<and> drop 0 (concat bs) \<noteq> [] \<longrightarrow> 0 < k)"
      using "2.IH" [OF True refl refl] unfolding elem_def rs'_def
      by (auto split: list.split)
    then obtain k where k: "k \<le> n - length elem"
      and eq: "concat (cb_prepare_loop m bs 0 (n - length elem) rs') = concat rs' @ take k (concat bs)"
      and prog: "length rs' < m \<and> 0 < n - length elem \<and> concat bs \<noteq> [] \<longrightarrow> 0 < k"
      by auto
    have off: "off \<le> length b" using "2.prems" by simp
    have rs': "concat rs' = concat rs @ elem" by (simp add: rs'_def)
    have step: "cb_prepare_loop m (b # bs) off n rs = cb_prepare_loop m bs 0 (n - length elem) rs'"
      using True by (simp add: elem_def rs'_def Let_def)
    have "elem @ take k (concat bs) = take (length elem + k) (drop off (concat (b # bs)))"
      if "n > length b - off"
      using that off by (simp add: elem_def)
    moreover have "elem @ take k (concat bs) = take (length elem + k) (drop off (concat (b # bs)))"
      if "\<not> n > length b - off"
      using that k off by (simp add: elem_def)
    ultimately have "elem @ take k (concat bs) = take (length elem + k) (drop off (concat (b # bs)))"
      by blast
    moreover have "0 < length elem + k" if "drop off (concat (b # bs)) \<noteq> []"
    proof (cases "elem = []")
      case True
      then have "drop off b = []" using \<open>n > 0 \<and> length rs < m\<close> by (simp add: elem_def)
      with that have "concat bs \<noteq> []" by (metis append_Nil2 concat.simps(2))
      with prog True \<open>n > 0 \<and> length rs < m\<close> show ?thesis by (simp add: rs'_def)
    qed simp
    moreover have "length elem + k \<le> n"
      using k by (simp add: elem_def)
    ultimately show ?thesis
      unfolding step eq rs' by (intro exI [of _ "length elem + k"]) simp
  next
    case False
    then show ?thesis by (intro exI [of _ 0]) auto
  qed
qed (auto intro: exI [of _ 0])

lemma cb_consume_loop_rest:
  assumes "case bs of [] \<Rightarrow> off = 0 | b # _ \<Rightarrow> off \<le> length b"
    and "cb_consume_loop bs sz elem off = (elem', off')"
  shows "elem \<le> elem' \<and> drop off' (concat (drop (elem' - elem) bs)) = drop (off + sz) (concat bs)
    \<and> (case drop (elem' - elem) bs of [] \<Rightarrow> off' = 0 | b # _ \<Rightarrow> off' \<le> length b)"
  using assms
proof (induction bs sz elem off rule: cb_consume_loop.induct)
  case (2 b bs sz elem off)
  show ?case
  proof (cases "sz > 0 \<and> \<not> sz < length (drop off b)")
    case True
    have off: "off \<le> length b" using "2.prems" by simp
    have "cb_consume_loop bs (sz - length (drop off b)) (Suc elem) 0 = (elem', off')"
      using "2.prems"(2) True by (simp add: Let_def)
    moreover have "case bs of [] \<Rightarrow> (0::nat) = 0 | b # _ \<Rightarrow> 0 \<le> length b"
      by (simp split: list.split)
    ultimately have ih: "Suc elem \<le> elem' \<and>
        drop off' (concat (drop (elem' - Suc elem) bs)) = drop (0 + (sz - length (drop off b))) (concat bs)
        \<and> (case drop (elem' - Suc elem) bs of [] \<Rightarrow> off' = 0 | b # _ \<Rightarrow> off' \<le> length b)"
      using "2.IH" True by auto
    have "drop (elem' - elem) (b # bs) = drop (elem' - Suc elem) bs"
      using ih by (simp add: drop_Cons')
    moreover have "drop (off + sz) (concat (b # bs)) = drop (sz - (length b - off)) (concat bs)"
    proof -
      have "length b \<le> off + sz" "off + sz - length b = sz - (length b - off)"
        using True off by auto
      then show ?thesis by simp
    qed
    ultimately show ?thesis using ih by simp
  next
    case False
    then show ?thesis using "2.prems" by (auto simp: Let_def split: if_splits)
  qed
qed auto

lemma cb_consume_valid:
  assumes "cb_valid c"
  shows "cb_valid (cb_consume c n) \<and> cb_rest (cb_consume c n) = drop n (cb_rest c)"
proof -
  let ?bs = "drop (cb_next_elem c) (cb_buffers c)"
  obtain elem off where loop:
    "cb_consume_loop ?bs n (cb_next_elem c) (cb_next_elem_offset c) = (elem, off)"
    by (cases "cb_consume_loop ?bs n (cb_next_elem c) (cb_next_elem_offset c)")
  have "case ?bs of [] \<Rightarrow> cb_next_elem_offset c = 0 | b # _ \<Rightarrow> cb_next_elem_offset c \<le> length b"
    using assms by (simp add: cb_valid_def)
  note post = cb_consume_loop_rest [OF this loop]
  then have "drop (elem - cb_next_elem c) ?bs = drop elem (cb_buffers c)"
    by simp
  note post = post [unfolded this]
  then have r: "drop off (concat (drop elem (cb_buffers c))) = drop n (cb_rest c)"
    and k: "case drop elem (cb_buffers c) of [] \<Rightarrow> off = 0 | b # _ \<Rightarrow> off \<le> length b"
    by (simp_all add: cb_rest_def add.commute)
  have c': "cb_consume c n = c\<lparr>cb_total_consumed := cb_total_consumed c + n,
      cb_next_elem := elem, cb_next_elem_offset := off\<rparr>"
    by (simp add: cb_consume_def loop)
  from r have "cb_rest (cb_consume c n) = drop n (cb_rest c)"
    by (simp add: c' cb_rest_def)
  moreover from assms this have "cb_valid (cb_consume c n)"
    using k by (simp add: cb_valid_def c' add.commute cong: list.case_cong)
  ultimately show ?thesis by blast
qed

interpretation cb: consuming cb_valid cb_rest cb_empty cb_prepare cb_consume cb_total_consumed
proof
  fix c :: "'a consuming_buffers" and n :: nat
  assume valid: "cb_valid c"
  have m: "0 < max_prepared" by (simp add: max_prepared_def prepared_buffers_max_def)
  from valid have "case drop (cb_next_elem c) (cb_buffers c) of [] \<Rightarrow> True
      | b # _ \<Rightarrow> cb_next_elem_offset c \<le> length b"
    by (auto simp: cb_valid_def split: list.splits)
  from cb_prepare_loop_concat [OF this, of n max_prepared "[]"] obtain k where
    k: "k \<le> n" "concat (cb_prepare c n) = take k (cb_rest c)"
    and pos: "0 < n \<and> cb_rest c \<noteq> [] \<longrightarrow> 0 < k"
    using m by (auto simp: cb_prepare_def cb_rest_def)
  show "\<exists>k \<le> n. concat (cb_prepare c n) = take k (cb_rest c)"
    using k by auto
  show "concat (cb_prepare c n) \<noteq> []" if "cb_rest c \<noteq> []" "0 < n"
    using that k pos by simp
  show "cb_empty c \<longleftrightarrow> cb_rest c = []"
    using valid by (simp add: cb_valid_def cb_empty_def)
  show "cb_valid (cb_consume c n)" "cb_rest (cb_consume c n) = drop n (cb_rest c)"
    using cb_consume_valid [OF valid] by simp_all
next
  fix c :: "'a consuming_buffers" and n :: nat
  show "cb_total_consumed (cb_consume c n) = cb_total_consumed c + n"
    by (simp add: cb_consume_def split: prod.split)
qed

section \<open>The specialisations satisfy the same contract\<close>

definition cs_rest :: "'a consuming_single \<Rightarrow> 'a list" where
  "cs_rest c = drop (cs_total_consumed c) (cs_buffer c)"

definition cp_rest :: "'a consuming_pair \<Rightarrow> 'a list" where
  "cp_rest c = drop (cp_total_consumed c) (cp_buffer0 c @ cp_buffer1 c)"

interpretation cs: consuming "\<lambda>_. True" cs_rest cs_empty cs_prepare cs_consume cs_total_consumed
  by unfold_locales (auto simp: cs_rest_def cs_empty_def cs_prepare_def cs_consume_def add.commute)

lemma cp_prepare_concat: "concat (cp_prepare c n) = take n (cp_rest c)"
proof (cases "cp_total_consumed c < length (cp_buffer0 c)")
  case True
  then have "n - min (length (cp_buffer0 c) - cp_total_consumed c) n
      = n + cp_total_consumed c - length (cp_buffer0 c)"
    by linarith
  with True show ?thesis by (simp add: cp_prepare_def cp_rest_def Let_def)
qed (simp add: cp_prepare_def cp_rest_def)

interpretation cp: consuming "\<lambda>_. True" cp_rest cp_empty cp_prepare cp_consume cp_total_consumed
  by unfold_locales
    (simp_all only: cp_prepare_concat cp_rest_def cp_empty_def cp_consume_def drop_drop
      drop_eq_Nil take_eq_Nil length_append add.commute consuming_pair.simps,
     auto)

end
