(* ===== verification/Oef_Asio_Transfer.thy ===== *)
theory Oef_Asio_Transfer
  imports Oef_Asio_Buffers Oef_Asio_Socket Oef_Comm
begin

text \<open>
  The composed operations \<open>asio::read\<close>, \<open>asio::write\<close>, \<open>asio::async_read\<close> and
  \<open>asio::async_write\<close>: \<open>3rd/asio/asio/completion_condition.hpp\<close>, \<open>impl/read.hpp\<close>,
  \<open>impl/write.hpp\<close>, over the socket service (\<open>detail/reactive_socket_service_base.hpp\<close>,
  \<open>detail/buffer_sequence_adapter.hpp\<close>).

  They are templates over the class that consumes the buffer sequence and over the stream;
  here both are arguments: the four operations of \<open>consuming_buffers\<close> and the partial
  operation \<open>read_some\<close> or \<open>write_some\<close>, which maps the buffers offered and the world to
  the error code, the number of bytes transferred and the next world.
\<close>

section \<open>Completion conditions\<close>

definition default_max_transfer_size :: nat where
  "default_max_transfer_size = 65536"

definition transfer_all :: "asio_ec \<Rightarrow> nat \<Rightarrow> nat" where
  "transfer_all err n = (if ec_failed err then 0 else default_max_transfer_size)"

definition transfer_at_least :: "nat \<Rightarrow> asio_ec \<Rightarrow> nat \<Rightarrow> nat" where
  "transfer_at_least minimum err bytes_transferred =
     (if ec_failed err \<or> bytes_transferred \<ge> minimum then 0 else default_max_transfer_size)"

definition transfer_exactly :: "nat \<Rightarrow> asio_ec \<Rightarrow> nat \<Rightarrow> nat" where
  "transfer_exactly sz err bytes_transferred =
     (if ec_failed err \<or> bytes_transferred \<ge> sz then 0
      else if sz - bytes_transferred < default_max_transfer_size then sz - bytes_transferred
      else default_max_transfer_size)"

section \<open>The synchronous operations\<close>

text \<open>The loop of \<open>read_buffer_sequence\<close> and of \<open>write_buffer_sequence\<close>.\<close>

partial_function (option) transfer_loop ::
  "('c \<Rightarrow> bool) \<Rightarrow> ('c \<Rightarrow> nat \<Rightarrow> 'a list list) \<Rightarrow> ('c \<Rightarrow> nat \<Rightarrow> 'c) \<Rightarrow> ('c \<Rightarrow> nat)
     \<Rightarrow> (asio_ec \<Rightarrow> nat \<Rightarrow> nat) \<Rightarrow> ('a list list \<Rightarrow> 'w \<Rightarrow> (asio_ec \<times> nat \<times> 'w) option)
     \<Rightarrow> asio_ec \<Rightarrow> 'c \<Rightarrow> 'w \<Rightarrow> (asio_ec \<times> nat \<times> 'w) option" where
  "transfer_loop is_empty prepare consume total_consumed cond some ec c w =
     (if is_empty c then Some (ec, total_consumed c, w)
      else
        let max_size = cond ec (total_consumed c) in
        if max_size = 0 then Some (ec, total_consumed c, w)
        else Option.bind (some (prepare c max_size) w)
               (\<lambda>(ec', n, w').
                  transfer_loop is_empty prepare consume total_consumed cond some ec'
                    (consume c n) w'))"

definition write_buffer_sequence ::
  "(asio_ec \<Rightarrow> nat \<Rightarrow> nat) \<Rightarrow> ('a list list \<Rightarrow> 'w \<Rightarrow> (asio_ec \<times> nat \<times> 'w) option)
     \<Rightarrow> 'a list list \<Rightarrow> 'w \<Rightarrow> (asio_ec \<times> nat \<times> 'w) option" where
  "write_buffer_sequence cond write_some buffers w =
     transfer_loop cb_empty cb_prepare cb_consume cb_total_consumed cond write_some ec_ok
       (cb_make buffers) w"

definition read_buffer_sequence ::
  "(asio_ec \<Rightarrow> nat \<Rightarrow> nat) \<Rightarrow> ('a list list \<Rightarrow> 'w \<Rightarrow> (asio_ec \<times> nat \<times> 'w) option)
     \<Rightarrow> 'a list \<Rightarrow> 'w \<Rightarrow> (asio_ec \<times> nat \<times> 'w) option" where
  "read_buffer_sequence cond read_some buf w =
     transfer_loop cs_empty cs_prepare cs_consume cs_total_consumed cond read_some ec_ok
       (cs_make buf) w"

section \<open>The asynchronous operations\<close>

text \<open>
  What \<open>read_op\<close> and \<open>write_op\<close> do when they are called: offer buffers to the stream, or
  call the handler.
\<close>

datatype 'a op_action = Transfer_some "'a list list" | Call_handler asio_ec nat

definition op_start_1 ::
  "('c \<Rightarrow> nat \<Rightarrow> 'a list list) \<Rightarrow> ('c \<Rightarrow> nat) \<Rightarrow> (asio_ec \<Rightarrow> nat \<Rightarrow> nat) \<Rightarrow> asio_ec \<Rightarrow> 'c
     \<Rightarrow> 'a op_action" where
  "op_start_1 prepare total_consumed cond ec c =
     (let max_size = cond ec (total_consumed c) in Transfer_some (prepare c max_size))"

definition write_op_call ::
  "('c \<Rightarrow> bool) \<Rightarrow> ('c \<Rightarrow> nat \<Rightarrow> 'a list list) \<Rightarrow> ('c \<Rightarrow> nat \<Rightarrow> 'c) \<Rightarrow> ('c \<Rightarrow> nat)
     \<Rightarrow> (asio_ec \<Rightarrow> nat \<Rightarrow> nat) \<Rightarrow> asio_ec \<Rightarrow> nat \<Rightarrow> 'c \<Rightarrow> 'a op_action \<times> 'c" where
  "write_op_call is_empty prepare consume total_consumed cond ec bytes_transferred c =
     (let c' = consume c bytes_transferred in
      if (\<not> ec_failed ec \<and> bytes_transferred = 0) \<or> is_empty c'
      then (Call_handler ec (total_consumed c'), c')
      else
        let max_size = cond ec (total_consumed c') in
        if max_size > 0 then (Transfer_some (prepare c' max_size), c')
        else (Call_handler ec (total_consumed c'), c'))"

definition read_op_call ::
  "('c \<Rightarrow> bool) \<Rightarrow> ('c \<Rightarrow> nat \<Rightarrow> 'a list list) \<Rightarrow> ('c \<Rightarrow> nat \<Rightarrow> 'c) \<Rightarrow> ('c \<Rightarrow> nat)
     \<Rightarrow> (asio_ec \<Rightarrow> nat \<Rightarrow> nat) \<Rightarrow> asio_ec \<Rightarrow> nat \<Rightarrow> 'c \<Rightarrow> 'a op_action \<times> 'c" where
  "read_op_call is_empty prepare consume total_consumed cond ec bytes_transferred c =
     (let c' = consume c bytes_transferred in
      if (\<not> ec_failed ec \<and> bytes_transferred = 0) \<or> is_empty c'
      then (Call_handler ec (total_consumed c'), c')
      else
        let max_size = cond ec (total_consumed c') in
        if max_size > 0 then (Transfer_some (prepare c' max_size), c')
        else (Call_handler ec (total_consumed c'), c'))"

text \<open>
  The operation (\<open>call\<close>) with the completions of its transfers: \<open>some\<close> is the outcome the handler
  of each is called with.
\<close>

partial_function (option) async_run ::
  "(asio_ec \<Rightarrow> nat \<Rightarrow> 'c \<Rightarrow> 'a op_action \<times> 'c)
     \<Rightarrow> ('a list list \<Rightarrow> 'w \<Rightarrow> (asio_ec \<times> nat \<times> 'w) option)
     \<Rightarrow> 'a op_action \<Rightarrow> 'c \<Rightarrow> 'w \<Rightarrow> (asio_ec \<times> nat \<times> 'w) option" where
  "async_run call some act c w =
     (case act of
        Call_handler ec n \<Rightarrow> Some (ec, n, w)
      | Transfer_some bufs \<Rightarrow>
          Option.bind (some bufs w)
            (\<lambda>(ec, n, w'). case call ec n c of (act', c') \<Rightarrow> async_run call some act' c' w'))"

definition async_write ::
  "('a list list \<Rightarrow> 'w \<Rightarrow> (asio_ec \<times> nat \<times> 'w) option)
     \<Rightarrow> 'a list list \<Rightarrow> 'w \<Rightarrow> (asio_ec \<times> nat \<times> 'w) option" where
  "async_write write_some buffers w =
     (let c = cb_make buffers in
      async_run (write_op_call cb_empty cb_prepare cb_consume cb_total_consumed transfer_all) write_some
        (op_start_1 cb_prepare cb_total_consumed transfer_all ec_ok c) c w)"

definition async_read ::
  "('a list list \<Rightarrow> 'w \<Rightarrow> (asio_ec \<times> nat \<times> 'w) option)
     \<Rightarrow> 'a list \<Rightarrow> 'w \<Rightarrow> (asio_ec \<times> nat \<times> 'w) option" where
  "async_read read_some buf w =
     (let c = cs_make buf in
      async_run (read_op_call cs_empty cs_prepare cs_consume cs_total_consumed transfer_all) read_some
        (op_start_1 cs_prepare cs_total_consumed transfer_all ec_ok c) c w)"

section \<open>A transfer through the socket service\<close>

text \<open>\<open>buffer_sequence_adapter\<close> takes at most 64 buffers.\<close>

definition adapter_max_buffers :: nat where
  "adapter_max_buffers = 64"

fun adapter_init :: "nat \<Rightarrow> 'a list list \<Rightarrow> 'a list list" where
  "adapter_init i [] = []"
| "adapter_init i (b # bs) =
     (if i < adapter_max_buffers then b # adapter_init (Suc i) bs else [])"

fun adapter_all_empty :: "nat \<Rightarrow> 'a list list \<Rightarrow> bool" where
  "adapter_all_empty i [] = True"
| "adapter_all_empty i (b # bs) =
     (if i < adapter_max_buffers then (if length b > 0 then False else adapter_all_empty (Suc i) bs)
      else True)"

text \<open>A memory, and the bytes stored at the addresses of the buffers in their order.\<close>

type_synonym memory = "nat \<Rightarrow> byte"

definition store_bytes :: "nat list \<Rightarrow> byte list \<Rightarrow> memory \<Rightarrow> memory" where
  "store_bytes addrs bs m = fold (\<lambda>(a, b) m. m(a := b)) (zip addrs bs) m"

definition service_send ::
  "'w posix \<Rightarrow> base_impl \<Rightarrow> byte list list \<Rightarrow> 'w \<Rightarrow> (asio_ec \<times> nat \<times> 'w) option" where
  "service_send P im buffers w =
     (let bufs = adapter_init 0 buffers in
      sync_send P (im_socket im) (im_state im) bufs (buffer_size bufs = 0) w)"

definition service_receive ::
  "'w posix \<Rightarrow> base_impl \<Rightarrow> nat list list \<Rightarrow> memory \<times> 'w \<Rightarrow> (asio_ec \<times> nat \<times> memory \<times> 'w) option"
where
  "service_receive P im buffers mw =
     (let bufs = adapter_init 0 buffers in
      case sync_recv P (im_socket im) (im_state im) (buffer_size bufs) (buffer_size bufs = 0)
             (snd mw) of
        None \<Rightarrow> None
      | Some (ec, n, bs, w') \<Rightarrow> Some (ec, n, store_bytes (concat bufs) bs (fst mw), w'))"

text \<open>
  \<open>async_send\<close> and \<open>async_receive\<close> start an operation, one of no bytes on a stream
  completes at once.
\<close>

definition service_async_send ::
  "'w posix \<Rightarrow> base_impl \<Rightarrow> byte list list \<Rightarrow> 'w \<Rightarrow> op_start \<times> base_impl \<times> 'w" where
  "service_async_send P im buffers w =
     start_op P (has (im_state im) stream_oriented \<and> adapter_all_empty 0 buffers) im w"

definition service_async_receive ::
  "'w posix \<Rightarrow> base_impl \<Rightarrow> nat list list \<Rightarrow> 'w \<Rightarrow> op_start \<times> base_impl \<times> 'w" where
  "service_async_receive P im buffers w =
     start_op P (has (im_state im) stream_oriented \<and> adapter_all_empty 0 buffers) im w"

text \<open>\<open>asio::write(socket, buffers, ec)\<close> and \<open>asio::read(socket, buffer, ec)\<close>.\<close>

definition asio_write ::
  "'w posix \<Rightarrow> base_impl \<Rightarrow> byte list list \<Rightarrow> 'w \<Rightarrow> (asio_ec \<times> nat \<times> 'w) option" where
  "asio_write P im buffers w = write_buffer_sequence transfer_all (service_send P im) buffers w"

definition asio_read_into ::
  "'w posix \<Rightarrow> base_impl \<Rightarrow> nat list \<Rightarrow> memory \<times> 'w \<Rightarrow> (asio_ec \<times> nat \<times> memory \<times> 'w) option" where
  "asio_read_into P im buf mw = read_buffer_sequence transfer_all (service_receive P im) buf mw"

end
