(* ===== verification/Oef_Asio_Transfer_Facts.thy ===== *)
theory Oef_Asio_Transfer_Facts
  imports Oef_Asio_Transfer
begin

text \<open>
  The composed operations do what the communicators rely on. The contract of a stream is
  the locale \<open>partial_stream\<close>: its partial operation transfers at least one byte or fails.
  Over such a stream \<open>asio::write\<close> and \<open>asio::read\<close> transfer a buffer sequence in order and
  whole, or a prefix of it and fail; the asynchronous operations give their handler the
  same outcome. The socket service over a POSIX stream socket satisfies the contract,
  whatever pieces the system transfers and however often it says that it would block.
\<close>

lemma read_op_call_eq: "read_op_call = write_op_call"
  by (intro ext) (simp add: read_op_call_def write_op_call_def)

section \<open>Transfers over any stream\<close>

text \<open>
  \<open>effect xs n w w'\<close>: the world after the first \<open>n\<close> cells of \<open>xs\<close> were transferred;
  \<open>stops ec w\<close>: a world in which the stream fails with \<open>ec\<close>.
\<close>

locale partial_stream = consuming valid rest is_empty prepare consume total_consumed
  for valid :: "'c \<Rightarrow> bool" and rest :: "'c \<Rightarrow> 'a list" and is_empty prepare consume total_consumed +
  fixes some :: "'a list list \<Rightarrow> 'w \<Rightarrow> (asio_ec \<times> nat \<times> 'w) option"
    and effect :: "'a list \<Rightarrow> nat \<Rightarrow> 'w \<Rightarrow> 'w \<Rightarrow> bool"
    and stops :: "asio_ec \<Rightarrow> 'w \<Rightarrow> bool"
  assumes some_law: "concat bufs \<noteq> [] \<Longrightarrow> length bufs \<le> adapter_max_buffers \<Longrightarrow>
      \<exists>ec n w'. some bufs w = Some (ec, n, w') \<and> n \<le> length (concat bufs)
        \<and> effect (concat bufs) n w w'
        \<and> (if n = 0 then ec_failed ec \<and> stops ec w' else ec = ec_ok)"
    and prepare_fits: "length (prepare c m) \<le> adapter_max_buffers"
    and effect_none: "effect xs 0 w w"
    and effect_take: "effect (take n xs) n w w' \<longleftrightarrow> effect xs n w w'"
    and effect_add: "effect xs n w w1 \<Longrightarrow> effect (drop n xs) m w1 w2 \<Longrightarrow> n + m \<le> length xs
      \<Longrightarrow> effect xs (n + m) w w2"
begin

lemma some_step:
  assumes "valid c" "\<not> is_empty c"
  obtains ec n w' where "some (prepare c default_max_transfer_size) w = Some (ec, n, w')"
    "n \<le> length (rest c)" "effect (rest c) n w w'"
    "if n = 0 then ec_failed ec \<and> stops ec w' else ec = ec_ok"
proof -
  let ?bufs = "prepare c default_max_transfer_size"
  have "rest c \<noteq> []" using assms by (simp add: empty_iff)
  then have "concat ?bufs \<noteq> []"
    using assms(1) by (intro prepare_progress) (simp_all add: default_max_transfer_size_def)
  from some_law [OF this prepare_fits, of w] obtain ec n w' where
    w: "some ?bufs w = Some (ec, n, w')" "n \<le> length (concat ?bufs)" "effect (concat ?bufs) n w w'"
      "if n = 0 then ec_failed ec \<and> stops ec w' else ec = ec_ok"
    by blast
  have "effect (rest c) n w w'"
    using w(2,3) take_prepare [OF assms(1) w(2)] by (metis effect_take)
  then show ?thesis
    using that [OF w(1)] w assms(1) prepare_le_rest [of c default_max_transfer_size] by simp
qed

lemma loop_stop:
  "is_empty c \<or> ec_failed ec \<Longrightarrow>
     transfer_loop is_empty prepare consume total_consumed transfer_all some ec c w
     = Some (ec, total_consumed c, w)"
  by (subst transfer_loop.simps) (auto simp: transfer_all_def)

lemma loop_step:
  assumes "\<not> is_empty c" "some (prepare c default_max_transfer_size) w = Some (ec, n, w')"
  shows "transfer_loop is_empty prepare consume total_consumed transfer_all some ec_ok c w
    = transfer_loop is_empty prepare consume total_consumed transfer_all some ec (consume c n) w'"
  using assms
  by (subst transfer_loop.simps) (simp add: transfer_all_def default_max_transfer_size_def)

lemma loop_transfers:
  assumes "valid c"
  shows "\<exists>ec n w'.
    transfer_loop is_empty prepare consume total_consumed transfer_all some ec_ok c w
      = Some (ec, total_consumed c + n, w')
    \<and> n \<le> length (rest c) \<and> effect (rest c) n w w'
    \<and> (ec = ec_ok \<and> n = length (rest c) \<or> ec_failed ec \<and> stops ec w' \<and> n < length (rest c))"
  using assms
proof (induction "length (rest c)" arbitrary: c w rule: less_induct)
  case less
  let ?loop = "transfer_loop is_empty prepare consume total_consumed transfer_all some"
  show ?case
  proof (cases "is_empty c")
    case True
    then have "rest c = []" using less.prems by (simp add: empty_iff)
    then show ?thesis using True effect_none [of "rest c" w] by (simp add: loop_stop)
  next
    case False
    then have ne: "0 < length (rest c)" using less.prems by (simp add: empty_iff)
    from some_step [OF less.prems False] obtain ec n w' where
      step: "some (prepare c default_max_transfer_size) w = Some (ec, n, w')"
      and n: "n \<le> length (rest c)" and eff: "effect (rest c) n w w'"
      and ec: "if n = 0 then ec_failed ec \<and> stops ec w' else ec = ec_ok"
      by blast
    note unroll = loop_step [OF False step]
    show ?thesis
    proof (cases "n = 0")
      case True
      then show ?thesis
        using ec eff ne unroll
        by (intro exI [of _ ec] exI [of _ 0] exI [of _ w']) (simp add: loop_stop total_consume)
    next
      case ok: False
      have "length (rest (consume c n)) < length (rest c)"
        using n ok less.prems by (simp add: rest_consume)
      from less.hyps [OF this valid_consume [OF less.prems], of w'] obtain ec2 n2 w2 where
        ih: "?loop ec_ok (consume c n) w' = Some (ec2, total_consumed (consume c n) + n2, w2)"
          "n2 \<le> length (rest c) - n" "effect (drop n (rest c)) n2 w' w2"
          "ec2 = ec_ok \<and> n2 = length (rest c) - n \<or>
             ec_failed ec2 \<and> stops ec2 w2 \<and> n2 < length (rest c) - n"
        using less.prems by (auto simp: rest_consume)
      have "?loop ec_ok c w = Some (ec2, total_consumed c + (n + n2), w2)"
        using unroll ih(1) ok ec by (simp add: total_consume add.assoc)
      moreover have "effect (rest c) (n + n2) w w2"
        using effect_add [OF eff ih(3)] ih(2) n by simp
      ultimately show ?thesis
        using ih(2,4) n by (intro exI [of _ ec2] exI [of _ "n + n2"] exI [of _ w2]) auto
    qed
  qed
qed

text \<open>The asynchronous operation goes through the same transfers.\<close>

lemma async_run_loop:
  assumes "valid c" "\<not> is_empty c"
  shows "async_run (write_op_call is_empty prepare consume total_consumed transfer_all) some
      (Transfer_some (prepare c default_max_transfer_size)) c w
    = transfer_loop is_empty prepare consume total_consumed transfer_all some ec_ok c w"
  using assms
proof (induction "length (rest c)" arbitrary: c w rule: less_induct)
  case less
  let ?act = "write_op_call is_empty prepare consume total_consumed transfer_all"
  let ?run = "async_run ?act some"
  from some_step [OF less.prems] obtain ec n w' where
    step: "some (prepare c default_max_transfer_size) w = Some (ec, n, w')"
    and n: "n \<le> length (rest c)" "if n = 0 then ec_failed ec \<and> stops ec w' else ec = ec_ok"
    by blast
  let ?c = "consume c n"
  note loop = loop_step [OF less.prems(2) step]
  have run: "?run (Transfer_some (prepare c default_max_transfer_size)) c w
      = ?run (fst (?act ec n c)) (snd (?act ec n c)) w'"
    using step by (subst async_run.simps) (simp split: prod.split)
  show ?case
  proof (cases "n = 0 \<or> is_empty ?c")
    case True
    then have "?act ec n c = (Call_handler ec (total_consumed ?c), ?c)"
      using n by (auto simp: write_op_call_def Let_def transfer_all_def)
    moreover have "is_empty ?c \<or> ec_failed ec" using True n by auto
    ultimately show ?thesis
      unfolding loop run by (subst async_run.simps) (simp add: loop_stop)
  next
    case False
    then have "?act ec n c = (Transfer_some (prepare ?c default_max_transfer_size), ?c)"
      using n by (simp add: write_op_call_def Let_def transfer_all_def default_max_transfer_size_def)
    moreover have "length (rest ?c) < length (rest c)"
      using n False less.prems by (auto simp: rest_consume empty_iff)
    ultimately show ?thesis
      unfolding loop run using less.hyps [of ?c w'] False n less.prems by (simp add: valid_consume)
  qed
qed

lemma op_start_run:
  assumes "valid c" "\<not> is_empty c"
  shows "async_run (write_op_call is_empty prepare consume total_consumed transfer_all) some
      (op_start_1 prepare total_consumed transfer_all ec_ok c) c w
    = transfer_loop is_empty prepare consume total_consumed transfer_all some ec_ok c w"
  using async_run_loop [OF assms, of w] by (simp add: op_start_1_def transfer_all_def)

end

section \<open>A POSIX stream socket\<close>

text \<open>
  The world of one connected socket: the bytes that will arrive and the error (or end) that
  follows them, the bytes the system has accepted, and for each direction a schedule of
  what the next calls do: 0 is "would block", \<open>k > 0\<close> transfers at most \<open>k\<close> bytes, and
  after the schedule a call transfers all it can. \<open>nw_refuse\<close> is the error with which the
  system refuses to accept more, once the schedule is over.
\<close>

record net_world =
  nw_in :: "byte list"
  nw_end :: "nat option"
  nw_recv_schedule :: "nat list"
  nw_out :: "byte list"
  nw_refuse :: "nat option"
  nw_send_schedule :: "nat list"

text \<open>\<open>nw_end\<close> is the \<open>errno\<close> of a broken connection, or \<open>None\<close> for its orderly end.\<close>

definition errno_ok :: "nat option \<Rightarrow> nat" where
  "errno_ok e = (case e of None \<Rightarrow> 104 | Some n \<Rightarrow> if n = 0 \<or> n = 11 then 104 else n)"

definition net_end :: "net_world \<Rightarrow> asio_ec" where
  "net_end w = (case nw_end w of None \<Rightarrow> eof | Some n \<Rightarrow> System_error (errno_ok (Some n)))"

definition net_deliver :: "nat \<Rightarrow> net_world \<Rightarrow> int \<times> nat \<times> byte list \<times> net_world" where
  "net_deliver k w =
     (if nw_in w = [] then
        (case nw_end w of
           None \<Rightarrow> (0, 0, [], w)
         | Some n \<Rightarrow> (-1, errno_ok (Some n), [], w))
      else (int (length (take k (nw_in w))), 0, take k (nw_in w), w\<lparr>nw_in := drop k (nw_in w)\<rparr>))"

definition net_recvmsg :: "socket_type \<Rightarrow> nat \<Rightarrow> net_world \<Rightarrow> int \<times> nat \<times> byte list \<times> net_world" where
  "net_recvmsg s room w =
     (case nw_recv_schedule w of
        [] \<Rightarrow> net_deliver room w
      | k # ks \<Rightarrow>
          let w' = w\<lparr>nw_recv_schedule := ks\<rparr> in
          if k = 0 then (-1, 11, [], w') else net_deliver (min k room) w')"

definition net_accept_bytes :: "byte list \<Rightarrow> net_world \<Rightarrow> int \<times> nat \<times> net_world" where
  "net_accept_bytes bs w = (int (length bs), 0, w\<lparr>nw_out := nw_out w @ bs\<rparr>)"

definition net_sendmsg :: "socket_type \<Rightarrow> byte list list \<Rightarrow> net_world \<Rightarrow> int \<times> nat \<times> net_world" where
  "net_sendmsg s bufs w =
     (case nw_send_schedule w of
        [] \<Rightarrow> (case nw_refuse w of
                 None \<Rightarrow> net_accept_bytes (concat bufs) w
               | Some n \<Rightarrow> (-1, errno_ok (Some n), w))
      | k # ks \<Rightarrow>
          let w' = w\<lparr>nw_send_schedule := ks\<rparr> in
          if k = 0 then (-1, 11, w') else net_accept_bytes (take k (concat bufs)) w')"

text \<open>\<open>poll\<close> returns when the socket is ready; the calls on other sockets fail.\<close>

definition net_posix :: "net_world posix" where
  "net_posix = \<lparr>
     px_socket = (\<lambda>af k w. (-1, 24, w)),
     px_accept = (\<lambda>s w. (-1, 22, w)),
     px_close = (\<lambda>s w. (0, 0, w)),
     px_linger_off = (\<lambda>s w. (0, 0, w)),
     px_ioctl_nbio = (\<lambda>s v w. (0, 0, w)),
     px_fionread = (\<lambda>s w. (0, 0, length (nw_in w), w)),
     px_shutdown = (\<lambda>s how w. (0, 0, w)),
     px_bind = (\<lambda>s ep w. (-1, 22, w)),
     px_setsockopt = (\<lambda>s level optname v w. (0, 0, w)),
     px_connect = (\<lambda>s ep w. (-1, 106, w)),
     px_so_error = (\<lambda>s w. (0, 0, 0, w)),
     px_listen = (\<lambda>s n w. (-1, 22, w)),
     px_recvmsg = net_recvmsg,
     px_sendmsg = net_sendmsg,
     px_poll = (\<lambda>s ev msec w. (1, 0, w))\<rparr>"

text \<open>A connected socket: descriptor \<open>n\<close>, non-blocking or not, accepted or opened.\<close>

definition stream_impl :: "nat \<Rightarrow> bool \<Rightarrow> bool \<Rightarrow> base_impl" where
  "stream_impl n nb dup = \<lparr>im_socket = int n, im_state = stream_oriented
     OR (if nb then internal_non_blocking else 0) OR (if dup then possible_dup else 0)\<rparr>"

lemma stream_impl_simps [simp]:
  "im_socket (stream_impl n nb dup) \<noteq> invalid_socket"
  "has (im_state (stream_impl n nb dup)) stream_oriented"
  "\<not> has (im_state (stream_impl n nb dup)) user_set_non_blocking"
  by (simp_all add: stream_impl_def invalid_socket_def has_def state_bit_defs)

lemma errno_ok_simps [simp]: "errno_ok e \<noteq> 0" "errno_ok e \<noteq> 11"
  by (simp_all add: errno_ok_def split: option.split)

lemma net_end_failed [simp]: "ec_failed (net_end w)"
  by (simp add: net_end_def split: option.split)

lemma net_posix_simps [simp]:
  "px_recvmsg net_posix = net_recvmsg" "px_sendmsg net_posix = net_sendmsg"
  "px_poll net_posix s ev msec w = (1, 0, w)"
  by (simp_all add: net_posix_def)

lemma poll_net [simp]:
  "s \<noteq> invalid_socket \<Longrightarrow> poll_read net_posix s st msec w = (1, ec_ok, w)"
  "s \<noteq> invalid_socket \<Longrightarrow> poll_write net_posix s st msec w = (1, ec_ok, w)"
  by (simp_all add: poll_read_def poll_write_def poll_result_def)

subsection \<open>Sending\<close>

lemma sync_send_loop_net:
  assumes "s \<noteq> invalid_socket" "\<not> has st user_set_non_blocking" "concat bufs \<noteq> []"
  shows "\<exists>ec n w'. sync_send_loop net_posix s st bufs w = Some (ec, n, w')
    \<and> n \<le> length (concat bufs) \<and> nw_out w' = nw_out w @ take n (concat bufs)
    \<and> nw_refuse w' = nw_refuse w
    \<and> (if n = 0 then ec = System_error (errno_ok (nw_refuse w)) \<and> nw_refuse w \<noteq> None
       else ec = ec_ok)"
proof (induction "nw_send_schedule w" arbitrary: w)
  case Nil
  show ?case
  proof (cases "nw_refuse w")
    case None
    then have "sync_send_loop net_posix s st bufs w
        = Some (ec_ok, length (concat bufs), w\<lparr>nw_out := nw_out w @ concat bufs\<rparr>)"
      by (subst sync_send_loop.simps)
        (simp add: socket_send_def net_sendmsg_def net_accept_bytes_def flip: Nil)
    then show ?thesis using assms(3) None by auto
  next
    case (Some e)
    then have "sync_send_loop net_posix s st bufs w = Some (System_error (errno_ok (Some e)), 0, w)"
      by (subst sync_send_loop.simps)
        (simp add: socket_send_def net_sendmsg_def error_wrapper_def would_block_def try_again_def
           flip: Nil)
    then show ?thesis using Some by simp
  qed
next
  case (Cons k ks)
  let ?w = "w\<lparr>nw_send_schedule := ks\<rparr>"
  show ?case
  proof (cases "k = 0")
    case True
    with Cons.hyps(2) assms have
      "sync_send_loop net_posix s st bufs w = sync_send_loop net_posix s st bufs ?w"
      by (subst sync_send_loop.simps)
        (simp add: socket_send_def net_sendmsg_def error_wrapper_def would_block_def flip: Cons.hyps(2))
    then show ?thesis using Cons.hyps(1) [of ?w] by (simp cong: if_cong)
  next
    case False
    then have "sync_send_loop net_posix s st bufs w = Some (ec_ok, min k (length (concat bufs)),
        ?w\<lparr>nw_out := nw_out w @ take k (concat bufs)\<rparr>)"
      by (subst sync_send_loop.simps)
        (simp add: socket_send_def net_sendmsg_def net_accept_bytes_def Let_def min.commute
           flip: Cons.hyps(2))
    moreover have "0 < min k (length (concat bufs))"
      using False assms(3) by (simp del: concat_eq_Nil_conv)
    ultimately show ?thesis by (auto simp: min_def)
  qed
qed

lemma adapter_init_all: "i + length bs \<le> adapter_max_buffers \<Longrightarrow> adapter_init i bs = bs"
  by (induction i bs rule: adapter_init.induct) simp_all

text \<open>What a transfer does to the world, and the worlds that refuse one.\<close>

definition sends :: "byte list \<Rightarrow> nat \<Rightarrow> net_world \<Rightarrow> net_world \<Rightarrow> bool" where
  "sends bs n w w' \<longleftrightarrow> nw_out w' = nw_out w @ take n bs \<and> nw_refuse w' = nw_refuse w"

definition refuses :: "asio_ec \<Rightarrow> net_world \<Rightarrow> bool" where
  "refuses ec w \<longleftrightarrow> nw_refuse w \<noteq> None \<and> ec = System_error (errno_ok (nw_refuse w))"

lemma service_send_law:
  assumes "concat bufs \<noteq> []" "length bufs \<le> adapter_max_buffers"
  shows "\<exists>ec n w'. service_send net_posix (stream_impl d nb dup) bufs w = Some (ec, n, w')
    \<and> n \<le> length (concat bufs) \<and> sends (concat bufs) n w w'
    \<and> (if n = 0 then ec_failed ec \<and> refuses ec w' else ec = ec_ok)"
proof -
  let ?im = "stream_impl d nb dup"
  have "service_send net_posix ?im bufs w
      = sync_send_loop net_posix (im_socket ?im) (im_state ?im) bufs w"
    using assms by (simp add: service_send_def sync_send_def adapter_init_all buffer_size_eq
        del: concat_eq_Nil_conv)
  moreover obtain ec n w' where
    "sync_send_loop net_posix (im_socket ?im) (im_state ?im) bufs w = Some (ec, n, w')"
    and n: "n \<le> length (concat bufs)" "sends (concat bufs) n w w'"
      "if n = 0 then ec = System_error (errno_ok (nw_refuse w)) \<and> nw_refuse w \<noteq> None else ec = ec_ok"
    using sync_send_loop_net [of "im_socket ?im" "im_state ?im" bufs w] assms(1)
    unfolding sends_def by auto
  ultimately have "service_send net_posix ?im bufs w = Some (ec, n, w')" by simp
  moreover have "if n = 0 then ec_failed ec \<and> refuses ec w' else ec = ec_ok"
    using n by (auto simp: refuses_def sends_def)
  ultimately show ?thesis using n by blast
qed

lemma cb_prepare_fits: "length (cb_prepare c m) \<le> adapter_max_buffers"
proof -
  have "length rs \<le> k \<Longrightarrow> length (cb_prepare_loop k bs off m rs) \<le> k" for k bs off m and rs :: "'a list list"
    by (induction k bs off m rs rule: cb_prepare_loop.induct) (auto simp: Let_def)
  from this [of "[]" max_prepared] have "length (cb_prepare c m) \<le> max_prepared"
    by (simp add: cb_prepare_def)
  then show ?thesis
    by (simp add: max_prepared_def prepared_buffers_max_def adapter_max_buffers_def)
qed

interpretation vector_send: partial_stream cb_valid cb_rest cb_empty cb_prepare cb_consume
    cb_total_consumed "service_send net_posix (stream_impl d nb dup)" sends refuses for d nb dup
proof
  fix bufs :: "byte list list" and w
  assume "concat bufs \<noteq> []" "length bufs \<le> adapter_max_buffers"
  then show "\<exists>ec n w'. service_send net_posix (stream_impl d nb dup) bufs w = Some (ec, n, w')
      \<and> n \<le> length (concat bufs) \<and> sends (concat bufs) n w w'
      \<and> (if n = 0 then ec_failed ec \<and> refuses ec w' else ec = ec_ok)"
    by (rule service_send_law)
qed (auto simp: cb_prepare_fits sends_def take_add)

subsection \<open>Receiving\<close>

lemma store_bytes_nil [simp]: "store_bytes xs [] m = m"
  by (simp add: store_bytes_def)

lemma store_bytes_take: "length bs \<le> n \<Longrightarrow> store_bytes (take n xs) bs m = store_bytes xs bs m"
proof -
  assume "length bs \<le> n"
  then have "zip (take n xs) bs = zip xs bs"
    using take_zip [of n xs bs] by simp
  then show ?thesis by (simp add: store_bytes_def)
qed

lemma store_bytes_append:
  assumes "length bs = n" "n \<le> length xs"
  shows "store_bytes xs (bs @ cs) m = store_bytes (drop n xs) cs (store_bytes xs bs m)"
proof -
  have "zip xs (bs @ cs) = zip (take n xs) bs @ zip (drop n xs) cs"
    using assms by (simp add: zip_append2)
  moreover have "zip (take n xs) bs = zip xs bs"
    using assms take_zip [of n xs bs] by simp
  ultimately show ?thesis by (simp add: store_bytes_def)
qed

lemma sync_recv_loop_net:
  assumes "s \<noteq> invalid_socket" "\<not> has st user_set_non_blocking" "has st stream_oriented" "0 < room"
  shows "\<exists>ec n w'. sync_recv_loop net_posix s st room w = Some (ec, n, take n (nw_in w), w')
    \<and> n \<le> room \<and> n \<le> length (nw_in w) \<and> nw_in w' = drop n (nw_in w) \<and> nw_end w' = nw_end w
    \<and> (if n = 0 then ec = net_end w \<and> nw_in w = [] else ec = ec_ok)"
proof (induction "nw_recv_schedule w" arbitrary: w)
  case Nil
  show ?case
  proof (cases "nw_in w = []")
    case True
    then have "sync_recv_loop net_posix s st room w = Some (net_end w, 0, [], w)"
      using assms by (subst sync_recv_loop.simps)
        (simp add: socket_recv_def net_recvmsg_def net_deliver_def error_wrapper_def would_block_def
           try_again_def net_end_def split: option.split flip: Nil)
    then show ?thesis using True by simp
  next
    case False
    then have "sync_recv_loop net_posix s st room w
        = Some (ec_ok, min room (length (nw_in w)), take room (nw_in w), w\<lparr>nw_in := drop room (nw_in w)\<rparr>)"
      using assms by (subst sync_recv_loop.simps)
        (simp add: socket_recv_def net_recvmsg_def net_deliver_def min.commute flip: Nil)
    then show ?thesis
      using False assms(4) by (auto simp: min_def)
  qed
next
  case (Cons k ks)
  let ?w = "w\<lparr>nw_recv_schedule := ks\<rparr>"
  note sched = Cons.hyps(2) [symmetric]
  show ?case
  proof (cases "k = 0")
    case True
    with assms sched have
      "sync_recv_loop net_posix s st room w = sync_recv_loop net_posix s st room ?w"
      by (subst sync_recv_loop.simps)
        (simp add: socket_recv_def net_recvmsg_def error_wrapper_def would_block_def)
    then show ?thesis using Cons.hyps(1) [of ?w] by (simp add: net_end_def cong: if_cong)
  next
    case k: False
    show ?thesis
    proof (cases "nw_in w = []")
      case True
      then have "sync_recv_loop net_posix s st room w = Some (net_end w, 0, [], ?w)"
        using assms k sched by (subst sync_recv_loop.simps)
          (simp add: socket_recv_def net_recvmsg_def net_deliver_def error_wrapper_def
             would_block_def try_again_def net_end_def split: option.split)
      then show ?thesis using True by simp
    next
      case False
      then have "sync_recv_loop net_posix s st room w = Some (ec_ok, min (min k room) (length (nw_in w)),
          take (min k room) (nw_in w), ?w\<lparr>nw_in := drop (min k room) (nw_in w)\<rparr>)"
        using assms k sched by (subst sync_recv_loop.simps)
          (simp add: socket_recv_def net_recvmsg_def net_deliver_def min.commute Let_def)
      then show ?thesis
        using False assms(4) k by (auto simp: min_def)
    qed
  qed
qed

text \<open>The bytes that arrive go to the addresses of the buffers.\<close>

definition receives :: "nat list \<Rightarrow> nat \<Rightarrow> memory \<times> net_world \<Rightarrow> memory \<times> net_world \<Rightarrow> bool" where
  "receives addrs n mw mw' \<longleftrightarrow>
     n \<le> length (nw_in (snd mw)) \<and> nw_in (snd mw') = drop n (nw_in (snd mw))
     \<and> nw_end (snd mw') = nw_end (snd mw)
     \<and> fst mw' = store_bytes (take n addrs) (take n (nw_in (snd mw))) (fst mw)"

definition ended :: "asio_ec \<Rightarrow> memory \<times> net_world \<Rightarrow> bool" where
  "ended ec mw \<longleftrightarrow> nw_in (snd mw) = [] \<and> ec = net_end (snd mw)"

lemma service_receive_law:
  assumes "concat bufs \<noteq> []" "length bufs \<le> adapter_max_buffers"
  shows "\<exists>ec n w'. service_receive net_posix (stream_impl d nb dup) bufs mw = Some (ec, n, w')
    \<and> n \<le> length (concat bufs) \<and> receives (concat bufs) n mw w'
    \<and> (if n = 0 then ec_failed ec \<and> ended ec w' else ec = ec_ok)"
proof -
  let ?im = "stream_impl d nb dup"
  have "sync_recv net_posix (im_socket ?im) (im_state ?im) (buffer_size bufs)
        (buffer_size bufs = 0) (snd mw)
      = sync_recv_loop net_posix (im_socket ?im) (im_state ?im) (length (concat bufs)) (snd mw)"
    using assms by (simp add: sync_recv_def buffer_size_eq del: concat_eq_Nil_conv)
  moreover obtain ec n w' where
    "sync_recv_loop net_posix (im_socket ?im) (im_state ?im) (length (concat bufs)) (snd mw)
       = Some (ec, n, take n (nw_in (snd mw)), w')"
    and n: "n \<le> length (concat bufs)" "n \<le> length (nw_in (snd mw))"
    "nw_in w' = drop n (nw_in (snd mw))" "nw_end w' = nw_end (snd mw)"
    "if n = 0 then ec = net_end (snd mw) \<and> nw_in (snd mw) = [] else ec = ec_ok"
    using sync_recv_loop_net [of "im_socket ?im" "im_state ?im" "length (concat bufs)" "snd mw"]
      assms(1) by (auto simp del: concat_eq_Nil_conv)
  ultimately have "service_receive net_posix ?im bufs mw
      = Some (ec, n, store_bytes (concat bufs) (take n (nw_in (snd mw))) (fst mw), w')"
    using assms(2) by (simp add: service_receive_def adapter_init_all del: concat_eq_Nil_conv)
  moreover have "receives (concat bufs) n mw
      (store_bytes (concat bufs) (take n (nw_in (snd mw))) (fst mw), w')"
    using n by (simp add: receives_def store_bytes_take)
  moreover have "if n = 0 then ec_failed ec
      \<and> ended ec (store_bytes (concat bufs) (take n (nw_in (snd mw))) (fst mw), w') else ec = ec_ok"
    using n by (auto simp: ended_def net_end_def split: if_splits option.split)
  ultimately show ?thesis using n by blast
qed

interpretation buffer_receive: partial_stream "\<lambda>_. True" cs_rest cs_empty cs_prepare cs_consume
    cs_total_consumed "service_receive net_posix (stream_impl d nb dup)" receives ended for d nb dup
proof
  fix bufs :: "nat list list" and w
  assume "concat bufs \<noteq> []" "length bufs \<le> adapter_max_buffers"
  then show "\<exists>ec n w'. service_receive net_posix (stream_impl d nb dup) bufs w = Some (ec, n, w')
      \<and> n \<le> length (concat bufs) \<and> receives (concat bufs) n w w'
      \<and> (if n = 0 then ec_failed ec \<and> ended ec w' else ec = ec_ok)"
    by (rule service_receive_law)
next
  show "length (cs_prepare c m) \<le> adapter_max_buffers" for c :: "nat consuming_single" and m
    by (simp add: cs_prepare_def adapter_max_buffers_def)
next
  fix xs :: "nat list" and n m and w w1 w2 :: "memory \<times> net_world"
  assume r: "receives xs n w w1" "receives (drop n xs) m w1 w2" and nm: "n + m \<le> length xs"
  let ?in = "nw_in (snd w)"
  have len: "length (take n ?in) = n" "n \<le> length (take (n + m) xs)"
    using r nm by (simp_all add: receives_def)
  have "fst w2 = store_bytes (take m (drop n xs)) (take m (drop n ?in))
      (store_bytes (take n xs) (take n ?in) (fst w))"
    using r by (simp add: receives_def)
  also have "take m (drop n xs) = drop n (take (n + m) xs)"
    by (simp add: drop_take)
  also have "store_bytes (take n xs) (take n ?in) (fst w)
      = store_bytes (take (n + m) xs) (take n ?in) (fst w)"
    by (simp add: store_bytes_take)
  also have "store_bytes (drop n (take (n + m) xs)) (take m (drop n ?in)) \<dots>
      = store_bytes (take (n + m) xs) (take n ?in @ take m (drop n ?in)) (fst w)"
    by (rule store_bytes_append [OF len, symmetric])
  also have "take n ?in @ take m (drop n ?in) = take (n + m) ?in"
    by (simp add: take_add)
  finally show "receives xs (n + m) w w2"
    using r by (auto simp: receives_def add.commute)
qed (auto simp: receives_def)

section \<open>asio::write and asio::read\<close>

lemma asio_write_outcome:
  "\<exists>ec n w'. asio_write net_posix (stream_impl d nb dup) bufs w = Some (ec, n, w')
     \<and> n \<le> length (concat bufs) \<and> sends (concat bufs) n w w'
     \<and> (ec = ec_ok \<and> n = length (concat bufs)
        \<or> ec_failed ec \<and> refuses ec w' \<and> n < length (concat bufs))"
proof -
  from vector_send.loop_transfers [OF cb_valid_make, of d nb dup bufs w]
  obtain ec n w' where "asio_write net_posix (stream_impl d nb dup) bufs w
      = Some (ec, cb_total_consumed (cb_make bufs) + n, w')"
    and "n \<le> length (concat bufs)" "sends (concat bufs) n w w'"
      "ec = ec_ok \<and> n = length (concat bufs) \<or> ec_failed ec \<and> refuses ec w' \<and> n < length (concat bufs)"
    unfolding asio_write_def write_buffer_sequence_def cb_rest_make by blast
  then show ?thesis by (auto simp: cb_make_def)
qed

lemma cs_rest_make: "cs_rest (cs_make buf) = buf" "cs_total_consumed (cs_make buf) = 0"
  by (simp_all add: cs_rest_def cs_make_def)

lemma asio_read_outcome:
  "\<exists>ec n mem' w'. asio_read_into net_posix (stream_impl d nb dup) buf mw = Some (ec, n, mem', w')
     \<and> n \<le> length buf \<and> receives buf n mw (mem', w')
     \<and> (ec = ec_ok \<and> n = length buf \<or> ec_failed ec \<and> ended ec (mem', w') \<and> n < length buf)"
  using buffer_receive.loop_transfers [OF TrueI, of d nb dup "cs_make buf" mw]
  unfolding asio_read_into_def read_buffer_sequence_def cs_rest_make by auto

text \<open>What a read leaves at the addresses it filled, and elsewhere.\<close>

lemma store_bytes_other: "a \<notin> set addrs \<Longrightarrow> store_bytes addrs bs m a = m a"
proof (induction addrs arbitrary: bs m)
  case (Cons x xs)
  then show ?case by (cases bs) (simp_all add: store_bytes_def)
qed (simp add: store_bytes_def)

lemma map_store_bytes:
  "distinct addrs \<Longrightarrow> length addrs = length bs \<Longrightarrow> map (store_bytes addrs bs m) addrs = bs"
proof (induction addrs arbitrary: bs m)
  case (Cons x xs)
  then obtain b bs' where bs: "bs = b # bs'" by (cases bs) auto
  have step: "store_bytes (x # xs) bs m = store_bytes xs bs' (m(x := b))"
    by (simp add: store_bytes_def bs)
  with Cons bs show ?case by (simp add: store_bytes_other)
qed simp

text \<open>
  The stream the communicators read from, and their error codes, which forget the category.
\<close>

definition net_stream :: "net_world \<Rightarrow> stream" where
  "net_stream w = \<lparr>st_in = nw_in w, st_end = nat \<bar>ec_value (net_end w)\<bar>\<rparr>"

definition code_of :: "asio_ec \<Rightarrow> error_code" where
  "code_of ec = (if ec_failed ec then Errno (nat \<bar>ec_value ec\<bar>) else No_error)"

lemma net_stream_upd: "nw_in w' = drop n (nw_in w) \<Longrightarrow> nw_end w' = nw_end w \<Longrightarrow>
    net_stream w' = (net_stream w)\<lparr>st_in := drop n (nw_in w)\<rparr>"
  by (simp add: net_stream_def net_end_def)

lemma code_of_simps [simp]: "code_of ec_ok = No_error" "code_of (net_end w) = Errno (nat \<bar>ec_value (net_end w)\<bar>)"
  by (simp_all add: code_of_def)

lemma asio_read_into_refines:
  assumes "distinct buf"
  obtains ec n mem' w' where
    "asio_read_into net_posix (stream_impl d nb dup) buf (mem, w) = Some (ec, n, mem', w')"
    "asio_read (length buf) (net_stream w) = (code_of ec, map mem' (take n buf), net_stream w')"
    "n \<le> length buf" "\<And>a. a \<notin> set buf \<Longrightarrow> mem' a = mem a" "ec = ec_ok \<longleftrightarrow> n = length buf"
    "\<not> ec_failed ec \<longrightarrow> ec = ec_ok" "map mem' (drop n buf) = map mem (drop n buf)"
proof -
  from asio_read_outcome [of d nb dup buf "(mem, w)"] obtain ec n mem' w' where
    r: "asio_read_into net_posix (stream_impl d nb dup) buf (mem, w) = Some (ec, n, mem', w')"
    and n: "n \<le> length buf" and rc: "receives buf n (mem, w) (mem', w')"
    and ec: "ec = ec_ok \<and> n = length buf \<or> ec_failed ec \<and> ended ec (mem', w') \<and> n < length buf"
    by blast
  have mem': "mem' = store_bytes (take n buf) (take n (nw_in w)) mem"
    and le: "n \<le> length (nw_in w)"
    and w': "net_stream w' = (net_stream w)\<lparr>st_in := drop n (nw_in w)\<rparr>"
    using rc by (simp_all add: receives_def net_stream_upd)
  have got: "map mem' (take n buf) = take n (nw_in w)"
    unfolding mem' using assms n le by (intro map_store_bytes) simp_all
  have "asio_read (length buf) (net_stream w) = (code_of ec, map mem' (take n buf), net_stream w')"
  proof (cases "ec_failed ec")
    case False
    then show ?thesis
      using ec le unfolding got w' by (simp add: asio_read_def net_stream_def)
  next
    case True
    then have "ended ec (mem', w')" "n < length buf" using ec by auto
    then have "nw_in w' = []" "ec = net_end w"
      using rc by (simp_all add: ended_def receives_def net_end_def)
    then have "n = length (nw_in w)" using rc by (simp add: receives_def)
    then show ?thesis
      using \<open>ec = net_end w\<close> \<open>n < length buf\<close> unfolding got w'
      by (simp add: asio_read_def net_stream_def)
  qed
  moreover have "mem' a = mem a" if "a \<notin> set (take n buf)" for a
    using that unfolding mem' by (rule store_bytes_other)
  moreover have "set (take n buf) \<inter> set (drop n buf) = {}"
    using assms by (simp add: set_take_disj_set_drop_if_distinct)
  ultimately show ?thesis
    using that [OF r] n ec by (fastforce dest: in_set_takeD)
qed

text \<open>
  C36: The loops of write and read over a socket return for every schedule of partial
  and blocked transfers: with success and every byte moved, or with an error and fewer.
\<close>

theorem transfers_return:
  "(\<exists>ec n w'. asio_write net_posix (stream_impl d nb dup) bufs w = Some (ec, n, w') \<and>
      (ec = ec_ok \<and> n = length (concat bufs) \<or> ec_failed ec \<and> n < length (concat bufs))) \<and>
   (\<exists>ec n mem' w'. asio_read_into net_posix (stream_impl d nb dup) buf mw = Some (ec, n, mem', w') \<and>
      (ec = ec_ok \<and> n = length buf \<or> ec_failed ec \<and> n < length buf))"
  using asio_write_outcome [of d nb dup bufs w] asio_read_outcome [of d nb dup buf mw] by blast

end
