(* ===== verification/Oef_Comm_Posix.thy ===== *)
theory Oef_Comm_Posix
  imports Oef_Asio_Transfer_Facts
begin

text \<open>
  \<open>AsioComm\<close> on top of \<open>asio::read\<close> and \<open>asio::write\<close> as the library implements them:
  \<open>send_sync\<close> and \<open>receive_sync\<close> of \<open>lib/src/asio_communicator.cpp\<close> with a memory, a socket
  and the system calls under them. They refine the operations of \<open>Oef_Comm\<close>, which read
  from a stream in one step.
\<close>

section \<open>The operations\<close>

definition region :: "nat \<Rightarrow> nat \<Rightarrow> nat list" where
  "region a n = [a..<a + n]"

text \<open>
  \<open>receive_sync\<close>: \<open>len_at\<close> and \<open>data_at\<close> are where the length and the vector are allocated,
  \<open>old\<close> is the buffer of the caller. A new vector is filled with zeros.
\<close>

definition receive_sync_io ::
  "endian \<Rightarrow> 'w posix \<Rightarrow> base_impl \<Rightarrow> nat \<Rightarrow> nat \<Rightarrow> buffer \<Rightarrow> memory \<times> 'w
     \<Rightarrow> (asio_ec \<times> buffer \<times> memory \<times> 'w) option" where
  "receive_sync_io e P im len_at data_at old mw =
     Option.bind (asio_read_into P im (region len_at 4) mw)
       (\<lambda>(ec, n, m1, w1).
          if ec_failed ec \<or> n \<noteq> 4 then Some (ec, old, m1, w1)
          else
            let len = unat (read_u32 e (map m1 (region len_at 4)));
                addrs = region data_at len;
                m2 = store_bytes addrs (replicate len 0) m1
            in Option.bind (asio_read_into P im addrs (m2, w1))
                 (\<lambda>(ec2, n2, m3, w2). Some (ec2, map m3 addrs, m3, w2)))"

definition send_sync_io ::
  "endian \<Rightarrow> 'w posix \<Rightarrow> base_impl \<Rightarrow> buffer \<Rightarrow> 'w \<Rightarrow> (asio_ec \<times> 'w) option" where
  "send_sync_io e P im buf w =
     (let len = size_u32 buf in
      Option.bind (asio_write P im [serialize_u32 e len, take (unat len) buf] w)
        (\<lambda>(ec, n, w'). Some (ec, w')))"

lemma region_simps [simp]: "distinct (region a n)" "length (region a n) = n"
  by (simp_all add: region_def)

section \<open>Sending\<close>

lemma send_sync_io_frame:
  "\<exists>ec n w'. send_sync_io e net_posix (stream_impl d nb dup) buf w = Some (ec, w')
     \<and> sends (comm_frame e buf) n w w' \<and> n \<le> length (comm_frame e buf)
     \<and> (ec = ec_ok \<and> n = length (comm_frame e buf)
        \<or> ec_failed ec \<and> refuses ec w' \<and> n < length (comm_frame e buf))"
proof -
  have "concat [serialize_u32 e (size_u32 buf), take (unat (size_u32 buf)) buf] = comm_frame e buf"
    by (simp add: comm_frame_def Let_def)
  with asio_write_outcome [of d nb dup
      "[serialize_u32 e (size_u32 buf), take (unat (size_u32 buf)) buf]" w]
  obtain ec n w' where
    "asio_write net_posix (stream_impl d nb dup)
       [serialize_u32 e (size_u32 buf), take (unat (size_u32 buf)) buf] w = Some (ec, n, w')"
    "sends (comm_frame e buf) n w w'" "n \<le> length (comm_frame e buf)"
    "ec = ec_ok \<and> n = length (comm_frame e buf)
        \<or> ec_failed ec \<and> refuses ec w' \<and> n < length (comm_frame e buf)"
    by metis
  then show ?thesis by (auto simp: send_sync_io_def Let_def)
qed

text \<open>
  C33: Over a POSIX socket that takes the bytes in any pieces and blocks any number of
  times, send_sync always returns, having put on the wire exactly the frame that the
  abstract send of AsioComm sends, or a proper prefix of it together with the error of
  the system.
\<close>

theorem send_sync_refines:
  "\<exists>ec sent w'. send_sync_io e net_posix (stream_impl d nb dup) buf w = Some (ec, w')
     \<and> nw_out w' = nw_out w @ sent
     \<and> (ec = ec_ok \<and> comm_send_sync e buf No_error = (sent, code_of ec)
        \<or> nw_refuse w \<noteq> None \<and> ec = System_error (errno_ok (nw_refuse w))
          \<and> (\<exists>unsent. unsent \<noteq> [] \<and> comm_send_sync e buf (code_of ec) = (sent @ unsent, code_of ec)))"
proof -
  from send_sync_io_frame [of e d nb dup buf w] obtain ec n w' where
    r: "send_sync_io e net_posix (stream_impl d nb dup) buf w = Some (ec, w')"
    and s: "sends (comm_frame e buf) n w w'"
    and c: "ec = ec_ok \<and> n = length (comm_frame e buf)
        \<or> ec_failed ec \<and> refuses ec w' \<and> n < length (comm_frame e buf)"
    by blast
  show ?thesis
  proof (cases "ec = ec_ok")
    case True
    with c have "n = length (comm_frame e buf)" by auto
    with s True r show ?thesis
      by (auto simp: sends_def comm_send_sync_def)
  next
    case False
    with c have f: "refuses ec w'" "n < length (comm_frame e buf)" by auto
    have "comm_frame e buf = take n (comm_frame e buf) @ drop n (comm_frame e buf)" by simp
    moreover have "drop n (comm_frame e buf) \<noteq> []" using f by simp
    ultimately show ?thesis
      using r s f unfolding refuses_def sends_def comm_send_sync_def
      by (metis append_take_drop_id)
  qed
qed

section \<open>Receiving\<close>

lemma receive_sync_io_refines:
  "\<exists>ec got m' w'. receive_sync_io e net_posix (stream_impl d nb dup) len_at data_at old (m, w)
       = Some (ec, got, m', w')
     \<and> comm_receive_sync e old (net_stream w) = (code_of ec, got, net_stream w')"
proof -
  let ?im = "stream_impl d nb dup"
  obtain ec n m1 w1 where
    r1: "asio_read_into net_posix ?im (region len_at 4) (m, w) = Some (ec, n, m1, w1)"
    and a1: "asio_read (length (region len_at 4)) (net_stream w)
      = (code_of ec, map m1 (take n (region len_at 4)), net_stream w1)"
    and n: "n \<le> length (region len_at 4)" "ec = ec_ok \<longleftrightarrow> n = length (region len_at 4)"
      "\<not> ec_failed ec \<longrightarrow> ec = ec_ok"
    by (rule asio_read_into_refines [OF region_simps(1) [of len_at 4], of d nb dup m w]) blast
  note [simp] = a1 [simplified]
  show ?thesis
  proof (cases "ec = ec_ok")
    case False
    then have "failed (code_of ec)" using n(3) by (auto simp: code_of_def)
    then show ?thesis
      using False n r1 a1 by (auto simp: receive_sync_io_def comm_receive_sync_def)
  next
    case True
    then have n4: "n = 4" using n(2) by simp
    let ?len = "unat (read_u32 e (map m1 (region len_at 4)))"
    let ?addrs = "region data_at ?len"
    let ?m2 = "store_bytes ?addrs (replicate ?len 0) m1"
    obtain ec2 n2 m3 w2 where
      r2: "asio_read_into net_posix ?im ?addrs (?m2, w1) = Some (ec2, n2, m3, w2)"
      and a2: "asio_read (length ?addrs) (net_stream w1)
        = (code_of ec2, map m3 (take n2 ?addrs), net_stream w2)"
      and n2: "n2 \<le> length ?addrs" and rest: "map m3 (drop n2 ?addrs) = map ?m2 (drop n2 ?addrs)"
      by (rule asio_read_into_refines [OF region_simps(1) [of data_at ?len], of d nb dup ?m2 w1]) blast
    have "map ?m2 (drop n2 ?addrs) = drop n2 (map ?m2 ?addrs)" by (simp add: drop_map)
    also have "map ?m2 ?addrs = replicate ?len 0" by (simp add: map_store_bytes)
    finally have zeros: "map m3 (drop n2 ?addrs) = replicate (?len - n2) 0" using rest by simp
    have "map m3 ?addrs = map m3 (take n2 ?addrs) @ map m3 (drop n2 ?addrs)"
      by (metis append_take_drop_id map_append)
    then have got: "map m3 ?addrs = received_into ?len (map m3 (take n2 ?addrs))"
      using n2 by (simp add: zeros received_into_def)
    have "comm_receive_sync e old (net_stream w) = (code_of ec2, map m3 ?addrs, net_stream w2)"
      using a1 a2 True n4 unfolding got by (simp add: comm_receive_sync_def Let_def)
    moreover have "receive_sync_io e net_posix ?im len_at data_at old (m, w)
        = Some (ec2, map m3 ?addrs, m3, w2)"
      using r1 r2 True n4 by (simp add: receive_sync_io_def Let_def)
    ultimately show ?thesis by blast
  qed
qed

text \<open>
  C34: Over a POSIX socket on which the bytes arrive in any pieces, receive_sync always
  returns, with the error, the buffer and the rest of the stream that the abstract
  receive of AsioComm yields in one step.
\<close>

theorem receive_sync_refines:
  "\<exists>ec got m' w'. receive_sync_io e net_posix (stream_impl d nb dup) len_at data_at old (m, w)
       = Some (ec, got, m', w')
     \<and> comm_receive_sync e old (net_stream w) = (code_of ec, got, net_stream w')"
  by (rule receive_sync_io_refines)

text \<open>
  A buffer of less than 2^32 bytes that send_sync puts on a socket that refuses
  nothing is returned by the receive_sync of any peer to which those bytes arrive,
  whatever the pieces on either side, and the bytes behind it stay in the stream.
\<close>

lemma posix_delivery:
  assumes "length buf < 2 ^ 32" "nw_refuse w = None"
  shows "\<exists>sent w'. send_sync_io e net_posix (stream_impl d nb dup) buf w = Some (ec_ok, w')
    \<and> nw_out w' = nw_out w @ sent
    \<and> (\<forall>r rest d' nb' dup' len_at data_at old m. nw_in r = sent @ rest \<longrightarrow>
         (\<exists>ec m' r'. receive_sync_io e net_posix (stream_impl d' nb' dup') len_at data_at old (m, r)
              = Some (ec, buf, m', r')
            \<and> \<not> ec_failed ec \<and> nw_in r' = rest))"
proof -
  from send_sync_io_frame [of e d nb dup buf w] obtain ec n w' where
    r: "send_sync_io e net_posix (stream_impl d nb dup) buf w = Some (ec, w')"
    and s: "sends (comm_frame e buf) n w w'"
    and c: "ec = ec_ok \<and> n = length (comm_frame e buf) \<or> refuses ec w'"
    by blast
  from s assms(2) have "\<not> refuses ec w'" by (simp add: refuses_def sends_def)
  with c have ok: "ec = ec_ok" "nw_out w' = nw_out w @ comm_frame e buf"
    using s by (auto simp: sends_def)
  have "\<exists>ec m' r'. receive_sync_io e net_posix (stream_impl d' nb' dup') len_at data_at old (m, r)
      = Some (ec, buf, m', r') \<and> \<not> ec_failed ec \<and> nw_in r' = rest"
    if "nw_in r = comm_frame e buf @ rest" for r rest d' nb' dup' len_at data_at old m
  proof -
    have a: "asio_read 4 (net_stream r) = (No_error, serialize_u32 e (size_u32 buf),
        (net_stream r)\<lparr>st_in := buf @ rest\<rparr>)"
      using that assms(1) by (intro asio_read_append) (simp_all add: comm_frame_short net_stream_def)
    have "asio_read (length buf) ((net_stream r)\<lparr>st_in := buf @ rest\<rparr>)
        = (No_error, buf, (net_stream r)\<lparr>st_in := rest\<rparr>)"
      by (simp add: asio_read_append)
    with a have "comm_receive_sync e old (net_stream r) = (No_error, buf, (net_stream r)\<lparr>st_in := rest\<rparr>)"
      using assms(1) by (simp add: comm_receive_sync_def unat_size_u32)
    with receive_sync_io_refines [of e d' nb' dup' len_at data_at old m r] show ?thesis
      by (auto simp: code_of_def net_stream_def split: if_splits)
  qed
  with r ok show ?thesis by auto
qed

section \<open>The asynchronous operations\<close>

text \<open>
  async_write and async_read of something call their handler with the outcome that
  write and read return for the same stream.
\<close>

lemma async_same_outcome:
  assumes "concat bufs \<noteq> []" "buf \<noteq> []"
  shows "async_write (service_send net_posix (stream_impl d nb dup)) bufs w
      = asio_write net_posix (stream_impl d nb dup) bufs w
    \<and> async_read (service_receive net_posix (stream_impl d nb dup)) buf mw
      = asio_read_into net_posix (stream_impl d nb dup) buf mw"
proof
  have "\<not> cb_empty (cb_make bufs)"
    using assms(1) by (simp add: cb.empty_iff [OF cb_valid_make] cb_rest_make del: concat_eq_Nil_conv)
  from vector_send.op_start_run [OF cb_valid_make this]
  show "async_write (service_send net_posix (stream_impl d nb dup)) bufs w
      = asio_write net_posix (stream_impl d nb dup) bufs w"
    by (simp add: async_write_def asio_write_def write_buffer_sequence_def)
  have "\<not> cs_empty (cs_make buf)"
    using assms(2) by (simp add: cs.empty_iff cs_rest_make)
  from buffer_receive.op_start_run [OF TrueI this]
  show "async_read (service_receive net_posix (stream_impl d nb dup)) buf mw
      = asio_read_into net_posix (stream_impl d nb dup) buf mw"
    by (simp add: async_read_def asio_read_into_def read_buffer_sequence_def read_op_call_eq)
qed

text \<open>Examples: a socket that transfers the frame in pieces and blocks in between.\<close>

definition example_net :: "byte list \<Rightarrow> net_world" where
  "example_net bs = \<lparr>nw_in = bs, nw_end = None, nw_recv_schedule = [0, 3, 0, 1], nw_out = [],
     nw_refuse = None, nw_send_schedule = [0, 2, 1]\<rparr>"

lemma posix_delivery_witness:
  "\<exists>sent w' ec m' r'.
     send_sync_io LittleEndian net_posix (stream_impl 5 True True) [7, 8] (example_net []) = Some (ec_ok, w')
     \<and> nw_out w' = sent
     \<and> receive_sync_io LittleEndian net_posix (stream_impl 6 False False) 100 200 [1]
         (\<lambda>_. 0, example_net (sent @ [9])) = Some (ec, [7, 8], m', r')
     \<and> nw_in r' = [9]"
proof -
  have "nw_refuse (example_net []) = None" "nw_out (example_net []) = []"
    "\<And>bs. nw_in (example_net bs) = bs"
    by (simp_all add: example_net_def)
  note net = this
  have short: "length [7, 8 :: byte] < 2 ^ 32" by simp
  from posix_delivery [OF short net(1), of LittleEndian 5 True True] obtain sent w' where
    a: "send_sync_io LittleEndian net_posix (stream_impl 5 True True) [7, 8] (example_net [])
      = Some (ec_ok, w')" "nw_out w' = nw_out (example_net []) @ sent"
    and r: "\<forall>r rest d' nb' dup' len_at data_at old m. nw_in r = sent @ rest \<longrightarrow>
         (\<exists>ec m' r'. receive_sync_io LittleEndian net_posix (stream_impl d' nb' dup') len_at data_at
              old (m, r) = Some (ec, [7, 8], m', r') \<and> \<not> ec_failed ec \<and> nw_in r' = rest)"
    by blast
  from r [rule_format, OF net(3) [of "sent @ [9]"], of 6 False False 100 200 "[1]" "\<lambda>_. 0"] a net(2)
  show ?thesis by auto
qed

lemma async_same_outcome_witness:
  "async_write (service_send net_posix (stream_impl 5 True True)) [[1], [2, 3]] (example_net [])
     = asio_write net_posix (stream_impl 5 True True) [[1], [2, 3]] (example_net [])"
  using async_same_outcome [of "[[1], [2, 3]]" "[0]" 5 True True "example_net []"]
  by simp

end
