(* ===== verification/Oef_Log_Format.thy ===== *)
theory Oef_Log_Format
  imports Oef_Log_Digits "HOL-Library.Monad_Syntax"
begin

text \<open>
  The flag formatters of the log (\<open>3rd/spdlog/details/pattern_formatter.h\<close>), the log
  levels and source locations (\<open>3rd/spdlog/common.h\<close>) and the log message
  (\<open>details/log_msg.h\<close>). A formatter appends to the text buffer \<open>dest\<close>; the result is
  \<open>None\<close> where the code has no defined result: the assertion of \<open>pad_it\<close> fails, or a name
  table is indexed outside its bounds. The mutable colour range of the message is kept
  beside the text, in \<open>log_out\<close>.
\<close>

section \<open>Levels\<close>

datatype level_enum =
  level_trace | level_debug | level_info | level_warn | level_err | level_critical | level_off

fun level_int :: "level_enum \<Rightarrow> nat" where
  "level_int level_trace = 0"
| "level_int level_debug = 1"
| "level_int level_info = 2"
| "level_int level_warn = 3"
| "level_int level_err = 4"
| "level_int level_critical = 5"
| "level_int level_off = 6"

definition level_of_int :: "nat \<Rightarrow> level_enum" where
  "level_of_int n =
     [level_trace, level_debug, level_info, level_warn, level_err, level_critical, level_off] ! n"

definition level_string_views :: "string list" where
  "level_string_views =
     [''trace'', ''debug'', ''info'', ''warning'', ''error'', ''critical'', ''off'']"

definition short_level_names :: "string list" where
  "short_level_names = [''T'', ''D'', ''I'', ''W'', ''E'', ''C'', ''O'']"

definition to_string_view :: "level_enum \<Rightarrow> string" where
  "to_string_view l = level_string_views ! level_int l"

definition to_short_c_str :: "level_enum \<Rightarrow> string" where
  "to_short_c_str l = short_level_names ! level_int l"

fun from_str_loop :: "nat \<Rightarrow> string list \<Rightarrow> string \<Rightarrow> level_enum" where
  "from_str_loop level [] name = level_off"
| "from_str_loop level (level_str # rest) name =
     (if level_str = name then level_of_int level else from_str_loop (level + 1) rest name)"

definition from_str :: "string \<Rightarrow> level_enum" where
  "from_str name = from_str_loop 0 level_string_views name"

section \<open>Messages and time\<close>

record source_loc =
  sl_filename :: string
  sl_line :: nat
  sl_funcname :: string

definition source_loc_default :: source_loc where
  "source_loc_default = \<lparr>sl_filename = '''', sl_line = 0, sl_funcname = ''''\<rparr>"

definition source_loc_make :: "string \<Rightarrow> int \<Rightarrow> string \<Rightarrow> source_loc" where
  "source_loc_make filename l funcname =
     \<lparr>sl_filename = filename, sl_line = unat (word_of_int l :: 32 word), sl_funcname = funcname\<rparr>"

definition source_loc_empty :: "source_loc \<Rightarrow> bool" where
  "source_loc_empty s \<longleftrightarrow> sl_line s = 0"

text \<open>The time is in nanoseconds since the epoch.\<close>

record log_msg =
  lm_logger_name :: string
  lm_level :: level_enum
  lm_time :: int
  lm_thread_id :: nat
  lm_msg_id :: nat
  lm_source :: source_loc
  lm_payload :: string

definition log_msg_make ::
    "int \<Rightarrow> nat \<Rightarrow> source_loc \<Rightarrow> string \<Rightarrow> level_enum \<Rightarrow> string \<Rightarrow> log_msg" where
  "log_msg_make now thread_id loc loggers_name lvl view =
     \<lparr>lm_logger_name = loggers_name, lm_level = lvl, lm_time = now, lm_thread_id = thread_id,
      lm_msg_id = 0, lm_source = loc, lm_payload = view\<rparr>"

record log_out =
  out_text :: string
  color_range_start :: nat
  color_range_end :: nat

definition log_out_new :: log_out where
  "log_out_new = \<lparr>out_text = [], color_range_start = 0, color_range_end = 0\<rparr>"

text \<open>The fields of \<open>std::tm\<close> the formatters read.\<close>

record tm =
  tm_sec :: int
  tm_min :: int
  tm_hour :: int
  tm_mday :: int
  tm_mon :: int
  tm_year :: int
  tm_wday :: int
  tm_gmtoff :: int

definition tm_zero :: tm where
  "tm_zero = \<lparr>tm_sec = 0, tm_min = 0, tm_hour = 0, tm_mday = 0, tm_mon = 0, tm_year = 0,
    tm_wday = 0, tm_gmtoff = 0\<rparr>"

section \<open>Padding\<close>

datatype pad_side = pad_left | pad_right | pad_center

record padding_info =
  pad_width :: nat
  pad_side_of :: pad_side

definition no_padding :: padding_info where
  "no_padding = \<lparr>pad_width = 0, pad_side_of = pad_left\<rparr>"

definition pad_enabled :: "padding_info \<Rightarrow> bool" where
  "pad_enabled p \<longleftrightarrow> pad_width p \<noteq> 0"

definition spaces :: string where
  "spaces = replicate 128 (CHR '' '')"

definition pad_it :: "nat \<Rightarrow> string \<Rightarrow> string option" where
  "pad_it n dest = (if n \<le> length spaces then Some (dest @ take n spaces) else None)"

text \<open>The constructor of \<open>scoped_pad\<close>: the spaces in front are written, those left for the
  destructor are counted.\<close>

definition scoped_pad_open :: "nat \<Rightarrow> padding_info \<Rightarrow> string \<Rightarrow> (nat \<times> string) option" where
  "scoped_pad_open wrapped_size p dest =
     (if pad_width p \<le> wrapped_size then Some (0, dest)
      else let total_pad = pad_width p - wrapped_size
           in case pad_side_of p of
                pad_left \<Rightarrow> do { dest \<leftarrow> pad_it total_pad dest; Some (0, dest) }
              | pad_center \<Rightarrow>
                  (let half_pad = total_pad div 2; reminder = and total_pad 1
                   in do { dest \<leftarrow> pad_it half_pad dest; Some (half_pad + reminder, dest) })
              | pad_right \<Rightarrow> Some (total_pad, dest))"

definition scoped_pad_close :: "nat \<Rightarrow> string \<Rightarrow> string option" where
  "scoped_pad_close total_pad dest = (if total_pad \<noteq> 0 then pad_it total_pad dest else Some dest)"

text \<open>A block with a \<open>scoped_pad\<close> in it: \<open>body\<close> is the rest of the block.\<close>

definition scoped_pad ::
    "nat \<Rightarrow> padding_info \<Rightarrow> string \<Rightarrow> (string \<Rightarrow> string option) \<Rightarrow> string option" where
  "scoped_pad wrapped_size p dest body =
     do { (total_pad, dest) \<leftarrow> scoped_pad_open wrapped_size p dest;
          dest \<leftarrow> body dest;
          scoped_pad_close total_pad dest }"

definition table_at :: "string list \<Rightarrow> int \<Rightarrow> string option" where
  "table_at names i = (if 0 \<le> i \<and> i < int (length names) then Some (names ! nat i) else None)"

section \<open>Name, level and date formatters\<close>

definition name_format :: "padding_info \<Rightarrow> log_msg \<Rightarrow> tm \<Rightarrow> string \<Rightarrow> string option" where
  "name_format p msg t dest =
     (if pad_enabled p
      then scoped_pad (length (lm_logger_name msg)) p dest
             (\<lambda>dest. Some (dest @ lm_logger_name msg))
      else Some (dest @ lm_logger_name msg))"

definition level_format :: "padding_info \<Rightarrow> log_msg \<Rightarrow> tm \<Rightarrow> string \<Rightarrow> string option" where
  "level_format p msg t dest =
     (let level_name = to_string_view (lm_level msg)
      in if pad_enabled p
         then scoped_pad (length level_name) p dest (\<lambda>dest. Some (dest @ level_name))
         else Some (dest @ level_name))"

definition short_level_format :: "padding_info \<Rightarrow> log_msg \<Rightarrow> tm \<Rightarrow> string \<Rightarrow> string option" where
  "short_level_format p msg t dest =
     (let level_name = to_short_c_str (lm_level msg)
      in scoped_pad (length level_name) p dest (\<lambda>dest. Some (dest @ level_name)))"

definition ampm :: "tm \<Rightarrow> string" where
  "ampm t = (if tm_hour t \<ge> 12 then ''PM'' else ''AM'')"

definition to12h :: "tm \<Rightarrow> int" where
  "to12h t = (if tm_hour t > 12 then tm_hour t - 12 else tm_hour t)"

definition days :: "string list" where
  "days = [''Sun'', ''Mon'', ''Tue'', ''Wed'', ''Thu'', ''Fri'', ''Sat'']"

definition full_days :: "string list" where
  "full_days =
     [''Sunday'', ''Monday'', ''Tuesday'', ''Wednesday'', ''Thursday'', ''Friday'', ''Saturday'']"

definition months :: "string list" where
  "months = [''Jan'', ''Feb'', ''Mar'', ''Apr'', ''May'', ''Jun'', ''Jul'', ''Aug'', ''Sept'',
     ''Oct'', ''Nov'', ''Dec'']"

definition full_months :: "string list" where
  "full_months = [''January'', ''February'', ''March'', ''April'', ''May'', ''June'', ''July'',
     ''August'', ''September'', ''October'', ''November'', ''December'']"

definition a_format :: "padding_info \<Rightarrow> log_msg \<Rightarrow> tm \<Rightarrow> string \<Rightarrow> string option" where
  "a_format p msg t dest =
     do { field_value \<leftarrow> table_at days (tm_wday t);
          scoped_pad (length field_value) p dest (\<lambda>dest. Some (dest @ field_value)) }"

definition A_format :: "padding_info \<Rightarrow> log_msg \<Rightarrow> tm \<Rightarrow> string \<Rightarrow> string option" where
  "A_format p msg t dest =
     do { field_value \<leftarrow> table_at full_days (tm_wday t);
          scoped_pad (length field_value) p dest (\<lambda>dest. Some (dest @ field_value)) }"

definition b_format :: "padding_info \<Rightarrow> log_msg \<Rightarrow> tm \<Rightarrow> string \<Rightarrow> string option" where
  "b_format p msg t dest =
     do { field_value \<leftarrow> table_at months (tm_mon t);
          scoped_pad (length field_value) p dest (\<lambda>dest. Some (dest @ field_value)) }"

definition B_format :: "padding_info \<Rightarrow> log_msg \<Rightarrow> tm \<Rightarrow> string \<Rightarrow> string option" where
  "B_format p msg t dest =
     do { field_value \<leftarrow> table_at full_months (tm_mon t);
          scoped_pad (length field_value) p dest (\<lambda>dest. Some (dest @ field_value)) }"

definition c_format :: "padding_info \<Rightarrow> log_msg \<Rightarrow> tm \<Rightarrow> string \<Rightarrow> string option" where
  "c_format p msg t dest =
     scoped_pad 24 p dest (\<lambda>dest.
       do { day \<leftarrow> table_at days (tm_wday t);
            let dest = dest @ day @ '' '';
            month \<leftarrow> table_at months (tm_mon t);
            let dest = dest @ month @ '' '';
            let dest = append_int (tm_mday t) dest @ '' '';
            let dest = pad2 (tm_hour t) dest @ '':'';
            let dest = pad2 (tm_min t) dest @ '':'';
            let dest = pad2 (tm_sec t) dest @ '' '';
            Some (append_int (tm_year t + 1900) dest) })"

definition C_format :: "padding_info \<Rightarrow> log_msg \<Rightarrow> tm \<Rightarrow> string \<Rightarrow> string option" where
  "C_format p msg t dest =
     scoped_pad 2 p dest (\<lambda>dest. Some (pad2 (tm_year t smod 100) dest))"

definition D_format :: "padding_info \<Rightarrow> log_msg \<Rightarrow> tm \<Rightarrow> string \<Rightarrow> string option" where
  "D_format p msg t dest =
     scoped_pad 10 p dest (\<lambda>dest.
       (let dest = pad2 (tm_mon t + 1) dest @ ''/'';
            dest = pad2 (tm_mday t) dest @ ''/''
        in Some (pad2 (tm_year t smod 100) dest)))"

definition Y_format :: "padding_info \<Rightarrow> log_msg \<Rightarrow> tm \<Rightarrow> string \<Rightarrow> string option" where
  "Y_format p msg t dest =
     scoped_pad 4 p dest (\<lambda>dest. Some (append_int (tm_year t + 1900) dest))"

definition m_format :: "padding_info \<Rightarrow> log_msg \<Rightarrow> tm \<Rightarrow> string \<Rightarrow> string option" where
  "m_format p msg t dest = scoped_pad 2 p dest (\<lambda>dest. Some (pad2 (tm_mon t + 1) dest))"

definition d_format :: "padding_info \<Rightarrow> log_msg \<Rightarrow> tm \<Rightarrow> string \<Rightarrow> string option" where
  "d_format p msg t dest = scoped_pad 2 p dest (\<lambda>dest. Some (pad2 (tm_mday t) dest))"

definition H_format :: "padding_info \<Rightarrow> log_msg \<Rightarrow> tm \<Rightarrow> string \<Rightarrow> string option" where
  "H_format p msg t dest = scoped_pad 2 p dest (\<lambda>dest. Some (pad2 (tm_hour t) dest))"

definition I_format :: "padding_info \<Rightarrow> log_msg \<Rightarrow> tm \<Rightarrow> string \<Rightarrow> string option" where
  "I_format p msg t dest = scoped_pad 2 p dest (\<lambda>dest. Some (pad2 (to12h t) dest))"

definition M_format :: "padding_info \<Rightarrow> log_msg \<Rightarrow> tm \<Rightarrow> string \<Rightarrow> string option" where
  "M_format p msg t dest = scoped_pad 2 p dest (\<lambda>dest. Some (pad2 (tm_min t) dest))"

definition S_format :: "padding_info \<Rightarrow> log_msg \<Rightarrow> tm \<Rightarrow> string \<Rightarrow> string option" where
  "S_format p msg t dest = scoped_pad 2 p dest (\<lambda>dest. Some (pad2 (tm_sec t) dest))"

section \<open>Sub-second, clock and zone formatters\<close>

definition e_format :: "padding_info \<Rightarrow> log_msg \<Rightarrow> tm \<Rightarrow> string \<Rightarrow> string option" where
  "e_format p msg t dest =
     (let millis = unat (word_of_int (time_fraction 1000000 (lm_time msg)) :: 32 word)
      in if pad_enabled p then scoped_pad 3 p dest (\<lambda>dest. Some (pad3 4 millis dest))
         else Some (pad3 4 millis dest))"

definition f_format :: "padding_info \<Rightarrow> log_msg \<Rightarrow> tm \<Rightarrow> string \<Rightarrow> string option" where
  "f_format p msg t dest =
     (let micros = unat (word_of_int (time_fraction 1000 (lm_time msg)) :: 64 word)
      in if pad_enabled p then scoped_pad 6 p dest (\<lambda>dest. Some (pad6 8 micros dest))
         else Some (pad6 8 micros dest))"

definition F_format :: "padding_info \<Rightarrow> log_msg \<Rightarrow> tm \<Rightarrow> string \<Rightarrow> string option" where
  "F_format p msg t dest =
     (let ns = unat (word_of_int (time_fraction 1 (lm_time msg)) :: 64 word)
      in if pad_enabled p then scoped_pad 9 p dest (\<lambda>dest. Some (pad9 8 ns dest))
         else Some (pad9 8 ns dest))"

definition E_format :: "padding_info \<Rightarrow> log_msg \<Rightarrow> tm \<Rightarrow> string \<Rightarrow> string option" where
  "E_format p msg t dest =
     scoped_pad 10 p dest (\<lambda>dest. Some (append_int (duration_cast 1000000000 (lm_time msg)) dest))"

definition p_format :: "padding_info \<Rightarrow> log_msg \<Rightarrow> tm \<Rightarrow> string \<Rightarrow> string option" where
  "p_format p msg t dest = scoped_pad 2 p dest (\<lambda>dest. Some (dest @ ampm t))"

definition r_format :: "padding_info \<Rightarrow> log_msg \<Rightarrow> tm \<Rightarrow> string \<Rightarrow> string option" where
  "r_format p msg t dest =
     scoped_pad 11 p dest (\<lambda>dest.
       (let dest = pad2 (to12h t) dest @ '':'';
            dest = pad2 (tm_min t) dest @ '':'';
            dest = pad2 (tm_sec t) dest @ '' ''
        in Some (dest @ ampm t)))"

definition R_format :: "padding_info \<Rightarrow> log_msg \<Rightarrow> tm \<Rightarrow> string \<Rightarrow> string option" where
  "R_format p msg t dest =
     scoped_pad 5 p dest (\<lambda>dest.
       (let dest = pad2 (tm_hour t) dest @ '':'' in Some (pad2 (tm_min t) dest)))"

definition T_format :: "padding_info \<Rightarrow> log_msg \<Rightarrow> tm \<Rightarrow> string \<Rightarrow> string option" where
  "T_format p msg t dest =
     scoped_pad 8 p dest (\<lambda>dest.
       (let dest = pad2 (tm_hour t) dest @ '':'';
            dest = pad2 (tm_min t) dest @ '':''
        in Some (pad2 (tm_sec t) dest)))"

definition utc_minutes_offset :: "tm \<Rightarrow> int" where
  "utc_minutes_offset t = sint (word_of_int (tm_gmtoff t sdiv 60) :: 32 word)"

definition z_format :: "padding_info \<Rightarrow> log_msg \<Rightarrow> tm \<Rightarrow> string \<Rightarrow> string option" where
  "z_format p msg t dest =
     scoped_pad 6 p dest (\<lambda>dest.
       (let total_minutes = utc_minutes_offset t;
            is_negative = total_minutes < 0;
            total_minutes = (if is_negative then - total_minutes else total_minutes);
            dest = (if is_negative then dest @ ''-'' else dest @ ''+'');
            dest = pad2 (total_minutes sdiv 60) dest @ '':''
        in Some (pad2 (total_minutes smod 60) dest)))"

section \<open>Numbers, text and source formatters\<close>

definition t_format :: "padding_info \<Rightarrow> log_msg \<Rightarrow> tm \<Rightarrow> string \<Rightarrow> string option" where
  "t_format p msg t dest =
     (if pad_enabled p
      then let field_size = count_digits 8 (lm_thread_id msg)
           in scoped_pad field_size p dest (\<lambda>dest. Some (append_uint (lm_thread_id msg) dest))
      else Some (append_uint (lm_thread_id msg) dest))"

text \<open>\<open>os_pid\<close> is what \<open>getpid\<close> returned.\<close>

definition pid_format :: "int \<Rightarrow> padding_info \<Rightarrow> log_msg \<Rightarrow> tm \<Rightarrow> string \<Rightarrow> string option" where
  "pid_format os_pid p msg t dest =
     (let pid = unat (word_of_int os_pid :: 32 word)
      in if pad_enabled p
         then let field_size = count_digits 4 pid
              in scoped_pad field_size p dest (\<lambda>dest. Some (append_uint pid dest))
         else Some (append_uint pid dest))"

definition i_format :: "padding_info \<Rightarrow> log_msg \<Rightarrow> tm \<Rightarrow> string \<Rightarrow> string option" where
  "i_format p msg t dest = scoped_pad 6 p dest (\<lambda>dest. Some (pad6 8 (lm_msg_id msg) dest))"

definition v_format :: "padding_info \<Rightarrow> log_msg \<Rightarrow> tm \<Rightarrow> string \<Rightarrow> string option" where
  "v_format p msg t dest =
     (if pad_enabled p
      then scoped_pad (length (lm_payload msg)) p dest (\<lambda>dest. Some (dest @ lm_payload msg))
      else Some (dest @ lm_payload msg))"

definition ch_format :: "char \<Rightarrow> log_msg \<Rightarrow> tm \<Rightarrow> string \<Rightarrow> string option" where
  "ch_format ch msg t dest = scoped_pad 1 no_padding dest (\<lambda>dest. Some (dest @ [ch]))"

definition aggregate_add_ch :: "char \<Rightarrow> string \<Rightarrow> string" where
  "aggregate_add_ch ch str = str @ [ch]"

definition aggregate_format :: "string \<Rightarrow> log_msg \<Rightarrow> tm \<Rightarrow> string \<Rightarrow> string option" where
  "aggregate_format str msg t dest = Some (dest @ str)"

definition color_start_format :: "log_msg \<Rightarrow> tm \<Rightarrow> log_out \<Rightarrow> log_out" where
  "color_start_format msg t out = out\<lparr>color_range_start := length (out_text out)\<rparr>"

definition color_stop_format :: "log_msg \<Rightarrow> tm \<Rightarrow> log_out \<Rightarrow> log_out" where
  "color_stop_format msg t out = out\<lparr>color_range_end := length (out_text out)\<rparr>"

definition source_location_format ::
    "padding_info \<Rightarrow> log_msg \<Rightarrow> tm \<Rightarrow> string \<Rightarrow> string option" where
  "source_location_format p msg t dest =
     (let src = lm_source msg
      in if source_loc_empty src then Some dest
         else if pad_enabled p then
           let text_size = length (sl_filename src) + count_digits 4 (sl_line src) + 1
           in scoped_pad text_size p dest (\<lambda>dest.
                Some (append_uint (sl_line src) (dest @ sl_filename src @ '':'')))
         else Some (append_uint (sl_line src) (dest @ sl_filename src @ '':'')))"

definition source_filename_format ::
    "padding_info \<Rightarrow> log_msg \<Rightarrow> tm \<Rightarrow> string \<Rightarrow> string option" where
  "source_filename_format p msg t dest =
     (let src = lm_source msg
      in if source_loc_empty src then Some dest
         else scoped_pad (length (sl_filename src)) p dest
                (\<lambda>dest. Some (dest @ sl_filename src)))"

definition source_linenum_format ::
    "padding_info \<Rightarrow> log_msg \<Rightarrow> tm \<Rightarrow> string \<Rightarrow> string option" where
  "source_linenum_format p msg t dest =
     (let src = lm_source msg
      in if source_loc_empty src then Some dest
         else if pad_enabled p then
           let field_size = count_digits 4 (sl_line src)
           in scoped_pad field_size p dest (\<lambda>dest. Some (append_uint (sl_line src) dest))
         else Some (append_uint (sl_line src) dest))"

definition source_funcname_format ::
    "padding_info \<Rightarrow> log_msg \<Rightarrow> tm \<Rightarrow> string \<Rightarrow> string option" where
  "source_funcname_format p msg t dest =
     (let src = lm_source msg
      in if source_loc_empty src then Some dest
         else scoped_pad (length (sl_funcname src)) p dest
                (\<lambda>dest. Some (dest @ sl_funcname src)))"

end
