(* ===== verification/Oef_Log_Pattern.thy ===== *)
theory Oef_Log_Pattern
  imports Oef_Log_Format
begin

text \<open>
  The pattern formatter of the log (\<open>3rd/spdlog/details/pattern_formatter.h\<close>): the full
  formatter with its cached date, the compilation of a pattern string to a vector of flag
  formatters, and the rendering of a message with the cached broken-down time. The
  functions \<open>localtime\<close> and \<open>gmtime\<close> and the process id come from the operating system and
  are fields of \<open>log_os\<close>.
\<close>

section \<open>The full formatter\<close>

text \<open>The state is the second the cache is for and the cached text.\<close>

definition full_datetime :: "tm \<Rightarrow> string" where
  "full_datetime t =
     (let c = ''['';
          c = append_int (tm_year t + 1900) c @ ''-'';
          c = pad2 (tm_mon t + 1) c @ ''-'';
          c = pad2 (tm_mday t) c @ '' '';
          c = pad2 (tm_hour t) c @ '':'';
          c = pad2 (tm_min t) c @ '':''
      in pad2 (tm_sec t) c @ ''.'')"

definition full_format ::
    "int \<Rightarrow> string \<Rightarrow> log_msg \<Rightarrow> tm \<Rightarrow> log_out \<Rightarrow> (int \<times> string) \<times> log_out" where
  "full_format cache_timestamp cached_datetime msg t out =
     (let secs = duration_cast 1000000000 (lm_time msg);
          (cache_timestamp, cached_datetime) =
            (if cache_timestamp \<noteq> secs \<or> cached_datetime = [] then (secs, full_datetime t)
             else (cache_timestamp, cached_datetime));
          dest = out_text out @ cached_datetime;
          millis = unat (word_of_int (time_fraction 1000000 (lm_time msg)) :: 32 word);
          dest = pad3 4 millis dest @ ''] '';
          dest = (if lm_logger_name msg \<noteq> [] then dest @ ''['' @ lm_logger_name msg @ ''] ''
                  else dest);
          dest = dest @ ''['';
          range_start = length dest;
          dest = dest @ to_string_view (lm_level msg);
          range_end = length dest;
          dest = dest @ ''] '';
          dest = (if \<not> source_loc_empty (lm_source msg)
                  then append_uint (sl_line (lm_source msg))
                         (dest @ ''['' @ sl_filename (lm_source msg) @ '':'') @ ''] ''
                  else dest);
          dest = dest @ lm_payload msg
      in ((cache_timestamp, cached_datetime),
          \<lparr>out_text = dest, color_range_start = range_start, color_range_end = range_end\<rparr>))"

section \<open>Flag formatters as objects\<close>

datatype flag_formatter =
    full_formatter padding_info int string
  | name_formatter padding_info
  | level_formatter padding_info
  | short_level_formatter padding_info
  | a_formatter padding_info
  | A_formatter padding_info
  | b_formatter padding_info
  | B_formatter padding_info
  | c_formatter padding_info
  | C_formatter padding_info
  | D_formatter padding_info
  | Y_formatter padding_info
  | m_formatter padding_info
  | d_formatter padding_info
  | H_formatter padding_info
  | I_formatter padding_info
  | M_formatter padding_info
  | S_formatter padding_info
  | e_formatter padding_info
  | f_formatter padding_info
  | F_formatter padding_info
  | E_formatter padding_info
  | p_formatter padding_info
  | r_formatter padding_info
  | R_formatter padding_info
  | T_formatter padding_info
  | z_formatter padding_info
  | t_formatter padding_info
  | i_formatter padding_info
  | v_formatter padding_info
  | source_location_formatter padding_info
  | source_filename_formatter padding_info
  | source_linenum_formatter padding_info
  | source_funcname_formatter padding_info
  | pid_formatter padding_info
  | ch_formatter char
  | aggregate_formatter string
  | color_start_formatter padding_info
  | color_stop_formatter padding_info

definition full_formatter_make :: "padding_info \<Rightarrow> flag_formatter" where
  "full_formatter_make p = full_formatter p 0 []"

text \<open>What the formatters ask of the operating system.\<close>

record log_os =
  os_localtime :: "int \<Rightarrow> tm"
  os_gmtime :: "int \<Rightarrow> tm"
  os_pid :: int

text \<open>The virtual call \<open>f->format(msg, tm_time, dest)\<close>. \<open>on_text\<close> is a formatter without
  state that leaves the colour range alone.\<close>

definition on_text ::
    "flag_formatter \<Rightarrow> (string \<Rightarrow> string option) \<Rightarrow> log_out \<Rightarrow> (flag_formatter \<times> log_out) option" where
  "on_text ff body out = do { str \<leftarrow> body (out_text out); Some (ff, out\<lparr>out_text := str\<rparr>) }"

fun flag_format ::
    "log_os \<Rightarrow> flag_formatter \<Rightarrow> log_msg \<Rightarrow> tm \<Rightarrow> log_out \<Rightarrow> (flag_formatter \<times> log_out) option" where
  "flag_format os (full_formatter p ts cached) msg t out =
     (let ((ts, cached), out) = full_format ts cached msg t out
      in Some (full_formatter p ts cached, out))"
| "flag_format os (color_start_formatter p) msg t out =
     Some (color_start_formatter p, color_start_format msg t out)"
| "flag_format os (color_stop_formatter p) msg t out =
     Some (color_stop_formatter p, color_stop_format msg t out)"
| "flag_format os (pid_formatter p) msg t out =
     on_text (pid_formatter p) (pid_format (os_pid os) p msg t) out"
| "flag_format os (ch_formatter ch) msg t out =
     on_text (ch_formatter ch) (ch_format ch msg t) out"
| "flag_format os (aggregate_formatter str) msg t out =
     on_text (aggregate_formatter str) (aggregate_format str msg t) out"
| "flag_format os (name_formatter p) msg t out = on_text (name_formatter p) (name_format p msg t) out"
| "flag_format os (level_formatter p) msg t out = on_text (level_formatter p) (level_format p msg t) out"
| "flag_format os (short_level_formatter p) msg t out = on_text (short_level_formatter p) (short_level_format p msg t) out"
| "flag_format os (a_formatter p) msg t out = on_text (a_formatter p) (a_format p msg t) out"
| "flag_format os (A_formatter p) msg t out = on_text (A_formatter p) (A_format p msg t) out"
| "flag_format os (b_formatter p) msg t out = on_text (b_formatter p) (b_format p msg t) out"
| "flag_format os (B_formatter p) msg t out = on_text (B_formatter p) (B_format p msg t) out"
| "flag_format os (c_formatter p) msg t out = on_text (c_formatter p) (c_format p msg t) out"
| "flag_format os (C_formatter p) msg t out = on_text (C_formatter p) (C_format p msg t) out"
| "flag_format os (D_formatter p) msg t out = on_text (D_formatter p) (D_format p msg t) out"
| "flag_format os (Y_formatter p) msg t out = on_text (Y_formatter p) (Y_format p msg t) out"
| "flag_format os (m_formatter p) msg t out = on_text (m_formatter p) (m_format p msg t) out"
| "flag_format os (d_formatter p) msg t out = on_text (d_formatter p) (d_format p msg t) out"
| "flag_format os (H_formatter p) msg t out = on_text (H_formatter p) (H_format p msg t) out"
| "flag_format os (I_formatter p) msg t out = on_text (I_formatter p) (I_format p msg t) out"
| "flag_format os (M_formatter p) msg t out = on_text (M_formatter p) (M_format p msg t) out"
| "flag_format os (S_formatter p) msg t out = on_text (S_formatter p) (S_format p msg t) out"
| "flag_format os (e_formatter p) msg t out = on_text (e_formatter p) (e_format p msg t) out"
| "flag_format os (f_formatter p) msg t out = on_text (f_formatter p) (f_format p msg t) out"
| "flag_format os (F_formatter p) msg t out = on_text (F_formatter p) (F_format p msg t) out"
| "flag_format os (E_formatter p) msg t out = on_text (E_formatter p) (E_format p msg t) out"
| "flag_format os (p_formatter p) msg t out = on_text (p_formatter p) (p_format p msg t) out"
| "flag_format os (r_formatter p) msg t out = on_text (r_formatter p) (r_format p msg t) out"
| "flag_format os (R_formatter p) msg t out = on_text (R_formatter p) (R_format p msg t) out"
| "flag_format os (T_formatter p) msg t out = on_text (T_formatter p) (T_format p msg t) out"
| "flag_format os (z_formatter p) msg t out = on_text (z_formatter p) (z_format p msg t) out"
| "flag_format os (t_formatter p) msg t out = on_text (t_formatter p) (t_format p msg t) out"
| "flag_format os (i_formatter p) msg t out = on_text (i_formatter p) (i_format p msg t) out"
| "flag_format os (v_formatter p) msg t out = on_text (v_formatter p) (v_format p msg t) out"
| "flag_format os (source_location_formatter p) msg t out = on_text (source_location_formatter p) (source_location_format p msg t) out"
| "flag_format os (source_filename_formatter p) msg t out = on_text (source_filename_formatter p) (source_filename_format p msg t) out"
| "flag_format os (source_linenum_formatter p) msg t out = on_text (source_linenum_formatter p) (source_linenum_format p msg t) out"
| "flag_format os (source_funcname_formatter p) msg t out = on_text (source_funcname_formatter p) (source_funcname_format p msg t) out"

section \<open>Compiling a pattern\<close>

text \<open>The switch of \<open>handle_flag_\<close>; the message counter \<open>%i\<close> is compiled out
  (\<open>tweakme.h\<close> leaves \<open>SPDLOG_ENABLE_MESSAGE_COUNTER\<close> undefined) and shows as is.\<close>

definition handle_flag :: "char \<Rightarrow> padding_info \<Rightarrow> flag_formatter" where
  "handle_flag flag padding =
     (if flag = CHR ''+'' then full_formatter_make padding
      else if flag = CHR ''n'' then name_formatter padding
      else if flag = CHR ''l'' then level_formatter padding
      else if flag = CHR ''L'' then short_level_formatter padding
      else if flag = CHR ''t'' then t_formatter padding
      else if flag = CHR ''v'' then v_formatter padding
      else if flag = CHR ''a'' then a_formatter padding
      else if flag = CHR ''A'' then A_formatter padding
      else if flag = CHR ''b'' \<or> flag = CHR ''h'' then b_formatter padding
      else if flag = CHR ''B'' then B_formatter padding
      else if flag = CHR ''c'' then c_formatter padding
      else if flag = CHR ''C'' then C_formatter padding
      else if flag = CHR ''Y'' then Y_formatter padding
      else if flag = CHR ''D'' \<or> flag = CHR ''x'' then D_formatter padding
      else if flag = CHR ''m'' then m_formatter padding
      else if flag = CHR ''d'' then d_formatter padding
      else if flag = CHR ''H'' then H_formatter padding
      else if flag = CHR ''I'' then I_formatter padding
      else if flag = CHR ''M'' then M_formatter padding
      else if flag = CHR ''S'' then S_formatter padding
      else if flag = CHR ''e'' then e_formatter padding
      else if flag = CHR ''f'' then f_formatter padding
      else if flag = CHR ''F'' then F_formatter padding
      else if flag = CHR ''E'' then E_formatter padding
      else if flag = CHR ''p'' then p_formatter padding
      else if flag = CHR ''r'' then r_formatter padding
      else if flag = CHR ''R'' then R_formatter padding
      else if flag = CHR ''T'' \<or> flag = CHR ''X'' then T_formatter padding
      else if flag = CHR ''z'' then z_formatter padding
      else if flag = CHR ''P'' then pid_formatter padding
      else if flag = CHR ''^'' then color_start_formatter padding
      else if flag = CHR ''$'' then color_stop_formatter padding
      else if flag = CHR ''@'' then source_location_formatter padding
      else if flag = CHR ''s'' then source_filename_formatter padding
      else if flag = CHR ''#'' then source_linenum_formatter padding
      else if flag = CHR ''!'' then source_funcname_formatter padding
      else if flag = CHR ''%'' then ch_formatter (CHR ''%'')
      else aggregate_formatter (aggregate_add_ch flag (aggregate_add_ch (CHR ''%'') [])))"

definition isdigit :: "char \<Rightarrow> bool" where
  "isdigit c \<longleftrightarrow> CHR ''0'' \<le> c \<and> c \<le> CHR ''9''"

definition digit_value :: "char \<Rightarrow> nat" where
  "digit_value c = of_char c - 48"

definition max_width :: nat where
  "max_width = 128"

text \<open>The iterator is the rest of the pattern; the width is a \<open>size_t\<close> and wraps.\<close>

fun pad_width_loop :: "nat \<Rightarrow> string \<Rightarrow> nat \<times> string" where
  "pad_width_loop width [] = (width, [])"
| "pad_width_loop width (c # it) =
     (if isdigit c then pad_width_loop ((width * 10 + digit_value c) mod 2 ^ 64) it
      else (width, c # it))"

definition handle_padspec_side :: "string \<Rightarrow> pad_side \<times> string" where
  "handle_padspec_side it =
     (case it of
        [] \<Rightarrow> (pad_left, [])
      | c # rest \<Rightarrow>
          if c = CHR ''-'' then (pad_right, rest)
          else if c = CHR ''='' then (pad_center, rest)
          else (pad_left, it))"

definition handle_padspec :: "string \<Rightarrow> padding_info \<times> string" where
  "handle_padspec it =
     (if it = [] then (no_padding, [])
      else let (side, it) = handle_padspec_side it
           in case it of
                [] \<Rightarrow> (\<lparr>pad_width = 0, pad_side_of = side\<rparr>, [])
              | c # rest \<Rightarrow>
                  if \<not> isdigit c then (\<lparr>pad_width = 0, pad_side_of = side\<rparr>, it)
                  else let (width, it) = pad_width_loop (digit_value c) rest
                       in (\<lparr>pad_width = min width max_width, pad_side_of = side\<rparr>, it))"

lemma pad_width_loop_shorter: "length (snd (pad_width_loop w it)) \<le> length it"
  by (induction w it rule: pad_width_loop.induct) auto

lemma handle_padspec_shorter: "length (snd (handle_padspec it)) \<le> length it"
  using pad_width_loop_shorter
  by (auto simp: handle_padspec_def handle_padspec_side_def split: list.splits prod.splits if_splits)
    (metis le_SucI snd_conv)+

definition push_user_chars :: "string option \<Rightarrow> flag_formatter list \<Rightarrow> flag_formatter list" where
  "push_user_chars user_chars formatters =
     (case user_chars of None \<Rightarrow> formatters | Some str \<Rightarrow> formatters @ [aggregate_formatter str])"

function compile_loop ::
    "string option \<Rightarrow> flag_formatter list \<Rightarrow> string \<Rightarrow> flag_formatter list" where
  "compile_loop user_chars formatters [] = push_user_chars user_chars formatters"
| "compile_loop user_chars formatters (c # it) =
     (if c = CHR ''%'' then
        (let formatters = push_user_chars user_chars formatters;
             padded = handle_padspec it
         in case snd padded of
              [] \<Rightarrow> formatters
            | flag # rest \<Rightarrow> compile_loop None (formatters @ [handle_flag flag (fst padded)]) rest)
      else
        compile_loop
          (Some (aggregate_add_ch c (case user_chars of None \<Rightarrow> [] | Some str \<Rightarrow> str)))
          formatters it)"
  by pat_completeness auto
termination
proof (relation "measure (\<lambda>(u, fs, it). length it)", goal_cases)
  case (2 user_chars formatters c it fs padded flag rest)
  then show ?case using handle_padspec_shorter [of it] by simp
qed auto

definition compile_pattern :: "string \<Rightarrow> flag_formatter list" where
  "compile_pattern pattern = compile_loop None [] pattern"

section \<open>The pattern formatter\<close>

datatype pattern_time_type = time_local | time_utc

record pattern_formatter =
  pf_pattern :: string
  pf_eol :: string
  pf_time_type :: pattern_time_type
  pf_cached_tm :: tm
  pf_last_log_secs :: int
  pf_formatters :: "flag_formatter list"

definition default_eol :: string where
  "default_eol = [CHR 0x0A]"

definition pattern_formatter_make :: "string \<Rightarrow> pattern_time_type \<Rightarrow> string \<Rightarrow> pattern_formatter" where
  "pattern_formatter_make pattern time_type eol =
     \<lparr>pf_pattern = pattern, pf_eol = eol, pf_time_type = time_type, pf_cached_tm = tm_zero,
      pf_last_log_secs = 0, pf_formatters = compile_pattern pattern\<rparr>"

definition pattern_formatter_default :: "pattern_time_type \<Rightarrow> string \<Rightarrow> pattern_formatter" where
  "pattern_formatter_default time_type eol =
     \<lparr>pf_pattern = ''%+'', pf_eol = eol, pf_time_type = time_type, pf_cached_tm = tm_zero,
      pf_last_log_secs = 0, pf_formatters = [full_formatter_make no_padding]\<rparr>"

definition pattern_formatter_clone :: "pattern_formatter \<Rightarrow> pattern_formatter" where
  "pattern_formatter_clone pf =
     pattern_formatter_make (pf_pattern pf) (pf_time_type pf) (pf_eol pf)"

text \<open>\<open>to_time_t\<close> truncates to seconds.\<close>

definition get_time :: "log_os \<Rightarrow> pattern_formatter \<Rightarrow> log_msg \<Rightarrow> tm" where
  "get_time os pf msg =
     (let time_tt = duration_cast 1000000000 (lm_time msg)
      in case pf_time_type pf of
           time_local \<Rightarrow> os_localtime os time_tt
         | time_utc \<Rightarrow> os_gmtime os time_tt)"

fun formatters_format ::
    "log_os \<Rightarrow> log_msg \<Rightarrow> tm \<Rightarrow> flag_formatter list \<Rightarrow> log_out \<Rightarrow>
     (flag_formatter list \<times> log_out) option" where
  "formatters_format os msg t [] out = Some ([], out)"
| "formatters_format os msg t (ff # ffs) out =
     do { (ff, out) \<leftarrow> flag_format os ff msg t out;
          (ffs, out) \<leftarrow> formatters_format os msg t ffs out;
          Some (ff # ffs, out) }"

definition pattern_format ::
    "log_os \<Rightarrow> pattern_formatter \<Rightarrow> log_msg \<Rightarrow> log_out \<Rightarrow> (pattern_formatter \<times> log_out) option" where
  "pattern_format os pf msg out =
     (let secs = duration_cast 1000000000 (lm_time msg);
          pf = (if secs \<noteq> pf_last_log_secs pf
                then pf\<lparr>pf_cached_tm := get_time os pf msg, pf_last_log_secs := secs\<rparr> else pf)
      in do { (ffs, out) \<leftarrow> formatters_format os msg (pf_cached_tm pf) (pf_formatters pf) out;
              Some (pf\<lparr>pf_formatters := ffs\<rparr>, out\<lparr>out_text := out_text out @ pf_eol pf\<rparr>) })"

end
