(* ===== verification/Oef_Log_File.thy ===== *)
theory Oef_Log_File
  imports Oef_Log_Pattern
begin

text \<open>
  The rotating log file: \<open>3rd/spdlog/details/file_helper.h\<close> and
  \<open>3rd/spdlog/sinks/rotating_file_sink.h\<close>, over a file system.

  The file system is a map from names to contents, written to by this program only. Every
  call that can fail takes the next entry of the schedule \<open>lw_faults\<close>: \<open>None\<close> lets it
  succeed, \<open>Some k\<close> makes it fail, a write after \<open>k\<close> bytes. An exhausted schedule has no
  more failures. An operation returns the exception it throws, if any, beside the state it
  leaves. The text of \<open>errno\<close> is not part of the message, and the pauses between two
  attempts are not modelled.
\<close>

section \<open>The world\<close>

record log_world =
  lw_files :: "string \<Rightarrow> string option"
  lw_faults :: "nat option list"
  lw_stdout :: string
  lw_stderr :: string

definition next_fault :: "log_world \<Rightarrow> nat option \<times> log_world" where
  "next_fault w =
     (case lw_faults w of [] \<Rightarrow> (None, w) | f # fs \<Rightarrow> (f, w\<lparr>lw_faults := fs\<rparr>))"

text \<open>\<open>fopen\<close> with mode \<open>wb\<close> (truncate) or \<open>ab\<close>; the result tells whether it failed.\<close>

definition os_fopen_s :: "string \<Rightarrow> bool \<Rightarrow> log_world \<Rightarrow> bool \<times> log_world" where
  "os_fopen_s fname trunc w =
     (case next_fault w of
        (Some k, w) \<Rightarrow> (True, w)
      | (None, w) \<Rightarrow>
          (False, w\<lparr>lw_files := (lw_files w)
             (fname \<mapsto> if trunc then [] else case lw_files w fname of None \<Rightarrow> [] | Some s \<Rightarrow> s)\<rparr>))"

definition os_remove :: "string \<Rightarrow> log_world \<Rightarrow> log_world" where
  "os_remove fname w =
     (case next_fault w of
        (Some k, w) \<Rightarrow> w
      | (None, w) \<Rightarrow> w\<lparr>lw_files := (lw_files w)(fname := None)\<rparr>)"

text \<open>Zero is success.\<close>

definition os_rename :: "string \<Rightarrow> string \<Rightarrow> log_world \<Rightarrow> int \<times> log_world" where
  "os_rename filename1 filename2 w =
     (case next_fault w of
        (Some k, w) \<Rightarrow> (-1, w)
      | (None, w) \<Rightarrow>
          (case lw_files w filename1 of
             None \<Rightarrow> (-1, w)
           | Some s \<Rightarrow>
               (0, w\<lparr>lw_files := ((lw_files w)(filename1 := None))(filename2 \<mapsto> s)\<rparr>)))"

definition os_file_exists :: "string \<Rightarrow> log_world \<Rightarrow> bool" where
  "os_file_exists fname w \<longleftrightarrow> lw_files w fname \<noteq> None"

section \<open>The file helper\<close>

record file_helper =
  fh_open :: bool
  fh_filename :: string

definition file_helper_new :: file_helper where
  "file_helper_new = \<lparr>fh_open = False, fh_filename = []\<rparr>"

definition open_tries :: nat where
  "open_tries = 5"

definition fh_close :: "file_helper \<Rightarrow> file_helper" where
  "fh_close fh = fh\<lparr>fh_open := False\<rparr>"

fun fh_open_loop ::
    "nat \<Rightarrow> bool \<Rightarrow> file_helper \<Rightarrow> log_world \<Rightarrow> string option \<times> file_helper \<times> log_world" where
  "fh_open_loop 0 trunc fh w =
     (Some (''Failed opening file '' @ fh_filename fh @ '' for writing''), fh, w)"
| "fh_open_loop (Suc tries) trunc fh w =
     (let (failed, w) = os_fopen_s (fh_filename fh) trunc w
      in if \<not> failed then (None, fh\<lparr>fh_open := True\<rparr>, w) else fh_open_loop tries trunc fh w)"

definition fh_open_file ::
    "string \<Rightarrow> bool \<Rightarrow> file_helper \<Rightarrow> log_world \<Rightarrow> string option \<times> file_helper \<times> log_world" where
  "fh_open_file fname trunc fh w =
     fh_open_loop open_tries trunc ((fh_close fh)\<lparr>fh_filename := fname\<rparr>) w"

definition fh_reopen ::
    "bool \<Rightarrow> file_helper \<Rightarrow> log_world \<Rightarrow> string option \<times> file_helper \<times> log_world" where
  "fh_reopen trunc fh w =
     (if fh_filename fh = [] then (Some ''Failed re opening file - was not opened before'', fh, w)
      else fh_open_file (fh_filename fh) trunc fh w)"

text \<open>Writing to a closed file has no defined result.\<close>

definition fh_write :: "string \<Rightarrow> file_helper \<Rightarrow> log_world \<Rightarrow> (string option \<times> log_world) option" where
  "fh_write buf fh w =
     (if \<not> fh_open fh then None
      else case lw_files w (fh_filename fh) of
        None \<Rightarrow> None
      | Some s \<Rightarrow>
          let (fault, w) = next_fault w;
              written = (case fault of None \<Rightarrow> length buf | Some k \<Rightarrow> min k (length buf));
              w = w\<lparr>lw_files := (lw_files w)(fh_filename fh \<mapsto> s @ take written buf)\<rparr>
          in Some (if written \<noteq> length buf
                   then Some (''Failed writing to file '' @ fh_filename fh) else None, w))"

definition fh_size :: "file_helper \<Rightarrow> log_world \<Rightarrow> (string + nat) \<times> log_world" where
  "fh_size fh w =
     (if \<not> fh_open fh then (Inl (''Cannot use size() on closed file '' @ fh_filename fh), w)
      else case next_fault w of
        (Some k, w) \<Rightarrow> (Inl ''Failed getting file size from fd'', w)
      | (None, w) \<Rightarrow>
          (Inr (length (case lw_files w (fh_filename fh) of None \<Rightarrow> [] | Some s \<Rightarrow> s)), w))"

text \<open>\<open>std::string::rfind\<close>; \<open>None\<close> is \<open>npos\<close>.\<close>

definition rfind :: "char \<Rightarrow> string \<Rightarrow> nat option" where
  "rfind c s =
     (if c \<in> set s then Some (length s - 1 - length (takeWhile (\<lambda>d. d \<noteq> c) (rev s))) else None)"

definition folder_sep :: char where
  "folder_sep = CHR ''/''"

definition split_by_extension :: "string \<Rightarrow> string \<times> string" where
  "split_by_extension fname =
     (case rfind (CHR ''.'') fname of
        None \<Rightarrow> (fname, [])
      | Some ext_index \<Rightarrow>
          if ext_index = 0 \<or> ext_index = length fname - 1 then (fname, [])
          else case rfind folder_sep fname of
            None \<Rightarrow> (take ext_index fname, drop ext_index fname)
          | Some folder_index \<Rightarrow>
              if folder_index \<ge> ext_index - 1 then (fname, [])
              else (take ext_index fname, drop ext_index fname))"

section \<open>The rotating file sink\<close>

record rotating_sink =
  rs_level :: level_enum
  rs_formatter :: pattern_formatter
  rs_base_filename :: string
  rs_max_size :: nat
  rs_max_files :: nat
  rs_current_size :: nat
  rs_file :: file_helper

definition calc_filename :: "string \<Rightarrow> nat \<Rightarrow> string" where
  "calc_filename filename index =
     (if index \<noteq> 0 then
        let (basename, ext) = split_by_extension filename
        in basename @ ''.'' @ decimal index @ ext
      else filename)"

text \<open>The constructor of \<open>sink\<close>: every level, the full format.\<close>

definition rotating_sink_make ::
    "string \<Rightarrow> nat \<Rightarrow> nat \<Rightarrow> log_world \<Rightarrow> (string + rotating_sink) \<times> log_world" where
  "rotating_sink_make base_filename max_size max_files w =
     (case fh_open_file (calc_filename base_filename 0) False file_helper_new w of
        (Some e, fh, w) \<Rightarrow> (Inl e, w)
      | (None, fh, w) \<Rightarrow>
          (case fh_size fh w of
             (Inl e, w) \<Rightarrow> (Inl e, w)
           | (Inr n, w) \<Rightarrow>
               (Inr \<lparr>rs_level = level_trace,
                     rs_formatter = pattern_formatter_default time_local default_eol,
                     rs_base_filename = base_filename, rs_max_size = max_size,
                     rs_max_files = max_files, rs_current_size = n, rs_file = fh\<rparr>, w)))"

definition rename_file :: "string \<Rightarrow> string \<Rightarrow> log_world \<Rightarrow> bool \<times> log_world" where
  "rename_file src_filename target_filename w =
     (let w = os_remove target_filename w;
          (r, w) = os_rename src_filename target_filename w
      in (r = 0, w))"

text \<open>The loop counts \<open>i\<close> down from \<open>max_files_\<close>; the argument is \<open>i\<close>.\<close>

fun rotate_loop ::
    "nat \<Rightarrow> rotating_sink \<Rightarrow> log_world \<Rightarrow> string option \<times> rotating_sink \<times> log_world" where
  "rotate_loop 0 rs w = (None, rs, w)"
| "rotate_loop (Suc i) rs w =
     (let src = calc_filename (rs_base_filename rs) i
      in if \<not> os_file_exists src w then rotate_loop i rs w
         else
           let target = calc_filename (rs_base_filename rs) (Suc i);
               (renamed, w) = rename_file src target w
           in if renamed then rotate_loop i rs w
              else
                let (renamed, w) = rename_file src target w
                in if renamed then rotate_loop i rs w
                   else case fh_reopen True (rs_file rs) w of
                     (Some e, fh, w) \<Rightarrow> (Some e, rs\<lparr>rs_file := fh\<rparr>, w)
                   | (None, fh, w) \<Rightarrow>
                       (Some (''rotating_file_sink: failed renaming '' @ src @ '' to '' @ target),
                        rs\<lparr>rs_file := fh, rs_current_size := 0\<rparr>, w))"

definition rotate_sink :: "rotating_sink \<Rightarrow> log_world \<Rightarrow> string option \<times> rotating_sink \<times> log_world" where
  "rotate_sink rs w =
     (let rs = rs\<lparr>rs_file := fh_close (rs_file rs)\<rparr>
      in case rotate_loop (rs_max_files rs) rs w of
           (Some e, rs, w) \<Rightarrow> (Some e, rs, w)
         | (None, rs, w) \<Rightarrow>
             (case fh_reopen True (rs_file rs) w of
                (e, fh, w) \<Rightarrow> (e, rs\<lparr>rs_file := fh\<rparr>, w)))"

text \<open>\<open>sink_it_\<close> after the formatting; \<open>None\<close> is a write to a closed file.\<close>

definition rotating_write ::
    "string \<Rightarrow> rotating_sink \<Rightarrow> log_world \<Rightarrow> (string option \<times> rotating_sink \<times> log_world) option" where
  "rotating_write formatted rs w =
     (let rs = rs\<lparr>rs_current_size := (rs_current_size rs + length formatted) mod 2 ^ 64\<rparr>;
          (e, rs, w) =
            (if rs_current_size rs > rs_max_size rs then
               case rotate_sink rs w of
                 (Some e, rs, w) \<Rightarrow> (Some e, rs, w)
               | (None, rs, w) \<Rightarrow> (None, rs\<lparr>rs_current_size := length formatted\<rparr>, w)
             else (None, rs, w))
      in case e of
           Some e \<Rightarrow> Some (Some e, rs, w)
         | None \<Rightarrow>
             (case fh_write formatted (rs_file rs) w of
                None \<Rightarrow> None
              | Some (e, w) \<Rightarrow> Some (e, rs, w)))"

definition rotating_sink_it ::
    "log_os \<Rightarrow> log_msg \<Rightarrow> rotating_sink \<Rightarrow> log_world \<Rightarrow>
     (string option \<times> rotating_sink \<times> log_world) option" where
  "rotating_sink_it os msg rs w =
     (case pattern_format os (rs_formatter rs) msg log_out_new of
        None \<Rightarrow> None
      | Some (pf, out) \<Rightarrow> rotating_write (out_text out) (rs\<lparr>rs_formatter := pf\<rparr>) w)"

end
