(* ===== verification/Oef_Log_Sinks.thy ===== *)
theory Oef_Log_Sinks
  imports Oef_Log_File
begin

text \<open>
  The format strings of \<open>fmt\<close> (\<open>3rd/spdlog/fmt/bundled/format.h\<close>), the console and
  distribution sinks (\<open>3rd/spdlog/sinks\<close>) and the \<open>spdlog::logger\<close>
  (\<open>3rd/spdlog/details/logger_impl.h\<close>). A sink is held by one logger only in this program, so
  a logger carries its sinks as values. Flushing changes no text and is not modelled.
\<close>

section \<open>Format strings\<close>

text \<open>The arguments are given as the text they format to. A field with an explicit index or a
  format specification, which no call in the program uses, is the error
  \<open>Fmt_explicit_field\<close>.\<close>

datatype fmt_error = Fmt_error string | Fmt_explicit_field

text \<open>The local class \<open>writer\<close>: text in which each closing brace must be doubled.\<close>

function fmt_write_text :: "string \<Rightarrow> string \<Rightarrow> fmt_error + string" where
  "fmt_write_text buf out =
     (if CHR ''}'' \<notin> set buf then Inr (out @ buf)
      else
        let before = takeWhile (\<lambda>c. c \<noteq> CHR ''}'') buf;
            p = drop (length before + 1) buf
        in case p of
             [] \<Rightarrow> Inl (Fmt_error (''unmatched '' @ [CHR 0x27] @ ''}'' @ [CHR 0x27] @ '' in format string''))
           | c # rest \<Rightarrow>
               if c \<noteq> CHR ''}'' then
                 Inl (Fmt_error (''unmatched '' @ [CHR 0x27] @ ''}'' @ [CHR 0x27] @ '' in format string''))
               else fmt_write_text rest (out @ before @ ''}''))"
  by pat_completeness auto
termination
proof (relation "measure (\<lambda>(buf, out). length buf)", goal_cases)
  case (2 buf out before p c rest)
  then have "length (c # rest) \<le> length buf" by (metis length_drop diff_le_self)
  then show ?case by simp
qed simp

declare fmt_write_text.simps [simp del]

definition fmt_next_arg :: "nat \<Rightarrow> string list \<Rightarrow> fmt_error + string" where
  "fmt_next_arg next_arg_id args =
     (if next_arg_id < length args then Inr (args ! next_arg_id)
      else Inl (Fmt_error ''argument index out of range''))"

function fmt_parse :: "string \<Rightarrow> string list \<Rightarrow> nat \<Rightarrow> string \<Rightarrow> fmt_error + string" where
  "fmt_parse fmt args next_arg_id out =
     (if fmt = [] then Inr out
      else
        let before = takeWhile (\<lambda>c. c \<noteq> CHR ''{'') fmt; p = drop (length before) fmt
        in case p of
          [] \<Rightarrow> fmt_write_text fmt out
        | c # p \<Rightarrow>
            (case fmt_write_text before out of
              Inl e \<Rightarrow> Inl e
            | Inr out \<Rightarrow>
                (case p of
                  [] \<Rightarrow> Inl (Fmt_error ''invalid format string'')
                | d # rest \<Rightarrow>
                    if d = CHR ''}'' then
                      (case fmt_next_arg next_arg_id args of
                         Inl e \<Rightarrow> Inl e
                       | Inr s \<Rightarrow> fmt_parse rest args (next_arg_id + 1) (out @ s))
                    else if d = CHR ''{'' then fmt_parse rest args next_arg_id (out @ ''{'')
                    else Inl Fmt_explicit_field)))"
  by pat_completeness auto
termination
proof (relation "measure (\<lambda>(fmt, args, n, out). length fmt)", goal_cases)
  case (2 fmt args n out before p c p' out' d rest s)
  then have "length (c # d # rest) \<le> length fmt" by (metis length_drop diff_le_self)
  then show ?case by simp
next
  case (3 fmt args n out before p c p' out' d rest)
  then have "length (c # d # rest) \<le> length fmt" by (metis length_drop diff_le_self)
  then show ?case by simp
qed simp

declare fmt_parse.simps [simp del]

definition fmt_format :: "string \<Rightarrow> string list \<Rightarrow> fmt_error + string" where
  "fmt_format fmt args = fmt_parse fmt args 0 []"

section \<open>The console sink\<close>

definition ansi_code :: "string \<Rightarrow> string" where
  "ansi_code s = [CHR 0x1B, CHR ''[''] @ s @ ''m''"

definition ansi_reset :: string where "ansi_reset = ansi_code []"
definition ansi_bold :: string where "ansi_bold = ansi_code ''1''"

record ansicolor_sink =
  as_level :: level_enum
  as_formatter :: pattern_formatter
  as_should_do_colors :: bool
  as_colors :: "level_enum \<Rightarrow> string"

fun default_colors :: "level_enum \<Rightarrow> string" where
  "default_colors level_trace = ansi_code ''37''"
| "default_colors level_debug = ansi_code ''36''"
| "default_colors level_info = ansi_code ''32''"
| "default_colors level_warn = ansi_code ''33'' @ ansi_bold"
| "default_colors level_err = ansi_code ''31'' @ ansi_bold"
| "default_colors level_critical = ansi_bold @ ansi_code ''41''"
| "default_colors level_off = ansi_reset"

text \<open>\<open>do_colors\<close> is what \<open>in_terminal\<close> and \<open>is_color_terminal\<close> say of the process.\<close>

definition ansicolor_sink_make :: "bool \<Rightarrow> ansicolor_sink" where
  "ansicolor_sink_make do_colors =
     \<lparr>as_level = level_trace, as_formatter = pattern_formatter_default time_local default_eol,
      as_should_do_colors = do_colors, as_colors = default_colors\<rparr>"

definition ansi_set_color :: "level_enum \<Rightarrow> string \<Rightarrow> ansicolor_sink \<Rightarrow> ansicolor_sink" where
  "ansi_set_color l color as = as\<lparr>as_colors := (as_colors as)(l := color)\<rparr>"

definition print_ccode :: "string \<Rightarrow> log_world \<Rightarrow> log_world" where
  "print_ccode code w = w\<lparr>lw_stdout := lw_stdout w @ code\<rparr>"

text \<open>\<open>None\<close> is a read outside the buffer.\<close>

definition print_range :: "string \<Rightarrow> nat \<Rightarrow> nat \<Rightarrow> log_world \<Rightarrow> log_world option" where
  "print_range formatted start stop w =
     (if start \<le> stop \<and> stop \<le> length formatted
      then Some (w\<lparr>lw_stdout := lw_stdout w @ take (stop - start) (drop start formatted)\<rparr>) else None)"

definition ansi_log ::
    "log_os \<Rightarrow> log_msg \<Rightarrow> ansicolor_sink \<Rightarrow> log_world \<Rightarrow> (ansicolor_sink \<times> log_world) option" where
  "ansi_log os msg as w =
     do { (pf, out) \<leftarrow> pattern_format os (as_formatter as) msg log_out_new;
          let as = as\<lparr>as_formatter := pf\<rparr>;
          let formatted = out_text out;
          if as_should_do_colors as \<and> color_range_end out > color_range_start out then
            do { w \<leftarrow> print_range formatted 0 (color_range_start out) w;
                 let w = print_ccode (as_colors as (lm_level msg)) w;
                 w \<leftarrow> print_range formatted (color_range_start out) (color_range_end out) w;
                 let w = print_ccode ansi_reset w;
                 w \<leftarrow> print_range formatted (color_range_end out) (length formatted) w;
                 Some (as, w) }
          else
            do { w \<leftarrow> print_range formatted 0 (length formatted) w;
                 Some (as, w) } }"

section \<open>Sinks\<close>

datatype sink =
    ansi_sink ansicolor_sink
  | rotating_file rotating_sink
  | dist_sink level_enum pattern_formatter "sink list"

definition dist_sink_make :: sink where
  "dist_sink_make = dist_sink level_trace (pattern_formatter_default time_local default_eol) []"

fun dist_add_sink :: "sink \<Rightarrow> sink \<Rightarrow> sink" where
  "dist_add_sink s (dist_sink l pf sinks) = dist_sink l pf (sinks @ [s])"
| "dist_add_sink s other = other"

fun dist_set_sinks :: "sink list \<Rightarrow> sink \<Rightarrow> sink" where
  "dist_set_sinks sinks' (dist_sink l pf sinks) = dist_sink l pf sinks'"
| "dist_set_sinks sinks' other = other"

fun sink_level :: "sink \<Rightarrow> level_enum" where
  "sink_level (ansi_sink as) = as_level as"
| "sink_level (rotating_file rs) = rs_level rs"
| "sink_level (dist_sink l pf sinks) = l"

fun sink_set_level :: "level_enum \<Rightarrow> sink \<Rightarrow> sink" where
  "sink_set_level l (ansi_sink as) = ansi_sink (as\<lparr>as_level := l\<rparr>)"
| "sink_set_level l (rotating_file rs) = rotating_file (rs\<lparr>rs_level := l\<rparr>)"
| "sink_set_level l (dist_sink l' pf sinks) = dist_sink l pf sinks"

definition sink_should_log :: "level_enum \<Rightarrow> sink \<Rightarrow> bool" where
  "sink_should_log msg_level s \<longleftrightarrow> level_int msg_level \<ge> level_int (sink_level s)"

fun sink_set_formatter :: "pattern_formatter \<Rightarrow> sink \<Rightarrow> sink" where
  "sink_set_formatter f (ansi_sink as) = ansi_sink (as\<lparr>as_formatter := f\<rparr>)"
| "sink_set_formatter f (rotating_file rs) = rotating_file (rs\<lparr>rs_formatter := f\<rparr>)"
| "sink_set_formatter f (dist_sink l pf sinks) =
     dist_sink l f (map (sink_set_formatter (pattern_formatter_clone f)) sinks)"

definition sink_set_pattern :: "string \<Rightarrow> sink \<Rightarrow> sink" where
  "sink_set_pattern pattern s =
     sink_set_formatter (pattern_formatter_make pattern time_local default_eol) s"

text \<open>An exception leaves the loop over the sinks.\<close>

fun sink_log :: "log_os \<Rightarrow> log_msg \<Rightarrow> sink \<Rightarrow> log_world \<Rightarrow> (string option \<times> sink \<times> log_world) option"
  and sinks_log :: "log_os \<Rightarrow> log_msg \<Rightarrow> sink list \<Rightarrow> log_world \<Rightarrow>
      (string option \<times> sink list \<times> log_world) option" where
  "sink_log os msg (ansi_sink as) w =
     do { (as, w) \<leftarrow> ansi_log os msg as w; Some (None, ansi_sink as, w) }"
| "sink_log os msg (rotating_file rs) w =
     do { (e, rs, w) \<leftarrow> rotating_sink_it os msg rs w; Some (e, rotating_file rs, w) }"
| "sink_log os msg (dist_sink l pf sinks) w =
     do { (e, sinks, w) \<leftarrow> sinks_log os msg sinks w; Some (e, dist_sink l pf sinks, w) }"
| "sinks_log os msg [] w = Some (None, [], w)"
| "sinks_log os msg (s # sinks) w =
     (if sink_should_log (lm_level msg) s then
        do { (e, s, w) \<leftarrow> sink_log os msg s w;
             case e of
               Some e \<Rightarrow> Some (Some e, s # sinks, w)
             | None \<Rightarrow>
                 do { (e, sinks, w) \<leftarrow> sinks_log os msg sinks w; Some (e, s # sinks, w) } }
      else do { (e, sinks, w) \<leftarrow> sinks_log os msg sinks w; Some (e, s # sinks, w) })"

section \<open>The logger\<close>

record spd_logger =
  lg_name :: string
  lg_sinks :: "sink list"
  lg_level :: level_enum
  lg_flush_level :: level_enum
  lg_last_err_time :: int

definition default_level :: level_enum where
  "default_level = level_info"

definition spd_logger_make :: "string \<Rightarrow> sink list \<Rightarrow> spd_logger" where
  "spd_logger_make logger_name sinks_list =
     \<lparr>lg_name = logger_name, lg_sinks = sinks_list, lg_level = default_level,
      lg_flush_level = level_off, lg_last_err_time = 0\<rparr>"

definition lg_set_formatter :: "pattern_formatter \<Rightarrow> spd_logger \<Rightarrow> spd_logger" where
  "lg_set_formatter f lg =
     lg\<lparr>lg_sinks := map (sink_set_formatter (pattern_formatter_clone f)) (lg_sinks lg)\<rparr>"

definition lg_set_pattern :: "string \<Rightarrow> pattern_time_type \<Rightarrow> spd_logger \<Rightarrow> spd_logger" where
  "lg_set_pattern pattern time_type lg =
     lg_set_formatter (pattern_formatter_make pattern time_type default_eol) lg"

definition lg_set_level :: "level_enum \<Rightarrow> spd_logger \<Rightarrow> spd_logger" where
  "lg_set_level log_level lg = lg\<lparr>lg_level := log_level\<rparr>"

definition lg_flush_on :: "level_enum \<Rightarrow> spd_logger \<Rightarrow> spd_logger" where
  "lg_flush_on log_level lg = lg\<lparr>lg_flush_level := log_level\<rparr>"

definition lg_should_flush :: "log_msg \<Rightarrow> spd_logger \<Rightarrow> bool" where
  "lg_should_flush msg lg \<longleftrightarrow>
     level_int (lm_level msg) \<ge> level_int (lg_flush_level lg) \<and> lm_level msg \<noteq> level_off"

definition lg_should_log :: "level_enum \<Rightarrow> spd_logger \<Rightarrow> bool" where
  "lg_should_log msg_level lg \<longleftrightarrow> level_int msg_level \<ge> level_int (lg_level lg)"

definition lg_clone :: "string \<Rightarrow> spd_logger \<Rightarrow> spd_logger" where
  "lg_clone logger_name lg =
     lg_flush_on (lg_flush_level lg) (lg_set_level (lg_level lg)
       (spd_logger_make logger_name (lg_sinks lg)))"

text \<open>What a call of the logger takes from the clock and the thread: the time in nanoseconds,
  the thread id, and the seconds \<open>time(nullptr)\<close> gives the error handler.\<close>

record log_call =
  lc_now :: int
  lc_thread_id :: nat
  lc_err_now :: int

text \<open>\<open>strftime\<close> with \<open>%Y-%m-%d %H:%M:%S\<close>.\<close>

definition err_date :: "tm \<Rightarrow> string" where
  "err_date t =
     decimal_int (tm_year t + 1900) @ ''-'' @ zero_padded 2 (nat (tm_mon t + 1)) @ ''-'' @
     zero_padded 2 (nat (tm_mday t)) @ '' '' @ zero_padded 2 (nat (tm_hour t)) @ '':'' @
     zero_padded 2 (nat (tm_min t)) @ '':'' @ zero_padded 2 (nat (tm_sec t))"

definition default_err_handler ::
    "log_os \<Rightarrow> log_call \<Rightarrow> string \<Rightarrow> spd_logger \<Rightarrow> log_world \<Rightarrow> spd_logger \<times> log_world" where
  "default_err_handler os call msg lg w =
     (let now = lc_err_now call
      in if now - lg_last_err_time lg < 60 then (lg, w)
         else (lg\<lparr>lg_last_err_time := now\<rparr>,
               w\<lparr>lw_stderr := lw_stderr w @ ''[*** LOG ERROR ***] ['' @ err_date (os_localtime os now) @
                   ''] ['' @ lg_name lg @ ''] '' @ msg @ [CHR 0x0A]\<rparr>))"

definition lg_sink_it ::
    "log_os \<Rightarrow> log_msg \<Rightarrow> spd_logger \<Rightarrow> log_world \<Rightarrow> (string option \<times> spd_logger \<times> log_world) option" where
  "lg_sink_it os msg lg w =
     do { (e, sinks, w) \<leftarrow> sinks_log os msg (lg_sinks lg) w;
          Some (e, lg\<lparr>lg_sinks := sinks\<rparr>, w) }"

text \<open>\<open>log(source, lvl, fmt, args...)\<close>: every exception ends in the error handler.\<close>

definition lg_log ::
    "log_os \<Rightarrow> log_call \<Rightarrow> source_loc \<Rightarrow> level_enum \<Rightarrow> string \<Rightarrow> string list \<Rightarrow> spd_logger \<Rightarrow> log_world \<Rightarrow>
     (spd_logger \<times> log_world) option" where
  "lg_log os call source lvl fmt args lg w =
     (if \<not> lg_should_log lvl lg then Some (lg, w)
      else case fmt_format fmt args of
        Inl Fmt_explicit_field \<Rightarrow> None
      | Inl (Fmt_error e) \<Rightarrow> Some (default_err_handler os call e lg w)
      | Inr buf \<Rightarrow>
          let msg = log_msg_make (lc_now call) (lc_thread_id call) source (lg_name lg) lvl buf
          in do { (e, lg, w) \<leftarrow> lg_sink_it os msg lg w;
                  case e of
                    None \<Rightarrow> Some (lg, w)
                  | Some e \<Rightarrow> Some (default_err_handler os call e lg w) })"

definition lg_log_text ::
    "log_os \<Rightarrow> log_call \<Rightarrow> source_loc \<Rightarrow> level_enum \<Rightarrow> string \<Rightarrow> spd_logger \<Rightarrow> log_world \<Rightarrow>
     (spd_logger \<times> log_world) option" where
  "lg_log_text os call source lvl msg_text lg w =
     (if \<not> lg_should_log lvl lg then Some (lg, w)
      else
        let msg = log_msg_make (lc_now call) (lc_thread_id call) source (lg_name lg) lvl msg_text
        in do { (e, lg, w) \<leftarrow> lg_sink_it os msg lg w;
                case e of
                  None \<Rightarrow> Some (lg, w)
                | Some e \<Rightarrow> Some (default_err_handler os call e lg w) })"

end
