(* ===== verification/Oef_Log_Facts.thy ===== *)
theory Oef_Log_Facts
  imports Oef_Log_Pattern
begin

text \<open>
  Facts about the log's text: what padding adds, that a compiled pattern never fails, that
  the caches of the formatters cannot be seen, and the line the server's own pattern
  (\<open>src/apps/node-pluto/src/main.cpp\<close>) writes for a message.
\<close>

section \<open>Padding\<close>

definition pad_lead :: "nat \<Rightarrow> padding_info \<Rightarrow> string" where
  "pad_lead w p =
     (let k = pad_width p - w
      in replicate (case pad_side_of p of pad_left \<Rightarrow> k | pad_right \<Rightarrow> 0 | pad_center \<Rightarrow> k div 2)
           (CHR '' ''))"

definition pad_trail :: "nat \<Rightarrow> padding_info \<Rightarrow> string" where
  "pad_trail w p =
     (let k = pad_width p - w
      in replicate (case pad_side_of p of pad_left \<Rightarrow> 0 | pad_right \<Rightarrow> k | pad_center \<Rightarrow> k - k div 2)
           (CHR '' ''))"

lemma pad_it_some [simp]: "n \<le> 128 \<Longrightarrow> pad_it n dest = Some (dest @ replicate n (CHR '' ''))"
  by (simp add: pad_it_def spaces_def min_absorb1)

lemma half_and_rest: "(k :: nat) div 2 + and k 1 = k - k div 2"
  by (simp add: and_one_eq) presburger

lemma scoped_pad_eq:
  assumes "pad_width p \<le> 128"
  shows "scoped_pad w p dest body =
    map_option (\<lambda>d. d @ pad_trail w p) (body (dest @ pad_lead w p))"
proof -
  have *: "scoped_pad_open w p dest = Some (length (pad_trail w p), dest @ pad_lead w p)"
    using assms by (auto simp: scoped_pad_open_def pad_lead_def pad_trail_def Let_def half_and_rest
        simp del: One_nat_def split: pad_side.split)
  have "length (pad_trail w p) \<le> 128"
    using assms by (auto simp: pad_trail_def Let_def split: pad_side.split)
  moreover have "replicate (length (pad_trail w p)) (CHR '' '') = pad_trail w p"
    by (simp add: pad_trail_def Let_def)
  ultimately show ?thesis
    by (cases "body (dest @ pad_lead w p)") (auto simp: scoped_pad_def * scoped_pad_close_def)
qed

lemma pad_sides_length: "length (pad_lead w p) + length (pad_trail w p) = pad_width p - w"
  by (auto simp: pad_lead_def pad_trail_def Let_def split: pad_side.split)

lemma no_pad [simp]: "pad_width p \<le> w \<Longrightarrow> pad_lead w p = [] \<and> pad_trail w p = []"
  by (auto simp: pad_lead_def pad_trail_def Let_def split: pad_side.split)

section \<open>A compiled pattern never fails\<close>

fun formatter_pad :: "flag_formatter \<Rightarrow> padding_info" where
  "formatter_pad (full_formatter p ts cached) = p"
| "formatter_pad (ch_formatter ch) = no_padding"
| "formatter_pad (aggregate_formatter str) = no_padding"
| "formatter_pad (name_formatter p) = p"
| "formatter_pad (level_formatter p) = p"
| "formatter_pad (short_level_formatter p) = p"
| "formatter_pad (a_formatter p) = p"
| "formatter_pad (A_formatter p) = p"
| "formatter_pad (b_formatter p) = p"
| "formatter_pad (B_formatter p) = p"
| "formatter_pad (c_formatter p) = p"
| "formatter_pad (C_formatter p) = p"
| "formatter_pad (D_formatter p) = p"
| "formatter_pad (Y_formatter p) = p"
| "formatter_pad (m_formatter p) = p"
| "formatter_pad (d_formatter p) = p"
| "formatter_pad (H_formatter p) = p"
| "formatter_pad (I_formatter p) = p"
| "formatter_pad (M_formatter p) = p"
| "formatter_pad (S_formatter p) = p"
| "formatter_pad (e_formatter p) = p"
| "formatter_pad (f_formatter p) = p"
| "formatter_pad (F_formatter p) = p"
| "formatter_pad (E_formatter p) = p"
| "formatter_pad (p_formatter p) = p"
| "formatter_pad (r_formatter p) = p"
| "formatter_pad (R_formatter p) = p"
| "formatter_pad (T_formatter p) = p"
| "formatter_pad (z_formatter p) = p"
| "formatter_pad (t_formatter p) = p"
| "formatter_pad (i_formatter p) = p"
| "formatter_pad (v_formatter p) = p"
| "formatter_pad (source_location_formatter p) = p"
| "formatter_pad (source_filename_formatter p) = p"
| "formatter_pad (source_linenum_formatter p) = p"
| "formatter_pad (source_funcname_formatter p) = p"
| "formatter_pad (pid_formatter p) = p"
| "formatter_pad (color_start_formatter p) = p"
| "formatter_pad (color_stop_formatter p) = p"

definition tm_in_range :: "tm \<Rightarrow> bool" where
  "tm_in_range t \<longleftrightarrow> 0 \<le> tm_wday t \<and> tm_wday t \<le> 6 \<and> 0 \<le> tm_mon t \<and> tm_mon t \<le> 11"

definition pad_ok :: "flag_formatter \<Rightarrow> bool" where
  "pad_ok ff \<longleftrightarrow> pad_width (formatter_pad ff) \<le> max_width"

lemma table_days: "tm_in_range t \<Longrightarrow> \<exists>s. table_at days (tm_wday t) = Some s"
  and table_full_days: "tm_in_range t \<Longrightarrow> \<exists>s. table_at full_days (tm_wday t) = Some s"
  and table_months: "tm_in_range t \<Longrightarrow> \<exists>s. table_at months (tm_mon t) = Some s"
  and table_full_months: "tm_in_range t \<Longrightarrow> \<exists>s. table_at full_months (tm_mon t) = Some s"
  by (simp_all add: tm_in_range_def table_at_def days_def full_days_def months_def full_months_def)

lemmas text_formats =
  name_format_def level_format_def short_level_format_def a_format_def A_format_def
  b_format_def B_format_def c_format_def C_format_def D_format_def Y_format_def m_format_def
  d_format_def H_format_def I_format_def M_format_def S_format_def e_format_def f_format_def
  F_format_def E_format_def p_format_def r_format_def R_format_def T_format_def z_format_def
  t_format_def pid_format_def i_format_def v_format_def ch_format_def aggregate_format_def
  source_location_format_def source_filename_format_def source_linenum_format_def
  source_funcname_format_def

definition pad2_text :: "int \<Rightarrow> string" where
  "pad2_text n = pad2 n []"

definition pad_uint_text :: "nat \<Rightarrow> nat \<Rightarrow> nat \<Rightarrow> string" where
  "pad_uint_text bytes n width = pad_uint bytes n width []"

lemma pad2_appends: "pad2 n dest = dest @ pad2_text n"
  by (simp add: pad2_text_def pad2_def append_int_def)

lemma pad_uint_appends: "pad_uint bytes n width dest = dest @ pad_uint_text bytes n width"
  by (simp add: pad_uint_text_def pad_uint_def Let_def)

lemmas text_appends =
  pad2_appends pad_uint_appends append_int_def pad3_def pad6_def pad9_def

lemma flag_format_total:
  assumes "pad_ok ff" "tm_in_range t"
  shows "\<exists>ff' out' s. flag_format os ff msg t out = Some (ff', out') \<and> pad_ok ff' \<and>
    out_text out' = out_text out @ s"
proof -
  have w: "pad_width (formatter_pad ff) \<le> 128" using assms(1) by (simp add: pad_ok_def max_width_def)
  note names = table_days [OF assms(2)] table_full_days [OF assms(2)] table_months [OF assms(2)]
    table_full_months [OF assms(2)]
  show ?thesis
    using assms(1) w names unfolding pad_ok_def
    by (cases ff)
      (auto simp: on_text_def text_formats scoped_pad_eq Let_def text_appends no_padding_def
        full_format_def color_start_format_def color_stop_format_def)
qed

lemma handle_padspec_width: "pad_width (fst (handle_padspec it)) \<le> max_width"
  by (auto simp: handle_padspec_def no_padding_def Let_def split: list.splits prod.splits)

lemma handle_flag_pad: "pad_width p \<le> max_width \<Longrightarrow> pad_ok (handle_flag flag p)"
  by (simp add: handle_flag_def pad_ok_def full_formatter_make_def no_padding_def)

lemma push_user_chars_ok: "list_all pad_ok ffs \<Longrightarrow> list_all pad_ok (push_user_chars u ffs)"
  by (auto simp: push_user_chars_def pad_ok_def no_padding_def split: option.splits)

lemma compile_loop_ok: "list_all pad_ok ffs \<Longrightarrow> list_all pad_ok (compile_loop u ffs it)"
proof (induction u ffs it rule: compile_loop.induct)
  case (2 u ffs c it)
  then show ?case
    using push_user_chars_ok [of ffs u] handle_flag_pad [OF handle_padspec_width [of it]]
    by (auto simp: Let_def split: list.splits)
qed (simp add: push_user_chars_ok)

lemma compile_pattern_ok: "list_all pad_ok (compile_pattern pattern)"
  by (simp add: compile_pattern_def compile_loop_ok)

lemma formatters_format_total:
  assumes "list_all pad_ok ffs" "tm_in_range t"
  shows "\<exists>ffs' out' s. formatters_format os msg t ffs out = Some (ffs', out') \<and>
    list_all pad_ok ffs' \<and> out_text out' = out_text out @ s"
  using assms(1)
proof (induction ffs arbitrary: out)
  case (Cons ff ffs)
  then obtain ff' out1 s1 where "flag_format os ff msg t out = Some (ff', out1)" "pad_ok ff'"
      "out_text out1 = out_text out @ s1"
    using flag_format_total [OF _ assms(2)] by (metis list.pred_inject(2))
  with Cons.IH [of out1] Cons.prems show ?case by auto
qed simp

definition os_in_range :: "log_os \<Rightarrow> bool" where
  "os_in_range os \<longleftrightarrow> (\<forall>s. tm_in_range (os_localtime os s) \<and> tm_in_range (os_gmtime os s))"

definition pattern_ok :: "pattern_formatter \<Rightarrow> bool" where
  "pattern_ok pf \<longleftrightarrow> list_all pad_ok (pf_formatters pf) \<and> tm_in_range (pf_cached_tm pf)"

lemma pattern_make_ok: "pattern_ok (pattern_formatter_make pattern tt eol)"
  by (simp add: pattern_ok_def pattern_formatter_make_def compile_pattern_ok tm_in_range_def tm_zero_def)

lemma pattern_format_total:
  assumes "os_in_range os" "pattern_ok pf"
  shows "\<exists>pf' out' s. pattern_format os pf msg out = Some (pf', out') \<and> pattern_ok pf' \<and>
    out_text out' = out_text out @ s @ pf_eol pf"
proof -
  define pf1 where "pf1 = (if duration_cast 1000000000 (lm_time msg) \<noteq> pf_last_log_secs pf
      then pf\<lparr>pf_cached_tm := get_time os pf msg,
        pf_last_log_secs := duration_cast 1000000000 (lm_time msg)\<rparr> else pf)"
  have "tm_in_range (get_time os pf msg)"
    using assms(1) by (simp add: get_time_def os_in_range_def Let_def split: pattern_time_type.split)
  with assms(2) have ok: "list_all pad_ok (pf_formatters pf1)" "tm_in_range (pf_cached_tm pf1)"
    and eol: "pf_eol pf1 = pf_eol pf"
    by (auto simp: pf1_def pattern_ok_def)
  obtain ffs out1 s where "formatters_format os msg (pf_cached_tm pf1) (pf_formatters pf1) out = Some (ffs, out1)"
      "list_all pad_ok ffs" "out_text out1 = out_text out @ s"
    using formatters_format_total [OF ok] by blast
  with ok eol show ?thesis
    by (simp add: pattern_format_def pf1_def [symmetric] pattern_ok_def Let_def)
qed

text \<open>A sink formats every message into a fresh buffer.\<close>

fun format_each :: "log_os \<Rightarrow> pattern_formatter \<Rightarrow> log_msg list \<Rightarrow> log_out list option" where
  "format_each os pf [] = Some []"
| "format_each os pf (msg # msgs) =
     do { (pf, out) \<leftarrow> pattern_format os pf msg log_out_new;
          outs \<leftarrow> format_each os pf msgs;
          Some (out # outs) }"

lemma format_each_total:
  assumes "os_in_range os" "pattern_ok pf"
  shows "\<exists>outs. format_each os pf msgs = Some outs \<and> length outs = length msgs"
  using assms(2)
proof (induction msgs arbitrary: pf)
  case (Cons msg msgs)
  obtain pf' out where "pattern_format os pf msg log_out_new = Some (pf', out)" "pattern_ok pf'"
    using pattern_format_total [OF assms(1) Cons.prems] by blast
  with Cons.IH [of pf'] show ?case by auto
qed simp

section \<open>The caches cannot be seen\<close>

fun uncached :: "flag_formatter \<Rightarrow> flag_formatter" where
  "uncached (full_formatter p ts cached) = full_formatter_make p"
| "uncached ff = ff"

text \<open>\<open>now\<close> gives the broken-down time of a second.\<close>

fun cache_ok :: "(int \<Rightarrow> tm) \<Rightarrow> flag_formatter \<Rightarrow> bool" where
  "cache_ok now (full_formatter p ts cached) \<longleftrightarrow> cached = [] \<or> cached = full_datetime (now ts)"
| "cache_ok now ff \<longleftrightarrow> True"

lemma flag_format_uncached:
  assumes "flag_format os ff msg (now (duration_cast 1000000000 (lm_time msg))) out = Some (ff', out')"
    and "cache_ok now ff"
  shows "\<exists>g. flag_format os (uncached ff) msg (now (duration_cast 1000000000 (lm_time msg))) out =
      Some (g, out') \<and> cache_ok now ff' \<and> uncached ff' = uncached ff"
  using assms
  by (cases ff; auto simp: full_format_def full_formatter_make_def Let_def on_text_def
      split: if_splits option.splits prod.splits bind_splits)

lemma formatters_format_uncached:
  assumes "formatters_format os msg (now (duration_cast 1000000000 (lm_time msg))) ffs out = Some (ffs', out')"
    and "list_all (cache_ok now) ffs"
  shows "\<exists>g. formatters_format os msg (now (duration_cast 1000000000 (lm_time msg))) (map uncached ffs) out =
      Some (g, out') \<and> list_all (cache_ok now) ffs' \<and> map uncached ffs' = map uncached ffs"
  using assms
proof (induction ffs arbitrary: out ffs')
  case (Cons ff ffs)
  let ?t = "now (duration_cast 1000000000 (lm_time msg))"
  from Cons.prems(1) obtain ff1 out1 ffs1 where 1: "flag_format os ff msg ?t out = Some (ff1, out1)"
      "formatters_format os msg ?t ffs out1 = Some (ffs1, out')" "ffs' = ff1 # ffs1"
    by (auto split: bind_splits)
  from Cons.prems(2) have "cache_ok now ff" "list_all (cache_ok now) ffs" by simp_all
  with flag_format_uncached [where now = now, OF 1(1)] Cons.IH [OF 1(2)] 1(3) show ?case by auto
qed simp

lemma handle_flag_fresh: "uncached (handle_flag flag p) = handle_flag flag p"
  and handle_flag_cache: "cache_ok now (handle_flag flag p)"
  by (simp_all add: handle_flag_def full_formatter_make_def)

lemma compile_loop_fresh:
  "list_all (\<lambda>ff. uncached ff = ff \<and> cache_ok now ff) ffs \<Longrightarrow>
   list_all (\<lambda>ff. uncached ff = ff \<and> cache_ok now ff) (compile_loop u ffs it)"
proof (induction u ffs it rule: compile_loop.induct)
  case (1 u ffs)
  then show ?case by (auto simp: push_user_chars_def split: option.splits)
next
  case (2 u ffs c it)
  then show ?case
    by (auto simp: Let_def push_user_chars_def handle_flag_fresh handle_flag_cache
        split: list.splits option.splits)
qed

lemma compile_pattern_fresh:
  "map uncached (compile_pattern pattern) = compile_pattern pattern"
  "list_all (cache_ok now) (compile_pattern pattern)"
  using compile_loop_fresh [of now "[]" None pattern]
  by (auto simp: compile_pattern_def list_all_iff intro: map_idI)

definition time_of :: "log_os \<Rightarrow> pattern_time_type \<Rightarrow> int \<Rightarrow> tm" where
  "time_of os tt s = (case tt of time_local \<Rightarrow> os_localtime os s | time_utc \<Rightarrow> os_gmtime os s)"

definition secs_of :: "log_msg \<Rightarrow> int" where
  "secs_of msg = duration_cast 1000000000 (lm_time msg)"

text \<open>A formatter in use differs from a new one of the same pattern in its caches only.\<close>

definition in_use :: "log_os \<Rightarrow> pattern_formatter \<Rightarrow> pattern_formatter \<Rightarrow> bool" where
  "in_use os new pf \<longleftrightarrow>
     pf_eol pf = pf_eol new \<and> pf_time_type pf = pf_time_type new \<and>
     map uncached (pf_formatters pf) = pf_formatters new \<and>
     list_all (cache_ok (time_of os (pf_time_type new))) (pf_formatters pf) \<and>
     (pf_last_log_secs pf = 0 \<or>
      pf_cached_tm pf = time_of os (pf_time_type new) (pf_last_log_secs pf))"

lemma in_use_new: "in_use os (pattern_formatter_make pattern tt eol) (pattern_formatter_make pattern tt eol)"
  by (simp add: in_use_def pattern_formatter_make_def compile_pattern_fresh)

lemma in_use_format:
  assumes new: "new = pattern_formatter_make pattern tt eol"
    and use: "in_use os new pf" and secs: "secs_of msg \<noteq> 0"
    and run: "pattern_format os pf msg out = Some (pf', out')"
  shows "in_use os new pf' \<and> (\<exists>g. pattern_format os new msg out = Some (g, out'))"
proof -
  let ?now = "time_of os tt"
  have tt: "pf_time_type new = tt" "pf_last_log_secs new = 0" by (simp_all add: new pattern_formatter_make_def)
  have gt: "get_time os q msg = ?now (secs_of msg)" if "pf_time_type q = tt" for q
    using that by (simp add: get_time_def time_of_def secs_of_def Let_def)
  define pf1 where "pf1 = (if secs_of msg \<noteq> pf_last_log_secs pf
      then pf\<lparr>pf_cached_tm := get_time os pf msg, pf_last_log_secs := secs_of msg\<rparr> else pf)"
  have pf1: "pf_cached_tm pf1 = ?now (secs_of msg)" "pf_formatters pf1 = pf_formatters pf"
      "pf_eol pf1 = pf_eol pf" "pf_time_type pf1 = tt" "pf_last_log_secs pf1 = secs_of msg"
    using use secs gt [of pf] by (auto simp: pf1_def in_use_def tt)
  from run obtain ffs' out1 where step: "formatters_format os msg (?now (secs_of msg)) (pf_formatters pf) out = Some (ffs', out1)"
      "pf' = pf1\<lparr>pf_formatters := ffs'\<rparr>" "out' = out1\<lparr>out_text := out_text out1 @ pf_eol pf\<rparr>"
    by (auto simp: pattern_format_def secs_of_def [symmetric] pf1_def [symmetric] pf1 Let_def
        split: bind_splits)
  have "list_all (cache_ok ?now) (pf_formatters pf)" "map uncached (pf_formatters pf) = pf_formatters new"
      "pf_eol pf = pf_eol new"
    using use by (simp_all add: in_use_def tt)
  with formatters_format_uncached [of os msg ?now, folded secs_of_def, OF step(1)]
  obtain g where "formatters_format os msg (?now (secs_of msg)) (pf_formatters new) out = Some (g, out1)"
      "list_all (cache_ok ?now) ffs'" "map uncached ffs' = pf_formatters new"
    by auto
  then show ?thesis
    using step pf1 use secs gt [of new]
    by (simp add: in_use_def tt pattern_format_def secs_of_def [symmetric] Let_def)
qed

lemma format_each_uncached:
  assumes new: "new = pattern_formatter_make pattern tt eol" and os: "os_in_range os"
    and "list_all (\<lambda>msg. secs_of msg \<noteq> 0) msgs" "in_use os new pf" "pattern_ok pf"
  shows "format_each os pf msgs =
    those (map (\<lambda>msg. map_option snd (pattern_format os new msg log_out_new)) msgs)"
  using assms(3-)
proof (induction msgs arbitrary: pf)
  case (Cons msg msgs)
  obtain pf' out where run: "pattern_format os pf msg log_out_new = Some (pf', out)" "pattern_ok pf'"
    using pattern_format_total [OF os Cons.prems(3)] by blast
  with in_use_format [OF new Cons.prems(2) _ run(1)] Cons
  show ?case by (auto simp: map_conv_bind_option comp_def)
qed simp

section \<open>The line the server writes\<close>

definition main_pattern :: string where
  "main_pattern = ''[%Y-%m-%d %H:%M:%S.%e] [thread %t] [%n] [%l] %v''"

definition two :: "int \<Rightarrow> string" where
  "two n = zero_padded 2 (nat n)"

definition main_line :: "tm \<Rightarrow> log_msg \<Rightarrow> string" where
  "main_line t msg =
     ''['' @ decimal_int (tm_year t + 1900) @ ''-'' @ two (tm_mon t + 1) @ ''-'' @ two (tm_mday t) @
     '' '' @ two (tm_hour t) @ '':'' @ two (tm_min t) @ '':'' @ two (tm_sec t) @ ''.'' @
     zero_padded 3 (nat (lm_time msg mod 1000000000 div 1000000)) @ ''] [thread '' @
     decimal (lm_thread_id msg) @ ''] ['' @ lm_logger_name msg @ ''] ['' @
     to_string_view (lm_level msg) @ ''] '' @ lm_payload msg @ [CHR 0x0A]"

text \<open>A broken-down time as the C library gives it.\<close>

definition tm_valid :: "tm \<Rightarrow> bool" where
  "tm_valid t \<longleftrightarrow> tm_in_range t \<and>
     0 \<le> tm_sec t \<and> tm_sec t \<le> 60 \<and> 0 \<le> tm_min t \<and> tm_min t \<le> 59 \<and>
     0 \<le> tm_hour t \<and> tm_hour t \<le> 23 \<and> 1 \<le> tm_mday t \<and> tm_mday t \<le> 31 \<and>
     - (2 ^ 31) \<le> tm_year t + 1900 \<and> tm_year t + 1900 < 2 ^ 31"

lemma two_eq: "0 \<le> n \<Longrightarrow> n \<le> 99 \<Longrightarrow> pad2 n dest = dest @ two n"
  by (simp add: two_def pad2_eq)

lemma millis_eq:
  assumes "0 \<le> tp"
  shows "pad3 4 (unat (word_of_int (time_fraction 1000000 tp) :: 32 word)) dest =
    dest @ zero_padded 3 (nat (tp mod 1000000000 div 1000000))"
proof -
  note b = time_fraction_bounds [of tp 1000000, simplified, OF assms]
  have "unat (word_of_int (time_fraction 1000000 tp) :: 32 word) = nat (time_fraction 1000000 tp)"
    using b by (simp add: unat_eq_nat_uint uint_word_of_int)
  moreover have "nat (time_fraction 1000000 tp) < 2 ^ 32" using b by simp
  ultimately have "pad3 4 (unat (word_of_int (time_fraction 1000000 tp) :: 32 word)) dest =
      dest @ zero_padded 3 (nat (time_fraction 1000000 tp))"
    by (simp only: pad3_def pad_uint_eq if_False) (simp add: pad_uint_eq)
  with b show ?thesis by simp
qed

lemma compile_main_pattern:
  "compile_pattern main_pattern =
    (let p = no_padding; agg = aggregate_formatter in
     [agg ''['', Y_formatter p, agg ''-'', m_formatter p, agg ''-'', d_formatter p, agg '' '',
      H_formatter p, agg '':'', M_formatter p, agg '':'', S_formatter p, agg ''.'', e_formatter p,
      agg ''] [thread '', t_formatter p, agg ''] ['', name_formatter p, agg ''] ['',
      level_formatter p, agg ''] '', v_formatter p])"
  by (simp add: compile_pattern_def main_pattern_def push_user_chars_def aggregate_add_ch_def
    handle_padspec_def handle_padspec_side_def isdigit_def handle_flag_def no_padding_def Let_def)

lemma main_line_rendered:
  assumes "tm_valid t" "0 \<le> lm_time msg"
  shows "\<exists>out. formatters_format os msg t (compile_pattern main_pattern) log_out_new =
      Some (compile_pattern main_pattern, log_out_new\<lparr>out_text := out\<rparr>) \<and>
    out @ default_eol = main_line t msg"
proof -
  have t: "tm_in_range t" and year: "append_int (tm_year t + 1900) d = d @ decimal_int (tm_year t + 1900)" for d
    using assms(1) by (auto simp: tm_valid_def intro!: append_int_eq)
  have twos: "pad2 (tm_mon t + 1) d = d @ two (tm_mon t + 1)" "pad2 (tm_mday t) d = d @ two (tm_mday t)"
      "pad2 (tm_hour t) d = d @ two (tm_hour t)" "pad2 (tm_min t) d = d @ two (tm_min t)"
      "pad2 (tm_sec t) d = d @ two (tm_sec t)" for d
    using assms(1) by (simp_all add: tm_valid_def tm_in_range_def two_eq)
  show ?thesis
    by (simp add: compile_main_pattern Let_def on_text_def text_formats scoped_pad_eq
      year twos millis_eq [OF assms(2)] pad_enabled_def no_padding_def log_out_new_def
      main_line_def default_eol_def)
qed

lemma secs_pos_time: "0 < secs_of msg \<Longrightarrow> 0 \<le> lm_time msg"
proof (rule ccontr)
  assume "0 < secs_of msg" "\<not> 0 \<le> lm_time msg"
  moreover from this have "duration_cast 1000000000 (lm_time msg) \<le> 0"
    by (auto simp: duration_cast_def signed_divide_int_def sgn_if abs_if pos_imp_zdiv_nonneg_iff)
  ultimately show False by (simp add: secs_of_def)
qed

section \<open>Properties\<close>

text \<open>
  The digit counters by logarithm estimate and table and the one by repeated
  division agree on every number of their width with the length of its decimal
  representation.
\<close>

lemma count_digits_exact:
  assumes "n < 2 ^ 64"
  shows "count_digits_64 n = length (decimal n) \<and>
    count_digits_fallback 1 n = length (decimal n) \<and>
    count_digits_32 (n mod 2 ^ 32) = length (decimal (n mod 2 ^ 32))"
  using assms count_digits_fallback_eq [of 0 n]
  by (simp add: count_digits_64_eq count_digits_32_eq)

lemma count_digits_exact_witness:
  "count_digits_64 9999999999 = 10 \<and> count_digits_32 1410065407 = 10"
proof -
  have "length (decimal 9999999999) = 10" "length (decimal 1410065407) = 10"
    by (simp_all add: decimal_ten)
  with count_digits_exact [of 9999999999] show ?thesis by simp
qed

lemma format_int_exact:
  "format_signed v = decimal_int (sint v) \<and> length (format_signed v) < format_int_buffer_size"
  using format_signed_eq format_signed_fits by blast

text \<open>
  For every pattern, whatever widths and flags it holds, every sequence of messages
  is formatted: the assertion of the padding is never violated and no name table is
  indexed outside its bounds, when the broken-down times are in range.
\<close>

lemma log_formatting_never_fails:
  assumes "os_in_range os"
  shows "\<exists>outs. format_each os (pattern_formatter_make pattern tt eol) msgs = Some outs \<and>
    length outs = length msgs"
  by (rule format_each_total [OF assms pattern_make_ok])

definition sample_os :: log_os where
  "sample_os =
     (let t = \<lambda>s. tm_zero\<lparr>tm_mday := 23, tm_mon := 7, tm_year := 101, tm_hour := 14, tm_wday := 4,
        tm_sec := s mod 60\<rparr>
      in \<lparr>os_localtime = t, os_gmtime = t, os_pid = 4711\<rparr>)"

definition sample_msg :: "nat \<Rightarrow> log_msg" where
  "sample_msg n = log_msg_make (int n * 1000000) 17 source_loc_default ''node'' level_info ''up''"

lemma sample_os_in_range: "os_in_range sample_os"
  by (simp add: os_in_range_def sample_os_def tm_in_range_def tm_zero_def Let_def)

lemma log_formatting_never_fails_witness:
  "\<exists>outs. format_each sample_os (pattern_formatter_make ''%=999999l|%-9a%q'' time_utc default_eol)
      [sample_msg 1, sample_msg 2] = Some outs \<and> length outs = 2"
  using log_formatting_never_fails [OF sample_os_in_range, of "''%=999999l|%-9a%q''" time_utc default_eol
      "[sample_msg 1, sample_msg 2]"]
  by (simp del: format_each.simps add: numeral_2_eq_2)

text \<open>
  C40: Formatting a sequence of messages with one pattern formatter, which caches the
  broken-down time and the date text, gives for every message, whatever the order of
  their times, the text a new formatter of the same pattern gives, for times outside the
  first second of the epoch.
\<close>

theorem log_caches_invisible:
  assumes "os_in_range os" "list_all (\<lambda>msg. secs_of msg \<noteq> 0) msgs"
  shows "format_each os (pattern_formatter_make pattern tt eol) msgs =
    those (map (\<lambda>msg. map_option snd
      (pattern_format os (pattern_formatter_make pattern tt eol) msg log_out_new)) msgs)"
  using format_each_uncached [OF refl assms in_use_new pattern_make_ok] .

lemma log_caches_invisible_witness:
  "format_each sample_os (pattern_formatter_make ''%T %+'' time_local default_eol)
      [sample_msg 5000, sample_msg 5900, sample_msg 7001] =
    those (map (\<lambda>msg. map_option snd
      (pattern_format sample_os (pattern_formatter_make ''%T %+'' time_local default_eol) msg log_out_new))
      [sample_msg 5000, sample_msg 5900, sample_msg 7001])"
  by (rule log_caches_invisible [OF sample_os_in_range])
    (simp add: secs_of_def sample_msg_def log_msg_make_def duration_cast_def sdiv_nonneg)

lemma server_log_line:
  assumes "tm_valid (os_localtime os (secs_of msg))" "0 < secs_of msg"
  shows "map_option (out_text \<circ> snd)
      (pattern_format os (pattern_formatter_make main_pattern time_local default_eol) msg log_out_new) =
    Some (main_line (os_localtime os (secs_of msg)) msg)"
proof -
  from main_line_rendered [OF assms(1) secs_pos_time [OF assms(2)], of os] show ?thesis
    using assms(2)
    by (auto simp: pattern_format_def pattern_formatter_make_def get_time_def secs_of_def Let_def)
qed

lemma server_log_line_witness:
  "map_option (out_text \<circ> snd)
      (pattern_format sample_os (pattern_formatter_make main_pattern time_local default_eol)
        (sample_msg 61007) log_out_new) =
    Some (''[2001-08-23 14:00:01.007] [thread 17] [node] [info] up'' @ [CHR 0x0A])"
proof -
  have secs: "secs_of (sample_msg 61007) = 61"
    by (simp add: secs_of_def sample_msg_def log_msg_make_def duration_cast_def sdiv_nonneg)
  have "main_line (os_localtime sample_os 61) (sample_msg 61007) =
      ''[2001-08-23 14:00:01.007] [thread 17] [node] [info] up'' @ [CHR 0x0A]"
    by (simp add: main_line_def sample_os_def sample_msg_def log_msg_make_def tm_zero_def two_def
      zero_padded_def decimal_int_def decimal_ten digit_char_def to_string_view_def
      level_string_views_def Let_def)
      (simp add: char_of_def bit_simps numeral_2_eq_2)
  with server_log_line [of sample_os "sample_msg 61007"] show ?thesis
    by (simp add: secs tm_valid_def tm_in_range_def sample_os_def tm_zero_def Let_def)
qed

end
