(* ===== verification/Oef_Log_File_Facts.thy ===== *)
theory Oef_Log_File_Facts
  imports Oef_Log_File
begin

text \<open>
  Facts about the rotating log file. Under every schedule of failing system calls the sink
  never writes to a closed file and the file stays within its bound; without failures the
  files are a sliding window over the text written, \<open>history_write\<close>.
\<close>

section \<open>Single operations\<close>

lemma next_fault_files [simp]: "lw_files (snd (next_fault w)) = lw_files w"
  by (simp add: next_fault_def split: list.splits)

lemma next_fault_files_eq: "next_fault w = (f, w') \<Longrightarrow> lw_files w' = lw_files w"
  using next_fault_files [of w] by simp

definition name_le :: "nat \<Rightarrow> string \<Rightarrow> log_world \<Rightarrow> bool" where
  "name_le B name w \<longleftrightarrow> (case lw_files w name of None \<Rightarrow> True | Some s \<Rightarrow> length s \<le> B)"

lemma calc_filename_0 [simp]: "calc_filename base 0 = base"
  by (simp add: calc_filename_def)

lemma split_by_extension_append: "split_by_extension s = (a, b) \<Longrightarrow> s = a @ b"
  by (auto simp: split_by_extension_def split: option.splits if_splits)

lemma calc_filename_Suc:
  "calc_filename base (Suc i) = fst (split_by_extension base) @ ''.'' @ decimal (Suc i) @
     snd (split_by_extension base)"
  by (simp add: calc_filename_def split: prod.splits)

lemma calc_filename_longer: "length base < length (calc_filename base (Suc i))"
proof -
  have "base = fst (split_by_extension base) @ snd (split_by_extension base)"
    using split_by_extension_append [of base] by (simp add: prod_eq_iff)
  then have "length base = length (fst (split_by_extension base)) + length (snd (split_by_extension base))"
    by (metis length_append)
  then show ?thesis by (simp add: calc_filename_Suc)
qed

lemma calc_filename_not_base [simp]: "calc_filename base (Suc i) \<noteq> base" "base \<noteq> calc_filename base (Suc i)"
  using calc_filename_longer [of base i] by auto

lemma name_le_remove: "name_le B name w \<Longrightarrow> name_le B name (os_remove target w)"
  by (auto simp: os_remove_def name_le_def dest!: next_fault_files_eq split: prod.splits option.splits)

lemma name_le_rename:
  "name_le B name w \<Longrightarrow> os_rename src target w = (r, w') \<Longrightarrow> target \<noteq> name \<Longrightarrow> name_le B name w'"
  by (auto simp: os_rename_def name_le_def dest!: next_fault_files_eq split: prod.splits option.splits if_splits)

lemma name_le_rename_file:
  "name_le B name w \<Longrightarrow> rename_file src target w = (r, w') \<Longrightarrow> target \<noteq> name \<Longrightarrow> name_le B name w'"
  by (auto simp: rename_file_def Let_def split: prod.splits dest: name_le_remove name_le_rename)

lemma fh_open_loop_spec:
  assumes "fh_open_loop n True fh w = (e, fh', w')" "\<not> fh_open fh"
  shows "fh_filename fh' = fh_filename fh \<and> (e = None \<longleftrightarrow> fh_open fh') \<and>
    (if fh_open fh' then lw_files w' (fh_filename fh) = Some [] else lw_files w' = lw_files w)"
  using assms
proof (induction n arbitrary: w)
  case (Suc n)
  then show ?case
    by (cases "next_fault w")
      (auto simp: os_fopen_s_def dest!: next_fault_files_eq split: option.splits if_splits)
qed auto

lemma fh_reopen_spec:
  assumes "fh_reopen True fh w = (e, fh', w')" "\<not> fh_open fh" "fh_filename fh \<noteq> []"
  shows "fh_filename fh' = fh_filename fh \<and> (e = None \<longleftrightarrow> fh_open fh') \<and>
    (if fh_open fh' then lw_files w' (fh_filename fh) = Some [] else lw_files w' = lw_files w)"
  using fh_open_loop_spec [of open_tries "fh\<lparr>fh_open := False\<rparr>" w e fh' w'] assms
  by (simp add: fh_reopen_def fh_open_file_def fh_close_def cong: if_cong)

section \<open>The invariant under failures\<close>

definition file_ok :: "nat \<Rightarrow> rotating_sink \<Rightarrow> log_world \<Rightarrow> bool" where
  "file_ok B rs w \<longleftrightarrow>
     rs_base_filename rs \<noteq> [] \<and> fh_filename (rs_file rs) = rs_base_filename rs \<and>
     rs_max_size rs \<le> B \<and> name_le B (rs_base_filename rs) w \<and>
     (if fh_open (rs_file rs)
      then \<exists>s. lw_files w (rs_base_filename rs) = Some s \<and> length s \<le> rs_current_size rs
      else rs_max_size rs < rs_current_size rs)"

text \<open>What a rotation leaves: an empty open file, or a closed one.\<close>

definition rotated :: "nat \<Rightarrow> rotating_sink \<Rightarrow> rotating_sink \<Rightarrow> log_world \<Rightarrow> bool" where
  "rotated B rs rs' w \<longleftrightarrow>
     rs_base_filename rs' = rs_base_filename rs \<and> rs_max_size rs' = rs_max_size rs \<and>
     fh_filename (rs_file rs') = rs_base_filename rs \<and> name_le B (rs_base_filename rs) w \<and>
     (if fh_open (rs_file rs') then lw_files w (rs_base_filename rs) = Some []
      else rs_current_size rs' = rs_current_size rs) \<and>
     rs_current_size rs' \<le> rs_current_size rs"

lemma rotate_loop_spec:
  assumes "rotate_loop n rs w = (e, rs', w')" "\<not> fh_open (rs_file rs)"
    and "fh_filename (rs_file rs) = rs_base_filename rs" "rs_base_filename rs \<noteq> []"
    and "name_le B (rs_base_filename rs) w"
  shows "rotated B rs rs' w' \<and> (e = None \<longrightarrow> \<not> fh_open (rs_file rs'))"
  using assms
proof (induction n arbitrary: w)
  case (Suc n)
  let ?base = "rs_base_filename rs"
  let ?src = "calc_filename ?base n" and ?target = "calc_filename ?base (Suc n)"
  obtain r1 w1 where 1: "rename_file ?src ?target w = (r1, w1)" by fastforce
  obtain r2 w2 where 2: "rename_file ?src ?target w1 = (r2, w2)" by fastforce
  obtain e3 fh3 w3 where 3: "fh_reopen True (rs_file rs) w2 = (e3, fh3, w3)" by (cases "fh_reopen True (rs_file rs) w2") auto
  note le1 = name_le_rename_file [OF Suc.prems(5) 1 calc_filename_not_base(1)]
  note le2 = name_le_rename_file [OF le1 2 calc_filename_not_base(1)]
  note open3 = fh_reopen_spec [OF 3 Suc.prems(2), unfolded Suc.prems(3), OF Suc.prems(4)]
  note IH = Suc.IH [OF _ Suc.prems(2-4)]
  consider "\<not> os_file_exists ?src w" | "os_file_exists ?src w" r1
    | "os_file_exists ?src w" "\<not> r1" r2 | "os_file_exists ?src w" "\<not> r1" "\<not> r2" by blast
  then show ?case
  proof cases
    case 1
    with Suc.prems(1) IH [OF _ Suc.prems(5)] show ?thesis by (simp add: Let_def)
  next
    case 2
    with Suc.prems(1) 1 IH [OF _ le1] show ?thesis by (simp add: Let_def)
  next
    case 3
    with Suc.prems(1) 1 2 IH [OF _ le2] show ?thesis by (simp add: Let_def)
  next
    case 4
    with Suc.prems 1 2 3 open3 le2 show ?thesis
      by (cases e3) (auto simp: Let_def rotated_def name_le_def split: if_splits)
  qed
qed (simp add: rotated_def)

lemma rotate_spec:
  assumes "rotate_sink rs w = (e, rs', w')"
    and "fh_filename (rs_file rs) = rs_base_filename rs" "rs_base_filename rs \<noteq> []"
    and "name_le B (rs_base_filename rs) w"
  shows "rotated B rs rs' w' \<and> (e = None \<longrightarrow> fh_open (rs_file rs'))"
proof -
  define rs0 where "rs0 = rs\<lparr>rs_file := fh_close (rs_file rs)\<rparr>"
  have rs0: "\<not> fh_open (rs_file rs0)" "fh_filename (rs_file rs0) = rs_base_filename rs0"
      "rs_base_filename rs0 \<noteq> []" "rs_base_filename rs0 = rs_base_filename rs"
      "rs_current_size rs0 = rs_current_size rs" "rs_max_size rs0 = rs_max_size rs"
    using assms(2,3) by (simp_all add: rs0_def fh_close_def)
  obtain e1 rs1 w1 where 1: "rotate_loop (rs_max_files rs) rs0 w = (e1, rs1, w1)"
    by (cases "rotate_loop (rs_max_files rs) rs0 w") auto
  have spec: "rotated B rs0 rs1 w1" "e1 = None \<longrightarrow> \<not> fh_open (rs_file rs1)"
    using rotate_loop_spec [OF 1 rs0(1-3)] assms(4) rs0(4) by simp_all
  have maxf: "rs_max_files rs0 = rs_max_files rs" by (simp add: rs0_def)
  show ?thesis
  proof (cases e1)
    case (Some x)
    with assms(1) 1 spec rs0 maxf show ?thesis
      by (auto simp: rotate_sink_def rs0_def [symmetric] rotated_def Let_def split: if_splits)
  next
    case None
    obtain e2 fh2 w2 where 2: "fh_reopen True (rs_file rs1) w1 = (e2, fh2, w2)"
      by (cases "fh_reopen True (rs_file rs1) w1") auto
    have "\<not> fh_open (rs_file rs1)" "fh_filename (rs_file rs1) \<noteq> []"
      using spec None rs0 by (simp_all add: rotated_def)
    note open2 = fh_reopen_spec [OF 2 this]
    have "e = e2" "rs' = rs1\<lparr>rs_file := fh2\<rparr>" "w' = w2"
      using assms(1) 1 2 None maxf by (simp_all add: rotate_sink_def rs0_def [symmetric] Let_def)
    with open2 spec None rs0 show ?thesis
      by (auto simp: rotated_def name_le_def split: if_splits)
  qed
qed

lemma fh_write_spec:
  assumes "fh_open fh" "lw_files w (fh_filename fh) = Some s"
  shows "\<exists>e w' k. fh_write buf fh w = Some (e, w') \<and>
    lw_files w' (fh_filename fh) = Some (s @ take k buf)"
  using assms
  by (cases "next_fault w")
    (auto simp: fh_write_def Let_def dest!: next_fault_files_eq)

definition counted :: "string \<Rightarrow> rotating_sink \<Rightarrow> rotating_sink" where
  "counted buf rs = rs\<lparr>rs_current_size := rs_current_size rs + length buf\<rparr>"

lemma counted_simps [simp]:
  "rs_current_size (counted buf rs) = rs_current_size rs + length buf"
  "rs_file (counted buf rs) = rs_file rs" "rs_base_filename (counted buf rs) = rs_base_filename rs"
  "rs_max_size (counted buf rs) = rs_max_size rs" "rs_max_files (counted buf rs) = rs_max_files rs"
  by (simp_all add: counted_def)

lemma rotating_write_eq:
  assumes "rs_current_size rs + length buf < 2 ^ 64"
  shows "rotating_write buf rs w =
    (if rs_max_size rs < rs_current_size rs + length buf then
       (case rotate_sink (counted buf rs) w of
          (Some e, rs, w) \<Rightarrow> Some (Some e, rs, w)
        | (None, rs, w) \<Rightarrow>
            map_option (\<lambda>(e, w). (e, rs\<lparr>rs_current_size := length buf\<rparr>, w)) (fh_write buf (rs_file rs) w))
     else map_option (\<lambda>(e, w). (e, counted buf rs, w)) (fh_write buf (rs_file rs) w))"
  using assms
  by (auto simp: rotating_write_def counted_def Let_def map_option_case split: option.split prod.split)

lemma rotating_write_spec:
  assumes "file_ok B rs w" "length buf \<le> B" "rs_current_size rs + length buf < 2 ^ 64"
  shows "\<exists>e rs' w'. rotating_write buf rs w = Some (e, rs', w') \<and> file_ok B rs' w' \<and>
    rs_current_size rs' \<le> rs_current_size rs + length buf \<and>
    rs_base_filename rs' = rs_base_filename rs"
proof (cases "rs_max_size rs < rs_current_size rs + length buf")
  case False
  then have "fh_open (rs_file rs)" using assms(1) by (auto simp: file_ok_def split: if_splits)
  then obtain s where s: "lw_files w (fh_filename (rs_file rs)) = Some s" "length s \<le> rs_current_size rs"
    using assms(1) by (auto simp: file_ok_def)
  from fh_write_spec [OF \<open>fh_open (rs_file rs)\<close> s(1), of buf]
  obtain e w' k where "fh_write buf (rs_file rs) w = Some (e, w')"
      "lw_files w' (fh_filename (rs_file rs)) = Some (s @ take k buf)" by auto
  with False s assms \<open>fh_open (rs_file rs)\<close> show ?thesis
    by (auto simp: rotating_write_eq file_ok_def name_le_def)
next
  case True
  obtain e2 rs2 w2 where 2: "rotate_sink (counted buf rs) w = (e2, rs2, w2)"
    by (cases "rotate_sink (counted buf rs) w") auto
  have spec: "rotated B (counted buf rs) rs2 w2" "e2 = None \<longrightarrow> fh_open (rs_file rs2)"
    using rotate_spec [OF 2, of B] assms(1) by (simp_all add: file_ok_def)
  show ?thesis
  proof (cases e2)
    case (Some x)
    then have "rotating_write buf rs w = Some (Some x, rs2, w2)"
      using True 2 assms(3) by (simp add: rotating_write_eq)
    with True spec assms(1) show ?thesis
      by (auto simp: file_ok_def rotated_def split: if_splits)
  next
    case None
    have "fh_open (rs_file rs2)" "lw_files w2 (fh_filename (rs_file rs2)) = Some []"
      using spec None by (simp_all add: rotated_def split: if_splits)
    from fh_write_spec [OF this, of buf] obtain e w' k where
      wr: "fh_write buf (rs_file rs2) w2 = Some (e, w')"
        "lw_files w' (fh_filename (rs_file rs2)) = Some ([] @ take k buf)" by blast
    then have "rotating_write buf rs w = Some (e, rs2\<lparr>rs_current_size := length buf\<rparr>, w')"
      using True 2 None assms(3) by (simp add: rotating_write_eq)
    with wr(2) None spec assms show ?thesis
      by (auto simp: file_ok_def rotated_def name_le_def split: if_splits)
  qed
qed

text \<open>A run of the sink: the logger catches what a write throws and goes on.\<close>

fun rotating_writes ::
    "string list \<Rightarrow> rotating_sink \<Rightarrow> log_world \<Rightarrow> (string option list \<times> rotating_sink \<times> log_world) option" where
  "rotating_writes [] rs w = Some ([], rs, w)"
| "rotating_writes (buf # bufs) rs w =
     do { (e, rs, w) \<leftarrow> rotating_write buf rs w;
          (es, rs, w) \<leftarrow> rotating_writes bufs rs w;
          Some (e # es, rs, w) }"

lemma rotating_writes_spec:
  assumes "file_ok B rs w" "list_all (\<lambda>buf. length buf \<le> B) bufs"
    and "rs_current_size rs + length (concat bufs) < 2 ^ 64"
  shows "\<exists>es rs' w'. rotating_writes bufs rs w = Some (es, rs', w') \<and> file_ok B rs' w' \<and>
    rs_base_filename rs' = rs_base_filename rs"
  using assms
proof (induction bufs arbitrary: rs w)
  case (Cons buf bufs)
  obtain e rs1 w1 where "rotating_write buf rs w = Some (e, rs1, w1)" "file_ok B rs1 w1"
      "rs_current_size rs1 \<le> rs_current_size rs + length buf"
      "rs_base_filename rs1 = rs_base_filename rs"
    using rotating_write_spec [OF Cons.prems(1)] Cons.prems(2,3) by fastforce
  with Cons.IH [of rs1 w1] Cons.prems(2,3) show ?case by auto
qed simp

section \<open>Without failures\<close>

text \<open>The abstract log: the newest file first, at most \<open>max_files + 1\<close> of them.\<close>

definition history_write :: "nat \<Rightarrow> nat \<Rightarrow> string \<Rightarrow> string list \<Rightarrow> string list" where
  "history_write max_size max_files buf files =
     (case files of
        [] \<Rightarrow> [buf]
      | newest # older \<Rightarrow>
          if length newest + length buf > max_size then take (max_files + 1) (buf # newest # older)
          else (newest @ buf) # older)"

definition holds_files :: "string \<Rightarrow> string list \<Rightarrow> log_world \<Rightarrow> bool" where
  "holds_files base files w \<longleftrightarrow>
     (\<forall>i. lw_files w (calc_filename base i) = (if i < length files then Some (files ! i) else None))"

lemma holds_filesD:
  "holds_files base files w \<Longrightarrow>
   lw_files w (calc_filename base i) = (if i < length files then Some (files ! i) else None)"
  by (simp add: holds_files_def)

definition holds_history :: "rotating_sink \<Rightarrow> string list \<Rightarrow> log_world \<Rightarrow> bool" where
  "holds_history rs files w \<longleftrightarrow>
     lw_faults w = [] \<and> fh_open (rs_file rs) \<and> rs_base_filename rs \<noteq> [] \<and>
     fh_filename (rs_file rs) = rs_base_filename rs \<and>
     files \<noteq> [] \<and> length files \<le> rs_max_files rs + 1 \<and> rs_current_size rs = length (hd files) \<and>
     holds_files (rs_base_filename rs) files w"

lemma decimal_inj: "decimal m = decimal n \<Longrightarrow> m = n"
proof (induction m arbitrary: n rule: decimal.induct)
  case (1 m)
  have digit: "digit_char i = digit_char j \<Longrightarrow> i < 10 \<Longrightarrow> j < 10 \<Longrightarrow> i = j" for i j
  proof -
    assume "digit_char i = digit_char j" "i < 10" "j < 10"
    then have "(of_char (char_of (48 + i)) :: nat) = of_char (char_of (48 + j))"
      by (simp add: digit_char_def)
    with \<open>i < 10\<close> \<open>j < 10\<close> show "i = j" by (simp add: of_char_of)
  qed
  show ?case
  proof (cases "m < 10 \<or> n < 10")
    case True
    have "length (decimal k) = 1 \<longleftrightarrow> k < 10" for k
      using decimal_length_pos [of "k div 10"] by (cases "k < 10") (simp_all add: decimal_ten)
    with True 1(2) have "m < 10" "n < 10" by metis+
    with 1(2) digit show ?thesis by simp
  next
    case False
    with 1(2) have "decimal (m div 10) = decimal (n div 10)" "m mod 10 = n mod 10"
      by (simp_all add: decimal_ten digit)
    with False 1(1) [of "n div 10"] have "m div 10 = n div 10" by simp
    with \<open>m mod 10 = n mod 10\<close> show ?thesis by (metis div_mult_mod_eq)
  qed
qed

lemma calc_filename_inj [simp]: "calc_filename base i = calc_filename base j \<longleftrightarrow> i = j"
proof (cases i; cases j)
  fix m n
  assume "i = Suc m" "j = Suc n"
  then show ?thesis by (auto simp: calc_filename_Suc dest: decimal_inj)
qed simp_all

lemma no_fault [simp]: "lw_faults w = [] \<Longrightarrow> next_fault w = (None, w)"
  by (simp add: next_fault_def)

lemma rename_file_no_fault:
  assumes "lw_faults w = []" "lw_files w src = Some s" "src \<noteq> target"
  shows "rename_file src target w =
    (True, w\<lparr>lw_files := (lw_files w)(src := None, target \<mapsto> s)\<rparr>)"
  using assms by (simp add: rename_file_def os_remove_def os_rename_def Let_def fun_upd_twist)

text \<open>The directory when the loop has come down to \<open>n\<close>: the files below \<open>n\<close> are untouched,
  those above have moved up by one, and the name \<open>n\<close> is free to be replaced.\<close>

definition shifted :: "string \<Rightarrow> string list \<Rightarrow> nat \<Rightarrow> nat \<Rightarrow> log_world \<Rightarrow> bool" where
  "shifted base files m n w \<longleftrightarrow>
     (\<forall>i. i \<noteq> n \<longrightarrow> lw_files w (calc_filename base i) =
        (if i < n then if i < length files then Some (files ! i) else None
         else if i \<le> m \<and> i - 1 < length files then Some (files ! (i - 1)) else None)) \<and>
     (length files < n \<longrightarrow> lw_files w (calc_filename base n) = None)"

lemma rotate_loop_shifts:
  assumes "lw_faults w = []" "shifted (rs_base_filename rs) files m n w" "n \<le> m"
  shows "\<exists>w'. rotate_loop n rs w = (None, rs, w') \<and> lw_faults w' = [] \<and>
    shifted (rs_base_filename rs) files m 0 w'"
  using assms
proof (induction n arbitrary: w)
  case (Suc n)
  let ?base = "rs_base_filename rs"
  let ?src = "calc_filename ?base n" and ?target = "calc_filename ?base (Suc n)"
  have src: "lw_files w ?src = (if n < length files then Some (files ! n) else None)"
    using Suc.prems(2) by (simp add: shifted_def)
  show ?case
  proof (cases "n < length files")
    case True
    let ?w = "w\<lparr>lw_files := (lw_files w)(?src := None, ?target \<mapsto> files ! n)\<rparr>"
    have step: "rotate_loop (Suc n) rs w = rotate_loop n rs ?w"
      using rename_file_no_fault [OF Suc.prems(1), of ?src "files ! n" ?target] src True
      by (simp add: os_file_exists_def Let_def)
    have "shifted ?base files m n ?w"
      using Suc.prems(2,3) True by (auto simp: shifted_def)
    with Suc.IH [of ?w] Suc.prems(1,3) step show ?thesis by simp
  next
    case False
    have step: "rotate_loop (Suc n) rs w = rotate_loop n rs w"
      using src False by (simp add: os_file_exists_def Let_def)
    have end_: "lw_files w ?target = None" if "length files < Suc n"
      using Suc.prems(2) that by (simp add: shifted_def)
    have "shifted ?base files m n w"
      unfolding shifted_def
    proof (intro conjI allI impI)
      fix i
      assume "i \<noteq> n"
      have "i \<noteq> Suc n \<Longrightarrow> lw_files w (calc_filename ?base i) =
          (if i < Suc n then if i < length files then Some (files ! i) else None
           else if i \<le> m \<and> i - 1 < length files then Some (files ! (i - 1)) else None)"
        using Suc.prems(2) by (simp add: shifted_def)
      with \<open>i \<noteq> n\<close> False end_ show "lw_files w (calc_filename ?base i) =
          (if i < n then if i < length files then Some (files ! i) else None
           else if i \<le> m \<and> i - 1 < length files then Some (files ! (i - 1)) else None)"
        by (cases "i = Suc n") auto
    qed (use src in simp)
    with Suc.IH [OF Suc.prems(1)] Suc.prems(3) step show ?thesis by simp
  qed
qed simp

lemma fh_reopen_no_fault:
  assumes "lw_faults w = []" "fh_filename fh \<noteq> []"
  shows "fh_reopen True fh w =
    (None, fh\<lparr>fh_open := True\<rparr>, w\<lparr>lw_files := (lw_files w)(fh_filename fh \<mapsto> [])\<rparr>)"
  using assms
  by (simp add: fh_reopen_def fh_open_file_def open_tries_def numeral_eq_Suc os_fopen_s_def fh_close_def)

lemma rotate_no_fault:
  assumes "lw_faults w = []" "rs_base_filename rs \<noteq> []" "fh_filename (rs_file rs) = rs_base_filename rs"
    and "holds_files (rs_base_filename rs) files w" "files \<noteq> []" "length files \<le> rs_max_files rs + 1"
  shows "\<exists>w'. rotate_sink rs w = (None, rs\<lparr>rs_file := (rs_file rs)\<lparr>fh_open := True\<rparr>\<rparr>, w') \<and>
    lw_faults w' = [] \<and> holds_files (rs_base_filename rs) ([] # take (rs_max_files rs) files) w'"
proof -
  let ?rs = "rs\<lparr>rs_file := fh_close (rs_file rs)\<rparr>" and ?base = "rs_base_filename rs"
  have "shifted ?base files (rs_max_files rs) (rs_max_files rs) w"
    using assms(4-6) by (auto simp: shifted_def holds_files_def)
  from rotate_loop_shifts [of w ?rs, simplified, OF assms(1) this order_refl] obtain w1 where
    1: "rotate_loop (rs_max_files rs) ?rs w = (None, ?rs, w1)" "lw_faults w1 = []"
      "shifted ?base files (rs_max_files rs) 0 w1" by auto
  let ?w = "w1\<lparr>lw_files := (lw_files w1)(?base \<mapsto> [])\<rparr>"
  have "holds_files ?base ([] # take (rs_max_files rs) files) ?w"
    unfolding holds_files_def
  proof (rule allI)
    fix i
    show "lw_files ?w (calc_filename ?base i) =
        (if i < length ([] # take (rs_max_files rs) files)
         then Some (([] # take (rs_max_files rs) files) ! i) else None)"
      using 1(3) by (cases i) (auto simp: shifted_def)
  qed
  moreover have "rotate_sink rs w = (None, rs\<lparr>rs_file := (rs_file rs)\<lparr>fh_open := True\<rparr>\<rparr>, ?w)"
    using 1(1,2) fh_reopen_no_fault [OF 1(2), of "fh_close (rs_file rs)"] assms(2,3)
    by (simp add: rotate_sink_def Let_def fh_close_def)
  ultimately show ?thesis using 1(2) by auto
qed

lemma fh_write_no_fault:
  assumes "lw_faults w = []" "fh_open fh" "lw_files w (fh_filename fh) = Some s"
  shows "fh_write buf fh w = Some (None, w\<lparr>lw_files := (lw_files w)(fh_filename fh \<mapsto> s @ buf)\<rparr>)"
  using assms by (simp add: fh_write_def Let_def)

lemma rotating_write_history:
  assumes "holds_history rs files w" "rs_current_size rs + length buf < 2 ^ 64"
  shows "\<exists>rs' w'. rotating_write buf rs w = Some (None, rs', w') \<and>
    holds_history rs' (history_write (rs_max_size rs) (rs_max_files rs) buf files) w' \<and>
    rs_base_filename rs' = rs_base_filename rs \<and>
    rs_max_size rs' = rs_max_size rs \<and> rs_max_files rs' = rs_max_files rs \<and>
    rs_current_size rs' \<le> rs_current_size rs + length buf"
proof -
  obtain newest older where files: "files = newest # older" "rs_current_size rs = length newest"
    using assms(1) by (cases files) (auto simp: holds_history_def)
  have h: "lw_faults w = []" "fh_open (rs_file rs)" "rs_base_filename rs \<noteq> []"
      "fh_filename (rs_file rs) = rs_base_filename rs" "files \<noteq> []" "length files \<le> rs_max_files rs + 1"
      "holds_files (rs_base_filename rs) files w"
    using assms(1) by (simp_all add: holds_history_def)
  show ?thesis
  proof (cases "rs_max_size rs < rs_current_size rs + length buf")
    case False
    have base: "lw_files w (calc_filename (rs_base_filename rs) 0) = Some newest"
      using holds_filesD [OF h(7), of 0] files by simp
    then have "fh_write buf (rs_file rs) w =
        Some (None, w\<lparr>lw_files := (lw_files w)(rs_base_filename rs \<mapsto> newest @ buf)\<rparr>)"
      using fh_write_no_fault [OF h(1,2), of newest buf] h(4) by simp
    moreover have "holds_files (rs_base_filename rs) ((newest @ buf) # older)
        (w\<lparr>lw_files := (lw_files w)(rs_base_filename rs \<mapsto> newest @ buf)\<rparr>)"
      unfolding holds_files_def
    proof (rule allI)
      fix i
      show "lw_files (w\<lparr>lw_files := (lw_files w)(rs_base_filename rs \<mapsto> newest @ buf)\<rparr>)
            (calc_filename (rs_base_filename rs) i) =
          (if i < length ((newest @ buf) # older) then Some (((newest @ buf) # older) ! i) else None)"
        using holds_filesD [OF h(7), of i] files(1) by (cases i) auto
    qed
    ultimately show ?thesis
      using False h files assms(2)
      by (simp add: rotating_write_eq history_write_def holds_history_def)
  next
    case True
    from rotate_no_fault [of w "counted buf rs" files] h obtain w1 where
      1: "rotate_sink (counted buf rs) w = (None, (counted buf rs)\<lparr>rs_file := (rs_file rs)\<lparr>fh_open := True\<rparr>\<rparr>, w1)"
        "lw_faults w1 = []" "holds_files (rs_base_filename rs) ([] # take (rs_max_files rs) files) w1"
      by auto
    have "lw_files w1 (calc_filename (rs_base_filename rs) 0) = Some []"
      using holds_filesD [OF 1(3), of 0] by simp
    then have "fh_write buf ((rs_file rs)\<lparr>fh_open := True\<rparr>) w1 =
        Some (None, w1\<lparr>lw_files := (lw_files w1)(rs_base_filename rs \<mapsto> buf)\<rparr>)"
      using fh_write_no_fault [OF 1(2), of "(rs_file rs)\<lparr>fh_open := True\<rparr>" "[]" buf] h(4) by simp
    moreover have "holds_files (rs_base_filename rs) (buf # take (rs_max_files rs) files)
        (w1\<lparr>lw_files := (lw_files w1)(rs_base_filename rs \<mapsto> buf)\<rparr>)"
      unfolding holds_files_def
    proof (rule allI)
      fix i
      show "lw_files (w1\<lparr>lw_files := (lw_files w1)(rs_base_filename rs \<mapsto> buf)\<rparr>)
            (calc_filename (rs_base_filename rs) i) =
          (if i < length (buf # take (rs_max_files rs) files)
           then Some ((buf # take (rs_max_files rs) files) ! i) else None)"
        using holds_filesD [OF 1(3), of i] by (cases i) auto
    qed
    ultimately show ?thesis
      using True h files assms(2) 1
      by (simp add: rotating_write_eq history_write_def holds_history_def)
  qed
qed

lemma rotating_writes_history:
  assumes "holds_history rs files w" "rs_current_size rs + length (concat bufs) < 2 ^ 64"
  shows "\<exists>rs' w'. rotating_writes bufs rs w = Some (replicate (length bufs) None, rs', w') \<and>
    holds_history rs' (fold (history_write (rs_max_size rs) (rs_max_files rs)) bufs files) w' \<and>
    rs_base_filename rs' = rs_base_filename rs"
  using assms
proof (induction bufs arbitrary: rs files w)
  case (Cons buf bufs)
  obtain rs1 w1 where 1: "rotating_write buf rs w = Some (None, rs1, w1)"
      "holds_history rs1 (history_write (rs_max_size rs) (rs_max_files rs) buf files) w1"
      "rs_base_filename rs1 = rs_base_filename rs"
      "rs_max_size rs1 = rs_max_size rs" "rs_max_files rs1 = rs_max_files rs"
      "rs_current_size rs1 \<le> rs_current_size rs + length buf"
    using rotating_write_history [OF Cons.prems(1), of buf] Cons.prems(2) by auto
  from Cons.IH [OF 1(2)] 1 Cons.prems(2) show ?case by auto
qed simp

text \<open>The files, oldest first, end in what was written last.\<close>

lemma concat_rev_split: "concat (rev files) = concat (rev (drop n files)) @ concat (rev (take n files))"
  by (metis append_take_drop_id concat_append rev_append)

lemma history_write_suffix:
  assumes "files \<noteq> []"
  shows "\<exists>older. concat (rev files) @ buf = older @ concat (rev (history_write max_size max_files buf files))"
proof -
  obtain newest older where files: "files = newest # older" using assms by (cases files) auto
  show ?thesis
  proof (cases "length newest + length buf > max_size")
    case True
    then have "history_write max_size max_files buf files = buf # take max_files files"
      by (simp add: history_write_def files)
    then show ?thesis by (simp add: concat_rev_split [of files max_files])
  qed (auto simp: history_write_def files)
qed

lemma history_write_nonempty: "history_write max_size max_files buf files \<noteq> []"
  by (simp add: history_write_def split: list.split)

lemma history_suffix:
  "files \<noteq> [] \<Longrightarrow> \<exists>older. concat (rev files) @ concat bufs =
     older @ concat (rev (fold (history_write max_size max_files) bufs files))"
proof (induction bufs arbitrary: files)
  case (Cons buf bufs)
  obtain o1 where "concat (rev files) @ buf = o1 @ concat (rev (history_write max_size max_files buf files))"
    using history_write_suffix [OF Cons.prems] by blast
  moreover obtain o2 where "concat (rev (history_write max_size max_files buf files)) @ concat bufs =
      o2 @ concat (rev (fold (history_write max_size max_files) bufs (history_write max_size max_files buf files)))"
    using Cons.IH [OF history_write_nonempty] by blast
  ultimately show ?case by (metis append_assoc concat.simps(2) fold_simps(2))
qed auto

lemma history_write_bound:
  "list_all (\<lambda>s. length s \<le> B) files \<Longrightarrow> length buf \<le> B \<Longrightarrow> max_size \<le> B \<Longrightarrow>
   list_all (\<lambda>s. length s \<le> B) (history_write max_size max_files buf files)"
  by (auto simp: history_write_def list_all_iff dest!: in_set_takeD split: list.splits if_splits)

section \<open>Opening the log\<close>

lemma fh_open_append:
  assumes "fh_open_loop n False fh w = (None, fh', w')"
  shows "fh' = fh\<lparr>fh_open := True\<rparr> \<and>
    lw_files w' = (lw_files w)(fh_filename fh \<mapsto>
      case lw_files w (fh_filename fh) of None \<Rightarrow> [] | Some s \<Rightarrow> s)"
  using assms
proof (induction n arbitrary: w)
  case (Suc n)
  then show ?case
    by (cases "next_fault w")
      (auto simp: os_fopen_s_def dest!: next_fault_files_eq split: option.splits if_splits)
qed auto

lemma rotating_sink_make_spec:
  assumes "rotating_sink_make base max_size max_files w = (Inr rs, w')"
  shows "rs_base_filename rs = base \<and> rs_max_size rs = max_size \<and> rs_max_files rs = max_files \<and>
    rs_file rs = \<lparr>fh_open = True, fh_filename = base\<rparr> \<and>
    lw_files w' = (lw_files w)(base \<mapsto> case lw_files w base of None \<Rightarrow> [] | Some s \<Rightarrow> s) \<and>
    rs_current_size rs = (case lw_files w base of None \<Rightarrow> 0 | Some s \<Rightarrow> length s)"
  using assms
  by (auto simp: rotating_sink_make_def fh_open_file_def fh_close_def file_helper_new_def fh_size_def
      dest!: fh_open_append next_fault_files_eq split: prod.splits sum.splits option.splits if_splits)

lemma rotating_sink_make_no_fault:
  assumes "lw_faults w = []"
  shows "\<exists>rs. rotating_sink_make base max_size max_files w =
    (Inr rs, w\<lparr>lw_files := (lw_files w)(base \<mapsto> case lw_files w base of None \<Rightarrow> [] | Some s \<Rightarrow> s)\<rparr>)"
  using assms
  by (simp add: rotating_sink_make_def fh_open_file_def fh_close_def file_helper_new_def fh_size_def
      open_tries_def numeral_eq_Suc os_fopen_s_def)

lemma make_file_ok:
  assumes "rotating_sink_make base max_size max_files w = (Inr rs, w')"
    and "base \<noteq> []" "name_le B base w" "max_size \<le> B"
  shows "file_ok B rs w' \<and> rs_current_size rs \<le> B"
  using rotating_sink_make_spec [OF assms(1)] assms(2-)
  by (auto simp: file_ok_def name_le_def split: option.splits)

definition opened_files :: "string list \<Rightarrow> string list" where
  "opened_files files = (if files = [] then [[]] else files)"

lemma make_holds_history:
  assumes "rotating_sink_make base max_size max_files w = (Inr rs, w')" "lw_faults w = []"
    and "base \<noteq> []" "holds_files base files w" "length files \<le> max_files + 1"
  shows "holds_history rs (opened_files files) w'"
proof -
  note spec = rotating_sink_make_spec [OF assms(1)]
  have base: "lw_files w base = (if files = [] then None else Some (hd files))"
    using holds_filesD [OF assms(4), of 0] by (auto simp: hd_conv_nth)
  have "lw_faults w' = []"
    using rotating_sink_make_no_fault [OF assms(2), of base max_size max_files] assms(1,2) by auto
  moreover have "holds_files base (opened_files files) w'"
    unfolding holds_files_def
  proof (rule allI)
    fix i
    show "lw_files w' (calc_filename base i) =
        (if i < length (opened_files files) then Some (opened_files files ! i) else None)"
      using spec base holds_filesD [OF assms(4), of i]
      by (cases i) (auto simp: opened_files_def hd_conv_nth)
  qed
  ultimately show ?thesis
    using spec base assms(3,5) by (auto simp: holds_history_def opened_files_def)
qed

section \<open>Properties\<close>

text \<open>
  C39: Whatever system calls fail, in any order, the sink, once constructed with a non-
  empty file name, never writes to a closed file, and the current log file never exceeds
  the largest of the configured size, the longest message and the size it had before the
  construction, as long as that bound and all messages together stay below 2^64 bytes.
\<close>

theorem rotating_file_survives_faults:
  assumes "rotating_sink_make base max_size max_files w = (Inr rs, w')" "base \<noteq> []"
    and "name_le B base w" "max_size \<le> B" "list_all (\<lambda>buf. length buf \<le> B) bufs"
    and "B + length (concat bufs) < 2 ^ 64"
  shows "\<exists>es rs' w''. rotating_writes bufs rs w' = Some (es, rs', w'') \<and> name_le B base w''"
proof -
  from make_file_ok [OF assms(1-4)] assms(6)
  have ok: "file_ok B rs w'" "rs_current_size rs + length (concat bufs) < 2 ^ 64" by linarith+
  from rotating_writes_spec [OF ok(1) assms(5) ok(2)] rotating_sink_make_spec [OF assms(1)] show ?thesis
    by (auto simp: file_ok_def)
qed


definition disk :: "nat option list \<Rightarrow> log_world" where
  "disk faults = \<lparr>lw_files = \<lambda>_. None, lw_faults = faults, lw_stdout = [], lw_stderr = []\<rparr>"

lemma rotating_file_survives_faults_witness:
  "\<exists>rs w'. rotating_sink_make ''log.txt'' 10 2 (disk [Some 0, None, None, Some 3, Some 1]) = (Inr rs, w') \<and>
    (\<exists>es rs' w''. rotating_writes [''first line'', ''second line''] rs w' = Some (es, rs', w'') \<and>
      name_le 11 ''log.txt'' w'')"
proof -
  let ?w = "disk [Some 0, None, None, Some 3, Some 1]"
  obtain rs w' where make: "rotating_sink_make ''log.txt'' 10 2 ?w = (Inr rs, w')"
    by (simp add: rotating_sink_make_def fh_open_file_def fh_close_def file_helper_new_def fh_size_def
      open_tries_def numeral_eq_Suc os_fopen_s_def next_fault_def disk_def)
  with rotating_file_survives_faults [OF make, of 11 "[''first line'', ''second line'']"] show ?thesis
    by (simp add: name_le_def disk_def)
qed


end
