(* ===== verification/Oef_Logger.thy ===== *)
theory Oef_Logger
  imports Oef_Log_Sinks Oef_Log_Facts Oef_Log_File_Facts
begin

text \<open>
  The registry of loggers (\<open>3rd/spdlog/details/registry.h\<close>), the node's own \<open>Logger\<close>
  (\<open>src/lib/include/logger.hpp\<close>, \<open>src/lib/src/logger.cpp\<close>) and the two calls that set the log
  up in \<open>main\<close> (\<open>src/apps/node-pluto/src/main.cpp\<close>). Loggers are shared by pointer: the
  registry's \<open>rg_objects\<close> is the heap of loggers, a pointer is an index into it, and the map
  \<open>loggers_\<close> leads from names to pointers.
\<close>

section \<open>The registry\<close>

record registry =
  rg_objects :: "spd_logger list"
  rg_loggers :: "(string \<times> nat) list"
  rg_formatter :: pattern_formatter
  rg_level :: level_enum
  rg_flush_level :: level_enum
  rg_default_logger :: "nat option"
  rg_automatic_registration :: bool

definition registry_make :: "bool \<Rightarrow> registry" where
  "registry_make do_colors =
     \<lparr>rg_objects = [spd_logger_make '''' [ansi_sink (ansicolor_sink_make do_colors)]],
      rg_loggers = [('''', 0)], rg_formatter = pattern_formatter_default time_local default_eol,
      rg_level = default_level, rg_flush_level = level_off, rg_default_logger = Some 0,
      rg_automatic_registration = True\<rparr>"

text \<open>\<open>std::make_shared\<close> of a logger.\<close>

definition rg_new :: "spd_logger \<Rightarrow> registry \<Rightarrow> nat \<times> registry" where
  "rg_new lg rg = (length (rg_objects rg), rg\<lparr>rg_objects := rg_objects rg @ [lg]\<rparr>)"

definition rg_update :: "(spd_logger \<Rightarrow> spd_logger) \<Rightarrow> nat \<Rightarrow> registry \<Rightarrow> registry" where
  "rg_update f p rg = rg\<lparr>rg_objects := (rg_objects rg)[p := f (rg_objects rg ! p)]\<rparr>"

definition rg_get :: "string \<Rightarrow> registry \<Rightarrow> nat option" where
  "rg_get logger_name rg = map_of (rg_loggers rg) logger_name"

definition rg_throw_if_exists :: "string \<Rightarrow> registry \<Rightarrow> string option" where
  "rg_throw_if_exists logger_name rg =
     (if rg_get logger_name rg \<noteq> None
      then Some (''logger with name '' @ [CHR 0x27] @ logger_name @ [CHR 0x27] @ '' already exists'')
      else None)"

definition rg_register_logger :: "nat \<Rightarrow> registry \<Rightarrow> string + registry" where
  "rg_register_logger p rg =
     (let logger_name = lg_name (rg_objects rg ! p)
      in case rg_throw_if_exists logger_name rg of
           Some e \<Rightarrow> Inl e
         | None \<Rightarrow> Inr (rg\<lparr>rg_loggers := AList.update logger_name p (rg_loggers rg)\<rparr>))"

text \<open>A throwing registration has already configured the logger.\<close>

definition rg_initialize_logger :: "nat \<Rightarrow> registry \<Rightarrow> string option \<times> registry" where
  "rg_initialize_logger p rg =
     (let rg = rg_update (lg_set_formatter (pattern_formatter_clone (rg_formatter rg))) p rg;
          rg = rg_update (lg_set_level (rg_level rg)) p rg;
          rg = rg_update (lg_flush_on (rg_flush_level rg)) p rg
      in if rg_automatic_registration rg then
           (case rg_register_logger p rg of Inl e \<Rightarrow> (Some e, rg) | Inr rg \<Rightarrow> (None, rg))
         else (None, rg))"

definition rg_for_each :: "(spd_logger \<Rightarrow> spd_logger) \<Rightarrow> registry \<Rightarrow> registry" where
  "rg_for_each f rg = fold (\<lambda>l. rg_update f (snd l)) (rg_loggers rg) rg"

definition rg_set_formatter :: "pattern_formatter \<Rightarrow> registry \<Rightarrow> registry" where
  "rg_set_formatter f rg =
     rg_for_each (lg_set_formatter (pattern_formatter_clone f)) (rg\<lparr>rg_formatter := f\<rparr>)"

definition rg_set_level :: "level_enum \<Rightarrow> registry \<Rightarrow> registry" where
  "rg_set_level log_level rg =
     (rg_for_each (lg_set_level log_level) rg)\<lparr>rg_level := log_level\<rparr>"

definition rg_flush_on :: "level_enum \<Rightarrow> registry \<Rightarrow> registry" where
  "rg_flush_on log_level rg =
     (rg_for_each (lg_flush_on log_level) rg)\<lparr>rg_flush_level := log_level\<rparr>"

definition rg_set_default_logger :: "nat option \<Rightarrow> registry \<Rightarrow> registry" where
  "rg_set_default_logger new_default rg =
     (let rg = (case rg_default_logger rg of
                  None \<Rightarrow> rg
                | Some p \<Rightarrow> rg\<lparr>rg_loggers := AList.delete (lg_name (rg_objects rg ! p)) (rg_loggers rg)\<rparr>);
          rg = (case new_default of
                  None \<Rightarrow> rg
                | Some p \<Rightarrow> rg\<lparr>rg_loggers := AList.update (lg_name (rg_objects rg ! p)) p (rg_loggers rg)\<rparr>)
      in rg\<lparr>rg_default_logger := new_default\<rparr>)"

definition rg_drop :: "string \<Rightarrow> registry \<Rightarrow> registry" where
  "rg_drop logger_name rg =
     (let rg = rg\<lparr>rg_loggers := AList.delete logger_name (rg_loggers rg)\<rparr>
      in case rg_default_logger rg of
           Some p \<Rightarrow> if lg_name (rg_objects rg ! p) = logger_name
             then rg\<lparr>rg_default_logger := None\<rparr> else rg
         | None \<Rightarrow> rg)"

definition rg_drop_all :: "registry \<Rightarrow> registry" where
  "rg_drop_all rg = rg\<lparr>rg_loggers := [], rg_default_logger := None\<rparr>"

definition rg_set_automatic_registration :: "bool \<Rightarrow> registry \<Rightarrow> registry" where
  "rg_set_automatic_registration b rg = rg\<lparr>rg_automatic_registration := b\<rparr>"

text \<open>The functions of \<open>spdlog.h\<close> on the one instance.\<close>

definition spdlog_set_pattern :: "string \<Rightarrow> pattern_time_type \<Rightarrow> registry \<Rightarrow> registry" where
  "spdlog_set_pattern pattern time_type rg =
     rg_set_formatter (pattern_formatter_make pattern time_type default_eol) rg"

section \<open>The node's logger\<close>

datatype log_level =
  LogLevel_trace | LogLevel_debug | LogLevel_info | LogLevel_warn | LogLevel_error
  | LogLevel_critical | LogLevel_off

fun log_level_cast :: "log_level \<Rightarrow> level_enum" where
  "log_level_cast LogLevel_trace = level_trace"
| "log_level_cast LogLevel_debug = level_debug"
| "log_level_cast LogLevel_info = level_info"
| "log_level_cast LogLevel_warn = level_warn"
| "log_level_cast LogLevel_error = level_err"
| "log_level_cast LogLevel_critical = level_critical"
| "log_level_cast LogLevel_off = level_off"

record oef_logger =
  ol_section :: string
  ol_logger :: nat

definition oef_logger_name :: string where
  "oef_logger_name = ''fetch::oef::logger''"

definition logger_make ::
    "bool \<Rightarrow> string \<Rightarrow> registry \<Rightarrow> log_world \<Rightarrow> (string + oef_logger) \<times> registry \<times> log_world" where
  "logger_make do_colors section rg w =
     (let log_name = oef_logger_name
      in case rg_get log_name rg of
           Some p \<Rightarrow> (Inr \<lparr>ol_section = section, ol_logger = p\<rparr>, rg, w)
         | None \<Rightarrow>
             let color_sink = ansi_sink (ansicolor_sink_make do_colors);
                 ds = dist_sink_make
             in case rotating_sink_make ''log.txt'' (1024 * 1024 * 10) 10 w of
                  (Inl e, w) \<Rightarrow> (Inl e, rg, w)
                | (Inr rotating_sink, w) \<Rightarrow>
                    let ds = dist_add_sink color_sink ds;
                        ds = dist_add_sink (rotating_file rotating_sink) ds;
                        (p, rg) = rg_new (spd_logger_make log_name [ds]) rg
                    in case rg_register_logger p rg of
                         Inl e \<Rightarrow> (Inl e, rg, w)
                       | Inr rg \<Rightarrow> (Inr \<lparr>ol_section = section, ol_logger = p\<rparr>, rg, w))"

text \<open>\<open>log(level, fmt, arg1, args...)\<close>, on the logger \<open>logger_\<close> points to.\<close>

definition logger_log ::
    "log_os \<Rightarrow> log_call \<Rightarrow> log_level \<Rightarrow> string \<Rightarrow> string list \<Rightarrow> oef_logger \<Rightarrow> registry \<Rightarrow> log_world \<Rightarrow>
     (registry \<times> log_world) option" where
  "logger_log os call level fmt args lg rg w =
     (let new_fmt = ''[{}] '' @ fmt
      in do { (obj, w) \<leftarrow> lg_log os call source_loc_default (log_level_cast level) new_fmt
                            (ol_section lg # args) (rg_objects rg ! ol_logger lg) w;
              Some (rg_update (\<lambda>_. obj) (ol_logger lg) rg, w) })"

text \<open>The one-argument form of \<open>trace\<close>, \<open>debug\<close> and the others.\<close>

definition logger_log1 ::
    "log_os \<Rightarrow> log_call \<Rightarrow> log_level \<Rightarrow> string \<Rightarrow> oef_logger \<Rightarrow> registry \<Rightarrow> log_world \<Rightarrow>
     (registry \<times> log_world) option" where
  "logger_log1 os call level arg1 lg rg w = logger_log os call level ''{}'' [arg1] lg rg w"

definition logger_level :: "log_level \<Rightarrow> registry \<Rightarrow> registry" where
  "logger_level level rg = rg_set_level (log_level_cast level) rg"

text \<open>The first two statements of \<open>main\<close>.\<close>

definition main_log_setup :: "registry \<Rightarrow> registry" where
  "main_log_setup rg = rg_set_level level_trace (spdlog_set_pattern main_pattern time_local rg)"

text \<open>The static loggers are constructed one after the other, before \<open>main\<close>.\<close>

fun loggers_make ::
    "bool \<Rightarrow> string list \<Rightarrow> registry \<Rightarrow> log_world \<Rightarrow> (string + oef_logger list) \<times> registry \<times> log_world" where
  "loggers_make do_colors [] rg w = (Inr [], rg, w)"
| "loggers_make do_colors (section # sections) rg w =
     (case logger_make do_colors section rg w of
        (Inl e, rg, w) \<Rightarrow> (Inl e, rg, w)
      | (Inr lg, rg, w) \<Rightarrow>
          (case loggers_make do_colors sections rg w of
             (Inl e, rg, w) \<Rightarrow> (Inl e, rg, w)
           | (Inr lgs, rg, w) \<Rightarrow> (Inr (lg # lgs), rg, w)))"

end
