(* ===== verification/Oef_Logger_Facts.thy ===== *)
theory Oef_Logger_Facts
  imports Oef_Logger
begin

text \<open>
  The log as a whole: format strings paste their arguments verbatim, every \<open>Logger\<close> of the
  process shares one \<open>spdlog::logger\<close>, and what the node logs after \<open>main\<close> has set the
  pattern appears, line by line and in order, on the console and in the rotating file.
\<close>

section \<open>Format strings\<close>

definition plain :: "string \<Rightarrow> bool" where
  "plain s \<longleftrightarrow> CHR ''{'' \<notin> set s \<and> CHR ''}'' \<notin> set s"

text \<open>A format string given by the text between its fields, and the text it stands for.\<close>

fun fmt_join :: "string list \<Rightarrow> string" where
  "fmt_join [] = []"
| "fmt_join [p] = p"
| "fmt_join (p # q # ps) = p @ ''{}'' @ fmt_join (q # ps)"

fun fmt_fill :: "string list \<Rightarrow> string list \<Rightarrow> string" where
  "fmt_fill [] args = []"
| "fmt_fill (p # ps) [] = p"
| "fmt_fill (p # ps) (a # args) = (if ps = [] then p else p @ a @ fmt_fill ps args)"

lemma fmt_write_plain: "plain s \<Longrightarrow> fmt_write_text s out = Inr (out @ s)"
  by (subst fmt_write_text.simps) (simp add: plain_def)

lemma takeWhile_plain: "plain s \<Longrightarrow> takeWhile (\<lambda>c. c \<noteq> CHR ''{'') s = s"
  by (auto simp: plain_def takeWhile_eq_all_conv)

lemma takeWhile_plain_field:
  "plain s \<Longrightarrow> takeWhile (\<lambda>c. c \<noteq> CHR ''{'') (s @ CHR ''{'' # rest) = s"
  by (subst takeWhile_append2) (auto simp: plain_def)

lemma fmt_parse_last: "plain s \<Longrightarrow> fmt_parse s args n out = Inr (out @ s)"
  by (subst fmt_parse.simps) (simp add: takeWhile_plain fmt_write_plain Let_def)

lemma fmt_parse_field:
  assumes "plain s" "n < length args"
  shows "fmt_parse (s @ ''{}'' @ rest) args n out = fmt_parse rest args (Suc n) (out @ s @ args ! n)"
  using assms
  by (subst fmt_parse.simps)
    (simp add: takeWhile_plain_field fmt_write_plain fmt_next_arg_def Let_def)

lemma fmt_parse_join:
  "list_all plain ps \<Longrightarrow> ps \<noteq> [] \<Longrightarrow> length ps \<le> length (drop n args) + 1 \<Longrightarrow>
   fmt_parse (fmt_join ps) args n out = Inr (out @ fmt_fill ps (drop n args))"
proof (induction ps arbitrary: n out rule: fmt_join.induct)
  case (2 p)
  then show ?case by (cases "drop n args") (simp_all add: fmt_parse_last)
next
  case (3 p q ps)
  then have n: "n < length args" by simp
  then have "drop n args = args ! n # drop (Suc n) args" by (simp add: Cons_nth_drop_Suc)
  with 3 n show ?case by (simp add: fmt_parse_field [simplified])
qed simp

lemma fmt_format_join:
  "list_all plain ps \<Longrightarrow> ps \<noteq> [] \<Longrightarrow> length ps \<le> length args + 1 \<Longrightarrow>
   fmt_format (fmt_join ps) args = Inr (fmt_fill ps args)"
  using fmt_parse_join [of ps 0 args "[]"] by (simp add: fmt_format_def)

text \<open>The prefix \<open>[{}]\<close> of the node's logger takes the section.\<close>

lemma fmt_prefixed:
  assumes "list_all plain ps" "ps \<noteq> []" "length ps \<le> length args + 1"
  shows "fmt_format (''[{}] '' @ fmt_join ps) (section # args) =
    Inr (''['' @ section @ ''] '' @ fmt_fill ps args)"
proof -
  obtain p qs where ps: "ps = p # qs" using assms(2) by (cases ps) auto
  let ?ps = "''['' # (''] '' @ p) # qs"
  have "fmt_join ?ps = ''[{}] '' @ fmt_join ps"
    by (cases qs) (simp_all add: ps)
  moreover have "fmt_fill ?ps (section # args) = ''['' @ section @ ''] '' @ fmt_fill ps args"
    by (cases args) (simp_all add: ps)
  moreover have "list_all plain ?ps" "length ?ps \<le> length (section # args) + 1"
    using assms by (simp_all add: ps plain_def)
  ultimately show ?thesis using fmt_format_join [of ?ps "section # args"] by simp
qed

section \<open>One shared logger\<close>

definition node_logger :: "bool \<Rightarrow> rotating_sink \<Rightarrow> spd_logger" where
  "node_logger do_colors rs =
     spd_logger_make oef_logger_name
       [dist_sink level_trace (pattern_formatter_default time_local default_eol)
          [ansi_sink (ansicolor_sink_make do_colors), rotating_file rs]]"

definition node_registry :: "bool \<Rightarrow> rotating_sink \<Rightarrow> registry" where
  "node_registry do_colors rs =
     (registry_make do_colors)\<lparr>
       rg_objects := rg_objects (registry_make do_colors) @ [node_logger do_colors rs],
       rg_loggers := [('''', 0), (oef_logger_name, 1)]\<rparr>"

lemma logger_make_first:
  assumes "rotating_sink_make ''log.txt'' (1024 * 1024 * 10) 10 w = (Inr rs, w')"
  shows "logger_make do_colors section (registry_make do_colors) w =
    (Inr \<lparr>ol_section = section, ol_logger = 1\<rparr>, node_registry do_colors rs, w')"
  using assms
  by (simp add: logger_make_def registry_make_def rg_get_def oef_logger_name_def rg_new_def
    rg_register_logger_def rg_throw_if_exists_def node_registry_def node_logger_def dist_sink_make_def
    spd_logger_make_def Let_def)

lemma logger_make_next:
  "logger_make do_colors section (node_registry do_colors rs) w =
    (Inr \<lparr>ol_section = section, ol_logger = 1\<rparr>, node_registry do_colors rs, w)"
  by (simp add: logger_make_def node_registry_def rg_get_def oef_logger_name_def registry_make_def)

lemma loggers_make_next:
  "loggers_make do_colors sections (node_registry do_colors rs) w =
    (Inr (map (\<lambda>s. \<lparr>ol_section = s, ol_logger = 1\<rparr>) sections), node_registry do_colors rs, w)"
  by (induction sections) (simp_all add: logger_make_next)

lemma logger_make_failed:
  assumes "rotating_sink_make ''log.txt'' (1024 * 1024 * 10) 10 w = (Inl e, w')"
  shows "logger_make do_colors section (registry_make do_colors) w =
    (Inl e, registry_make do_colors, w')"
  using assms
  by (simp add: logger_make_def registry_make_def rg_get_def oef_logger_name_def Let_def)

lemma loggers_make_spec:
  assumes "loggers_make do_colors sections (registry_make do_colors) w = (Inr lgs, rg, w')"
    and "sections \<noteq> []"
  shows "\<exists>rs. rotating_sink_make ''log.txt'' (1024 * 1024 * 10) 10 w = (Inr rs, w') \<and>
    rg = node_registry do_colors rs \<and> lgs = map (\<lambda>s. \<lparr>ol_section = s, ol_logger = 1\<rparr>) sections"
proof -
  obtain s ss where ss: "sections = s # ss" using assms(2) by (cases sections) auto
  obtain r w1 where 1: "rotating_sink_make ''log.txt'' (1024 * 1024 * 10) 10 w = (r, w1)" by fastforce
  show ?thesis
  proof (cases r)
    case (Inl e)
    with 1 assms(1) ss show ?thesis by (simp add: logger_make_failed)
  next
    case (Inr rs)
    with 1 assms(1) ss show ?thesis by (simp add: logger_make_first loggers_make_next)
  qed
qed

section \<open>The log after the setup of main\<close>

definition main_formatter :: pattern_formatter where
  "main_formatter = pattern_formatter_make main_pattern time_local default_eol"

lemma clone_main [simp]: "pattern_formatter_clone main_formatter = main_formatter"
  by (simp add: pattern_formatter_clone_def main_formatter_def pattern_formatter_make_def)

lemma main_log_setup_object:
  "rg_objects (main_log_setup (node_registry do_colors rs)) ! 1 =
    \<lparr>lg_name = oef_logger_name,
     lg_sinks = [dist_sink level_trace main_formatter
       [ansi_sink ((ansicolor_sink_make do_colors)\<lparr>as_formatter := main_formatter\<rparr>),
        rotating_file (rs\<lparr>rs_formatter := main_formatter\<rparr>)]],
     lg_level = level_trace, lg_flush_level = level_off, lg_last_err_time = 0\<rparr>"
  by (simp add: main_log_setup_def spdlog_set_pattern_def rg_set_formatter_def rg_set_level_def
    rg_for_each_def rg_update_def node_registry_def registry_make_def node_logger_def spd_logger_make_def
    lg_set_formatter_def lg_set_level_def main_formatter_def [symmetric])

definition main_fmt_ok :: "log_os \<Rightarrow> pattern_formatter \<Rightarrow> bool" where
  "main_fmt_ok os pf \<longleftrightarrow>
     pf_eol pf = default_eol \<and> pf_time_type pf = time_local \<and>
     pf_formatters pf = compile_pattern main_pattern \<and>
     (pf_last_log_secs pf = 0 \<or> pf_cached_tm pf = os_localtime os (pf_last_log_secs pf))"

lemma main_fmt_ok_new: "main_fmt_ok os main_formatter"
  by (simp add: main_fmt_ok_def main_formatter_def pattern_formatter_make_def)

lemma main_format:
  assumes "main_fmt_ok os pf" "tm_valid (os_localtime os (secs_of msg))" "0 < secs_of msg"
  shows "\<exists>pf'. pattern_format os pf msg log_out_new =
      Some (pf', log_out_new\<lparr>out_text := main_line (os_localtime os (secs_of msg)) msg\<rparr>) \<and>
    main_fmt_ok os pf'"
proof -
  define pf1 where "pf1 = (if secs_of msg \<noteq> pf_last_log_secs pf
      then pf\<lparr>pf_cached_tm := get_time os pf msg, pf_last_log_secs := secs_of msg\<rparr> else pf)"
  have "get_time os pf msg = os_localtime os (secs_of msg)"
    using assms(1) by (simp add: get_time_def main_fmt_ok_def secs_of_def Let_def)
  with assms(1,3) have pf1: "pf_cached_tm pf1 = os_localtime os (secs_of msg)" "main_fmt_ok os pf1"
    by (auto simp: pf1_def main_fmt_ok_def)
  from main_line_rendered [OF assms(2) secs_pos_time [OF assms(3)], of os] obtain out where
    "formatters_format os msg (pf_cached_tm pf1) (pf_formatters pf1) log_out_new =
       Some (pf_formatters pf1, log_out_new\<lparr>out_text := out\<rparr>)"
    "out @ pf_eol pf1 = main_line (os_localtime os (secs_of msg)) msg"
    using pf1 by (auto simp: main_fmt_ok_def)
  then have "pattern_format os pf msg log_out_new =
      Some (pf1, log_out_new\<lparr>out_text := main_line (os_localtime os (secs_of msg)) msg\<rparr>)"
    by (simp add: pattern_format_def secs_of_def [symmetric] pf1_def [symmetric] Let_def)
  with pf1(2) show ?thesis by blast
qed

section \<open>What a write leaves alone\<close>

definition same_output :: "log_world \<Rightarrow> log_world \<Rightarrow> bool" where
  "same_output w w' \<longleftrightarrow> lw_stdout w' = lw_stdout w \<and> lw_stderr w' = lw_stderr w"

definition same_setup :: "rotating_sink \<Rightarrow> rotating_sink \<Rightarrow> bool" where
  "same_setup rs rs' \<longleftrightarrow> rs_formatter rs' = rs_formatter rs \<and> rs_level rs' = rs_level rs"

lemma same_refl [simp]: "same_output w w" "same_setup rs rs"
  by (simp_all add: same_output_def same_setup_def)

lemma same_trans: "same_output w w' \<Longrightarrow> same_output w' w'' \<Longrightarrow> same_output w w''"
  "same_setup rs rs' \<Longrightarrow> same_setup rs' rs'' \<Longrightarrow> same_setup rs rs''"
  by (simp_all add: same_output_def same_setup_def)

lemma next_fault_same: "next_fault w = (f, w') \<Longrightarrow> same_output w w'"
  by (auto simp: next_fault_def same_output_def split: list.splits)

lemma rename_file_same: "rename_file a b w = (r, w') \<Longrightarrow> same_output w w'"
  by (auto simp: rename_file_def os_remove_def os_rename_def Let_def same_output_def
      dest!: next_fault_same split: prod.splits option.splits)

lemma fh_open_loop_same: "fh_open_loop n t fh w = (e, fh', w') \<Longrightarrow> same_output w w'"
proof (induction n arbitrary: w)
  case (Suc n)
  obtain r w1 where 1: "os_fopen_s (fh_filename fh) t w = (r, w1)" by fastforce
  then have "same_output w w1"
    by (auto simp: os_fopen_s_def same_output_def dest!: next_fault_same split: prod.splits option.splits)
  with Suc 1 show ?case by (auto split: if_splits intro: same_trans)
qed simp

lemma fh_reopen_same: "fh_reopen t fh w = (e, fh', w') \<Longrightarrow> same_output w w'"
  by (auto simp: fh_reopen_def fh_open_file_def split: if_splits dest: fh_open_loop_same)

lemma rotate_loop_same:
  "rotate_loop n rs w = (e, rs', w') \<Longrightarrow> same_output w w' \<and> same_setup rs rs'"
proof (induction n arbitrary: w)
  case (Suc n)
  let ?src = "calc_filename (rs_base_filename rs) n" and ?target = "calc_filename (rs_base_filename rs) (Suc n)"
  obtain r1 w1 where 1: "rename_file ?src ?target w = (r1, w1)" by fastforce
  obtain r2 w2 where 2: "rename_file ?src ?target w1 = (r2, w2)" by fastforce
  obtain e3 fh3 w3 where 3: "fh_reopen True (rs_file rs) w2 = (e3, fh3, w3)"
    by (cases "fh_reopen True (rs_file rs) w2") auto
  have "same_output w w1" "same_output w w2" "same_output w w3"
    using rename_file_same [OF 1] rename_file_same [OF 2] fh_reopen_same [OF 3] same_trans by blast+
  with Suc.prems 1 2 3 show ?case
    by (auto simp: Let_def same_setup_def split: if_splits option.splits
        dest!: Suc.IH dest: same_trans(1))
qed simp

lemma rotate_sink_same:
  "rotate_sink rs w = (e, rs', w') \<Longrightarrow> same_output w w' \<and> same_setup rs rs'"
  by (auto simp: rotate_sink_def Let_def same_setup_def split: prod.splits option.splits
      dest!: rotate_loop_same fh_reopen_same intro: same_trans)

lemma fh_write_same: "fh_write buf fh w = Some (e, w') \<Longrightarrow> same_output w w'"
  by (auto simp: fh_write_def Let_def same_output_def dest!: next_fault_same
      split: if_splits option.splits prod.splits)

lemma rotating_write_same:
  "rotating_write buf rs w = Some (e, rs', w') \<Longrightarrow> same_output w w' \<and> same_setup rs rs'"
  by (auto simp: rotating_write_def Let_def same_setup_def split: prod.splits option.splits if_splits
      dest!: rotate_sink_same fh_write_same intro: same_trans)

section \<open>Logging after the setup\<close>

definition log_ready :: "log_os \<Rightarrow> string list \<Rightarrow> registry \<Rightarrow> log_world \<Rightarrow> bool" where
  "log_ready os files rg w \<longleftrightarrow>
     (\<exists>lg pf as rs. 1 < length (rg_objects rg) \<and> rg_objects rg ! 1 = lg \<and>
        lg_name lg = oef_logger_name \<and> lg_level lg = level_trace \<and>
        lg_sinks lg = [dist_sink level_trace pf [ansi_sink as, rotating_file rs]] \<and>
        as_level as = level_trace \<and> main_fmt_ok os (as_formatter as) \<and>
        rs_level rs = level_trace \<and> main_fmt_ok os (rs_formatter rs) \<and>
        rs_base_filename rs = ''log.txt'' \<and> rs_max_size rs = 10485760 \<and> rs_max_files rs = 10 \<and>
        holds_history rs files w)"

definition log_message :: "log_call \<Rightarrow> log_level \<Rightarrow> string list \<Rightarrow> string list \<Rightarrow> string \<Rightarrow> log_msg" where
  "log_message call level ps args section =
     log_msg_make (lc_now call) (lc_thread_id call) source_loc_default oef_logger_name
       (log_level_cast level) (''['' @ section @ ''] '' @ fmt_fill ps args)"

definition log_line :: "log_os \<Rightarrow> log_call \<Rightarrow> log_level \<Rightarrow> string list \<Rightarrow> string list \<Rightarrow> string \<Rightarrow> string" where
  "log_line os call level ps args section =
     (let msg = log_message call level ps args section
      in main_line (os_localtime os (secs_of msg)) msg)"

lemma secs_of_log_message: "secs_of (log_message call level ps args section) = duration_cast 1000000000 (lc_now call)"
  by (simp add: secs_of_def log_message_def log_msg_make_def)

text \<open>The time of a call is after the epoch, and the C library gives a date for it.\<close>

definition call_ok :: "log_os \<Rightarrow> log_call \<Rightarrow> bool" where
  "call_ok os call \<longleftrightarrow>
     0 < duration_cast 1000000000 (lc_now call) \<and>
     tm_valid (os_localtime os (duration_cast 1000000000 (lc_now call)))"

lemma ansi_log_main:
  assumes "main_fmt_ok os (as_formatter as)" "tm_valid (os_localtime os (secs_of msg))" "0 < secs_of msg"
  shows "\<exists>pf. ansi_log os msg as w = Some (as\<lparr>as_formatter := pf\<rparr>,
      w\<lparr>lw_stdout := lw_stdout w @ main_line (os_localtime os (secs_of msg)) msg\<rparr>) \<and> main_fmt_ok os pf"
proof -
  obtain pf where pf: "pattern_format os (as_formatter as) msg log_out_new =
      Some (pf, log_out_new\<lparr>out_text := main_line (os_localtime os (secs_of msg)) msg\<rparr>)" "main_fmt_ok os pf"
    using main_format [OF assms] by blast
  then have "ansi_log os msg as w = Some (as\<lparr>as_formatter := pf\<rparr>,
      w\<lparr>lw_stdout := lw_stdout w @ main_line (os_localtime os (secs_of msg)) msg\<rparr>)"
    by (simp add: ansi_log_def log_out_new_def print_range_def Let_def)
  with pf(2) show ?thesis by blast
qed

lemma rotating_log_main:
  assumes "main_fmt_ok os (rs_formatter rs)" "tm_valid (os_localtime os (secs_of msg))" "0 < secs_of msg"
    and "holds_history rs files w"
    and "length (hd files) + length (main_line (os_localtime os (secs_of msg)) msg) < 2 ^ 64"
  shows "\<exists>rs' w'. rotating_sink_it os msg rs w = Some (None, rs', w') \<and> same_output w w' \<and>
    rs_level rs' = rs_level rs \<and> main_fmt_ok os (rs_formatter rs') \<and>
    rs_base_filename rs' = rs_base_filename rs \<and> rs_max_size rs' = rs_max_size rs \<and>
    rs_max_files rs' = rs_max_files rs \<and>
    holds_history rs' (history_write (rs_max_size rs) (rs_max_files rs)
      (main_line (os_localtime os (secs_of msg)) msg) files) w'"
proof -
  obtain pf where pf: "pattern_format os (rs_formatter rs) msg log_out_new =
      Some (pf, log_out_new\<lparr>out_text := main_line (os_localtime os (secs_of msg)) msg\<rparr>)" "main_fmt_ok os pf"
    using main_format [OF assms(1-3)] by blast
  let ?rs = "rs\<lparr>rs_formatter := pf\<rparr>" and ?line = "main_line (os_localtime os (secs_of msg)) msg"
  have h: "holds_history ?rs files w" "rs_current_size ?rs + length ?line < 2 ^ 64"
    using assms(4,5) by (simp_all add: holds_history_def)
  obtain rs' w' where wr: "rotating_write ?line ?rs w = Some (None, rs', w')"
      "holds_history rs' (history_write (rs_max_size ?rs) (rs_max_files ?rs) ?line files) w'"
      "rs_base_filename rs' = rs_base_filename ?rs" "rs_max_size rs' = rs_max_size ?rs"
      "rs_max_files rs' = rs_max_files ?rs"
    using rotating_write_history [OF h] by blast
  with rotating_write_same [OF wr(1)] pf show ?thesis
    by (simp add: rotating_sink_it_def same_setup_def log_out_new_def)
qed

lemma holds_history_output:
  "holds_history rs files (w\<lparr>lw_stdout := x\<rparr>) = holds_history rs files w"
  by (simp add: holds_history_def holds_files_def)

lemma log_step:
  assumes "log_ready os files rg w" "call_ok os call" "ol_logger lg = 1"
    and "list_all plain ps" "ps \<noteq> []" "length ps \<le> length args + 1"
    and "length (hd files) + length (log_line os call level ps args (ol_section lg)) < 2 ^ 64"
  shows "\<exists>rg' w'. logger_log os call level (fmt_join ps) args lg rg w = Some (rg', w') \<and>
    log_ready os (history_write 10485760 10 (log_line os call level ps args (ol_section lg)) files) rg' w' \<and>
    lw_stdout w' = lw_stdout w @ log_line os call level ps args (ol_section lg) \<and>
    lw_stderr w' = lw_stderr w"
proof -
  let ?msg = "log_message call level ps args (ol_section lg)"
  let ?line = "log_line os call level ps args (ol_section lg)"
  obtain l pf as rs where r: "1 < length (rg_objects rg)" "rg_objects rg ! 1 = l"
      "lg_name l = oef_logger_name" "lg_level l = level_trace"
      "lg_sinks l = [dist_sink level_trace pf [ansi_sink as, rotating_file rs]]"
      "as_level as = level_trace" "main_fmt_ok os (as_formatter as)"
      "rs_level rs = level_trace" "main_fmt_ok os (rs_formatter rs)"
      "rs_base_filename rs = ''log.txt''" "rs_max_size rs = 10485760" "rs_max_files rs = 10"
      "holds_history rs files w"
    using assms(1) unfolding log_ready_def by blast
  have time: "tm_valid (os_localtime os (secs_of ?msg))" "0 < secs_of ?msg"
    using assms(2) by (simp_all add: call_ok_def secs_of_log_message)
  have line: "main_line (os_localtime os (secs_of ?msg)) ?msg = ?line"
    by (simp add: log_line_def Let_def)
  obtain pf1 where ansi: "ansi_log os ?msg as w =
      Some (as\<lparr>as_formatter := pf1\<rparr>, w\<lparr>lw_stdout := lw_stdout w @ ?line\<rparr>)" "main_fmt_ok os pf1"
    using ansi_log_main [OF r(7) time] unfolding line by blast
  let ?w = "w\<lparr>lw_stdout := lw_stdout w @ ?line\<rparr>"
  from r(13) have "holds_history rs files ?w" by (simp add: holds_history_output)
  from rotating_log_main [OF r(9) time this] assms(7) obtain rs1 w1 where
    rot: "rotating_sink_it os ?msg rs ?w = Some (None, rs1, w1)" "same_output ?w w1"
      "rs_level rs1 = rs_level rs" "main_fmt_ok os (rs_formatter rs1)"
      "rs_base_filename rs1 = rs_base_filename rs" "rs_max_size rs1 = rs_max_size rs"
      "rs_max_files rs1 = rs_max_files rs"
      "holds_history rs1 (history_write (rs_max_size rs) (rs_max_files rs) ?line files) w1"
    unfolding line by blast
  let ?l = "l\<lparr>lg_sinks := [dist_sink level_trace pf [ansi_sink (as\<lparr>as_formatter := pf1\<rparr>), rotating_file rs1]]\<rparr>"
  have "lg_sink_it os ?msg l w = Some (None, ?l, w1)"
    using r ansi(1) rot(1) by (simp add: lg_sink_it_def sink_should_log_def)
  then have "lg_log os call source_loc_default (log_level_cast level) (''[{}] '' @ fmt_join ps)
      (ol_section lg # args) l w = Some (?l, w1)"
    using fmt_prefixed [OF assms(4-6), of "ol_section lg"] r(3,4)
    by (simp add: lg_log_def lg_should_log_def log_message_def Let_def)
  then have "logger_log os call level (fmt_join ps) args lg rg w = Some (rg_update (\<lambda>_. ?l) 1 rg, w1)"
    using r(2) assms(3) by (simp add: logger_log_def Let_def)
  moreover have "log_ready os (history_write 10485760 10 ?line files) (rg_update (\<lambda>_. ?l) 1 rg) w1"
    using r rot ansi(2) by (simp add: log_ready_def rg_update_def)
  ultimately show ?thesis using rot(2) by (auto simp: same_output_def)
qed

text \<open>A sequence of calls of the node's loggers.\<close>

record log_entry =
  le_call :: log_call
  le_level :: log_level
  le_pieces :: "string list"
  le_args :: "string list"
  le_logger :: oef_logger

fun log_all :: "log_os \<Rightarrow> log_entry list \<Rightarrow> registry \<Rightarrow> log_world \<Rightarrow> (registry \<times> log_world) option" where
  "log_all os [] rg w = Some (rg, w)"
| "log_all os (e # es) rg w =
     do { (rg, w) \<leftarrow> logger_log os (le_call e) (le_level e) (fmt_join (le_pieces e)) (le_args e) (le_logger e) rg w;
          log_all os es rg w }"

definition entry_line :: "log_os \<Rightarrow> log_entry \<Rightarrow> string" where
  "entry_line os e =
     log_line os (le_call e) (le_level e) (le_pieces e) (le_args e) (ol_section (le_logger e))"

definition entry_ok :: "log_os \<Rightarrow> oef_logger list \<Rightarrow> log_entry \<Rightarrow> bool" where
  "entry_ok os lgs e \<longleftrightarrow>
     call_ok os (le_call e) \<and> le_logger e \<in> set lgs \<and> list_all plain (le_pieces e) \<and>
     le_pieces e \<noteq> [] \<and> length (le_pieces e) \<le> length (le_args e) + 1"

lemma history_write_hd: "files \<noteq> [] \<Longrightarrow>
   length (hd (history_write max_size max_files buf files)) \<le> length (hd files) + length buf"
  by (auto simp: history_write_def split: list.split)

lemma log_all_spec:
  assumes "log_ready os files rg w" "files \<noteq> []" "list_all (entry_ok os lgs) es"
    and "list_all (\<lambda>lg. ol_logger lg = 1) lgs"
    and "length (hd files) + length (concat (map (entry_line os) es)) < 2 ^ 64"
  shows "\<exists>rg' w'. log_all os es rg w = Some (rg', w') \<and>
    log_ready os (fold (history_write 10485760 10) (map (entry_line os) es) files) rg' w' \<and>
    lw_stdout w' = lw_stdout w @ concat (map (entry_line os) es) \<and> lw_stderr w' = lw_stderr w"
  using assms(1-3,5)
proof (induction es arbitrary: files rg w)
  case (Cons e es)
  have "ol_logger (le_logger e) = 1" using Cons.prems(3) assms(4) by (auto simp: entry_ok_def list_all_iff)
  then obtain rg1 w1 where 1: "logger_log os (le_call e) (le_level e) (fmt_join (le_pieces e)) (le_args e)
        (le_logger e) rg w = Some (rg1, w1)"
      "log_ready os (history_write 10485760 10 (entry_line os e) files) rg1 w1"
      "lw_stdout w1 = lw_stdout w @ entry_line os e" "lw_stderr w1 = lw_stderr w"
    using log_step [OF Cons.prems(1), of "le_call e" "le_logger e" "le_pieces e" "le_args e" "le_level e"]
      Cons.prems(3,4) by (auto simp: entry_ok_def entry_line_def)
  have "length (hd (history_write 10485760 10 (entry_line os e) files)) +
      length (concat (map (entry_line os) es)) < 2 ^ 64"
    using history_write_hd [OF Cons.prems(2), of 10485760 10 "entry_line os e"] Cons.prems(4) by simp
  from Cons.IH [OF 1(2) history_write_nonempty _ this] 1 Cons.prems(3) show ?case by auto
qed simp

lemma log_ready_setup:
  assumes "rotating_sink_make ''log.txt'' (1024 * 1024 * 10) 10 w = (Inr rs, w')"
    and "lw_faults w = []" "holds_files ''log.txt'' files w" "length files \<le> 11"
  shows "log_ready os (opened_files files) (main_log_setup (node_registry do_colors rs)) w'"
proof -
  have hist: "holds_history rs (opened_files files) w'"
    using make_holds_history [OF assms(1,2) _ assms(3)] assms(4) by simp
  have level: "rs_level rs = level_trace"
    using assms(1) by (auto simp: rotating_sink_make_def split: prod.splits option.splits sum.splits)
  note spec = rotating_sink_make_spec [OF assms(1)]
  have len: "1 < length (rg_objects (main_log_setup (node_registry do_colors rs)))"
    by (simp add: main_log_setup_def spdlog_set_pattern_def rg_set_formatter_def rg_set_level_def
      rg_for_each_def rg_update_def node_registry_def registry_make_def)
  show ?thesis
    unfolding log_ready_def main_log_setup_object
    using len hist level spec
    by (simp add: main_fmt_ok_new ansicolor_sink_make_def holds_history_def)
qed

section \<open>Properties\<close>

lemma one_shared_logger:
  assumes "loggers_make do_colors sections (registry_make do_colors) w = (Inr lgs, rg, w')"
    and "sections \<noteq> []"
  shows "map ol_section lgs = sections \<and> map ol_logger lgs = replicate (length sections) 1 \<and>
    map fst (rg_loggers rg) = ['''', oef_logger_name] \<and> rg_get oef_logger_name rg = Some 1 \<and>
    length (rg_objects rg) = 2"
proof -
  obtain rs where "rg = node_registry do_colors rs" "lgs = map (\<lambda>s. \<lparr>ol_section = s, ol_logger = 1\<rparr>) sections"
    using loggers_make_spec [OF assms] by blast
  then show ?thesis
    by (simp add: node_registry_def registry_make_def rg_get_def oef_logger_name_def comp_def
      map_replicate_const)
qed

definition node_sections :: "string list" where
  "node_sections = [''oef-node'', ''agent-session'', ''agent-directory'', ''oef-search-client'']"

lemma node_loggers:
  "\<exists>lgs rg w'. loggers_make False node_sections (registry_make False) (disk []) = (Inr lgs, rg, w')"
proof -
  obtain rs w' where make: "rotating_sink_make ''log.txt'' (1024 * 1024 * 10) 10 (disk []) = (Inr rs, w')"
    using rotating_sink_make_no_fault [of "disk []" "''log.txt''" "1024 * 1024 * 10" 10]
    by (auto simp: disk_def)
  then show ?thesis
    by (simp add: node_sections_def logger_make_first loggers_make_next logger_make_next)
qed

lemma one_shared_logger_witness:
  "\<exists>lgs rg w'. loggers_make False node_sections (registry_make False) (disk []) = (Inr lgs, rg, w') \<and>
    map ol_logger lgs = [1, 1, 1, 1] \<and> length (rg_objects rg) = 2"
proof -
  obtain lgs rg w' where make: "loggers_make False node_sections (registry_make False) (disk []) = (Inr lgs, rg, w')"
    using node_loggers by blast
  have "map ol_logger lgs = replicate (length node_sections) 1 \<and> length (rg_objects rg) = 2"
    using one_shared_logger [OF make] by (simp add: node_sections_def)
  with make show ?thesis by (auto simp: node_sections_def numeral_eq_Suc)
qed

text \<open>
  The node's logger pastes its arguments, braces and percent signs in them
  included, unchanged between the pieces of the format string, after the section in
  brackets.
\<close>

lemma log_arguments_verbatim:
  assumes "list_all plain ps" "ps \<noteq> []" "length ps \<le> length args + 1"
  shows "fmt_format (''[{}] '' @ fmt_join ps) (section # args) =
    Inr (''['' @ section @ ''] '' @ fmt_fill ps args)"
  by (rule fmt_prefixed [OF assms])

lemma log_arguments_verbatim_witness:
  "fmt_format ''[{}] AgentSession::read error on id {} ec {}'' [''agent-session'', ''{}%n}'', ''2''] =
    Inr ''[agent-session] AgentSession::read error on id {}%n} ec 2''"
  using log_arguments_verbatim [of "[''AgentSession::read error on id '', '' ec '', '''']" "[''{}%n}'', ''2'']"
      "''agent-session''"]
  by (simp add: plain_def)

text \<open>
  C37: When no system call fails and at most eleven files of the rotation exist at the
  start, then once the static loggers are constructed and main has set the pattern,
  every sequence of log calls through any of the loggers, at times after the first
  second of the epoch with a valid local date, with format strings whose only braces are
  plain fields with an argument each, and below 2^64 bytes with the files, appears on
  the console line by line, with date, thread, level, section and verbatim arguments,
  writes the same lines to the rotating files, and reports no error.
\<close>

theorem node_log_end_to_end:
  assumes "loggers_make do_colors sections (registry_make do_colors) w = (Inr lgs, rg, w')"
    and "sections \<noteq> []" "lw_faults w = []" "holds_files ''log.txt'' files w" "length files \<le> 11"
    and "list_all (entry_ok os lgs) es"
    and "length (concat files) + length (concat (map (entry_line os) es)) < 2 ^ 64"
  shows "\<exists>rg' w''. log_all os es (main_log_setup rg) w' = Some (rg', w'') \<and>
    lw_stdout w'' = lw_stdout w @ concat (map (entry_line os) es) \<and> lw_stderr w'' = lw_stderr w \<and>
    holds_files ''log.txt''
      (fold (history_write 10485760 10) (map (entry_line os) es) (opened_files files)) w''"
proof -
  obtain rs where rs: "rotating_sink_make ''log.txt'' (1024 * 1024 * 10) 10 w = (Inr rs, w')"
      "rg = node_registry do_colors rs" "lgs = map (\<lambda>s. \<lparr>ol_section = s, ol_logger = 1\<rparr>) sections"
    using loggers_make_spec [OF assms(1,2)] by blast
  have ready: "log_ready os (opened_files files) (main_log_setup rg) w'"
    unfolding rs(2) by (rule log_ready_setup [OF rs(1) assms(3-5)])
  have "list_all (\<lambda>lg. ol_logger lg = 1) lgs" by (simp add: rs(3) list_all_iff)
  moreover have "opened_files files \<noteq> []" by (simp add: opened_files_def)
  moreover have "length (hd (opened_files files)) + length (concat (map (entry_line os) es)) < 2 ^ 64"
    using assms(7) by (cases files) (auto simp: opened_files_def)
  ultimately obtain rg' w'' where run: "log_all os es (main_log_setup rg) w' = Some (rg', w'')"
      "log_ready os (fold (history_write 10485760 10) (map (entry_line os) es) (opened_files files)) rg' w''"
      "lw_stdout w'' = lw_stdout w' @ concat (map (entry_line os) es)" "lw_stderr w'' = lw_stderr w'"
    using log_all_spec [OF ready _ assms(6)] by blast
  have "same_output w w'"
    using rotating_sink_make_no_fault [OF assms(3), of "''log.txt''" "1024 * 1024 * 10" 10] rs(1)
    by (auto simp: same_output_def)
  with run show ?thesis by (auto simp: same_output_def log_ready_def holds_history_def)
qed

definition sample_entry :: log_entry where
  "sample_entry = \<lparr>le_call = \<lparr>lc_now = 61007000000, lc_thread_id = 17, lc_err_now = 61\<rparr>,
     le_level = LogLevel_info, le_pieces = [''CoreServer::newSession ID '', '' already connected''],
     le_args = [''ag''], le_logger = \<lparr>ol_section = ''oef-node'', ol_logger = 1\<rparr>\<rparr>"

lemma sample_entry_line:
  "entry_line sample_os sample_entry =
    ''[2001-08-23 14:00:01.007] [thread 17] [fetch::oef::logger] [info] [oef-node] CoreServer::newSession ID ag already connected'' @
    [CHR 0x0A]"
  by (simp add: entry_line_def sample_entry_def log_line_def log_message_def log_msg_make_def
      secs_of_def duration_cast_def sdiv_nonneg main_line_def sample_os_def tm_zero_def two_def
      zero_padded_def decimal_int_def decimal_ten digit_char_def to_string_view_def
      level_string_views_def oef_logger_name_def Let_def)
    (simp add: char_of_def bit_simps numeral_2_eq_2)

lemma node_log_end_to_end_witness:
  "\<exists>lgs rg w' rg' w''. loggers_make False node_sections (registry_make False) (disk []) = (Inr lgs, rg, w') \<and>
    log_all sample_os [sample_entry] (main_log_setup rg) w' = Some (rg', w'') \<and>
    lw_stdout w'' =
      ''[2001-08-23 14:00:01.007] [thread 17] [fetch::oef::logger] [info] [oef-node] CoreServer::newSession ID ag already connected'' @
      [CHR 0x0A]"
proof -
  obtain lgs rg w' where make: "loggers_make False node_sections (registry_make False) (disk []) = (Inr lgs, rg, w')"
    using node_loggers by blast
  then have lgs: "lgs = map (\<lambda>s. \<lparr>ol_section = s, ol_logger = 1\<rparr>) node_sections"
    using loggers_make_spec [OF make] by (auto simp: node_sections_def)
  have ok: "entry_ok sample_os lgs sample_entry"
    by (simp add: entry_ok_def sample_entry_def lgs node_sections_def call_ok_def duration_cast_def
      sdiv_nonneg tm_valid_def tm_in_range_def sample_os_def tm_zero_def plain_def Let_def)
  have "holds_files ''log.txt'' [] (disk [])" "lw_faults (disk []) = []" "lw_stdout (disk []) = []"
    by (simp_all add: holds_files_def disk_def)
  with node_log_end_to_end [OF make, of "[]" sample_os "[sample_entry]"] make ok show ?thesis
    by (auto simp: node_sections_def sample_entry_line)
qed

end
