(* ===== verification/Oef_Asio_Async.thy ===== *)
theory Oef_Asio_Async
  imports Oef_Asio_Loop Oef_Asio_Transfer
begin

text \<open>
  Several asynchronous writes in one event loop: \<open>async_write\<close>
  (\<open>3rd/asio/asio/impl/write.hpp\<close>) as a chain of \<open>async_send\<close> operations
  (\<open>detail/reactive_socket_service_base.hpp\<close>, \<open>detail/reactive_socket_send_op.hpp\<close>) that the
  reactor performs and the scheduler completes, and \<open>AsioComm::send_async\<close>
  (\<open>lib/src/asio_communicator.cpp\<close>) on top of it.

  An operation of a send is a value that holds what the object of the code holds: the socket, the
  buffers offered, and the handler, which is the \<open>write_op\<close> with the buffers it has left. What
  performing it wrote into it is in the log of the world. The sockets are in non-blocking mode
  already, as each is after its first asynchronous operation. A communicator outlives its writes.
\<close>

section \<open>Operations\<close>

record connection =
  cn_impl :: base_impl
  cn_data :: "nat option"

record send_op =
  so_write :: nat
  so_conn :: connection
  so_buffers :: "byte list list"
  so_rest :: "byte consuming_buffers"

text \<open>The operations of the other kinds (receives, accepts) are values of an arbitrary type.\<close>

datatype 'x net_op = Send send_op | Other 'x

record 'w send_world =
  sw_env :: 'w
  sw_log :: "(send_op \<times> asio_ec \<times> nat) list"

text \<open>\<open>do_perform\<close>. A send that is interrupted for ever has no outcome.\<close>

definition perform_send :: "'w posix \<Rightarrow> send_op \<Rightarrow> 'w send_world \<Rightarrow> op_status \<times> 'w send_world" where
  "perform_send P q W =
     (case send_op_perform P (cn_impl (so_conn q)) (adapter_init 0 (so_buffers q)) 0 (sw_env W) of
        None \<Rightarrow> (Not_done, W)
      | Some (status, ec, n, w) \<Rightarrow>
          (status, \<lparr>sw_env = w, sw_log = (if status = Not_done then sw_log W else sw_log W @ [(q, ec, n)])\<rparr>))"

definition net_perform ::
    "'w posix \<Rightarrow> ('x \<Rightarrow> 'w \<Rightarrow> op_status \<times> 'w) \<Rightarrow> 'x net_op \<Rightarrow> 'w send_world \<Rightarrow> op_status \<times> 'w send_world" where
  "net_perform P other p W =
     (case p of
        Send q \<Rightarrow> perform_send P q W
      | Other x \<Rightarrow> let (status, w) = other x (sw_env W) in (status, W\<lparr>sw_env := w\<rparr>))"

text \<open>What the operation holds when its handler is called: the error the reactor or the socket service wrote into
  it, what performing it left, or success of no bytes.\<close>

definition send_outcome ::
    "(send_op \<times> asio_ec \<times> nat) list \<Rightarrow> ('x net_op \<times> asio_ec) list \<Rightarrow> send_op \<Rightarrow> asio_ec \<times> nat" where
  "send_outcome outcomes errors q =
     (case map_of errors (Send q) of
        Some ec \<Rightarrow> (ec, 0)
      | None \<Rightarrow> (case map_of outcomes q of Some r \<Rightarrow> r | None \<Rightarrow> (ec_ok, 0)))"

section \<open>Starting and continuing a write\<close>

text \<open>\<open>write_op\<close> called for the first time, and by the completion of a send.\<close>

definition write_begin :: "nat \<Rightarrow> connection \<Rightarrow> byte list list \<Rightarrow> send_op" where
  "write_begin k cn buffers =
     (let c = cb_make buffers
      in \<lparr>so_write = k, so_conn = cn,
          so_buffers = (case op_start_1 cb_prepare cb_total_consumed transfer_all ec_ok c of
              Transfer_some bufs \<Rightarrow> bufs | Call_handler ec n \<Rightarrow> []),
          so_rest = c\<rparr>)"

definition write_handler :: "send_op \<Rightarrow> asio_ec \<Rightarrow> nat \<Rightarrow> byte op_action \<times> byte consuming_buffers" where
  "write_handler q ec n =
     write_op_call cb_empty cb_prepare cb_consume cb_total_consumed transfer_all ec n (so_rest q)"

definition write_continue :: "send_op \<Rightarrow> byte list list \<Rightarrow> byte consuming_buffers \<Rightarrow> send_op" where
  "write_continue q bufs c = q\<lparr>so_buffers := bufs, so_rest := c\<rparr>"

text \<open>A socket that is closed or not registered; \<open>errno\<close> is what \<open>epoll_ctl\<close> fails with, 0 for success.\<close>

definition is_registered :: "nat option \<Rightarrow> 'u reactor \<Rightarrow> bool" where
  "is_registered data er \<longleftrightarrow>
     (case data of None \<Rightarrow> True | Some i \<Rightarrow> i \<in> set (er_live er) \<and> \<not> ds_shutdown (er_states er ! i))"

definition ctl_result :: "nat \<Rightarrow> int \<times> nat" where
  "ctl_result errno = (if errno = 0 then (0, 0) else (-1, errno))"

text \<open>\<open>async_send\<close> with the \<open>start_op\<close> of the socket service: what it calls.\<close>

definition send_call :: "send_op \<Rightarrow> bool \<Rightarrow> nat \<Rightarrow> 'x net_op sched_call" where
  "send_call q is_continuation errno =
     (if has (im_state (cn_impl (so_conn q))) stream_oriented \<and> adapter_all_empty 0 (so_buffers q)
      then Call_post (Send q) is_continuation
      else Call_start Write_op (cn_data (so_conn q)) (Send q) is_continuation True (ctl_result errno))"

definition async_send ::
    "('x net_op \<Rightarrow> 'w send_world \<Rightarrow> op_status \<times> 'w send_world) \<Rightarrow> bool \<Rightarrow> send_op \<Rightarrow> bool \<Rightarrow> nat \<Rightarrow>
     ('x net_op, 'w send_world) loop_state \<Rightarrow> ('x net_op, 'w send_world) loop_state option" where
  "async_send perform in_thread q is_continuation errno r =
     (if has (im_state (cn_impl (so_conn q))) non_blocking \<and> is_registered (cn_data (so_conn q)) (sr_reactor r)
      then make_call perform in_thread (send_call q is_continuation errno) r else None)"

section \<open>The machine\<close>

text \<open>
  The loop with the writes started so far (connection and buffers, in order) and the handlers called.
  What a handler does is a list of actions: calls that start other operations, and writes.
  \<open>allow\<close> says in which states the program starts a write on a connection.
\<close>

record ('x, 'w) net_state =
  ns_loop :: "('x net_op, 'w send_world) loop_state"
  ns_started :: "(connection \<times> byte list list) list"
  ns_results :: "(nat \<times> asio_ec \<times> nat) list"

datatype 'x net_action = Act_call "'x net_op sched_call" | Act_write connection "byte list list" nat

fun is_send :: "'x net_op \<Rightarrow> bool" where
  "is_send (Send q) = True"
| "is_send (Other x) = False"

fun starts_no_send :: "'x net_op sched_call \<Rightarrow> bool" where
  "starts_no_send (Call_post p c) = (\<not> is_send p)"
| "starts_no_send (Call_dispatch p) = (\<not> is_send p)"
| "starts_no_send (Call_start ot data p c spec ctl) = (\<not> is_send p)"
| "starts_no_send _ = True"

fun net_act ::
    "(('x, 'w) net_state \<Rightarrow> connection \<Rightarrow> bool) \<Rightarrow> ('x net_op \<Rightarrow> 'w send_world \<Rightarrow> op_status \<times> 'w send_world) \<Rightarrow>
     bool \<Rightarrow> 'x net_action \<Rightarrow> ('x, 'w) net_state \<Rightarrow> ('x, 'w) net_state option" where
  "net_act allow perform in_thread (Act_call c) s =
     (if starts_no_send c
      then map_option (\<lambda>r. s\<lparr>ns_loop := r\<rparr>) (make_call perform in_thread c (ns_loop s)) else None)"
| "net_act allow perform in_thread (Act_write cn buffers errno) s =
     (if allow s cn then
        map_option (\<lambda>r. s\<lparr>ns_loop := r, ns_started := ns_started s @ [(cn, buffers)]\<rparr>)
          (async_send perform in_thread (write_begin (length (ns_started s)) cn buffers) False errno (ns_loop s))
      else None)"

fun net_acts ::
    "(('x, 'w) net_state \<Rightarrow> connection \<Rightarrow> bool) \<Rightarrow> ('x net_op \<Rightarrow> 'w send_world \<Rightarrow> op_status \<times> 'w send_world) \<Rightarrow>
     'x net_action list \<Rightarrow> ('x, 'w) net_state \<Rightarrow> ('x, 'w) net_state option" where
  "net_acts allow perform [] s = Some s"
| "net_acts allow perform (a # as) s =
     (case net_act allow perform True a s of None \<Rightarrow> None | Some s \<Rightarrow> net_acts allow perform as s)"

text \<open>The start of a turn: the operation that is completed, if any, and the state its handler sees.\<close>

definition begin_turn ::
    "('u \<Rightarrow> 'w \<Rightarrow> op_status \<times> 'w) \<Rightarrow> ('u, 'w) loop_state \<Rightarrow> ('u option \<times> ('u, 'w) loop_state) option" where
  "begin_turn perform r =
     (if sd_stopped (sr_sched r) then None
      else case sd_op_queue (sr_sched r) of
        Operation item # rest \<Rightarrow>
          let sd = (sr_sched r)\<lparr>sd_op_queue := rest\<rparr>;
              sd = (if rest \<noteq> [] \<and> \<not> sd_one_thread sd then wake_one_thread sd else sd)
          in Some (take_operation perform item (r\<lparr>sr_sched := sd\<rparr>))
      | _ \<Rightarrow> None)"

definition end_turn :: "('x, 'w) net_state \<Rightarrow> ('x, 'w) net_state" where
  "end_turn s = s\<lparr>ns_loop := on_sched work_cleanup (ns_loop s)\<rparr>"

text \<open>A turn that executes an operation. The handler of a send is \<open>write_op\<close>, which starts the next send or calls
  the handler of the write.\<close>

definition send_completed ::
    "(('x, 'w) net_state \<Rightarrow> connection \<Rightarrow> bool) \<Rightarrow> ('x net_op \<Rightarrow> 'w send_world \<Rightarrow> op_status \<times> 'w send_world) \<Rightarrow>
     send_op \<Rightarrow> 'x net_action list \<Rightarrow> nat \<Rightarrow> ('x, 'w) net_state \<Rightarrow> ('x, 'w) net_state option" where
  "send_completed allow perform q acts errno s =
     (let r = ns_loop s;
          (ec, n) = send_outcome (sw_log (sr_world r)) (er_errors (sr_reactor r)) q
      in case write_handler q ec n of
        (Transfer_some bufs, c) \<Rightarrow>
          if acts = [] then
            map_option (\<lambda>r. s\<lparr>ns_loop := r\<rparr>) (async_send perform True (write_continue q bufs c) True errno r)
          else None
      | (Call_handler ec len, c) \<Rightarrow>
          net_acts allow perform acts (s\<lparr>ns_results := ns_results s @ [(so_write q, ec, len)]\<rparr>))"

definition net_turn ::
    "(('x, 'w) net_state \<Rightarrow> connection \<Rightarrow> bool) \<Rightarrow> ('x net_op \<Rightarrow> 'w send_world \<Rightarrow> op_status \<times> 'w send_world) \<Rightarrow>
     'x net_action list \<Rightarrow> nat \<Rightarrow> ('x, 'w) net_state \<Rightarrow> ('x, 'w) net_state option" where
  "net_turn allow perform acts errno s =
     (case begin_turn perform (ns_loop s) of
        None \<Rightarrow> None
      | Some (handler, r) \<Rightarrow>
          let s = s\<lparr>ns_loop := r\<rparr>
          in map_option end_turn
            (case handler of
               None \<Rightarrow> if acts = [] then Some s else None
             | Some (Other x) \<Rightarrow> net_acts allow perform acts s
             | Some (Send q) \<Rightarrow> send_completed allow perform q acts errno s))"

datatype ('x, 'w) net_event =
    Ev_outside "'x net_action"
  | Ev_poll "(epoll_ptr \<times> epoll_mask) list"
  | Ev_turn "'x net_action list" nat
  | Ev_restart
  | Ev_world 'w

fun net_step ::
    "(('x, 'w) net_state \<Rightarrow> connection \<Rightarrow> bool) \<Rightarrow> ('x net_op \<Rightarrow> 'w send_world \<Rightarrow> op_status \<times> 'w send_world) \<Rightarrow>
     ('x, 'w) net_event \<Rightarrow> ('x, 'w) net_state \<Rightarrow> ('x, 'w) net_state option" where
  "net_step allow perform (Ev_outside a) s = net_act allow perform False a s"
| "net_step allow perform (Ev_poll events) s =
     map_option (\<lambda>r. s\<lparr>ns_loop := r\<rparr>) (sched_turn perform (Poll events) (ns_loop s))"
| "net_step allow perform (Ev_turn acts errno) s = net_turn allow perform acts errno s"
| "net_step allow perform Ev_restart s =
     Some (s\<lparr>ns_loop := (ns_loop s)\<lparr>sr_sched := sched_restart (sr_sched (ns_loop s))\<rparr>\<rparr>)"
| "net_step allow perform (Ev_world w) s =
     Some (s\<lparr>ns_loop := (ns_loop s)\<lparr>sr_world := (sr_world (ns_loop s))\<lparr>sw_env := w\<rparr>\<rparr>\<rparr>)"

fun net_steps ::
    "(('x, 'w) net_state \<Rightarrow> connection \<Rightarrow> bool) \<Rightarrow> ('x net_op \<Rightarrow> 'w send_world \<Rightarrow> op_status \<times> 'w send_world) \<Rightarrow>
     ('x, 'w) net_event list \<Rightarrow> ('x, 'w) net_state \<Rightarrow> ('x, 'w) net_state option" where
  "net_steps allow perform [] s = Some s"
| "net_steps allow perform (ev # evs) s =
     (case net_step allow perform ev s of None \<Rightarrow> None | Some s \<Rightarrow> net_steps allow perform evs s)"

definition net_start :: "32 word \<Rightarrow> 'w \<Rightarrow> ('x, 'w) net_state" where
  "net_start hint w =
     \<lparr>ns_loop = loop_state_make hint \<lparr>sw_env = w, sw_log = []\<rparr>, ns_started = [], ns_results = []\<rparr>"

inductive net_reachable ::
    "(('x, 'w) net_state \<Rightarrow> connection \<Rightarrow> bool) \<Rightarrow> ('x net_op \<Rightarrow> 'w send_world \<Rightarrow> op_status \<times> 'w send_world) \<Rightarrow>
     ('x, 'w) net_state \<Rightarrow> bool"
  for allow and perform where
  net_init: "net_reachable allow perform (net_start hint w)"
| net_next: "net_reachable allow perform s \<Longrightarrow> net_step allow perform ev s = Some s' \<Longrightarrow>
    net_reachable allow perform s'"

section \<open>AsioComm\<close>

text \<open>\<open>send_async\<close>: the size and the bytes of the buffer. Its handler only logs or calls the continuation.\<close>

definition comm_buffers :: "endian \<Rightarrow> buffer \<Rightarrow> byte list list" where
  "comm_buffers e buf =
     (let len = size_u32 buf in [serialize_u32 e len, take (unat len) buf])"

definition comm_write :: "endian \<Rightarrow> connection \<Rightarrow> buffer \<Rightarrow> nat \<Rightarrow> 'x net_action" where
  "comm_write e cn buf errno = Act_write cn (comm_buffers e buf) errno"

end
