(* ===== verification/Oef_Asio_Record.thy ===== *)
theory Oef_Asio_Record
  imports Oef_Asio_Loop_Facts
begin

text \<open>
  A loop whose world keeps a record of the operations that were performed, in order. The locale
  \<open>recorder\<close> states what the record must satisfy; under it every operation the loop has taken
  from the reactor was performed, failed or posted exactly once, and the record of a descriptor
  together with what still waits there is in the order of the starts. \<open>tracked\<close> are the
  operations of interest, \<open>home\<close> the descriptor state one is started on.
\<close>

section \<open>What was performed, failed and posted\<close>

definition owed :: "('u \<Rightarrow> bool) \<Rightarrow> 'u reactor_item scheduler \<times> 'u reactor_item thread_info \<Rightarrow> 'u multiset" where
  "owed tracked st =
     filter_mset tracked (mset (users (queued (sd_op_queue (fst st))) @ users (ti_private_queue (snd st))))"

definition noted :: "('u \<Rightarrow> bool) \<Rightarrow> ('w \<Rightarrow> 'u list) \<Rightarrow> 'u reactor \<Rightarrow> 'w \<Rightarrow> 'u multiset" where
  "noted tracked recorded er w = mset (recorded w) + filter_mset tracked (mset (map fst (er_errors er)))"

text \<open>The queues grew by what was recorded, failed or is among \<open>N\<close>.\<close>

definition settles ::
    "('u \<Rightarrow> bool) \<Rightarrow> ('w \<Rightarrow> 'u list) \<Rightarrow> 'u list \<Rightarrow> ('u reactor \<times> 'u sched_thread) \<times> 'w \<Rightarrow>
     ('u reactor \<times> 'u sched_thread) \<times> 'w \<Rightarrow> bool" where
  "settles tracked recorded N s s' \<longleftrightarrow>
     owed tracked (snd (fst s')) + noted tracked recorded (fst (fst s)) (snd s) =
     owed tracked (snd (fst s)) + noted tracked recorded (fst (fst s')) (snd s') + filter_mset tracked (mset N)"

lemma settles_refl [simp]: "settles tracked recorded [] s s"
  by (simp add: settles_def)

lemma settles_trans:
  assumes "settles tracked recorded M s t" "settles tracked recorded N t u"
  shows "settles tracked recorded (M @ N) s u"
proof -
  let ?o = "\<lambda>s. owed tracked (snd (fst s))" and ?n = "\<lambda>s. noted tracked recorded (fst (fst s)) (snd s)"
  let ?f = "\<lambda>N. filter_mset tracked (mset N)"
  have a: "?o t + ?n s = ?o s + ?n t + ?f M" and b: "?o u + ?n t = ?o t + ?n u + ?f N"
    using assms by (simp_all add: settles_def)
  have "(?o u + ?n s) + ?n t = (?o u + ?n t) + ?n s" by simp
  also have "\<dots> = (?o t + ?n s) + (?n u + ?f N)" using b by simp
  also have "\<dots> = (?o s + ?n u + (?f M + ?f N)) + ?n t" using a by simp
  finally show ?thesis by (simp add: settles_def)
qed

lemma owed_post:
  "owed tracked (post_immediate_completion (User p) c in_thread st) = owed tracked st + filter_mset tracked {#p#}"
  by (cases st) (simp add: owed_def post_immediate_completion_def Let_def)

lemma owed_deferred:
  "owed tracked (post_deferred_completions (map User ps) in_thread st) = owed tracked st + filter_mset tracked (mset ps)"
  by (cases st) (simp add: owed_def post_deferred_completions_def Let_def)

lemma owed_simps [simp]:
  "owed tracked (work_started sd, ti) = owed tracked (sd, ti)"
  "owed tracked (sd, compensating_work_started ti) = owed tracked (sd, ti)"
  "owed tracked (do_dispatch (User p) st) = owed tracked st + filter_mset tracked {#p#}"
  by (cases st; simp add: owed_def work_started_def compensating_work_started_def do_dispatch_def)+

lemma er_errors_simps [simp]:
  "er_errors (er_update i f er) = er_errors er"
  "er_errors (er_fail ps ec er) = er_errors er @ map (\<lambda>p. (p, ec)) ps"
  "er_errors (free_descriptor_state i er) = er_errors er"
  by (simp_all add: er_update_def er_fail_def free_descriptor_state_def)

lemma noted_simps [simp]:
  "noted tracked recorded (er_update i f er) w = noted tracked recorded er w"
  "noted tracked recorded (er_fail ps ec er) w = noted tracked recorded er w + filter_mset tracked (mset ps)"
  "noted tracked recorded (free_descriptor_state i er) w = noted tracked recorded er w"
  by (simp_all add: noted_def o_def)

lemma errors_register:
  "register_descriptor d ctl er = (i, n, er') \<Longrightarrow> er_errors er' = er_errors er"
  by (auto simp: register_descriptor_def allocate_descriptor_state_def Let_def split: list.splits prod.splits if_splits)

section \<open>The order of a descriptor\<close>

text \<open>Tracked operations wait only where they were started.\<close>

definition placed :: "('u \<Rightarrow> bool) \<Rightarrow> ('u \<Rightarrow> nat option) \<Rightarrow> 'u reactor \<Rightarrow> bool" where
  "placed tracked home er \<longleftrightarrow>
     (\<forall>i < length (er_states er). \<forall>t. \<forall>p \<in> set (ds_queue (er_states er ! i) t). tracked p \<longrightarrow>
        t = Write_op \<and> home p = Some i)"

definition order_of :: "('u \<Rightarrow> bool) \<Rightarrow> ('u \<Rightarrow> nat option) \<Rightarrow> nat \<Rightarrow> 'u reactor \<Rightarrow> 'u list \<Rightarrow> 'u list" where
  "order_of tracked home i er done =
     filter (\<lambda>p. home p = Some i) done @
     (if i < length (er_states er) then filter tracked (ds_queue (er_states er ! i) Write_op) else [])"

lemma er_update_id [simp]: "er_update i (\<lambda>ds. ds) er = er"
  by (simp add: er_update_def)

lemma start_op_cases:
  assumes "reactor_start_op perform ot data p c spec ctl in_thread (er, st) w = (s', w')"
    and "perform p w = (status, w1)"
  obtains
    (queued) i f where "data = Some i" "s' = queue_op i ot p (er_update i f er, st)"
      "\<And>ds. ds_queue (f ds) = ds_queue ds" "w' = w \<or> w' = w1 \<and> status = Not_done"
  | (performed) i f where "data = Some i"
      "s' = (er_update i f er, post_immediate_completion (User p) c in_thread st)"
      "\<And>ds. ds_queue (f ds) = ds_queue ds" "w' = w1" "status \<noteq> Not_done" "ds_queue (er_states er ! i) ot = []"
  | (shut) i where "data = Some i" "ds_shutdown (er_states er ! i)"
      "s' = (er, post_immediate_completion (User p) c in_thread st)" "w' = w"
  | (failed) ec where "s' = (er_fail [p] ec er, post_immediate_completion (User p) c in_thread st)"
      "w' = w \<or> w' = w1 \<and> status = Not_done"
      "ec \<in> {bad_descriptor, operation_not_supported} \<or> fst ctl \<noteq> 0 \<and> ec = System_error (snd ctl)"
proof (cases data)
  case None
  with assms show ?thesis by (auto simp: reactor_start_op_def Let_def intro: failed)
next
  case (Some i)
  have q: thesis if "s' = queue_op i ot p (er, st)" "w' = w \<or> w' = w1 \<and> status = Not_done"
    using queued [of i "\<lambda>ds. ds"] that Some by simp
  have d: thesis if "s' = (er, post_immediate_completion (User p) c in_thread st)" "w' = w1"
      "status \<noteq> Not_done" "ds_queue (er_states er ! i) ot = []"
    using performed [of i "\<lambda>ds. ds"] that Some by simp
  show ?thesis
    using assms unfolding Some reactor_start_op_def Let_def option.case split
    by (cases "ds_shutdown (er_states er ! i)"; cases "ds_queue (er_states er ! i) ot = []"; cases "spec";
      cases "ds_try_speculative (er_states er ! i) ot")
     (auto split: if_splits intro: q d shut [OF Some] failed queued [OF Some] performed [OF Some])
qed

lemma abort_ops_reactor:
  "fst (abort_ops i in_thread s) =
     er_update i (\<lambda>ds. ds\<lparr>ds_queue := (\<lambda>_. [])\<rparr>)
       (er_fail (ds_operations (er_states (fst s) ! i)) operation_aborted (fst s))"
  by (cases s) (simp add: abort_ops_def Let_def)

lemma update_queue:
  "(\<And>ds. ds_queue (f ds) = ds_queue ds) \<Longrightarrow>
   ds_queue (er_states (er_update i f er) ! j) = ds_queue (er_states er ! j)"
  by (cases "i < length (er_states er)"; cases "j = i") (simp_all add: er_update_def list_update_beyond)

lemma update_shutdown:
  "(\<And>ds. ds_shutdown (f ds) = ds_shutdown ds) \<Longrightarrow>
   ds_shutdown (er_states (er_update i f er) ! j) = ds_shutdown (er_states er ! j)"
  by (cases "i < length (er_states er)"; cases "j = i") (simp_all add: er_update_def list_update_beyond)

lemma order_of_fail [simp]: "order_of tracked home j (er_fail ps ec er) ps' = order_of tracked home j er ps'"
  by (simp add: order_of_def)

lemma placed_fail [simp]: "placed tracked home (er_fail ps ec er) = placed tracked home er"
  by (simp add: placed_def)

text \<open>The parts of a loop a call can change, and what a call posts directly.\<close>

definition parts :: "('u, 'w) loop_state \<Rightarrow> ('u reactor \<times> 'u sched_thread) \<times> 'w" where
  "parts r = ((sr_reactor r, sr_sched r, sr_thread r), sr_world r)"

fun posted_operations :: "'u sched_call \<Rightarrow> 'u list" where
  "posted_operations (Call_post p c) = [p]"
| "posted_operations (Call_dispatch p) = [p]"
| "posted_operations _ = []"

fun started_operations :: "'u sched_call \<Rightarrow> 'u list" where
  "started_operations (Call_start ot data p c spec ctl) = [p]"
| "started_operations _ = []"

text \<open>A tracked operation is started as a write at its home, while that is open.\<close>

fun proper_call :: "('u \<Rightarrow> bool) \<Rightarrow> ('u \<Rightarrow> nat option) \<Rightarrow> 'u reactor \<Rightarrow> 'u sched_call \<Rightarrow> bool" where
  "proper_call tracked home er (Call_start ot data p c spec ctl) \<longleftrightarrow>
     (tracked p \<longrightarrow> ot = Write_op \<and> home p = data \<and> (\<forall>i. data = Some i \<longrightarrow> \<not> ds_shutdown (er_states er ! i)))"
| "proper_call tracked home er _ \<longleftrightarrow> True"

text \<open>The tracked operations that left the reactor are those recorded, those that failed, and \<open>N\<close>.\<close>

definition balanced ::
    "('u \<Rightarrow> bool) \<Rightarrow> ('w \<Rightarrow> 'u list) \<Rightarrow> 'u list \<Rightarrow> ('u, 'w) loop_state \<Rightarrow> bool" where
  "balanced tracked recorded N r \<longleftrightarrow>
     filter_mset tracked (mset (sr_done r)) + owed tracked (sr_sched r, sr_thread r) =
     noted tracked recorded (sr_reactor r) (sr_world r) + filter_mset tracked (mset N)"

lemma settles_balanced:
  assumes "settles tracked recorded M (parts r) (parts r')" "sr_done r' = sr_done r" "balanced tracked recorded N r"
  shows "balanced tracked recorded (N @ M) r'"
proof -
  let ?o = "\<lambda>r. owed tracked (sr_sched r, sr_thread r)" and ?n = "\<lambda>r. noted tracked recorded (sr_reactor r) (sr_world r)"
  let ?f = "\<lambda>N. filter_mset tracked (mset N)"
  have a: "?o r' + ?n r = ?o r + ?n r' + ?f M" using assms(1) by (simp add: settles_def parts_def)
  have b: "?f (sr_done r) + ?o r = ?n r + ?f N" using assms(3) by (simp add: balanced_def)
  have "(?f (sr_done r) + ?o r') + ?n r = (?f (sr_done r) + ?o r) + (?n r' + ?f M)" using a by simp
  also have "\<dots> = (?n r' + (?f N + ?f M)) + ?n r" unfolding b by simp
  finally show ?thesis by (simp add: balanced_def assms(2))
qed

lemma mset_exchange:
  fixes a :: "'a multiset"
  assumes "f + p' = p + m" "a + p = r + e + n"
  shows "a + f + p' = r + m + e + n"
proof -
  have "a + f + p' = (a + p) + m" using assms(1) by (simp add: ac_simps)
  also have "\<dots> = r + m + e + n" unfolding assms(2) by (simp add: ac_simps)
  finally show ?thesis .
qed

lemma balanced_cleanup [simp]: "balanced tracked recorded N (on_sched work_cleanup r) = balanced tracked recorded N r"
  by (simp add: balanced_def on_sched_def work_cleanup_def owed_def Let_def work_finished_def sched_stop_def
    stop_all_threads_def sched_push_def)

lemma task_turn_record:
  assumes "sd_op_queue (sr_sched r) = Task_operation # rest"
  shows "balanced tracked recorded N (task_turn rest events r) = balanced tracked recorded N r \<and>
    order_of tracked home j (sr_reactor (task_turn rest events r)) ps = order_of tracked home j (sr_reactor r) ps \<and>
    placed tracked home (sr_reactor (task_turn rest events r)) = placed tracked home (sr_reactor r) \<and>
    er_errors (sr_reactor (task_turn rest events r)) = er_errors (sr_reactor r) \<and>
    sr_world (task_turn rest events r) = sr_world r \<and>
    length (er_states (sr_reactor (task_turn rest events r))) = length (er_states (sr_reactor r)) \<and>
    (\<forall>i. ds_shutdown (er_states (sr_reactor (task_turn rest events r)) ! i) = ds_shutdown (er_states (sr_reactor r) ! i))"
proof -
  have d: "users ops' = users ops \<and> (\<forall>j. ds_queue (er_states er' ! j) = ds_queue (er_states er ! j)) \<and>
      (\<forall>j. ds_shutdown (er_states er' ! j) = ds_shutdown (er_states er ! j)) \<and>
      er_errors er' = er_errors er \<and> length (er_states er') = length (er_states er)"
    if "dispatch_events events er ops = (er', ops')" for events and er er' :: "'a reactor" and ops ops'
    using that
  proof (induction events er ops rule: dispatch_events.induct)
    case (4 i m evs er ops)
    then show ?case by (auto simp: update_queue update_shutdown split: if_splits)
  qed simp_all
  obtain er ops where e: "dispatch_events events (sr_reactor r) (ti_private_queue (sr_thread r)) = (er, ops)" by fastforce
  have t: "task_turn rest events r = r\<lparr>sr_sched := sr_sched (task_turn rest events r), sr_reactor := er,
      sr_thread := \<lparr>ti_private_work = 0, ti_private_queue = []\<rparr>\<rparr>"
    "users (queued (sd_op_queue (sr_sched (task_turn rest events r)))) = users (queued rest) @ users ops"
    by (simp_all add: task_turn_def reactor_run_def e on_sched_def task_cleanup_def sched_push_def Let_def)
  show ?thesis
    using d [OF e] t(2) assms
    by (subst (1 2 3 4 5 6 7) t(1)) (simp add: balanced_def owed_def noted_def order_of_def placed_def)
qed

locale recorder =
  fixes perform :: "'u \<Rightarrow> 'w \<Rightarrow> op_status \<times> 'w"
    and tracked :: "'u \<Rightarrow> bool"
    and recorded :: "'w \<Rightarrow> 'u list"
    and home :: "'u \<Rightarrow> nat option"
  assumes perform_records: "perform p w = (status, w') \<Longrightarrow>
    recorded w' = recorded w @ (if tracked p \<and> status \<noteq> Not_done then [p] else [])"
begin

lemma perform_queue_records:
  "perform_queue perform ps w = (completed, rest, exhausted, w') \<Longrightarrow>
   recorded w' = recorded w @ filter tracked completed"
proof (induction ps arbitrary: w completed rest exhausted w')
  case (Cons p ps)
  obtain st w1 where p: "perform p w = (st, w1)" by fastforce
  note r = perform_records [OF p]
  show ?case
  proof (cases st)
    case Done
    obtain c r' x w2 where q: "perform_queue perform ps w1 = (c, r', x, w2)" by (metis prod_cases4)
    with Cons.prems p Done have "completed = p # c" "w' = w2" by (auto simp: Let_def)
    with Cons.IH [OF q] r Done show ?thesis by simp
  qed (use Cons.prems p r in auto)
qed simp

lemma perform_type_records:
  assumes "perform_type perform events ot (ds, ops, w) = (ds', ops', w')"
  shows "\<exists>c. ds_queue ds ot = c @ ds_queue ds' ot \<and> ops' = ops @ c \<and>
    (\<forall>t. t \<noteq> ot \<longrightarrow> ds_queue ds' t = ds_queue ds t) \<and> recorded w' = recorded w @ filter tracked c \<and>
    ds_shutdown ds' = ds_shutdown ds"
  using assms
  by (auto simp: perform_type_def Let_def split: prod.splits if_splits
    dest: perform_queue_split perform_queue_records)

lemma perform_io_records:
  assumes "perform_io perform events ds w = (ds', ops, w')"
  shows "\<exists>ce cw cr. ops = ce @ cw @ cr \<and> ds_queue ds Except_op = ce @ ds_queue ds' Except_op \<and>
    ds_queue ds Write_op = cw @ ds_queue ds' Write_op \<and> ds_queue ds Read_op = cr @ ds_queue ds' Read_op \<and>
    recorded w' = recorded w @ filter tracked ops \<and> ds_shutdown ds' = ds_shutdown ds"
proof -
  obtain ds1 ops1 w1 where 1: "perform_type perform events Except_op (ds, [], w) = (ds1, ops1, w1)"
    by (metis prod_cases3)
  obtain ds2 ops2 w2 where 2: "perform_type perform events Write_op (ds1, ops1, w1) = (ds2, ops2, w2)"
    by (metis prod_cases3)
  have 3: "perform_type perform events Read_op (ds2, ops2, w2) = (ds', ops, w')"
    using assms 1 2 by (simp add: perform_io_def)
  from perform_type_records [OF 1] perform_type_records [OF 2] perform_type_records [OF 3] show ?thesis by auto
qed

text \<open>Starting an operation: it is queued, done, refused by a closed descriptor, or failed.\<close>

lemma start_op_settles:
  assumes "reactor_start_op perform ot data p c spec ctl in_thread (er, st) w = (s', w')"
    and "\<And>i. data = Some i \<Longrightarrow> tracked p \<Longrightarrow> \<not> ds_shutdown (er_states er ! i)"
  shows "settles tracked recorded [] ((er, st), w) (s', w')"
proof -
  obtain status w1 where p: "perform p w = (status, w1)" by fastforce
  note r = perform_records [OF p]
  from assms(1) p show ?thesis
  proof (cases rule: start_op_cases)
    case (queued i f)
    with r show ?thesis
      by (cases st) (auto simp: settles_def queue_op_def noted_def)
  next
    case (performed i f)
    with r show ?thesis by (simp add: settles_def owed_post noted_def)
  next
    case (shut i)
    with assms(2) have "\<not> tracked p" by blast
    with shut show ?thesis by (simp add: settles_def owed_post)
  next
    case (failed ec)
    with r show ?thesis by (auto simp: settles_def owed_post noted_def)
  qed
qed

lemma placed_update:
  "placed tracked home er \<Longrightarrow>
   (\<And>t p. p \<in> set (ds_queue (f (er_states er ! i)) t) \<Longrightarrow> tracked p \<Longrightarrow>
      p \<in> set (ds_queue (er_states er ! i) t) \<or> t = Write_op \<and> home p = Some i) \<Longrightarrow>
   placed tracked home (er_update i f er)"
  unfolding placed_def er_update_def
  by (intro allI impI ballI) (case_tac "ia = i"; force simp: nth_list_update)

lemma order_of_update:
  "i < length (er_states er) \<Longrightarrow>
   filter tracked (ds_queue (f (er_states er ! i)) Write_op) = filter tracked (ds_queue (er_states er ! i) Write_op) @ new \<Longrightarrow>
   order_of tracked home j (er_update i f er) done =
     order_of tracked home j er done @ (if j = i then new else [])"
  by (auto simp: order_of_def er_update_def nth_list_update)

text \<open>If no operation failed, the operation is the last of its descriptor.\<close>

lemma start_op_order:
  assumes "reactor_start_op perform ot data p c spec ctl in_thread (er, st) w = (s', w')"
    and "\<And>i. data = Some i \<Longrightarrow> i < length (er_states er)"
    and "\<And>i. data = Some i \<Longrightarrow> tracked p \<Longrightarrow> \<not> ds_shutdown (er_states er ! i)"
    and "tracked p \<Longrightarrow> ot = Write_op \<and> home p = data" and "placed tracked home er"
  shows "placed tracked home (fst s') \<and>
    (er_errors (fst s') = er_errors er \<longrightarrow>
      order_of tracked home j (fst s') (recorded w') =
        order_of tracked home j er (recorded w) @ (if tracked p \<and> home p = Some j then [p] else []))"
proof -
  obtain status w1 where p: "perform p w = (status, w1)" by fastforce
  note r = perform_records [OF p]
  from assms(1) p show ?thesis
  proof (cases rule: start_op_cases)
    case (queued i f)
    have i: "i < length (er_states er)" using assms(2) queued(1) by simp
    have w: "recorded w' = recorded w" using queued(4) r by auto
    have er: "fst s' = er_update i (\<lambda>ds. (f ds)\<lparr>ds_queue := (ds_queue ds)(ot := ds_queue ds ot @ [p])\<rparr>) er"
      using queued(2,3) i by (cases st) (simp add: queue_op_def er_update_def)
    have "placed tracked home (fst s')"
      unfolding er by (rule placed_update [OF assms(5)]) (use assms(4) queued(1) in \<open>auto split: if_splits\<close>)
    moreover have "order_of tracked home j (fst s') (recorded w) =
        order_of tracked home j er (recorded w) @ (if j = i then (if ot = Write_op \<and> tracked p then [p] else []) else [])"
      unfolding er by (rule order_of_update [OF i]) simp
    ultimately show ?thesis using w assms(4) queued(1) by auto
  next
    case (performed i f)
    have i: "i < length (er_states er)" using assms(2) performed(1) by simp
    have "placed tracked home (fst s')"
      unfolding performed(2) fst_conv by (rule placed_update [OF assms(5)]) (simp add: performed(3))
    moreover have "order_of tracked home j (fst s') (recorded w) = order_of tracked home j er (recorded w)"
      unfolding performed(2) fst_conv using order_of_update [OF i, where f = f and new = "[]" and j = j]
      by (simp add: performed(3))
    moreover have "ds_queue (er_states er ! i) Write_op = []" if "tracked p"
      using performed(6) assms(4) that by simp
    ultimately show ?thesis
      using assms(4) performed(1,4,5) r by (auto simp: order_of_def)
  next
    case (shut i)
    with assms(3,5) show ?thesis by auto
  next
    case (failed ec)
    with assms(5) show ?thesis by (simp add: placed_def)
  qed
qed

text \<open>Cancelling.\<close>

lemma abort_ops_settles: "settles tracked recorded [] (s, w) (abort_ops i in_thread s, w)"
  by (cases s) (simp add: abort_ops_def settles_def owed_deferred Let_def)

lemma abort_ops_order:
  assumes "i < length (er_states (fst s))" "placed tracked home (fst s)"
  shows "placed tracked home (fst (abort_ops i in_thread s)) \<and>
    (er_errors (fst (abort_ops i in_thread s)) = er_errors (fst s) \<longrightarrow>
      order_of tracked home j (fst (abort_ops i in_thread s)) ps = order_of tracked home j (fst s) ps)"
proof -
  have "placed tracked home (fst (abort_ops i in_thread s))"
    unfolding abort_ops_reactor by (rule placed_update) (use assms(2) in simp_all)
  moreover have "order_of tracked home j (fst (abort_ops i in_thread s)) ps = order_of tracked home j (fst s) ps"
    if "ds_operations (er_states (fst s) ! i) = []"
    unfolding abort_ops_reactor using that assms(1)
      order_of_update [of i "er_fail [] operation_aborted (fst s)" "\<lambda>ds. ds\<lparr>ds_queue := (\<lambda>_. [])\<rparr>" "[]" j ps]
    by (simp add: ds_operations_def)
  ultimately show ?thesis by (simp add: abort_ops_reactor)
qed

text \<open>Any call.\<close>

lemma make_call_settles:
  assumes "make_call perform in_thread c r = Some r'" "proper_call tracked home (sr_reactor r) c"
  shows "settles tracked recorded (posted_operations c) (parts r) (parts r')"
proof (cases c)
  case (Call_post p cont)
  obtain sd ti where "post_immediate_completion (User p) cont in_thread (sr_sched r, sr_thread r) = (sd, ti)" by fastforce
  with assms(1) Call_post owed_post [of tracked p cont in_thread "(sr_sched r, sr_thread r)"] show ?thesis
    by (auto simp: on_sched_def settles_def parts_def)
next
  case (Call_dispatch p)
  with assms(1) show ?thesis
    by (auto simp: on_sched_def settles_def parts_def do_dispatch_def owed_def work_started_def sched_push_def)
next
  case (Call_register d ctl)
  obtain i n er where 1: "register_descriptor d ctl (sr_reactor r) = (i, n, er)" by (metis prod_cases3)
  with assms(1) Call_register errors_register [OF 1] show ?thesis by (auto simp: settles_def parts_def noted_def)
next
  case (Call_start ot data p cont spec ctl)
  obtain er sd ti w where 1: "reactor_start_op perform ot data p cont spec ctl in_thread
      (sr_reactor r, sr_sched r, sr_thread r) (sr_world r) = ((er, sd, ti), w)"
    by (metis prod_cases3 surj_pair)
  with assms Call_start start_op_settles [OF 1] show ?thesis by (auto simp: parts_def split: if_splits)
next
  case (Call_cancel data)
  with assms(1) abort_ops_settles [of "(sr_reactor r, sr_sched r, sr_thread r)" "sr_world r" _ in_thread] show ?thesis
    by (auto simp: on_reactor_def parts_def cancel_ops_def split: if_splits option.splits prod.splits) metis
next
  case (Call_deregister data)
  show ?thesis
  proof (cases "\<exists>i. data = Some i \<and> \<not> ds_shutdown (er_states (sr_reactor r) ! i)")
    case True
    then obtain i where i: "data = Some i" "\<not> ds_shutdown (er_states (sr_reactor r) ! i)" by blast
    obtain er sd ti where a: "abort_ops i in_thread (sr_reactor r, sr_sched r, sr_thread r) = (er, sd, ti)"
      by (metis prod_cases3)
    with assms(1) Call_deregister i abort_ops_settles [of "(sr_reactor r, sr_sched r, sr_thread r)" "sr_world r" i in_thread]
    show ?thesis by (auto simp: on_reactor_def parts_def deregister_descriptor_def settles_def split: if_splits)
  next
    case False
    with assms(1) Call_deregister show ?thesis
      by (auto simp: on_reactor_def parts_def deregister_descriptor_def split: if_splits option.splits)
  qed
next
  case (Call_cleanup data)
  with assms(1) show ?thesis
    by (auto simp: parts_def cleanup_descriptor_data_def settles_def split: if_splits option.splits)
qed (use assms(1) in \<open>auto simp: parts_def settles_def owed_def work_started_def work_finished_def sched_stop_def
  stop_all_threads_def Let_def split: if_splits\<close>)

lemma allocate_order:
  assumes "allocate_descriptor_state er = (i, er')"
  shows "order_of tracked home j er' ps = order_of tracked home j er ps \<and>
    (placed tracked home er \<longrightarrow> placed tracked home er')"
  using assms
  by (auto simp: allocate_descriptor_state_def order_of_def placed_def Let_def nth_append less_Suc_eq
    descriptor_state_make_def split: list.splits)

lemma register_order:
  assumes "register_descriptor d ctl er = (i, n, er')" "pool_ok er"
  shows "order_of tracked home j er' ps = order_of tracked home j er ps \<and>
    (placed tracked home er \<longrightarrow> placed tracked home er')"
proof -
  obtain k er1 where a: "allocate_descriptor_state er = (k, er1)" by fastforce
  have k: "k < length (er_states er1)" using allocate_pool [OF a assms(2)] by simp
  have o: "order_of tracked home j (er_update m f er1) ps = order_of tracked home j er1 ps"
    and pl: "placed tracked home (er_update m f er1) = placed tracked home er1"
    if "\<And>ds. ds_queue (f ds) = ds_queue ds" for f m er1
    using that by (simp_all add: order_of_def placed_def update_queue)
  from assms(1) a allocate_order [OF a, of j ps] show ?thesis
    by (auto simp: register_descriptor_def Let_def o pl split: if_splits prod.splits)
qed

lemma make_call_order:
  assumes "make_call perform in_thread c r = Some r'" "proper_call tracked home (sr_reactor r) c"
    and pool: "pool_ok (sr_reactor r)" and pl: "placed tracked home (sr_reactor r)"
  shows "placed tracked home (sr_reactor r') \<and>
    (er_errors (sr_reactor r') = er_errors (sr_reactor r) \<longrightarrow>
      order_of tracked home j (sr_reactor r') (recorded (sr_world r')) =
        order_of tracked home j (sr_reactor r) (recorded (sr_world r)) @
        filter (\<lambda>p. tracked p \<and> home p = Some j) (started_operations c))"
proof (cases c)
  case (Call_register d ctl)
  obtain i n er where 1: "register_descriptor d ctl (sr_reactor r) = (i, n, er)" by (metis prod_cases3)
  with assms(1) Call_register register_order [OF 1 pool] pl show ?thesis by auto
next
  case (Call_start ot data p cont spec ctl)
  obtain s' w where 1: "reactor_start_op perform ot data p cont spec ctl in_thread
      (sr_reactor r, sr_sched r, sr_thread r) (sr_world r) = (s', w)"
    by fastforce
  have v: "valid_data data (sr_reactor r)" using assms(1) Call_start by (simp split: if_splits)
  have "placed tracked home (fst s') \<and>
    (er_errors (fst s') = er_errors (sr_reactor r) \<longrightarrow>
      order_of tracked home j (fst s') (recorded w) =
        order_of tracked home j (sr_reactor r) (recorded (sr_world r)) @
        (if tracked p \<and> home p = Some j then [p] else []))"
    by (rule start_op_order [OF 1]) (use v valid_bound [OF v pool] assms(2) pl Call_start in auto)
  with assms(1) Call_start 1 v show ?thesis by (auto split: prod.splits)
next
  case (Call_cancel data)
  show ?thesis
  proof (cases data)
    case (Some i)
    with assms(1) Call_cancel have v: "valid_data (Some i) (sr_reactor r)"
      and r': "r' = on_reactor (abort_ops i in_thread) r"
      by (auto simp: cancel_ops_def on_reactor_def split: if_splits)
    from abort_ops_order [of i "(sr_reactor r, sr_sched r, sr_thread r)" in_thread j] valid_bound [OF v pool] pl
    show ?thesis by (auto simp: r' on_reactor_def Call_cancel split: prod.splits)
  qed (use assms(1) pl Call_cancel in \<open>simp add: cancel_ops_def valid_data_def on_reactor_def\<close>)
next
  case (Call_deregister data)
  show ?thesis
  proof (cases "\<exists>i. data = Some i \<and> \<not> ds_shutdown (er_states (sr_reactor r) ! i)")
    case True
    then obtain i where i: "data = Some i" "\<not> ds_shutdown (er_states (sr_reactor r) ! i)" by blast
    then have v: "valid_data (Some i) (sr_reactor r)" using assms(1) Call_deregister by (simp split: if_splits)
    obtain er sd ti where a: "abort_ops i in_thread (sr_reactor r, sr_sched r, sr_thread r) = (er, sd, ti)"
      by (metis prod_cases3)
    have u: "order_of tracked home j (er_update i (\<lambda>ds. ds\<lparr>ds_descriptor := invalid_socket, ds_shutdown := True\<rparr>) er) ps =
        order_of tracked home j er ps"
      "placed tracked home (er_update i (\<lambda>ds. ds\<lparr>ds_descriptor := invalid_socket, ds_shutdown := True\<rparr>) er) =
        placed tracked home er" for ps
      by (simp_all add: order_of_def placed_def update_queue)
    from abort_ops_order [of i "(sr_reactor r, sr_sched r, sr_thread r)" in_thread j] valid_bound [OF v pool] pl
      assms(1) a i v
    show ?thesis by (auto simp: on_reactor_def Call_deregister deregister_descriptor_def u split: if_splits)
  next
    case False
    with assms(1) Call_deregister pl show ?thesis
      by (auto simp: on_reactor_def deregister_descriptor_def split: if_splits option.splits)
  qed
next
  case (Call_cleanup data)
  with assms(1) pl show ?thesis
    by (auto simp: cleanup_descriptor_data_def order_of_def placed_def free_descriptor_state_def
      split: if_splits option.splits)
qed (use assms(1) pl in \<open>auto simp: on_sched_def split: if_splits prod.splits\<close>)

text \<open>The record and the errors only grow.\<close>

lemma make_call_grows:
  assumes "make_call perform in_thread c r = Some r'"
  shows "(\<exists>ps. recorded (sr_world r') = recorded (sr_world r) @ ps) \<and>
    (\<exists>es. er_errors (sr_reactor r') = er_errors (sr_reactor r) @ es \<and>
      (\<forall>(p, ec) \<in> set es. ec \<in> {bad_descriptor, operation_not_supported, operation_aborted} \<or>
         (\<exists>ot data cont spec ctl. c = Call_start ot data p cont spec ctl \<and> fst ctl \<noteq> 0 \<and> ec = System_error (snd ctl))))"
proof (cases c)
  case (Call_register d ctl)
  obtain i n er where 1: "register_descriptor d ctl (sr_reactor r) = (i, n, er)" by (metis prod_cases3)
  with assms Call_register errors_register [OF 1] show ?thesis by auto
next
  case (Call_start ot data p cont spec ctl)
  obtain s' w where 1: "reactor_start_op perform ot data p cont spec ctl in_thread
      (sr_reactor r, sr_sched r, sr_thread r) (sr_world r) = (s', w)"
    by fastforce
  obtain status w1 where p: "perform p (sr_world r) = (status, w1)" by fastforce
  have "(\<exists>ps. recorded w = recorded (sr_world r) @ ps) \<and>
      (\<exists>es. er_errors (fst s') = er_errors (sr_reactor r) @ es \<and>
        (\<forall>(p', ec) \<in> set es. p' = p \<and>
           (ec \<in> {bad_descriptor, operation_not_supported} \<or> fst ctl \<noteq> 0 \<and> ec = System_error (snd ctl))))"
    using 1 p by (cases rule: start_op_cases)
      (use perform_records [OF p] in \<open>auto simp: queue_op_def\<close>)
  with assms Call_start 1 show ?thesis by (fastforce split: if_splits prod.splits)
qed (use assms in \<open>auto simp: on_sched_def on_reactor_def cancel_ops_def deregister_descriptor_def abort_ops_def
  cleanup_descriptor_data_def Let_def split: if_splits prod.splits option.splits\<close>)

text \<open>Taking an operation for execution.\<close>

lemma take_operation_record:
  assumes t: "take_operation perform item (r\<lparr>sr_sched := sd\<rparr>) = (first, r1)"
    and q: "sd_op_queue (sr_sched r) = Operation item # sd_op_queue sd"
    and i: "\<And>i. item = Descriptor i \<Longrightarrow> i < length (er_states (sr_reactor r))"
    and pl: "placed tracked home (sr_reactor r)"
  shows "(balanced tracked recorded N r \<longrightarrow> balanced tracked recorded N r1) \<and>
    order_of tracked home j (sr_reactor r1) (recorded (sr_world r1)) =
      order_of tracked home j (sr_reactor r) (recorded (sr_world r)) \<and>
    placed tracked home (sr_reactor r1) \<and> er_errors (sr_reactor r1) = er_errors (sr_reactor r) \<and>
    length (er_states (sr_reactor r1)) = length (er_states (sr_reactor r)) \<and>
    (\<forall>i. ds_shutdown (er_states (sr_reactor r1) ! i) = ds_shutdown (er_states (sr_reactor r) ! i)) \<and>
    (\<exists>ps. recorded (sr_world r1) = recorded (sr_world r) @ ps)"
proof (cases item)
  case (User p)
  with t q pl show ?thesis
    by (auto simp: take_operation_def balanced_def owed_def)
next
  case (Descriptor i)
  let ?er = "sr_reactor r" and ?st = "(sd, sr_thread r)"
  let ?ds = "er_states ?er ! i"
  obtain ds ops w where p: "perform_io perform (ds_task_result ?ds) ?ds (sr_world r) = (ds, ops, w)"
    by (metis prod_cases3)
  from perform_io_records [OF p] obtain ce cw cr where
    o: "ops = ce @ cw @ cr" "ds_queue ?ds Except_op = ce @ ds_queue ds Except_op"
      "ds_queue ?ds Write_op = cw @ ds_queue ds Write_op" "ds_queue ?ds Read_op = cr @ ds_queue ds Read_op"
      "recorded w = recorded (sr_world r) @ filter tracked ops" "ds_shutdown ds = ds_shutdown ?ds" by blast
  have l: "i < length (er_states ?er)" using i Descriptor .
  obtain sd' ti where c: "io_cleanup ops ?st = (first, sd', ti)"
    and r1: "r1 = r\<lparr>sr_reactor := er_update i (\<lambda>_. ds) ?er, sr_sched := sd', sr_thread := ti, sr_world := w,
      sr_done := sr_done r @ (case first of None \<Rightarrow> [] | Some p \<Rightarrow> [p])\<rparr>"
    using t p Descriptor
    by (auto simp: take_operation_def descriptor_complete_def Let_def split: prod.splits option.splits)
  have n: "t = Write_op \<and> home p = Some i" if "p \<in> set (ds_queue ?ds t)" "tracked p" for p t
    using pl l that by (auto simp: placed_def)
  have "filter tracked ce = []" "filter tracked cr = []" "filter (\<lambda>p. home p = Some i) (filter tracked cw) = filter tracked cw"
    using n [of _ Except_op] n [of _ Read_op] n [of _ Write_op] o(2,3,4) by (auto simp: filter_empty_conv intro!: filter_cong)
  note f = this
  have fj: "filter (\<lambda>p. home p = Some j) (filter tracked cw) = []" if "j \<noteq> i"
    using n [of _ Write_op] o(3) that by (auto simp: filter_empty_conv)
  have "order_of tracked home j (sr_reactor r1) (recorded (sr_world r1)) =
      order_of tracked home j ?er (recorded (sr_world r))"
    using l f fj o(1,3,5) by (cases "j = i") (simp_all add: r1 order_of_def er_update_def)
  moreover have "placed tracked home (sr_reactor r1)"
    unfolding r1 by simp (rule placed_update [OF pl], use o(2-4) in \<open>case_tac t; auto\<close>)
  moreover have "ds_shutdown (er_states (sr_reactor r1) ! k) = ds_shutdown (er_states ?er ! k)" for k
    using o(6) l by (cases "k = i") (simp_all add: r1 er_update_def)
  moreover have "balanced tracked recorded N r1" if "balanced tracked recorded N r"
  proof -
    have "filter_mset tracked (mset (case first of None \<Rightarrow> [] | Some p \<Rightarrow> [p])) + owed tracked (sd', ti) =
        owed tracked ?st + filter_mset tracked (mset ops)"
    proof (cases ops)
      case (Cons p rest)
      with c owed_deferred [of tracked rest True ?st] show ?thesis
        by (auto simp: io_cleanup_def split: if_splits)
    qed (use c in \<open>auto simp: io_cleanup_def\<close>)
    moreover have "owed tracked (sr_sched r, sr_thread r) = owed tracked ?st"
      using q Descriptor by (simp add: owed_def)
    ultimately show ?thesis
      using that o(5) mset_exchange [of _ "owed tracked (sd', ti)"] by (simp add: balanced_def r1 noted_def)
  qed
  ultimately show ?thesis using o(5) by (simp add: r1)
qed

end

section \<open>What the world goes through\<close>

text \<open>A reflexive and transitive relation that performing respects holds between the worlds before and
  after any call and any turn.\<close>

locale world_relation =
  fixes perform :: "'u \<Rightarrow> 'w \<Rightarrow> op_status \<times> 'w"
    and rel :: "'w \<Rightarrow> 'w \<Rightarrow> bool"
  assumes perform_rel: "perform p w = (status, w') \<Longrightarrow> rel w w'"
    and rel_refl [simp]: "rel w w"
    and rel_trans: "rel u v \<Longrightarrow> rel v w \<Longrightarrow> rel u w"
begin

lemma perform_queue_rel: "perform_queue perform ps w = (c, r, x, w') \<Longrightarrow> rel w w'"
proof (induction ps arbitrary: w c r x w')
  case (Cons p ps)
  obtain st w1 where p: "perform p w = (st, w1)" by fastforce
  obtain c2 r2 x2 w2 where q: "perform_queue perform ps w1 = (c2, r2, x2, w2)" by (metis prod_cases4)
  from Cons.prems p q have "w' = w1 \<or> w' = w2" by (auto split: op_status.splits)
  with perform_rel [OF p] Cons.IH [OF q] rel_trans show ?case by blast
qed simp

lemma perform_type_rel: "perform_type perform events ot (ds, ops, w) = (ds', ops', w') \<Longrightarrow> rel w w'"
  by (auto simp: perform_type_def Let_def split: prod.splits if_splits dest: perform_queue_rel)

lemma perform_io_rel:
  assumes "perform_io perform events ds w = (ds', ops, w')"
  shows "rel w w'"
proof -
  obtain ds1 ops1 w1 where 1: "perform_type perform events Except_op (ds, [], w) = (ds1, ops1, w1)"
    by (metis prod_cases3)
  obtain ds2 ops2 w2 where 2: "perform_type perform events Write_op (ds1, ops1, w1) = (ds2, ops2, w2)"
    by (metis prod_cases3)
  have "perform_type perform events Read_op (ds2, ops2, w2) = (ds', ops, w')"
    using assms 1 2 by (simp add: perform_io_def)
  with perform_type_rel [OF 1] perform_type_rel [OF 2] show ?thesis by (blast intro: rel_trans perform_type_rel)
qed

lemma make_call_rel:
  assumes "make_call perform in_thread c r = Some r'" shows "rel (sr_world r) (sr_world r')"
proof (cases c)
  case (Call_start ot data p cont spec ctl)
  obtain s' w where 1: "reactor_start_op perform ot data p cont spec ctl in_thread
      (sr_reactor r, sr_sched r, sr_thread r) (sr_world r) = (s', w)"
    by fastforce
  obtain status w1 where p: "perform p (sr_world r) = (status, w1)" by fastforce
  have "rel (sr_world r) w"
    using 1 p by (cases rule: start_op_cases) (use perform_rel [OF p] in auto)
  with assms Call_start 1 show ?thesis by (auto split: if_splits prod.splits)
qed (use assms in \<open>auto simp: on_sched_def on_reactor_def split: if_splits prod.splits\<close>)

lemma take_operation_rel:
  "take_operation perform item r = (first, r1) \<Longrightarrow> rel (sr_world r) (sr_world r1)"
  by (auto simp: take_operation_def descriptor_complete_def Let_def dest: perform_io_rel
    split: reactor_item.splits prod.splits option.splits)

end

end
