(* ===== verification/Oef_Asio_Async_Facts.thy ===== *)
theory Oef_Asio_Async_Facts
  imports Oef_Asio_Async Oef_Asio_Record Oef_Asio_Transfer_Facts
begin

text \<open>
  Facts about several asynchronous writes in one loop: what each of them put on its socket, in
  which order the bytes of different writes come, and when they mix.
\<close>

section \<open>One send\<close>

text \<open>What \<open>sendmsg\<close> documents: it takes no more than it is offered, something of a stream that is not empty,
  and an error has a code.\<close>

definition sound_sends :: "'w posix \<Rightarrow> bool" where
  "sound_sends P \<longleftrightarrow> (\<forall>s bufs w. case px_sendmsg P s bufs w of (res, errno, w') \<Rightarrow>
     res \<le> int (length (concat bufs)) \<and> (concat bufs \<noteq> [] \<longrightarrow> res \<noteq> 0) \<and> (res < 0 \<longrightarrow> errno \<noteq> 0))"

definition entry_ok :: "nat \<Rightarrow> asio_ec \<Rightarrow> nat \<Rightarrow> bool" where
  "entry_ok len ec n \<longleftrightarrow> n \<le> len \<and> (ec_failed ec \<longrightarrow> n = 0) \<and> (\<not> ec_failed ec \<longrightarrow> 0 < n \<or> len = 0)"

lemma non_blocking_send_entry:
  assumes "sound_sends P" "non_blocking_send P s bufs b w = Some (True, ec, n, w')"
  shows "entry_ok (length (concat bufs)) ec n"
proof -
  let ?Q = "\<lambda>((((P, s), bufs), b), w) (fin, ec, n, w').
    sound_sends P \<longrightarrow> fin \<longrightarrow> entry_ok (length (concat bufs)) ec n"
  have "?Q ((((P, s), bufs), b), w) (True, ec, n, w')"
  proof (rule non_blocking_send.raw_induct [OF _ assms(2)])
    fix f P s bufs b w r
    assume ih: "\<And>P' s' bufs' b' w' r'. f P' s' bufs' b' w' = Some r' \<Longrightarrow> ?Q ((((P', s'), bufs'), b'), w') r'"
      and body: "(let (bytes, ec, w1) = socket_send P s bufs w in
        if ec = interrupted then f P s bufs b w1
        else if ec = would_block \<or> ec = try_again then Some (False, ec, b, w1)
        else if bytes \<ge> 0 then Some (True, ec_ok, nat bytes, w1)
        else Some (True, ec, 0, w1)) = Some r"
    obtain res errno w1 where send: "px_sendmsg P s bufs w = (res, errno, w1)" by (metis prod_cases3)
    have "res \<le> int (length (concat bufs))" "concat bufs \<noteq> [] \<Longrightarrow> res \<noteq> 0" "res < 0 \<Longrightarrow> errno \<noteq> 0" if "sound_sends P"
    proof -
      note a = that [unfolded sound_sends_def]
      from spec [OF spec [OF spec [OF a, of s], of bufs], of w] send show "res \<le> int (length (concat bufs))" "concat bufs \<noteq> [] \<Longrightarrow> res \<noteq> 0" "res < 0 \<Longrightarrow> errno \<noteq> 0"
        by simp_all
    qed
    note sound = this
    define e where "e = (if res \<ge> 0 then ec_ok else error_wrapper errno)"
    have v: "socket_send P s bufs w = (res, e, w1)" by (simp add: socket_send_def send e_def)
    have err: "ec_failed e" if "res < 0" "sound_sends P"
      using that sound(3) by (simp add: e_def ec_failed_def error_wrapper_def ec_value_def)
    have ok: "\<not> ec_failed ec_ok" by (simp add: ec_failed_def ec_ok_def ec_value_def)
    show "?Q ((((P, s), bufs), b), w) r"
    proof (cases "e = interrupted")
      case True
      with body v ih [of P s bufs b w1 r] show ?thesis by simp
    next
      case False
      with body v have "r = (if e = would_block \<or> e = try_again then (False, e, b, w1)
          else if res \<ge> 0 then (True, ec_ok, nat res, w1) else (True, e, 0, w1))"
        by (auto split: if_splits)
      then show ?thesis
        using sound err ok by (cases "concat bufs = []") (auto simp: entry_ok_def)
    qed
  qed
  then show ?thesis using assms(1) by simp
qed

text \<open>The buffers a \<open>write_op\<close> offers are few enough for the adapter.\<close>

lemma prepared_adapter: "adapter_init 0 (cb_prepare c m) = cb_prepare c m" for c :: "byte consuming_buffers"
  by (rule adapter_init_all) (simp add: vector_send.prepare_fits)

definition offered :: "send_op \<Rightarrow> byte list" where
  "offered q = concat (adapter_init 0 (so_buffers q))"

lemma perform_send_entry:
  assumes "sound_sends P" "perform_send P q W = (status, W')"
  shows "\<exists>ec n. sw_log W' = sw_log W @ (if status = Not_done then [] else [(q, ec, n)]) \<and>
    (status \<noteq> Not_done \<longrightarrow> entry_ok (length (offered q)) ec n)"
proof (cases "non_blocking_send P (im_socket (cn_impl (so_conn q))) (adapter_init 0 (so_buffers q)) 0 (sw_env W)")
  case None
  with assms(2) show ?thesis by (simp add: perform_send_def send_op_perform_def)
next
  case (Some r)
  obtain fin ec n w where r: "r = (fin, ec, n, w)" by (metis prod_cases4)
  show ?thesis
  proof (cases fin)
    case True
    with assms(2) Some r non_blocking_send_entry [OF assms(1), of _ "adapter_init 0 (so_buffers q)"] show ?thesis
      by (auto simp: perform_send_def send_op_perform_def offered_def)
  qed (use assms(2) Some r in \<open>auto simp: perform_send_def send_op_perform_def\<close>)
qed

definition net_recorded :: "'w send_world \<Rightarrow> 'x net_op list" where
  "net_recorded W = map (\<lambda>(q, ec, n). Send q) (sw_log W)"

fun net_home :: "'x net_op \<Rightarrow> nat option" where
  "net_home (Send q) = cn_data (so_conn q)"
| "net_home (Other x) = None"

lemma perform_send_log:
  assumes "perform_send P q W = (status, W')"
  shows "\<exists>ec n. sw_log W' = sw_log W @ (if status = Not_done then [] else [(q, ec, n)])"
  using assms by (auto simp: perform_send_def split: option.splits if_splits)

interpretation net: recorder "net_perform P other" is_send net_recorded net_home for P other
proof
  fix p and W W' :: "'a send_world" and status
  assume a: "net_perform P other p W = (status, W')"
  show "net_recorded W' = net_recorded W @ (if is_send p \<and> status \<noteq> Not_done then [p] else [])"
  proof (cases p)
    case (Send q)
    with a perform_send_log [of P q W status W'] show ?thesis by (auto simp: net_perform_def net_recorded_def)
  next
    case (Other x)
    with a show ?thesis by (auto simp: net_perform_def net_recorded_def Let_def split: prod.splits)
  qed
qed

definition log_grows :: "'w send_world \<Rightarrow> 'w send_world \<Rightarrow> bool" where
  "log_grows W W' \<longleftrightarrow> (\<exists>es. sw_log W' = sw_log W @ es \<and> (\<forall>(q, ec, n) \<in> set es. entry_ok (length (offered q)) ec n))"

interpretation net_world: world_relation "net_perform P other" "\<lambda>W W'. sound_sends P \<longrightarrow> log_grows W W'" for P other
proof
  show "sound_sends P \<longrightarrow> log_grows W W" for W :: "'a send_world" by (simp add: log_grows_def)
  show "sound_sends P \<longrightarrow> log_grows U W" if uv: "sound_sends P \<longrightarrow> log_grows U V"
    and vw: "sound_sends P \<longrightarrow> log_grows V W" for U V W :: "'a send_world"
  proof
    assume "sound_sends P"
    with uv vw obtain e1 e2 where "sw_log V = sw_log U @ e1" "sw_log W = sw_log V @ e2"
      "\<forall>(q, ec, n) \<in> set e1. entry_ok (length (offered q)) ec n"
      "\<forall>(q, ec, n) \<in> set e2. entry_ok (length (offered q)) ec n"
      unfolding log_grows_def by blast
    then show "log_grows U W" unfolding log_grows_def by (intro exI [of _ "e1 @ e2"]) auto
  qed
  fix p and W W' :: "'a send_world" and status
  assume a: "net_perform P other p W = (status, W')"
  show "sound_sends P \<longrightarrow> log_grows W W'"
  proof (intro impI, cases p)
    assume P: "sound_sends P"
    fix q assume "p = Send q"
    with a have "perform_send P q W = (status, W')" by (simp add: net_perform_def)
    from perform_send_entry [OF P this] show "log_grows W W'"
      unfolding log_grows_def by (auto intro: exI [of _ "if status = Not_done then [] else [_]"])
  next
    fix x assume "p = Other x"
    with a show "log_grows W W'" by (auto simp: net_perform_def log_grows_def Let_def split: prod.splits)
  qed
qed

section \<open>What each write has done\<close>

text \<open>The bytes of write \<open>k\<close> that reached its socket.\<close>

definition sent_by :: "nat \<Rightarrow> (send_op \<times> asio_ec \<times> nat) list \<Rightarrow> byte list" where
  "sent_by k outcomes =
     concat (map (\<lambda>(q, ec, n). take n (offered q)) (filter (\<lambda>(q, ec, n). so_write q = k) outcomes))"

definition logged_bytes :: "send_op \<Rightarrow> (send_op \<times> asio_ec \<times> nat) list \<Rightarrow> nat" where
  "logged_bytes q outcomes = (case map_of outcomes q of None \<Rightarrow> 0 | Some (ec, n) \<Rightarrow> n)"

fun writes :: "nat \<Rightarrow> 'x net_op \<Rightarrow> bool" where
  "writes k (Send q) \<longleftrightarrow> so_write q = k"
| "writes k (Other x) \<longleftrightarrow> False"

fun is_noop :: "'x net_op \<Rightarrow> bool" where
  "is_noop (Send q) \<longleftrightarrow> offered q = []"
| "is_noop (Other x) \<longleftrightarrow> True"

abbreviation consumed :: "send_op \<Rightarrow> nat" where
  "consumed q \<equiv> cb_total_consumed (so_rest q)"

text \<open>An operation of the write of frame \<open>F\<close>.\<close>

definition op_ok :: "connection \<Rightarrow> byte list \<Rightarrow> send_op \<Rightarrow> bool" where
  "op_ok cn F q \<longleftrightarrow> so_conn q = cn \<and> cb_valid (so_rest q) \<and> cb_rest (so_rest q) = drop (consumed q) F \<and>
     consumed q \<le> length F \<and> so_buffers q = cb_prepare (so_rest q) default_max_transfer_size"

text \<open>\<open>M\<close> are the operations that wait to be completed, \<open>D\<close> those that were. A write that was started has either one
  operation waiting, the furthest of its operations, or its handler was called.\<close>

definition write_active ::
    "connection \<Rightarrow> byte list \<Rightarrow> nat \<Rightarrow> 'x net_op multiset \<Rightarrow> 'x net_op list \<Rightarrow>
     (send_op \<times> asio_ec \<times> nat) list \<Rightarrow> bool" where
  "write_active cn F k M D outcomes \<longleftrightarrow>
     (\<exists>q. filter_mset (writes k) M = {#Send q#} \<and> op_ok cn F q \<and>
        (\<forall>q'. Send q' \<in> set D \<longrightarrow> so_write q' = k \<longrightarrow> consumed q' < consumed q) \<and>
        sent_by k outcomes = take (consumed q + logged_bytes q outcomes) F)"

definition write_finished ::
    "byte list \<Rightarrow> nat \<Rightarrow> 'x net_op multiset \<Rightarrow> (send_op \<times> asio_ec \<times> nat) list \<Rightarrow>
     (nat \<times> asio_ec \<times> nat) list \<Rightarrow> bool" where
  "write_finished F k M outcomes results \<longleftrightarrow>
     filter_mset (writes k) M = {#} \<and>
     (\<exists>ec n. filter (\<lambda>r. fst r = k) results = [(k, ec, n)] \<and> sent_by k outcomes = take n F \<and> n \<le> length F \<and>
        (ec_failed ec \<or> n = length F))"

definition write_ok ::
    "connection \<times> byte list list \<Rightarrow> nat \<Rightarrow> 'x net_op multiset \<Rightarrow> 'x net_op list \<Rightarrow>
     (send_op \<times> asio_ec \<times> nat) list \<Rightarrow> (nat \<times> asio_ec \<times> nat) list \<Rightarrow> bool" where
  "write_ok w k M D outcomes results \<longleftrightarrow>
     write_active (fst w) (concat (snd w)) k M D outcomes \<and> filter (\<lambda>r. fst r = k) results = [] \<or>
     write_finished (concat (snd w)) k M outcomes results"

lemma offered_rest: "op_ok cn F q \<Longrightarrow> n \<le> length (offered q) \<Longrightarrow> take n (offered q) = take n (drop (consumed q) F)"
  by (simp add: op_ok_def offered_def prepared_adapter cb.take_prepare)

lemma offered_le: "op_ok cn F q \<Longrightarrow> consumed q + length (offered q) \<le> length F"
  using cb.prepare_le_rest [of "so_rest q" default_max_transfer_size]
  by (auto simp: op_ok_def offered_def prepared_adapter)

lemma offered_empty:
  assumes "op_ok cn F q" shows "offered q = [] \<longleftrightarrow> consumed q = length F"
proof -
  have "offered q \<noteq> []" if "consumed q \<noteq> length F"
    using cb.prepare_progress [of "so_rest q" default_max_transfer_size] assms that
    by (simp add: op_ok_def offered_def prepared_adapter default_max_transfer_size_def)
  then show ?thesis using offered_le [OF assms] by auto
qed

lemma sent_by_append [simp]: "sent_by k (xs @ ys) = sent_by k xs @ sent_by k ys"
  by (simp add: sent_by_def)

text \<open>New outcomes, of operations that wait and had none.\<close>

lemma write_ok_log:
  assumes w: "write_ok w k M D outcomes results"
    and new: "\<And>q ec n. (q, ec, n) \<in> set es \<Longrightarrow> so_write q = k \<Longrightarrow> Send q \<in># M \<and> n \<le> length (offered q)"
    and dist: "distinct (map fst (outcomes @ es))"
  shows "write_ok w k M D (outcomes @ es) results"
proof (cases "filter (\<lambda>(q, ec, n). so_write q = k) es")
  case Nil
  then have e: "sent_by k es = []" by (simp add: sent_by_def)
  have l: "logged_bytes q (outcomes @ es) = logged_bytes q outcomes" if "so_write q = k" for q
  proof -
    have "map_of es q = None" using Nil that by (auto simp: map_of_eq_None_iff filter_empty_conv)
    then show ?thesis by (simp add: logged_bytes_def map_add_def split: option.split)
  qed
  from w show ?thesis
    unfolding write_ok_def
  proof (elim disjE conjE)
    assume "write_active (fst w) (concat (snd w)) k M D outcomes"
    then obtain q where q: "filter_mset (writes k) M = {#Send q#}" "op_ok (fst w) (concat (snd w)) q"
      "\<forall>q'. Send q' \<in> set D \<longrightarrow> so_write q' = k \<longrightarrow> consumed q' < consumed q"
      "sent_by k outcomes = take (consumed q + logged_bytes q outcomes) (concat (snd w))"
      unfolding write_active_def by blast
    have "Send q \<in># filter_mset (writes k) M" using q(1) by simp
    then have "so_write q = k" by simp
    with l q e have "write_active (fst w) (concat (snd w)) k M D (outcomes @ es)"
      unfolding write_active_def by (intro exI [of _ q]) simp
    moreover assume "filter (\<lambda>r. fst r = k) results = []"
    ultimately show "write_active (fst w) (concat (snd w)) k M D (outcomes @ es) \<and> filter (\<lambda>r. fst r = k) results = [] \<or>
      write_finished (concat (snd w)) k M (outcomes @ es) results" by blast
  qed (simp add: write_finished_def e)
next
  case (Cons x xs)
  obtain q0 ec n where x: "x = (q0, ec, n)" by (metis prod_cases3)
  have in_es: "(q0, ec, n) \<in> set es" "so_write q0 = k"
    using arg_cong [OF Cons, of set] unfolding x by auto
  then have "Send q0 \<in># M" and n: "n \<le> length (offered q0)" using new by blast+
  with in_es(2) have "Send q0 \<in># filter_mset (writes k) M" by simp
  with w obtain q where q: "filter_mset (writes k) M = {#Send q#}" "op_ok (fst w) (concat (snd w)) q"
      "\<forall>q'. Send q' \<in> set D \<longrightarrow> so_write q' = k \<longrightarrow> consumed q' < consumed q"
      "sent_by k outcomes = take (consumed q + logged_bytes q outcomes) (concat (snd w))"
      "filter (\<lambda>r. fst r = k) results = []"
    unfolding write_ok_def write_active_def write_finished_def by auto
  from \<open>Send q0 \<in># filter_mset (writes k) M\<close> q(1) have q0: "q0 = q" by simp
  have same: "q' = q" if "(q', ec', n') \<in> set es" "so_write q' = k" for q' ec' n'
  proof -
    have "Send q' \<in># filter_mset (writes k) M" using new [OF that] that(2) by simp
    then show ?thesis using q(1) by simp
  qed
  have "xs = []"
  proof (rule ccontr)
    assume "xs \<noteq> []"
    then obtain y ys where xs: "xs = y # ys" by (cases xs) auto
    have f: "distinct (map fst (filter (\<lambda>(q, ec, n). so_write q = k) es))"
      using dist by (simp add: distinct_map_filter)
    obtain q' ec' n' where y: "y = (q', ec', n')" by (metis prod_cases3)
    have "y \<in> set (filter (\<lambda>(q, ec, n). so_write q = k) es)" unfolding Cons xs by simp
    then have "fst y = q" using same [of q' ec' n'] unfolding y by simp
    with f show False by (simp add: Cons xs x q0)
  qed
  then have e: "sent_by k es = take n (offered q)" using Cons by (simp add: sent_by_def x q0)
  have "q \<notin> fst ` set outcomes" using dist in_es(1) q0 by force
  then have o: "map_of outcomes q = None" by (simp add: map_of_eq_None_iff)
  have "map_of es q = Some (ec, n)" using dist in_es(1) q0 by simp
  with o have l: "logged_bytes q outcomes = 0" "logged_bytes q (outcomes @ es) = n"
    by (simp_all add: logged_bytes_def map_add_def)
  have "sent_by k (outcomes @ es) = take (consumed q + n) (concat (snd w))"
    using q(4) l(1) e offered_rest [OF q(2)] n q0 by (simp add: take_add)
  with q l(2) show ?thesis unfolding write_ok_def write_active_def by blast
qed

section \<open>The books of the machine\<close>

definition net_inv :: "('x, 'w) net_state \<Rightarrow> 'x net_op multiset \<Rightarrow> 'x net_op list \<Rightarrow> bool" where
  "net_inv s M D \<longleftrightarrow>
     (let r = ns_loop s; outcomes = sw_log (sr_world r); n = length (ns_started s)
      in (\<forall>k < n. write_ok (ns_started s ! k) k M D outcomes (ns_results s)) \<and>
         (\<forall>p k. p \<in># M \<or> p \<in> set D \<longrightarrow> writes k p \<longrightarrow> k < n) \<and> (\<forall>x \<in> set (ns_results s). fst x < n) \<and>
         distinct (filter is_send D) \<and>
         (\<exists>N. list_all is_noop N \<and> balanced is_send net_recorded N r) \<and>
         (\<forall>(q, ec, m) \<in> set outcomes. entry_ok (length (offered q)) ec m \<and> so_write q < n \<and>
            so_conn q = fst (ns_started s ! so_write q)) \<and>
         (\<forall>(p, ec) \<in> set (er_errors (sr_reactor r)). is_send p \<longrightarrow> ec_failed ec) \<and>
         placed is_send net_home (sr_reactor r))"

lemma net_invD:
  assumes "net_inv s M D"
  shows "k < length (ns_started s) \<Longrightarrow>
      write_ok (ns_started s ! k) k M D (sw_log (sr_world (ns_loop s))) (ns_results s)"
    and "p \<in># M \<or> p \<in> set D \<Longrightarrow> writes k p \<Longrightarrow> k < length (ns_started s)"
    and "x \<in> set (ns_results s) \<Longrightarrow> fst x < length (ns_started s)"
    and "distinct (filter is_send D)"
    and "\<exists>N. list_all is_noop N \<and> balanced is_send net_recorded N (ns_loop s)"
    and "(q, ec, n) \<in> set (sw_log (sr_world (ns_loop s))) \<Longrightarrow>
      entry_ok (length (offered q)) ec n \<and> so_write q < length (ns_started s) \<and>
      so_conn q = fst (ns_started s ! so_write q)"
    and "(p, ec) \<in> set (er_errors (sr_reactor (ns_loop s))) \<Longrightarrow> is_send p \<Longrightarrow> ec_failed ec"
    and "placed is_send net_home (sr_reactor (ns_loop s))"
  using assms unfolding net_inv_def Let_def by blast+

lemma net_invI:
  assumes "\<And>k. k < length (ns_started s) \<Longrightarrow>
      write_ok (ns_started s ! k) k M D (sw_log (sr_world (ns_loop s))) (ns_results s)"
    and "\<And>p k. p \<in># M \<or> p \<in> set D \<Longrightarrow> writes k p \<Longrightarrow> k < length (ns_started s)"
    and "\<And>x. x \<in> set (ns_results s) \<Longrightarrow> fst x < length (ns_started s)"
    and "distinct (filter is_send D)"
    and "\<exists>N. list_all is_noop N \<and> balanced is_send net_recorded N (ns_loop s)"
    and "\<And>q ec n. (q, ec, n) \<in> set (sw_log (sr_world (ns_loop s))) \<Longrightarrow>
      entry_ok (length (offered q)) ec n \<and> so_write q < length (ns_started s) \<and>
      so_conn q = fst (ns_started s ! so_write q)"
    and "\<And>p ec. (p, ec) \<in> set (er_errors (sr_reactor (ns_loop s))) \<Longrightarrow> is_send p \<Longrightarrow> ec_failed ec"
    and "placed is_send net_home (sr_reactor (ns_loop s))"
  shows "net_inv s M D"
  using assms unfolding net_inv_def Let_def by blast

text \<open>Between its start and the call of its handler an operation is there once.\<close>

lemma operations_once:
  assumes "net_inv s M D" shows "count (M + mset D) (Send q) \<le> 1"
proof -
  let ?k = "so_write q"
  have d: "count (mset D) (Send q) \<le> 1"
    using net_invD(4) [OF assms, unfolded distinct_count_atmost_1, rule_format, of "Send q"]
    by (auto split: if_splits)
  show ?thesis
  proof (cases "Send q \<in># M")
    case False
    with d show ?thesis by (simp add: not_in_iff)
  next
    case True
    then have k: "?k < length (ns_started s)" using net_invD(2) [OF assms, of "Send q" ?k] by simp
    have f: "Send q \<in># filter_mset (writes ?k) M" using True by simp
    with net_invD(1) [OF assms k] obtain q' where
      q': "filter_mset (writes ?k) M = {#Send q'#}"
        "\<forall>p. Send p \<in> set D \<longrightarrow> so_write p = ?k \<longrightarrow> consumed p < consumed q'"
      unfolding write_ok_def write_active_def write_finished_def by auto
    from f q'(1) have "q' = q" by simp
    with q' have "count (filter_mset (writes ?k) M) (Send q) = 1" "Send q \<notin> set D" by auto
    moreover have "count (filter_mset (writes ?k) M) (Send q) = count M (Send q)" by simp
    ultimately show ?thesis by (simp add: count_mset_0_iff)
  qed
qed

lemma count_distinct: "(\<And>a. count (mset xs) a \<le> 1) \<Longrightarrow> distinct xs"
proof (induction xs)
  case (Cons x xs)
  have "count (mset xs) a \<le> 1" for a using Cons.prems [of a] by (cases "x = a") (simp_all add: count_mset_0_iff [THEN iffD2])
  moreover have "x \<notin> set xs" using Cons.prems [of x] by (auto simp: count_mset_0_iff)
  ultimately show ?case using Cons.IH by simp
qed simp

text \<open>What has an outcome was completed or left the reactor.\<close>

lemma count_noted:
  assumes "balanced is_send net_recorded N r"
  shows "count (mset (sr_done r)) (Send q) + count (owed is_send (sr_sched r, sr_thread r)) (Send q) =
    count (mset (map fst (sw_log (sr_world r)))) q + count (mset (map fst (er_errors (sr_reactor r)))) (Send q) +
    count (mset N) (Send q)"
proof -
  have inj: "count (image_mset (\<lambda>(q, ec, n). Send q) (mset xs)) (Send q) = count (image_mset fst (mset xs)) q"
    for xs :: "(send_op \<times> asio_ec \<times> nat) list"
    by (induction xs) auto
  from arg_cong [OF assms [unfolded balanced_def], of "\<lambda>m. count m (Send q)"] show ?thesis
    by (simp add: noted_def net_recorded_def inj)
qed

lemma owed_held: "owed is_send (sr_sched r, sr_thread r) \<subseteq># mset (held r)"
proof -
  have "owed is_send (sr_sched r, sr_thread r) \<subseteq>#
      mset (users (queued (sd_op_queue (sr_sched r))) @ users (ti_private_queue (sr_thread r)))"
    unfolding owed_def fst_conv snd_conv by (rule multiset_filter_subset)
  also have "\<dots> \<subseteq># mset (held r)" by (simp add: held_def)
  finally show ?thesis .
qed

text \<open>A change of the loop that keeps the operations. What it adds to the log is of operations that wait.\<close>

definition entries_from ::
    "'x net_op multiset \<Rightarrow> ('x net_op, 'w send_world) loop_state \<Rightarrow> ('x net_op, 'w send_world) loop_state \<Rightarrow> bool" where
  "entries_from M r r' \<longleftrightarrow>
     (\<exists>es. sw_log (sr_world r') = sw_log (sr_world r) @ es \<and> (\<forall>(q, ec, n) \<in> set es. Send q \<in># M))"

lemma waiting_conn:
  assumes "net_inv s M D" "Send q \<in># M"
  shows "so_write q < length (ns_started s)" "so_conn q = fst (ns_started s ! so_write q)"
    "filter (\<lambda>r. fst r = so_write q) (ns_results s) = []"
proof -
  show k: "so_write q < length (ns_started s)" using net_invD(2) [OF assms(1), of "Send q"] assms(2) by simp
  have q: "Send q \<in># filter_mset (writes (so_write q)) M" using assms(2) by simp
  with net_invD(1) [OF assms(1) k] obtain q' where q': "filter_mset (writes (so_write q)) M = {#Send q'#}"
    "so_conn q' = fst (ns_started s ! so_write q)" "filter (\<lambda>r. fst r = so_write q) (ns_results s) = []"
    unfolding write_ok_def write_active_def write_finished_def op_ok_def by auto
  from q q'(1) have "q' = q" by simp
  with q' show "so_conn q = fst (ns_started s ! so_write q)" "filter (\<lambda>r. fst r = so_write q) (ns_results s) = []"
    by simp_all
qed

lemma net_inv_loop:
  assumes inv: "net_inv s M D" and ops: "mset (sr_done r') + mset (held r') = mset D + M"
    and grows: "log_grows (sr_world (ns_loop s)) (sr_world r')"
    and bal: "balanced is_send net_recorded N (ns_loop s)" "list_all is_noop N"
      "balanced is_send net_recorded (N @ N') r'" "list_all is_noop N'"
    and errs: "\<And>p ec. (p, ec) \<in> set (er_errors (sr_reactor r')) \<Longrightarrow> is_send p \<Longrightarrow> ec_failed ec"
    and errs_grow: "\<exists>es. er_errors (sr_reactor r') = er_errors (sr_reactor (ns_loop s)) @ es"
    and old: "set D \<subseteq> set (sr_done (ns_loop s))"
    and pl: "placed is_send net_home (sr_reactor r')"
  shows "net_inv (s\<lparr>ns_loop := r'\<rparr>) M D \<and> entries_from M (ns_loop s) r'"
proof -
  let ?r = "ns_loop s"
  from grows obtain es where es: "sw_log (sr_world r') = sw_log (sr_world ?r) @ es"
    "\<forall>(q, ec, n) \<in> set es. entry_ok (length (offered q)) ec n" by (auto simp: log_grows_def)
  have one: "count (mset (map fst (sw_log (sr_world r')))) q + count (mset (map fst (er_errors (sr_reactor r')))) (Send q) +
      count (mset (N @ N')) (Send q) \<le> 1" for q :: send_op
  proof -
    have "count (mset (sr_done r')) (Send q) + count (owed is_send (sr_sched r', sr_thread r')) (Send q) \<le>
        count (mset (sr_done r') + mset (held r')) (Send q)"
      using mset_subset_eq_count [OF owed_held [of r'], of "Send q"] by simp
    also have "\<dots> \<le> 1" unfolding ops using operations_once [OF inv, of q] by (simp add: add.commute)
    finally show ?thesis unfolding count_noted [OF bal(3)] .
  qed
  have dist: "distinct (map fst (sw_log (sr_world ?r) @ es))"
  proof -
    have "count (mset (map fst (sw_log (sr_world r')))) q \<le> 1" for q using one [of q] by simp
    then show ?thesis unfolding es(1) by (rule count_distinct)
  qed
  have new: "Send q \<in># M" if "(q, ec, n) \<in> set es" for q ec n
  proof -
    have pos: "0 < count (mset (map fst es)) q" using that by force
    have "Send q \<notin> set D"
    proof
      assume "Send q \<in> set D"
      then have "Send q \<in> set (sr_done ?r)" using old by blast
      then have "0 < count (mset (sr_done ?r)) (Send q)" by simp
      then have "0 < count (mset (map fst (sw_log (sr_world ?r)))) q +
          count (mset (map fst (er_errors (sr_reactor ?r)))) (Send q) + count (mset N) (Send q)"
        using count_noted [OF bal(1), of q] by linarith
      moreover have "count (mset (map fst (er_errors (sr_reactor ?r)))) (Send q) \<le>
          count (mset (map fst (er_errors (sr_reactor r')))) (Send q)"
        using errs_grow by auto
      ultimately show False
        using one [of q, unfolded es(1) map_append mset_append count_union] pos by linarith
    qed
    moreover have "Send q \<in># mset D + M"
    proof -
      have "0 < count (mset (sr_done r')) (Send q) + count (owed is_send (sr_sched r', sr_thread r')) (Send q)"
        unfolding count_noted [OF bal(3)] es(1) using pos by simp
      then have "Send q \<in># mset (sr_done r') + mset (held r')"
        using mset_subset_eqD [OF owed_held [of r'], of "Send q"] by (auto simp: count_greater_zero_iff)
      then show ?thesis unfolding ops .
    qed
    ultimately show ?thesis by simp
  qed
  have "net_inv (s\<lparr>ns_loop := r'\<rparr>) M D"
  proof (rule net_invI)
    fix k assume k: "k < length (ns_started (s\<lparr>ns_loop := r'\<rparr>))"
    have "write_ok (ns_started s ! k) k M D (sw_log (sr_world ?r) @ es) (ns_results s)"
      by (rule write_ok_log [OF net_invD(1) [OF inv] _ dist]) (use k new es(2) in \<open>auto simp: entry_ok_def\<close>)
    then show "write_ok (ns_started (s\<lparr>ns_loop := r'\<rparr>) ! k) k M D
        (sw_log (sr_world (ns_loop (s\<lparr>ns_loop := r'\<rparr>)))) (ns_results (s\<lparr>ns_loop := r'\<rparr>))"
      by (simp add: es(1))
  next
    show "\<exists>N. list_all is_noop N \<and> balanced is_send net_recorded N (ns_loop (s\<lparr>ns_loop := r'\<rparr>))"
      using bal(2-4) by (intro exI [of _ "N @ N'"]) simp
  next
    fix q ec n assume a: "(q, ec, n) \<in> set (sw_log (sr_world (ns_loop (s\<lparr>ns_loop := r'\<rparr>))))"
    have "so_write q < length (ns_started s) \<and> so_conn q = fst (ns_started s ! so_write q)" if "(q, ec, n) \<in> set es"
      using waiting_conn [OF inv new [OF that]] by simp
    with a es net_invD(6) [OF inv, of q ec n]
    show "entry_ok (length (offered q)) ec n \<and> so_write q < length (ns_started (s\<lparr>ns_loop := r'\<rparr>)) \<and>
        so_conn q = fst (ns_started (s\<lparr>ns_loop := r'\<rparr>) ! so_write q)" by auto
  qed (use net_invD(2-4) [OF inv] errs pl in auto)
  moreover have "entries_from M ?r r'" using es(1) new unfolding entries_from_def by blast
  ultimately show ?thesis ..
qed

section \<open>Handlers\<close>

lemma write_ok_other:
  "\<not> writes k p \<Longrightarrow> write_ok w k (add_mset p M) D outcomes results = write_ok w k M D outcomes results"
  "\<not> writes k p \<Longrightarrow> write_ok w k M (D @ [p]) outcomes results = write_ok w k M D outcomes results"
  "i \<noteq> k \<Longrightarrow> write_ok w k M D outcomes (results @ [(i, ec, n)]) = write_ok w k M D outcomes results"
  by (auto simp: write_ok_def write_active_def write_finished_def)

lemma op_ok_begin: "op_ok cn (concat bufs) (write_begin k cn bufs)" "consumed (write_begin k cn bufs) = 0"
    "so_write (write_begin k cn bufs) = k"
proof -
  have "cb_total_consumed (cb_make bufs) = 0" by (simp add: cb_make_def)
  then show "op_ok cn (concat bufs) (write_begin k cn bufs)" "consumed (write_begin k cn bufs) = 0"
      "so_write (write_begin k cn bufs) = k"
    by (simp_all add: op_ok_def write_begin_def Let_def op_start_1_def cb_valid_make cb_rest_make
      transfer_all_def ec_failed_def ec_ok_def ec_value_def)
qed

lemma net_inv_begin:
  assumes inv: "net_inv s M D"
  shows "net_inv (s\<lparr>ns_started := ns_started s @ [(cn, bufs)]\<rparr>)
    (add_mset (Send (write_begin (length (ns_started s)) cn bufs)) M) D"
proof (rule net_invI)
  let ?n = "length (ns_started s)" and ?s = "s\<lparr>ns_started := ns_started s @ [(cn, bufs)]\<rparr>"
  let ?p = "Send (write_begin ?n cn bufs)"
  fix k assume "k < length (ns_started ?s)"
  then consider "k < ?n" | "k = ?n" by fastforce
  then show "write_ok (ns_started ?s ! k) k (add_mset ?p M) D (sw_log (sr_world (ns_loop ?s))) (ns_results ?s)"
  proof cases
    case 1
    then show ?thesis
      using net_invD(1) [OF inv 1] by (simp add: nth_append write_ok_other(1) op_ok_begin(3))
  next
    case 2
    have "filter_mset (writes ?n) M = {#}"
      using net_invD(2) [OF inv, of _ ?n] by (fastforce simp: filter_mset_eq_conv)
    moreover have "Send q' \<notin> set D" if "so_write q' = ?n" for q'
      using net_invD(2) [OF inv, of "Send q'" ?n] that by auto
    moreover have no: "so_write q \<noteq> ?n" if "(q, ec, n) \<in> set (sw_log (sr_world (ns_loop s)))" for q ec n
      using net_invD(6) [OF inv that] by simp
    then have "sent_by ?n (sw_log (sr_world (ns_loop s))) = []" by (auto simp: sent_by_def)
    moreover have "logged_bytes (write_begin ?n cn bufs) (sw_log (sr_world (ns_loop s))) = 0"
      using no [of "write_begin ?n cn bufs"] by (auto simp: logged_bytes_def op_ok_begin(3) dest!: map_of_SomeD split: option.split)
    moreover have "filter (\<lambda>r. fst r = ?n) (ns_results s) = []"
      using net_invD(3) [OF inv] by (fastforce simp: filter_empty_conv)
    ultimately show ?thesis
      using 2 by (auto simp: write_ok_def write_active_def op_ok_begin)
  qed
next
  fix p k assume "p \<in># add_mset (Send (write_begin (length (ns_started s)) cn bufs)) M \<or> p \<in> set D" "writes k p"
  then show "k < length (ns_started (s\<lparr>ns_started := ns_started s @ [(cn, bufs)]\<rparr>))"
    using net_invD(2) [OF inv, of p k] by (auto simp: op_ok_begin(3))
qed (use net_invD(3-8) [OF inv] in \<open>auto simp: less_Suc_eq nth_append\<close>)

lemma net_inv_other:
  assumes "\<not> is_send p"
  shows "net_inv s M D \<Longrightarrow> net_inv s (add_mset p M) D"
    and "net_inv s (add_mset p M) D \<Longrightarrow> net_inv s M (D @ [p])"
proof -
  have w: "\<not> writes k p" for k using assms by (cases p) simp_all
  show "net_inv s M D \<Longrightarrow> net_inv s (add_mset p M) D"
    using w by (intro net_invI) (auto simp: write_ok_other dest: net_invD)
  show "net_inv s (add_mset p M) D \<Longrightarrow> net_inv s M (D @ [p])"
    using w assms by (intro net_invI) (auto simp: write_ok_other dest: net_invD)
qed

text \<open>While its handler runs, an operation is the last of \<open>D\<close> for the loop and still waits for the writes.\<close>

definition handling :: "('x, 'w) net_state \<Rightarrow> 'x net_op multiset \<Rightarrow> 'x net_op list \<Rightarrow> 'x net_op \<Rightarrow> bool" where
  "handling s M D p \<longleftrightarrow> net_inv s (add_mset p M) D \<and> sr_done (ns_loop s) = D @ [p] \<and> mset (held (ns_loop s)) = M"

lemma outcome_entry:
  assumes h: "handling s M D (Send q)"
    and o: "send_outcome (sw_log (sr_world (ns_loop s))) (er_errors (sr_reactor (ns_loop s))) q = (ec, n)"
  shows "n = logged_bytes q (sw_log (sr_world (ns_loop s))) \<and> entry_ok (length (offered q)) ec n"
proof -
  let ?r = "ns_loop s"
  let ?log = "sw_log (sr_world ?r)" and ?errs = "er_errors (sr_reactor ?r)"
  have inv: "net_inv s (add_mset (Send q) M) D" using h by (simp add: handling_def)
  from net_invD(5) [OF inv] obtain N where N: "list_all is_noop N" "balanced is_send net_recorded N ?r" by blast
  have d: "0 < count (mset (sr_done ?r)) (Send q)" using h by (simp add: handling_def)
  have "count (mset (sr_done ?r)) (Send q) + count (owed is_send (sr_sched ?r, sr_thread ?r)) (Send q) \<le>
      count (mset (sr_done ?r) + mset (held ?r)) (Send q)"
    using mset_subset_eq_count [OF owed_held [of ?r], of "Send q"] by simp
  also have "mset (sr_done ?r) + mset (held ?r) = add_mset (Send q) M + mset D"
    using h by (simp add: handling_def)
  also have "count \<dots> (Send q) \<le> 1" using operations_once [OF inv] .
  finally have one: "count (mset (map fst ?log)) q + count (mset (map fst ?errs)) (Send q) + count (mset N) (Send q) \<le> 1"
    unfolding count_noted [OF N(2)] .
  have pos: "0 < count (mset (map fst ?log)) q + count (mset (map fst ?errs)) (Send q) + count (mset N) (Send q)"
    using d count_noted [OF N(2), of q] by linarith
  have in_log: "0 < count (mset (map fst ?log)) q \<longleftrightarrow> map_of ?log q \<noteq> None"
    by (simp add: map_of_eq_None_iff)
  have in_errs: "0 < count (mset (map fst ?errs)) (Send q) \<longleftrightarrow> map_of ?errs (Send q) \<noteq> None"
    by (simp add: map_of_eq_None_iff)
  show ?thesis
  proof (cases "map_of ?errs (Send q)")
    case (Some e)
    then have "0 < count (mset (map fst ?errs)) (Send q)" using in_errs by simp
    then have "\<not> 0 < count (mset (map fst ?log)) q" using one by linarith
    then have "map_of ?log q = None" unfolding in_log by (rule notnotD)
    moreover have "ec_failed e" using net_invD(7) [OF inv map_of_SomeD [OF Some]] by simp
    ultimately show ?thesis using o Some by (auto simp: send_outcome_def logged_bytes_def entry_ok_def)
  next
    case None
    show ?thesis
    proof (cases "map_of ?log q")
      case (Some e)
      obtain ec' n' where e: "e = (ec', n')" by fastforce
      from net_invD(6) [OF inv map_of_SomeD [OF Some [unfolded e]]] show ?thesis
        using o None Some by (simp add: send_outcome_def logged_bytes_def e)
    next
      case none: None
      have "\<not> 0 < count (mset (map fst ?log)) q" unfolding in_log none by simp
      moreover have "\<not> 0 < count (mset (map fst ?errs)) (Send q)" unfolding in_errs None by simp
      ultimately have "0 < count (mset N) (Send q)" using pos by linarith
      then have "Send q \<in> set N" by simp
      from bspec [OF N(1) [unfolded list_all_iff] this] have "offered q = []" by simp
      then show ?thesis
        using o None none by (auto simp: send_outcome_def logged_bytes_def entry_ok_def ec_failed_def ec_ok_def ec_value_def)
    qed
  qed
qed

text \<open>The write whose operation completes.\<close>

lemma handled_write:
  assumes h: "handling s M D (Send q)"
  shows "so_write q < length (ns_started s) \<and> filter_mset (writes (so_write q)) M = {#} \<and>
    op_ok (fst (ns_started s ! so_write q)) (concat (snd (ns_started s ! so_write q))) q \<and>
    (\<forall>q'. Send q' \<in> set D \<longrightarrow> so_write q' = so_write q \<longrightarrow> consumed q' < consumed q) \<and>
    sent_by (so_write q) (sw_log (sr_world (ns_loop s))) =
      take (consumed q + logged_bytes q (sw_log (sr_world (ns_loop s)))) (concat (snd (ns_started s ! so_write q))) \<and>
    filter (\<lambda>r. fst r = so_write q) (ns_results s) = [] \<and> Send q \<notin> set D"
proof -
  let ?k = "so_write q"
  have inv: "net_inv s (add_mset (Send q) M) D" using h by (simp add: handling_def)
  have k: "?k < length (ns_started s)" using net_invD(2) [OF inv, of "Send q" ?k] by simp
  from net_invD(1) [OF inv k] obtain q' where q':
    "add_mset (Send q) (filter_mset (writes ?k) M) = {#Send q'#}"
    "op_ok (fst (ns_started s ! ?k)) (concat (snd (ns_started s ! ?k))) q'"
    "\<forall>p. Send p \<in> set D \<longrightarrow> so_write p = ?k \<longrightarrow> consumed p < consumed q'"
    "sent_by ?k (sw_log (sr_world (ns_loop s))) =
      take (consumed q' + logged_bytes q' (sw_log (sr_world (ns_loop s)))) (concat (snd (ns_started s ! ?k)))"
    "filter (\<lambda>r. fst r = ?k) (ns_results s) = []"
    unfolding write_ok_def write_active_def write_finished_def by auto
  from q'(1) have "q' = q" "filter_mset (writes ?k) M = {#}" by (auto simp: add_mset_eq_single)
  with q' k show ?thesis by auto
qed

lemma write_handler_cases:
  assumes "write_handler q ec n = (act, c)"
  shows "c = cb_consume (so_rest q) n \<and>
    (if (\<not> ec_failed ec \<and> n = 0) \<or> cb_empty c \<or> ec_failed ec then act = Call_handler ec (cb_total_consumed c)
     else act = Transfer_some (cb_prepare c default_max_transfer_size))"
  using assms
  by (auto simp: write_handler_def write_op_call_def Let_def transfer_all_def default_max_transfer_size_def split: if_splits)

lemma net_inv_handler_append:
  assumes h: "handling s M D (Send q)" and k: "k \<noteq> so_write q" "k < length (ns_started s)"
  shows "write_ok (ns_started s ! k) k M (D @ [Send q]) (sw_log (sr_world (ns_loop s))) (ns_results s)"
  using net_invD(1) [of s "add_mset (Send q) M" D k] h k by (simp add: handling_def write_ok_other)

lemma net_inv_continue:
  assumes h: "handling s M D (Send q)"
    and o: "send_outcome (sw_log (sr_world (ns_loop s))) (er_errors (sr_reactor (ns_loop s))) q = (ec, n)"
    and w: "write_handler q ec n = (Transfer_some bufs, c)"
  shows "net_inv s (add_mset (Send (write_continue q bufs c)) M) (D @ [Send q])"
proof -
  let ?k = "so_write q" and ?p = "Send (write_continue q bufs c)"
  let ?log = "sw_log (sr_world (ns_loop s))" and ?F = "concat (snd (ns_started s ! so_write q))"
  have inv: "net_inv s (add_mset (Send q) M) D" using h by (simp add: handling_def)
  note hw = handled_write [OF h]
  note out = outcome_entry [OF h o]
  from write_handler_cases [OF w] have c: "c = cb_consume (so_rest q) n" "bufs = cb_prepare c default_max_transfer_size"
    "0 < n" "\<not> cb_empty c" by (auto split: if_splits)
  have opq: "op_ok (fst (ns_started s ! ?k)) ?F q" using hw by simp
  have valid: "cb_valid (so_rest q)" using opq by (simp add: op_ok_def)
  have t: "cb_total_consumed c = consumed q + n" by (simp add: c(1) cb.total_consume)
  have "n \<le> length (offered q)" using out by (simp add: entry_ok_def)
  then have "consumed q + n \<le> length ?F" using offered_le [OF opq] by simp
  then have ok: "op_ok (fst (ns_started s ! ?k)) ?F (write_continue q bufs c)"
    using opq t c by (simp add: op_ok_def write_continue_def cb.valid_consume cb.rest_consume add.commute)
  have c_more: "consumed (write_continue q bufs c) = consumed q + n" "so_write (write_continue q bufs c) = ?k"
    using t by (simp_all add: write_continue_def)
  have new: "write_continue q bufs c \<notin> fst ` set ?log"
  proof
    assume "write_continue q bufs c \<in> fst ` set ?log"
    then have a: "0 < count (mset (map fst ?log)) (write_continue q bufs c)" by simp
    from net_invD(5) [OF inv] obtain N where N: "balanced is_send net_recorded N (ns_loop s)" by blast
    have "0 < count (mset (sr_done (ns_loop s))) ?p + count (owed is_send (sr_sched (ns_loop s), sr_thread (ns_loop s))) ?p"
      using a unfolding count_noted [OF N] by simp
    then have "?p \<in> set (sr_done (ns_loop s)) \<or> ?p \<in># owed is_send (sr_sched (ns_loop s), sr_thread (ns_loop s))"
      by (simp add: count_greater_zero_iff)
    then have "?p \<in> set (D @ [Send q]) \<or> ?p \<in># M"
      using h mset_subset_eqD [OF owed_held [of "ns_loop s"], of ?p] by (auto simp: handling_def)
    moreover have "?p \<notin># M"
    proof
      assume "?p \<in># M"
      then have "?p \<in># filter_mset (writes ?k) M" by (simp add: c_more)
      then show False using hw by simp
    qed
    ultimately show False using hw c_more c(3) by auto
  qed
  then have lb: "logged_bytes (write_continue q bufs c) ?log = 0"
    by (simp add: logged_bytes_def map_of_eq_None_iff [THEN iffD2])
  show ?thesis
  proof (rule net_invI)
    fix k assume k: "k < length (ns_started s)"
    show "write_ok (ns_started s ! k) k (add_mset ?p M) (D @ [Send q]) ?log (ns_results s)"
    proof (cases "k = ?k")
      case True
      have "write_active (fst (ns_started s ! ?k)) ?F ?k (add_mset ?p M) (D @ [Send q]) ?log"
        unfolding write_active_def
        by (intro exI [of _ "write_continue q bufs c"]) (use hw ok c_more lb out c(3) in \<open>auto simp: trans_less_add1\<close>)
      then show ?thesis using hw True by (simp add: write_ok_def)
    next
      case False
      then have "\<not> writes k ?p" by (simp add: c_more)
      with net_inv_handler_append [OF h False k] show ?thesis by (simp add: write_ok_other)
    qed
  next
    show "distinct (filter is_send (D @ [Send q]))" using net_invD(4) [OF inv] hw by simp
  next
    fix p k assume "p \<in># add_mset ?p M \<or> p \<in> set (D @ [Send q])" "writes k p"
    with net_invD(2) [OF inv, of p k] hw c_more show "k < length (ns_started s)" by auto
  qed (use net_invD [OF inv] in auto)
qed

lemma net_inv_finish:
  assumes h: "handling s M D (Send q)"
    and o: "send_outcome (sw_log (sr_world (ns_loop s))) (er_errors (sr_reactor (ns_loop s))) q = (ec, n)"
    and w: "write_handler q ec n = (Call_handler ec' len, c)"
  shows "net_inv (s\<lparr>ns_results := ns_results s @ [(so_write q, ec', len)]\<rparr>) M (D @ [Send q])"
proof -
  let ?k = "so_write q" and ?s = "s\<lparr>ns_results := ns_results s @ [(so_write q, ec', len)]\<rparr>"
  let ?log = "sw_log (sr_world (ns_loop s))" and ?F = "concat (snd (ns_started s ! so_write q))"
  have inv: "net_inv s (add_mset (Send q) M) D" using h by (simp add: handling_def)
  note hw = handled_write [OF h]
  note out = outcome_entry [OF h o]
  from write_handler_cases [OF w] have c: "c = cb_consume (so_rest q) n" "ec' = ec" "len = cb_total_consumed c"
    "\<not> ec_failed ec \<and> n = 0 \<or> cb_empty c \<or> ec_failed ec" by (auto split: if_splits)
  have opq: "op_ok (fst (ns_started s ! ?k)) ?F q" using hw by simp
  have valid: "cb_valid (so_rest q)" using opq by (simp add: op_ok_def)
  have t: "len = consumed q + n" by (simp add: c(1,3) cb.total_consume)
  have "n \<le> length (offered q)" using out by (simp add: entry_ok_def)
  then have le: "len \<le> length ?F" using offered_le [OF opq] t by simp
  have full: "len = length ?F" if "\<not> ec_failed ec"
    using c(4)
  proof (elim disjE conjE)
    assume "n = 0"
    then have "offered q = []" using out that by (auto simp: entry_ok_def)
    with offered_empty [OF opq] t \<open>n = 0\<close> show ?thesis by simp
  next
    assume "cb_empty c"
    then have "cb_rest c = []" using valid by (simp add: c(1) cb.empty_iff cb.valid_consume)
    then have "length ?F \<le> len"
      using opq t valid by (simp add: c(1) cb.rest_consume op_ok_def)
    with le show ?thesis by simp
  qed (use that in simp)
  have fin: "write_finished ?F ?k M ?log (ns_results ?s)"
    using hw c(2) le full t out by (auto simp: write_finished_def)
  show ?thesis
  proof (rule net_invI)
    fix k assume k: "k < length (ns_started ?s)"
    show "write_ok (ns_started ?s ! k) k M (D @ [Send q]) (sw_log (sr_world (ns_loop ?s))) (ns_results ?s)"
    proof (cases "k = ?k")
      case True
      with fin show ?thesis by (simp add: write_ok_def)
    next
      case False
      with net_inv_handler_append [OF h False] k show ?thesis by (simp add: write_ok_other)
    qed
  next
    show "distinct (filter is_send (D @ [Send q]))" using net_invD(4) [OF inv] hw by simp
  next
    fix p k assume "p \<in># M \<or> p \<in> set (D @ [Send q])" "writes k p"
    with net_invD(2) [OF inv, of p k] hw show "k < length (ns_started ?s)" by auto
  next
    fix x assume "x \<in> set (ns_results ?s)"
    with net_invD(3) [OF inv, of x] hw show "fst x < length (ns_started ?s)" by auto
  qed (use net_invD(5-8) [OF inv] in auto)
qed

end
