(* ===== verification/Oef_Asio_Async_Steps.thy ===== *)
theory Oef_Asio_Async_Steps
  imports Oef_Asio_Async_Facts
begin

text \<open>
  The steps of the machine of asynchronous writes, taken apart: every step of \<open>net_step\<close> is a
  sequence of starts, continuations and ends of writes and of changes of the loop between them.
  The locale \<open>net_observer\<close> proves once, for any invariant that these keep, that every reachable
  state has it.
\<close>

section \<open>Steps\<close>

text \<open>A state between two operations of a handler, or between two turns.\<close>

definition net_good :: "('x, 'w) net_state \<Rightarrow> bool" where
  "net_good s \<longleftrightarrow> net_inv s (mset (held (ns_loop s))) (sr_done (ns_loop s)) \<and> pool_ok (sr_reactor (ns_loop s))"

lemma all_empty_iff: "adapter_all_empty i bufs \<longleftrightarrow> concat (adapter_init i bufs) = []"
  by (induction i bufs rule: adapter_all_empty.induct) auto

lemma failed_errors [simp]:
  "ec_failed bad_descriptor" "ec_failed operation_not_supported" "ec_failed operation_aborted"
  "n \<noteq> 0 \<Longrightarrow> ec_failed (System_error n)"
  by (simp_all add: ec_failed_def bad_descriptor_def operation_not_supported_def operation_aborted_def ec_value_def)

text \<open>A call that starts no send but proper ones.\<close>

definition good_call :: "'x net_op reactor \<Rightarrow> 'x net_op sched_call \<Rightarrow> bool" where
  "good_call er c \<longleftrightarrow> proper_call is_send net_home er c \<and> list_all is_noop (posted_operations c) \<and>
     (\<forall>ot data p cont spec ctl. c = Call_start ot data p cont spec ctl \<longrightarrow> is_send p \<longrightarrow> fst ctl \<noteq> 0 \<longrightarrow> snd ctl \<noteq> 0)"

lemma not_send_noop: "\<not> is_send p \<Longrightarrow> is_noop p" by (cases p) simp_all

lemma good_call_other: "starts_no_send c \<Longrightarrow> good_call er c"
  by (cases c) (auto simp: good_call_def not_send_noop)

lemma good_call_send:
  assumes "is_registered (cn_data (so_conn q)) er"
  shows "good_call er (send_call q cont errno)"
  using assms
  by (auto simp: good_call_def send_call_def is_registered_def ctl_result_def all_empty_iff offered_def)

text \<open>What a change of the loop adds: outcomes of \<open>M\<close>, errors, and, if there are no new errors, the operations
  \<open>ps\<close> at the end of their descriptors.\<close>

abbreviation net_order :: "nat \<Rightarrow> ('x net_op, 'w send_world) loop_state \<Rightarrow> 'x net_op list" where
  "net_order j r \<equiv> order_of is_send net_home j (sr_reactor r) (net_recorded (sr_world r))"

definition grown ::
    "'x net_op multiset \<Rightarrow> 'x net_op list \<Rightarrow> ('x net_op, 'w send_world) loop_state \<Rightarrow>
     ('x net_op, 'w send_world) loop_state \<Rightarrow> bool" where
  "grown M ps r r' \<longleftrightarrow> entries_from M r r' \<and>
     (\<exists>es. er_errors (sr_reactor r') = er_errors (sr_reactor r) @ es) \<and>
     (er_errors (sr_reactor r') = er_errors (sr_reactor r) \<longrightarrow>
       (\<forall>j. net_order j r' = net_order j r @ filter (\<lambda>p. net_home p = Some j) ps))"

lemma at_home: "filter (\<lambda>p. is_send p \<and> net_home p = Some j) ps = filter (\<lambda>p. net_home p = Some j) ps"
proof (rule filter_cong [OF refl])
  show "(is_send p \<and> net_home p = Some j) = (net_home p = Some j)" for p :: "'x net_op" by (cases p) auto
qed

lemma no_send_home: "starts_no_send c \<Longrightarrow> filter (\<lambda>p. net_home p = Some j) (started_operations c) = []"
proof (cases c)
  case (Call_start ot data p cont spec ctl)
  then show "starts_no_send c \<Longrightarrow> ?thesis" by (cases p) simp_all
qed simp_all

lemma entries_from_no_send:
  "starts_no_send c \<Longrightarrow> entries_from (M + mset (new_operations c)) r r' \<Longrightarrow> entries_from M r r'"
  unfolding entries_from_def by (cases c) fastforce+

lemma call_inv:
  assumes inv: "net_inv s (mset (held (ns_loop s)) + mset (new_operations c)) (sr_done (ns_loop s))"
    and c: "make_call (net_perform P other) in_thread c (ns_loop s) = Some r'" "good_call (sr_reactor (ns_loop s)) c"
    and pool: "pool_ok (sr_reactor (ns_loop s))" and P: "sound_sends P"
  shows "net_good (s\<lparr>ns_loop := r'\<rparr>) \<and>
    grown (mset (held (ns_loop s)) + mset (new_operations c)) (started_operations c) (ns_loop s) r'"
proof -
  let ?r = "ns_loop s"
  note e = make_call_effect [OF c(1) pool]
  have h: "mset (held r') = mset (held ?r) + mset (new_operations c)" "sr_done r' = sr_done ?r"
    using e by (simp_all add: call_effect_def)
  obtain N where N: "list_all is_noop N" "balanced is_send net_recorded N ?r" using net_invD(5) [OF inv] by blast
  have p: "proper_call is_send net_home (sr_reactor ?r) c" using c(2) by (simp add: good_call_def)
  note order = net.make_call_order [OF c(1) p pool net_invD(8) [OF inv], unfolded at_home]
  then have pl: "placed is_send net_home (sr_reactor r')" by blast
  from net.make_call_grows [OF c(1)] obtain es where es: "er_errors (sr_reactor r') = er_errors (sr_reactor ?r) @ es"
    "\<forall>(p, ec) \<in> set es. ec \<in> {bad_descriptor, operation_not_supported, operation_aborted} \<or>
       (\<exists>ot data cont spec ctl. c = Call_start ot data p cont spec ctl \<and> fst ctl \<noteq> 0 \<and> ec = System_error (snd ctl))"
    by blast
  have l: "net_inv (s\<lparr>ns_loop := r'\<rparr>) (mset (held ?r) + mset (new_operations c)) (sr_done ?r) \<and>
    entries_from (mset (held ?r) + mset (new_operations c)) ?r r'"
  proof (rule net_inv_loop [OF inv _ _ N(2,1) settles_balanced [OF net.make_call_settles [OF c(1) p] h(2) N(2)] _ _ _ _ pl])
    show "mset (sr_done r') + mset (held r') = mset (sr_done ?r) + (mset (held ?r) + mset (new_operations c))"
      using h by simp
    show "log_grows (sr_world ?r) (sr_world r')"
      using net_world.make_call_rel [OF c(1)] P by blast
    show "list_all is_noop (posted_operations c)" using c(2) by (simp add: good_call_def)
    show "\<exists>es. er_errors (sr_reactor r') = er_errors (sr_reactor ?r) @ es" using es(1) by blast
    fix p ec assume "(p, ec) \<in> set (er_errors (sr_reactor r'))" "is_send p"
    with es net_invD(7) [OF inv, of p ec] c(2) show "ec_failed ec"
      by (fastforce simp: good_call_def)
  qed simp
  moreover have "grown (mset (held ?r) + mset (new_operations c)) (started_operations c) ?r r'"
    unfolding grown_def using l order es(1) by blast
  ultimately show ?thesis using h e pool by (simp add: net_good_def call_effect_def)
qed

lemma send_call_new [simp]: "new_operations (send_call q cont errno) = [Send q]"
  by (simp add: send_call_def)

lemma async_send_good:
  assumes "async_send (net_perform P other) in_thread q cont errno (ns_loop s) = Some r'"
    and inv: "net_inv s (add_mset (Send q) (mset (held (ns_loop s)))) (sr_done (ns_loop s))"
    and pool: "pool_ok (sr_reactor (ns_loop s))" and P: "sound_sends P"
  shows "net_good (s\<lparr>ns_loop := r'\<rparr>) \<and>
    grown (add_mset (Send q) (mset (held (ns_loop s)))) (started_operations (send_call q cont errno)) (ns_loop s) r'"
proof -
  have c: "make_call (net_perform P other) in_thread (send_call q cont errno) (ns_loop s) = Some r'"
    "is_registered (cn_data (so_conn q)) (sr_reactor (ns_loop s))"
    using assms(1) by (simp_all add: async_send_def split: if_splits)
  show ?thesis
    using call_inv [OF _ c(1) good_call_send [OF c(2)] pool P] inv by simp
qed

text \<open>The start of a turn is the one of the loop.\<close>

lemma begin_turn_sched:
  assumes "begin_turn perform r = Some (h, r1)" "make_calls perform True calls r1 = Some r2" "h = None \<Longrightarrow> calls = []"
  shows "sched_turn perform (Handler calls) r = Some (on_sched work_cleanup r2)"
  using assms
  by (auto simp: begin_turn_def sched_turn_def operation_turn_def Let_def split: if_splits list.splits sched_item.splits)

lemma begin_turn_item:
  assumes "begin_turn perform r = Some (h, r1)"
  obtains item sd where "sd_op_queue (sr_sched r) = Operation item # sd_op_queue sd" "\<not> sd_stopped (sr_sched r)"
    "sd_outstanding_work sd = sd_outstanding_work (sr_sched r)" "sd_stopped sd = sd_stopped (sr_sched r)"
    "take_operation perform item (r\<lparr>sr_sched := sd\<rparr>) = (h, r1)"
proof -
  from assms obtain item rest where q: "sd_op_queue (sr_sched r) = Operation item # rest" "\<not> sd_stopped (sr_sched r)"
    by (auto simp: begin_turn_def split: if_splits list.splits sched_item.splits)
  define sd where "sd = (let sd = (sr_sched r)\<lparr>sd_op_queue := rest\<rparr>
    in if rest \<noteq> [] \<and> \<not> sd_one_thread sd then wake_one_thread sd else sd)"
  have "take_operation perform item (r\<lparr>sr_sched := sd\<rparr>) = (h, r1)"
    using assms q by (simp add: begin_turn_def sd_def Let_def)
  moreover have "sd_op_queue sd = rest" "sd_outstanding_work sd = sd_outstanding_work (sr_sched r)"
    "sd_stopped sd = sd_stopped (sr_sched r)" by (simp_all add: sd_def Let_def)
  ultimately show ?thesis using q by (intro that) auto
qed

lemma begin_turn_inv:
  assumes g: "net_good s" and b: "begin_turn (net_perform P other) (ns_loop s) = Some (h, r1)" and P: "sound_sends P"
    and bk: "books 0 (ns_loop s)" "idle_thread (ns_loop s)"
  shows "net_inv (s\<lparr>ns_loop := r1\<rparr>) (mset (held (ns_loop s))) (sr_done (ns_loop s)) \<and>
    pool_ok (sr_reactor r1) \<and> grown (mset (held (ns_loop s))) [] (ns_loop s) r1 \<and>
    (case h of None \<Rightarrow> mset (held r1) = mset (held (ns_loop s)) \<and> sr_done r1 = sr_done (ns_loop s)
     | Some p \<Rightarrow> mset (held (ns_loop s)) = add_mset p (mset (held r1)) \<and> sr_done r1 = sr_done (ns_loop s) @ [p])"
proof -
  let ?r = "ns_loop s"
  have inv: "net_inv s (mset (held ?r)) (sr_done ?r)" and pool: "pool_ok (sr_reactor ?r)"
    using g by (simp_all add: net_good_def)
  from begin_turn_item [OF b] obtain item sd where
    q: "sd_op_queue (sr_sched ?r) = Operation item # sd_op_queue sd"
      "take_operation (net_perform P other) item (?r\<lparr>sr_sched := sd\<rparr>) = (h, r1)" by metis
  have i: "i < length (er_states (sr_reactor ?r))" if "item = Descriptor i" for i
    using bk(1) q(1) that by (auto simp: books_def)
  have h0: "mset (held ?r) = mset (users [item]) + mset (held (?r\<lparr>sr_sched := sd\<rparr>))"
    using q(1) items_cons(2) [of item "queued (sd_op_queue sd)"] by (simp add: held_def)
  have "(case h of None \<Rightarrow> mset (held r1) = mset (held ?r) \<and> sr_done r1 = sr_done ?r
     | Some p \<Rightarrow> mset (held ?r) = add_mset p (mset (held r1)) \<and> sr_done r1 = sr_done ?r @ [p]) \<and>
     pool_ok (sr_reactor r1)"
  proof (cases h)
    case None
    from take_operation_none [OF q(2) [unfolded None]] i have
      "users [item] = []" "mset (held r1) = mset (held (?r\<lparr>sr_sched := sd\<rparr>))" "sr_done r1 = sr_done ?r"
      "pool_ok (sr_reactor ?r) \<longrightarrow> pool_ok (sr_reactor r1)" by simp_all
    with h0 None pool show ?thesis by simp
  next
    case (Some p)
    from take_operation_first [OF q(2) [unfolded Some]] i have
      "mset (users [item]) + mset (held (?r\<lparr>sr_sched := sd\<rparr>)) = mset (held r1) + {#p#}"
      "sr_done r1 = sr_done ?r @ [p]" "pool_ok (sr_reactor ?r) \<longrightarrow> pool_ok (sr_reactor r1)" by auto
    with h0 Some pool show ?thesis by simp
  qed
  note ops = this
  obtain N where N: "list_all is_noop N" "balanced is_send net_recorded N ?r" using net_invD(5) [OF inv] by blast
  from net.take_operation_record [OF q(2,1) i net_invD(8) [OF inv], of N 0] N have
    t: "balanced is_send net_recorded N r1" "placed is_send net_home (sr_reactor r1)"
      "er_errors (sr_reactor r1) = er_errors (sr_reactor ?r)" by simp_all
  have order: "net_order j r1 = net_order j ?r" for j
    using net.take_operation_record [OF q(2,1) i net_invD(8) [OF inv], of N j] by blast
  have w: "log_grows (sr_world ?r) (sr_world r1)"
    using net_world.take_operation_rel [OF q(2)] P by simp
  have "net_inv (s\<lparr>ns_loop := r1\<rparr>) (mset (held ?r)) (sr_done ?r) \<and> entries_from (mset (held ?r)) ?r r1"
    by (rule net_inv_loop [OF inv _ w N(2,1), where N' = "[]"])
      (use ops t net_invD(7) [OF inv] in \<open>auto split: option.splits\<close>)
  with ops t(3) order show ?thesis by (simp add: grown_def)
qed

text \<open>A turn keeps the books, and is a turn of the loop.\<close>

lemma cleanup_parts [simp]:
  "mset (held (on_sched work_cleanup r)) = mset (held r)"
  "sr_done (on_sched work_cleanup r) = sr_done r" "sr_reactor (on_sched work_cleanup r) = sr_reactor r"
  "sr_world (on_sched work_cleanup r) = sr_world r"
  by (auto simp: on_sched_def work_cleanup_def Let_def held_def)

lemma end_turn_inv: "net_inv (end_turn s) M D = net_inv s M D"
  by (simp add: net_inv_def end_turn_def Let_def balanced_cleanup)

lemma end_turn_good: "net_good s \<Longrightarrow> net_good (end_turn s)"
  unfolding net_good_def end_turn_inv by (simp add: end_turn_def)

lemma end_turn_loop: "ns_loop (end_turn s) = on_sched work_cleanup (ns_loop s)"
  by (simp add: end_turn_def)

lemma net_poll_good:
  assumes g: "net_good s" and t: "sched_turn perform (Poll events) (ns_loop s) = Some r'"
    and bk: "books 0 (ns_loop s)" "idle_thread (ns_loop s)"
  shows "net_good (s\<lparr>ns_loop := r'\<rparr>) \<and> grown (mset (held (ns_loop s))) [] (ns_loop s) r'"
proof -
  from t obtain rest where r: "sd_op_queue (sr_sched (ns_loop s)) = Task_operation # rest"
      "list_all (live_event (sr_reactor (ns_loop s))) events" "r' = task_turn rest events (ns_loop s)"
    by (cases rule: sched_turn_cases) auto
  from task_turn_effect [OF bk r(1,2), folded r(3)] have
    e: "books 0 r'" "sr_done r' = sr_done (ns_loop s)" "all_operations r' = all_operations (ns_loop s)" by blast+
  then have h: "mset (held r') = mset (held (ns_loop s))" by (simp add: all_operations_def)
  note k = task_turn_record [OF r(1), of is_send net_recorded _ events net_home, folded r(3)]
  from g h e k show ?thesis
    by (simp add: net_good_def net_inv_def books_def Let_def grown_def entries_from_def)
qed

section \<open>Invariants of the machine\<close>

locale net_observer =
  fixes allow :: "('x, 'w) net_state \<Rightarrow> connection \<Rightarrow> bool"
    and Inv :: "('x, 'w) net_state \<Rightarrow> bool"
  assumes obs_start: "Inv (net_start hint w)"
    and obs_quiet: "Inv s \<Longrightarrow> net_inv s M D \<Longrightarrow> grown M [] (ns_loop s) (ns_loop s') \<Longrightarrow>
      ns_started s' = ns_started s \<Longrightarrow> ns_results s' = ns_results s \<Longrightarrow> Inv s'"
    and obs_begin: "Inv s \<Longrightarrow> net_inv s M D \<Longrightarrow> allow s cn \<Longrightarrow> q = write_begin (length (ns_started s)) cn bufs \<Longrightarrow>
      grown (add_mset (Send q) M) (started_operations (send_call q False errno :: 'x net_op sched_call))
        (ns_loop s) (ns_loop s') \<Longrightarrow>
      ns_started s' = ns_started s @ [(cn, bufs)] \<Longrightarrow> ns_results s' = ns_results s \<Longrightarrow> Inv s'"
    and obs_continue: "Inv s \<Longrightarrow> handling s M D (Send q) \<Longrightarrow>
      send_outcome (sw_log (sr_world (ns_loop s))) (er_errors (sr_reactor (ns_loop s))) q = (ec, n) \<Longrightarrow>
      write_handler q ec n = (Transfer_some bufs, c) \<Longrightarrow>
      grown (add_mset (Send (write_continue q bufs c)) M)
        (started_operations (send_call (write_continue q bufs c) True errno :: 'x net_op sched_call))
        (ns_loop s) (ns_loop s') \<Longrightarrow>
      ns_started s' = ns_started s \<Longrightarrow> ns_results s' = ns_results s \<Longrightarrow> Inv s'"
    and obs_finish: "Inv s \<Longrightarrow> handling s M D (Send q) \<Longrightarrow>
      write_handler q ec n = (Call_handler ec' len, c) \<Longrightarrow>
      Inv (s\<lparr>ns_results := ns_results s @ [(so_write q, ec', len)]\<rparr>)"
begin

lemma net_act_good:
  assumes g: "net_good s" "Inv s" and a: "net_act allow (net_perform P other) in_thread act s = Some s'"
    and P: "sound_sends P"
  shows "net_good s' \<and> Inv s' \<and> (\<exists>c. make_call (net_perform P other) in_thread c (ns_loop s) = Some (ns_loop s'))"
proof (cases act)
  case (Act_call c)
  with a obtain r' where r: "starts_no_send c" "make_call (net_perform P other) in_thread c (ns_loop s) = Some r'"
    "s' = s\<lparr>ns_loop := r'\<rparr>" by (auto split: if_splits)
  have "net_inv s (mset (held (ns_loop s)) + mset (new_operations c)) (sr_done (ns_loop s))"
    using g r(1) by (cases c) (simp_all add: net_good_def net_inv_other(1))
  from call_inv [OF this r(2) good_call_other [OF r(1)] _ P] g r have
    n: "net_good s'" "grown (mset (held (ns_loop s)) + mset (new_operations c)) (started_operations c) (ns_loop s) (ns_loop s')"
    by (simp_all add: net_good_def)
  from n(2) have "grown (mset (held (ns_loop s))) [] (ns_loop s) (ns_loop s')"
    by (simp add: grown_def no_send_home [OF r(1)] entries_from_no_send [OF r(1)])
  from obs_quiet [OF g(2) _ this] g(1) r n(1) show ?thesis by (auto simp: net_good_def)
next
  case (Act_write cn bufs errno)
  let ?q = "write_begin (length (ns_started s)) cn bufs"
  from a Act_write obtain r' where
    r: "allow s cn" "async_send (net_perform P other) in_thread ?q False errno (ns_loop s) = Some r'"
      "s' = s\<lparr>ns_started := ns_started s @ [(cn, bufs)], ns_loop := r'\<rparr>" by (auto split: if_splits)
  have n: "net_good ((s\<lparr>ns_started := ns_started s @ [(cn, bufs)]\<rparr>)\<lparr>ns_loop := r'\<rparr>) \<and>
      grown (add_mset (Send ?q) (mset (held (ns_loop (s\<lparr>ns_started := ns_started s @ [(cn, bufs)]\<rparr>)))))
        (started_operations (send_call ?q False errno)) (ns_loop (s\<lparr>ns_started := ns_started s @ [(cn, bufs)]\<rparr>)) r'"
    by (rule async_send_good [where q = ?q])
      (use r(2) net_inv_begin [of s "mset (held (ns_loop s))" "sr_done (ns_loop s)" cn bufs] g P in
        \<open>simp_all add: net_good_def\<close>)
  have "Inv s'"
    by (rule obs_begin [OF g(2) _ r(1) refl, where M = "mset (held (ns_loop s))" and D = "sr_done (ns_loop s)"
      and errno = errno]) (use g(1) n r(3) in \<open>simp_all add: net_good_def\<close>)
  moreover have "make_call (net_perform P other) in_thread (send_call ?q False errno) (ns_loop s) = Some r'"
    using r(2) by (simp add: async_send_def split: if_splits)
  ultimately show ?thesis using r(3) n by auto
qed

lemma net_acts_good:
  assumes "net_good s" "Inv s" "net_acts allow (net_perform P other) acts s = Some s'" "sound_sends P"
  shows "net_good s' \<and> Inv s' \<and> (\<exists>cs. make_calls (net_perform P other) True cs (ns_loop s) = Some (ns_loop s') \<and> (acts = [] \<longrightarrow> cs = []))"
  using assms
proof (induction acts arbitrary: s)
  case Nil
  then show ?case by (auto intro: exI [of _ "[]"])
next
  case (Cons a acts)
  then obtain s1 where 1: "net_act allow (net_perform P other) True a s = Some s1"
    "net_acts allow (net_perform P other) acts s1 = Some s'" by (auto split: option.splits)
  from net_act_good [OF Cons.prems(1,2) 1(1) Cons.prems(4)] obtain c where
    c: "net_good s1" "Inv s1" "make_call (net_perform P other) True c (ns_loop s) = Some (ns_loop s1)" by blast
  from Cons.IH [OF c(1,2) 1(2) Cons.prems(4)] obtain cs where
    "net_good s'" "Inv s'" "make_calls (net_perform P other) True cs (ns_loop s1) = Some (ns_loop s')" by blast
  with c(3) show ?case by (auto intro!: exI [of _ "c # cs"])
qed

lemma send_completed_good:
  assumes h: "handling s M D (Send q)" "Inv s" and c: "send_completed allow (net_perform P other) q acts errno s = Some s'"
    and pool: "pool_ok (sr_reactor (ns_loop s))" and P: "sound_sends P"
  shows "net_good s' \<and> Inv s' \<and> (\<exists>cs. make_calls (net_perform P other) True cs (ns_loop s) = Some (ns_loop s'))"
proof -
  obtain ec n where o: "send_outcome (sw_log (sr_world (ns_loop s))) (er_errors (sr_reactor (ns_loop s))) q = (ec, n)"
    by fastforce
  obtain act c where w: "write_handler q ec n = (act, c)" by fastforce
  have D: "sr_done (ns_loop s) = D @ [Send q]" "mset (held (ns_loop s)) = M" using h(1) by (simp_all add: handling_def)
  show ?thesis
  proof (cases act)
    case (Transfer_some bufs)
    let ?q = "write_continue q bufs c"
    from c o w Transfer_some obtain r' where r': "acts = []" "s' = s\<lparr>ns_loop := r'\<rparr>"
      "async_send (net_perform P other) True ?q True errno (ns_loop s) = Some r'"
      by (auto simp: send_completed_def split: if_splits)
    from net_inv_continue [OF h(1) o w [unfolded Transfer_some]] have
      "net_inv s (add_mset (Send ?q) (mset (held (ns_loop s)))) (sr_done (ns_loop s))" by (simp add: D)
    note g = async_send_good [OF r'(3) this pool P]
    then have "net_good s'" by (simp add: r'(2))
    moreover have "Inv s'"
      by (rule obs_continue [OF h(2,1) o w [unfolded Transfer_some], where errno = errno]) (use g r'(2) D(2) in simp_all)
    moreover have "make_calls (net_perform P other) True [send_call ?q True errno] (ns_loop s) = Some r'"
      using r'(3) by (simp add: async_send_def split: if_splits)
    ultimately show ?thesis
      using r'(2) by (intro conjI exI [of _ "[send_call ?q True errno]"]) simp_all
  next
    case (Call_handler ec' len)
    let ?s = "s\<lparr>ns_results := ns_results s @ [(so_write q, ec', len)]\<rparr>"
    have "net_good ?s" using net_inv_finish [OF h(1) o w [unfolded Call_handler]] pool by (simp add: net_good_def D)
    moreover have "Inv ?s" by (rule obs_finish [OF h(2,1) w [unfolded Call_handler]])
    moreover have "net_acts allow (net_perform P other) acts ?s = Some s'"
      using c o w Call_handler by (simp add: send_completed_def)
    ultimately show ?thesis using net_acts_good [of ?s P other acts s'] P by auto
  qed
qed

lemma net_turn_good:
  assumes g: "net_good s" "Inv s" and t: "net_turn allow (net_perform P other) acts errno s = Some s'" and P: "sound_sends P"
    and bk: "books 0 (ns_loop s)" "idle_thread (ns_loop s)"
  shows "net_good s' \<and> Inv s' \<and> (\<exists>calls. sched_turn (net_perform P other) (Handler calls) (ns_loop s) = Some (ns_loop s'))"
proof -
  from t obtain h r1 where b: "begin_turn (net_perform P other) (ns_loop s) = Some (h, r1)"
    by (auto simp: net_turn_def split: option.splits)
  let ?s = "s\<lparr>ns_loop := r1\<rparr>"
  note i = begin_turn_inv [OF g(1) b P bk]
  have inv: "net_inv ?s (mset (held (ns_loop s))) (sr_done (ns_loop s))" using i by simp
  have obs: "Inv ?s"
    by (rule obs_quiet [OF g(2), where M = "mset (held (ns_loop s))" and D = "sr_done (ns_loop s)"]) (use g(1) i in \<open>simp_all add: net_good_def\<close>)
  have "\<exists>s2 cs. s' = end_turn s2 \<and> net_good s2 \<and> Inv s2 \<and>
      make_calls (net_perform P other) True cs r1 = Some (ns_loop s2) \<and> (h = None \<longrightarrow> cs = [])"
  proof (cases h)
    case None
    with t b have "s' = end_turn ?s" by (simp add: net_turn_def split: if_splits)
    moreover have "net_good ?s" using i None by (simp add: net_good_def)
    ultimately show ?thesis using obs by (intro exI [of _ ?s] exI [of _ "[]"]) simp
  next
    case (Some p)
    show ?thesis
    proof (cases p)
      case (Send q)
      with t b Some obtain s2 where s2: "send_completed allow (net_perform P other) q acts errno ?s = Some s2" "s' = end_turn s2"
        by (auto simp: net_turn_def)
      have "handling ?s (mset (held r1)) (sr_done (ns_loop s)) (Send q)"
        using i inv Some Send by (simp add: handling_def)
      from send_completed_good [OF this obs s2(1) _ P] i s2(2) Some show ?thesis by auto
    next
      case (Other x)
      with t b Some obtain s2 where s2: "net_acts allow (net_perform P other) acts ?s = Some s2" "s' = end_turn s2"
        by (auto simp: net_turn_def)
      have "net_inv ?s (add_mset (Other x) (mset (held r1))) (sr_done (ns_loop s))"
        using i inv Some Other by simp
      from net_inv_other(2) [OF _ this] have "net_good ?s" using i Some Other by (simp add: net_good_def)
      from net_acts_good [OF this obs s2(1) P] s2(2) Some show ?thesis by auto
    qed
  qed
  then obtain s2 cs where s2: "s' = end_turn s2" "net_good s2" "Inv s2"
    "make_calls (net_perform P other) True cs r1 = Some (ns_loop s2)" "h = None \<longrightarrow> cs = []" by blast
  have "Inv s'"
    by (rule obs_quiet [OF s2(3), where M = "mset (held (ns_loop s2))" and D = "sr_done (ns_loop s2)"]) (use s2(1,2) in \<open>auto simp: net_good_def grown_def entries_from_def end_turn_def\<close>)
  with begin_turn_sched [OF b s2(4)] end_turn_good [OF s2(2)] s2(1,5) show ?thesis
    by (auto simp: end_turn_loop)
qed

lemma net_reachable_good:
  assumes "net_reachable allow (net_perform P other) s" "sound_sends P"
  shows "net_good s \<and> Inv s \<and> sched_reachable (net_perform P other) (ns_loop s)"
  using assms
proof (induction rule: net_reachable.induct)
  case (net_init hint w)
  have "balanced is_send net_recorded [] (loop_state_make hint \<lparr>sw_env = w, sw_log = []\<rparr>)"
    by (simp add: balanced_def loop_state_make_def owed_def noted_def net_recorded_def init_task_def scheduler_make_def
      thread_info_make_def reactor_make_def)
  then have "net_good (net_start hint w)"
    unfolding net_good_def
    by (intro conjI net_invI exI [of _ "[]"])
      (auto simp: net_start_def held_def loop_state_make_def init_task_def scheduler_make_def thread_info_make_def
        reactor_make_def pending_def placed_def pool_ok_def)
  then show ?case by (simp add: net_start_def sched_start obs_start [unfolded net_start_def])
next
  case (net_next s ev s')
  then have g: "net_good s" "sched_reachable (net_perform P other) (ns_loop s)" and obs: "Inv s" by simp_all
  have quiet: "Inv s'" if "grown (mset (held (ns_loop s))) [] (ns_loop s) (ns_loop s')"
    "ns_started s' = ns_started s" "ns_results s' = ns_results s"
    using obs_quiet [OF obs _ that, of "sr_done (ns_loop s)"] g(1) by (simp add: net_good_def)
  have bk: "books 0 (ns_loop s)" "idle_thread (ns_loop s)" using reachable_facts [OF g(2)] by simp_all
  show ?case
  proof (cases ev)
    case (Ev_outside a)
    then have "net_act allow (net_perform P other) False a s = Some s'" using net_next.hyps(2) by simp
    from net_act_good [OF g(1) obs this assms(2)] obtain c where
      "net_good s'" "Inv s'" "make_call (net_perform P other) False c (ns_loop s) = Some (ns_loop s')" by blast
    with g(2) show ?thesis by (auto intro: sched_outside)
  next
    case (Ev_poll events)
    with net_next.hyps(2) obtain r' where r': "sched_turn (net_perform P other) (Poll events) (ns_loop s) = Some r'"
      "s' = s\<lparr>ns_loop := r'\<rparr>" by auto
    from net_poll_good [OF g(1) r'(1) bk] quiet r'(2) g(2) r'(1) show ?thesis by (auto intro: sched_loop)
  next
    case (Ev_turn acts errno)
    then have "net_turn allow (net_perform P other) acts errno s = Some s'" using net_next.hyps(2) by simp
    from net_turn_good [OF g(1) obs this assms(2) bk] g(2) show ?thesis by (auto intro: sched_loop)
  next
    case Ev_restart
    with net_next.hyps(2) have s': "s' = s\<lparr>ns_loop := (ns_loop s)\<lparr>sr_sched := sched_restart (sr_sched (ns_loop s))\<rparr>\<rparr>"
      by simp
    have "net_good s'"
      using g(1) by (simp add: s' net_good_def net_inv_def held_def balanced_def owed_def sched_restart_def Let_def)
    moreover have "Inv s'" by (rule quiet) (simp_all add: s' grown_def entries_from_def)
    ultimately show ?thesis using g(2) by (simp add: s' sched_again)
  next
    case (Ev_world w)
    let ?w = "(sr_world (ns_loop s))\<lparr>sw_env := w\<rparr>"
    have s': "s' = s\<lparr>ns_loop := (ns_loop s)\<lparr>sr_world := ?w\<rparr>\<rparr>" using net_next.hyps(2) Ev_world by simp
    have "net_good s'"
      using g(1)
      by (simp add: s' net_good_def net_inv_def held_def balanced_def noted_def net_recorded_def Let_def)
    moreover have "Inv s'" by (rule quiet) (simp_all add: s' grown_def entries_from_def net_recorded_def)
    moreover have "(ns_loop s)\<lparr>sr_world := ?w\<rparr> =
        (ns_loop s)\<lparr>sr_reactor := er_fail [] ec_ok (sr_reactor (ns_loop s)), sr_world := ?w\<rparr>"
      by (simp add: er_fail_def)
    ultimately show ?thesis using sched_world [OF g(2), where ps = "[]" and ec = ec_ok and w = ?w] by (simp add: s')
  qed
qed

end

end
