(* ===== verification/Oef_Asio_Wire.thy ===== *)
theory Oef_Asio_Wire
  imports Oef_Asio_Async_Steps "HOL-Library.Sublist"
begin

text \<open>
  The bytes that the writes of one loop put on a socket: what each write has sent, the order of
  writes that wait for each other, the order of writes that need one send each, and the mixture
  that two longer ones make.
\<close>

section \<open>The bytes of a socket\<close>

definition wire :: "(connection \<Rightarrow> bool) \<Rightarrow> (send_op \<times> asio_ec \<times> nat) list \<Rightarrow> byte list" where
  "wire on outcomes =
     concat (map (\<lambda>(q, ec, n). take n (offered q)) (filter (\<lambda>(q, ec, n). on (so_conn q)) outcomes))"

lemma wire_append [simp]: "wire on (xs @ ys) = wire on xs @ wire on ys"
  by (simp add: wire_def)

section \<open>Each write\<close>

interpretation anything: net_observer allow "\<lambda>_. True" for allow
  by unfold_locales simp_all

abbreviation results_of :: "nat \<Rightarrow> ('x, 'w) net_state \<Rightarrow> (nat \<times> asio_ec \<times> nat) list" where
  "results_of k s \<equiv> filter (\<lambda>r. fst r = k) (ns_results s)"

abbreviation frame_of :: "connection \<times> byte list list \<Rightarrow> byte list" where
  "frame_of w \<equiv> concat (snd w)"

lemma write_account:
  assumes "net_good s" "k < length (ns_started s)"
  shows "\<exists>n \<le> length (frame_of (ns_started s ! k)).
      sent_by k (sw_log (sr_world (ns_loop s))) = take n (frame_of (ns_started s ! k)) \<and>
      (results_of k s = [] \<or>
       (\<exists>ec. results_of k s = [(k, ec, n)] \<and> (ec_failed ec \<or> n = length (frame_of (ns_started s ! k)))))"
proof -
  let ?F = "frame_of (ns_started s ! k)" and ?log = "sw_log (sr_world (ns_loop s))"
  have "write_ok (ns_started s ! k) k (mset (held (ns_loop s))) (sr_done (ns_loop s)) ?log (ns_results s)"
    using assms net_invD(1) by (auto simp: net_good_def)
  then show ?thesis
    unfolding write_ok_def
  proof (elim disjE conjE)
    assume "write_active (fst (ns_started s ! k)) ?F k (mset (held (ns_loop s))) (sr_done (ns_loop s)) ?log"
      and none: "results_of k s = []"
    then obtain m where "sent_by k ?log = take m ?F" unfolding write_active_def by blast
    moreover have "take m ?F = take (min m (length ?F)) ?F" by (simp add: min_def)
    ultimately have "sent_by k ?log = take (min m (length ?F)) ?F" by simp
    with none show ?thesis by (intro exI [of _ "min m (length ?F)"]) simp
  qed (auto simp: write_finished_def)
qed

text \<open>
  C26: In every state of a loop with any number of asynchronous writes on any
  connections, each write that was started has put exactly a beginning of its buffers on
  its socket, nothing twice and nothing left out, and its handler was called at most
  once; when it was, it was told the number of these bytes, and these are all unless it
  was told of an error.
\<close>

theorem async_writes_account:
  assumes "net_reachable allow (net_perform P other) s" "sound_sends P" "k < length (ns_started s)"
  shows "\<exists>n \<le> length (concat (snd (ns_started s ! k))).
      sent_by k (sw_log (sr_world (ns_loop s))) = take n (concat (snd (ns_started s ! k))) \<and>
      (filter (\<lambda>r. fst r = k) (ns_results s) = [] \<or>
       (\<exists>ec. filter (\<lambda>r. fst r = k) (ns_results s) = [(k, ec, n)] \<and>
          (ec_failed ec \<or> n = length (concat (snd (ns_started s ! k))))))"
  using anything.net_reachable_good [OF assms(1,2)] assms(3) by (intro write_account) simp_all

section \<open>Writes that wait for each other\<close>

text \<open>A program that starts a write on a connection only when the handlers of the earlier ones were called.\<close>

definition idle_connection :: "('x, 'w) net_state \<Rightarrow> connection \<Rightarrow> bool" where
  "idle_connection s cn \<longleftrightarrow>
     list_all (\<lambda>k. fst (ns_started s ! k) = cn \<longrightarrow> k \<in> set (map fst (ns_results s))) [0..<length (ns_started s)]"

definition waits :: "('x, 'w) net_state \<Rightarrow> bool" where
  "waits s \<longleftrightarrow> (\<forall>k k'. k < k' \<longrightarrow> k' < length (ns_started s) \<longrightarrow>
     fst (ns_started s ! k) = fst (ns_started s ! k') \<longrightarrow> k \<in> set (map fst (ns_results s)))"

definition tags :: "connection \<Rightarrow> (send_op \<times> asio_ec \<times> nat) list \<Rightarrow> nat list" where
  "tags cn outcomes = map (\<lambda>(q, ec, n). so_write q) (filter (\<lambda>(q, ec, n). so_conn q = cn) outcomes)"

definition in_turn :: "('x, 'w) net_state \<Rightarrow> bool" where
  "in_turn s \<longleftrightarrow> waits s \<and> (\<forall>cn. sorted (tags cn (sw_log (sr_world (ns_loop s)))))"

lemma all_le_sorted: "(\<And>x y. x \<in> set xs \<Longrightarrow> y \<in> set xs \<Longrightarrow> x \<le> y) \<Longrightarrow> sorted xs"
  by (induction xs) simp_all

lemma in_turn_grows:
  assumes s: "in_turn s" "waits s'" and results: "ns_results s' = ns_results s"
    and log: "sw_log (sr_world (ns_loop s')) = sw_log (sr_world (ns_loop s)) @ es"
    and conn: "\<And>q ec n. (q, ec, n) \<in> set (sw_log (sr_world (ns_loop s)) @ es) \<Longrightarrow>
      so_write q < length (ns_started s') \<and> so_conn q = fst (ns_started s' ! so_write q)"
    and new: "\<And>q ec n. (q, ec, n) \<in> set es \<Longrightarrow> so_write q \<notin> set (map fst (ns_results s))"
  shows "in_turn s'"
proof -
  have le: "so_write q' \<le> so_write q" if "(q', ec', n') \<in> set (sw_log (sr_world (ns_loop s)) @ es)" "(q, ec, n) \<in> set es"
    "so_conn q' = so_conn q" for q' ec' n' q ec n
  proof (rule ccontr)
    assume "\<not> so_write q' \<le> so_write q"
    then have "so_write q < so_write q'" by simp
    with s(2) conn [OF that(1)] conn [of q ec n] that(2,3) results have "so_write q \<in> set (map fst (ns_results s))"
      unfolding waits_def by fastforce
    with new [OF that(2)] show False by simp
  qed
  have "sorted (tags cn es)" for cn
    by (rule all_le_sorted) (use le in \<open>fastforce simp: tags_def\<close>)
  then have "sorted (tags cn (sw_log (sr_world (ns_loop s')))) " for cn
    using s(1) le unfolding log in_turn_def tags_def by (fastforce simp: sorted_append)
  with s(2) show ?thesis by (simp add: in_turn_def)
qed

lemma pending_no_result: "results_of k s = [] \<Longrightarrow> k \<notin> set (map fst (ns_results s))"
  by (auto simp: filter_empty_conv)

lemma started_later:
  assumes "net_inv s M D" "(q, ec, n) \<in> set (sw_log (sr_world (ns_loop s)))"
    and "ns_started s' = ns_started s @ ws"
  shows "so_write q < length (ns_started s') \<and> so_conn q = fst (ns_started s' ! so_write q)"
  using net_invD(6) [OF assms(1,2)] assms(3) by (simp add: nth_append)

interpretation serial: net_observer idle_connection in_turn
proof
  fix hint w
  show "in_turn (net_start hint w :: ('a, 'b) net_state)"
    by (simp add: in_turn_def waits_def net_start_def tags_def loop_state_make_def)
next
  fix s s' :: "('a, 'b) net_state" and M D
  assume a: "in_turn s" "net_inv s M D" "grown M [] (ns_loop s) (ns_loop s')" "ns_started s' = ns_started s"
    "ns_results s' = ns_results s"
  from a(3) obtain es where es: "sw_log (sr_world (ns_loop s')) = sw_log (sr_world (ns_loop s)) @ es"
    "\<forall>(q, ec, n) \<in> set es. Send q \<in># M" unfolding grown_def entries_from_def by blast
  show "in_turn s'"
  proof (rule in_turn_grows [OF a(1) _ a(5) es(1)])
    show "waits s'" using a(1,4,5) by (simp add: in_turn_def waits_def)
    fix q ec n
    show "so_write q \<notin> set (map fst (ns_results s))" if "(q, ec, n) \<in> set es"
      using waiting_conn(3) [OF a(2), of q] es(2) that pending_no_result by blast
    show "so_write q < length (ns_started s') \<and> so_conn q = fst (ns_started s' ! so_write q)"
      if "(q, ec, n) \<in> set (sw_log (sr_world (ns_loop s)) @ es)"
      using that es(2) started_later [OF a(2), of q ec n s' "[]"] waiting_conn(1,2) [OF a(2), of q] a(4) by auto
  qed
next
  fix s s' :: "('a, 'b) net_state" and M D cn q bufs errno
  assume a: "in_turn s" "net_inv s M D" "idle_connection s cn" "q = write_begin (length (ns_started s)) cn bufs"
    "grown (add_mset (Send q) M) (started_operations (send_call q False errno :: 'a net_op sched_call)) (ns_loop s) (ns_loop s')"
    "ns_started s' = ns_started s @ [(cn, bufs)]" "ns_results s' = ns_results s"
  from a(5) obtain es where es: "sw_log (sr_world (ns_loop s')) = sw_log (sr_world (ns_loop s)) @ es"
    "\<forall>(q', ec, n) \<in> set es. q' = q \<or> Send q' \<in># M" unfolding grown_def entries_from_def by auto
  have q: "so_write q = length (ns_started s)" "so_conn q = cn"
    using op_ok_begin [where cn = cn and bufs = bufs and k = "length (ns_started s)"] by (simp_all add: a(4) op_ok_def)
  show "in_turn s'"
  proof (rule in_turn_grows [OF a(1) _ a(7) es(1)])
    show "waits s'"
      using a(1,3) unfolding in_turn_def waits_def a(6,7) idle_connection_def list_all_iff
      by (auto simp: nth_append less_Suc_eq)
    fix p ec n
    show "so_write p \<notin> set (map fst (ns_results s))" if "(p, ec, n) \<in> set es"
      using waiting_conn(3) [OF a(2), of p] es(2) that pending_no_result net_invD(3) [OF a(2)] q by fastforce
    show "so_write p < length (ns_started s') \<and> so_conn p = fst (ns_started s' ! so_write p)"
      if "(p, ec, n) \<in> set (sw_log (sr_world (ns_loop s)) @ es)"
      using that es(2) started_later [OF a(2), of p ec n s' "[(cn, bufs)]"] waiting_conn(1,2) [OF a(2), of p] a(6) q
      by (auto simp: nth_append)
  qed
next
  fix s s' :: "('a, 'b) net_state" and M D q ec n bufs c errno
  assume a: "in_turn s" "handling s M D (Send q)"
    "send_outcome (sw_log (sr_world (ns_loop s))) (er_errors (sr_reactor (ns_loop s))) q = (ec, n)"
    "write_handler q ec n = (Transfer_some bufs, c)"
    "grown (add_mset (Send (write_continue q bufs c)) M)
      (started_operations (send_call (write_continue q bufs c) True errno :: 'a net_op sched_call)) (ns_loop s) (ns_loop s')"
    "ns_started s' = ns_started s" "ns_results s' = ns_results s"
  from a(5) obtain es where es: "sw_log (sr_world (ns_loop s')) = sw_log (sr_world (ns_loop s)) @ es"
    "\<forall>(q', ec, n) \<in> set es. Send q' \<in># add_mset (Send (write_continue q bufs c)) M"
    unfolding grown_def entries_from_def by blast
  note inv = net_inv_continue [OF a(2-4)]
  show "in_turn s'"
  proof (rule in_turn_grows [OF a(1) _ a(7) es(1)])
    show "waits s'" using a(1,6,7) by (simp add: in_turn_def waits_def)
    fix p ec n
    show "so_write p \<notin> set (map fst (ns_results s))" if "(p, ec, n) \<in> set es"
      using waiting_conn(3) [OF inv, of p] es(2) that pending_no_result by blast
    show "so_write p < length (ns_started s') \<and> so_conn p = fst (ns_started s' ! so_write p)"
      if "(p, ec, n) \<in> set (sw_log (sr_world (ns_loop s)) @ es)"
      using that es(2) started_later [OF inv, of p ec n s' "[]"] waiting_conn(1,2) [OF inv, of p] a(6) by auto
  qed
qed (auto simp: in_turn_def waits_def)

text \<open>Outcomes in the order of their writes are those of the first write, then those of the second, and so on.\<close>

lemma sorted_split:
  fixes f :: "'a \<Rightarrow> nat"
  assumes "sorted (map f xs)"
  shows "filter (\<lambda>x. f x < n) xs @ filter (\<lambda>x. \<not> f x < n) xs = xs"
  using assms
proof (induction xs)
  case (Cons x xs)
  show ?case
  proof (cases "f x < n")
    case False
    with Cons.prems have "filter (\<lambda>x. f x < n) xs = []" "filter (\<lambda>x. \<not> f x < n) xs = xs"
      by (auto simp: filter_empty_conv filter_id_conv)
    with False show ?thesis by simp
  qed (use Cons in simp)
qed simp

lemma sorted_groups:
  fixes f :: "'a \<Rightarrow> nat"
  assumes "sorted (map f xs)" "\<And>x. x \<in> set xs \<Longrightarrow> f x < n"
  shows "concat (map g xs) = concat (map (\<lambda>k. concat (map g (filter (\<lambda>x. f x = k) xs))) [0..<n])"
  using assms
proof (induction n arbitrary: xs)
  case 0
  then have "xs = []" by (cases xs) auto
  then show ?case by simp
next
  case (Suc n)
  let ?lo = "filter (\<lambda>x. f x < n) xs"
  have eq: "filter (\<lambda>x. \<not> f x < n) xs = filter (\<lambda>x. f x = n) xs"
    by (rule filter_cong [OF refl]) (use Suc.prems(2) in fastforce)
  have "concat (map g ?lo) = concat (map (\<lambda>k. concat (map g (filter (\<lambda>x. f x = k) ?lo))) [0..<n])"
    by (rule Suc.IH) (use Suc.prems(1) in \<open>auto intro: sorted_filter\<close>)
  also have "\<dots> = concat (map (\<lambda>k. concat (map g (filter (\<lambda>x. f x = k) xs))) [0..<n])"
    by (intro arg_cong [of _ _ concat] map_cong [OF refl]) (auto intro!: arg_cong [of _ _ concat] arg_cong [of _ _ "map g"] filter_cong)
  finally show ?case
    using arg_cong [OF sorted_split [OF Suc.prems(1), of n], of "\<lambda>xs. concat (map g xs)"] by (simp add: eq)
qed

lemma wire_in_turn:
  assumes "in_turn s" "net_inv s M D"
  shows "wire (\<lambda>c. c = cn) (sw_log (sr_world (ns_loop s))) =
    concat (map (\<lambda>k. sent_by k (sw_log (sr_world (ns_loop s))))
      (filter (\<lambda>k. fst (ns_started s ! k) = cn) [0..<length (ns_started s)]))"
proof -
  let ?log = "sw_log (sr_world (ns_loop s))" and ?n = "length (ns_started s)"
  let ?on = "filter (\<lambda>(q, ec, n). so_conn q = cn) ?log" and ?g = "\<lambda>(q, ec, n). take n (offered q)"
  let ?tag = "\<lambda>(q, ec, n). so_write q"
  have l: "so_write q < ?n" "so_conn q = fst (ns_started s ! so_write q)" if "(q, ec, n) \<in> set ?log" for q ec n
    using net_invD(6) [OF assms(2) that] by simp_all
  have "concat (map ?g (filter (\<lambda>e. ?tag e = k) ?on)) =
      (if fst (ns_started s ! k) = cn then sent_by k ?log else [])" for k
  proof (cases "fst (ns_started s ! k) = cn")
    case True
    have "filter (\<lambda>e. ?tag e = k) ?on = filter (\<lambda>(q, ec, n). so_write q = k) ?log"
      unfolding filter_filter by (rule filter_cong [OF refl]) (use l(2) True in auto)
    with True show ?thesis by (simp add: sent_by_def)
  next
    case False
    have "filter (\<lambda>e. ?tag e = k) ?on = []" using l(2) False by (auto simp: filter_empty_conv)
    with False show ?thesis by simp
  qed
  moreover have "wire (\<lambda>c. c = cn) ?log = concat (map (\<lambda>k. concat (map ?g (filter (\<lambda>e. ?tag e = k) ?on))) [0..<?n])"
    unfolding wire_def
  proof (rule sorted_groups)
    show "sorted (map ?tag ?on)" using assms(1) by (simp add: in_turn_def tags_def)
  qed (use l(1) in auto)
  moreover have "concat (map (\<lambda>k. if fst (ns_started s ! k) = cn then sent_by k ?log else []) ks) =
      concat (map (\<lambda>k. sent_by k ?log) (filter (\<lambda>k. fst (ns_started s ! k) = cn) ks))" for ks
    by (induction ks) simp_all
  ultimately show ?thesis by simp
qed

text \<open>All but the last of them are finished.\<close>

lemma prefixes_in_turn:
  assumes "sorted_wrt (<) ks" "\<And>k k'. k \<in> set ks \<Longrightarrow> k' \<in> set ks \<Longrightarrow> k < k' \<Longrightarrow> f k = F k"
    and "\<And>k. k \<in> set ks \<Longrightarrow> prefix (f k) (F k)"
  shows "prefix (concat (map f ks)) (concat (map F (ks :: nat list)))"
  using assms
proof (induction ks)
  case (Cons k ks)
  show ?case
  proof (cases ks)
    case Nil
    with Cons.prems(3) show ?thesis by simp
  next
    case (Cons k' ks')
    with Cons.prems have "f k = F k" by auto
    moreover have "prefix (concat (map f ks)) (concat (map F ks))"
      by (rule Cons.IH) (use Cons.prems in auto)
    ultimately show ?thesis by simp
  qed
qed simp

lemma frames_on:
  "map (\<lambda>k. frame_of (ws ! k)) (filter (\<lambda>k. P (fst (ws ! k))) [0..<length ws]) = map frame_of (filter (\<lambda>w. P (fst w)) ws)"
proof -
  have "map (\<lambda>k. ws ! k) (filter (\<lambda>k. P (fst (ws ! k))) [0..<length ws]) = filter (\<lambda>w. P (fst w)) ws"
    by (simp add: filter_map [of "\<lambda>w. P (fst w)" "\<lambda>k. ws ! k", unfolded o_def, symmetric] map_nth)
  from arg_cong [OF this, of "map frame_of"] show ?thesis by (simp add: o_def)
qed

text \<open>
  C27: When a program starts a write on a connection only after the handlers of the
  earlier writes on it were called, and none of these reported an error, the bytes on
  the connection are a beginning of the buffers of its writes, one after the other in
  the order of their starts; all of them, when every handler was called.
\<close>

theorem serial_writes_in_order:
  assumes "net_reachable idle_connection (net_perform P other) s" "sound_sends P"
    and "\<forall>(k, ec, n) \<in> set (ns_results s). fst (ns_started s ! k) = cn \<longrightarrow> \<not> ec_failed ec"
  shows "prefix (wire (\<lambda>c. c = cn) (sw_log (sr_world (ns_loop s))))
      (concat (map (\<lambda>w. concat (snd w)) (filter (\<lambda>w. fst w = cn) (ns_started s)))) \<and>
    (idle_connection s cn \<longrightarrow> wire (\<lambda>c. c = cn) (sw_log (sr_world (ns_loop s))) =
      concat (map (\<lambda>w. concat (snd w)) (filter (\<lambda>w. fst w = cn) (ns_started s))))"
proof -
  let ?log = "sw_log (sr_world (ns_loop s))" and ?F = "\<lambda>k. frame_of (ns_started s ! k)"
  let ?ks = "filter (\<lambda>k. fst (ns_started s ! k) = cn) [0..<length (ns_started s)]"
  have s: "net_good s" "in_turn s" using serial.net_reachable_good [OF assms(1,2)] by simp_all
  have w: "wire (\<lambda>c. c = cn) ?log = concat (map (\<lambda>k. sent_by k ?log) ?ks)"
    using s(1) wire_in_turn [OF s(2)] unfolding net_good_def by blast
  have full: "sent_by k ?log = ?F k" if "k \<in> set ?ks" "k \<in> set (map fst (ns_results s))" for k
  proof -
    from that(2) have "results_of k s \<noteq> []" by (auto simp: filter_empty_conv)
    with write_account [OF s(1), of k] that(1) obtain ec n where
      r: "sent_by k ?log = take n (?F k)" "results_of k s = [(k, ec, n)]" "ec_failed ec \<or> n = length (?F k)" by auto
    from arg_cong [OF r(2), of set] have "(k, ec, n) \<in> set (ns_results s)" by auto
    with assms(3) that(1) have "\<not> ec_failed ec" by auto
    with r show ?thesis by simp
  qed
  have "prefix (concat (map (\<lambda>k. sent_by k ?log) ?ks)) (concat (map ?F ?ks))"
  proof (rule prefixes_in_turn)
    show "sorted_wrt (<) ?ks" by (intro sorted_wrt_filter) simp
    show "prefix (sent_by k ?log) (?F k)" if "k \<in> set ?ks" for k
      using write_account [OF s(1), of k] that by (auto simp: take_is_prefix)
    show "sent_by k ?log = ?F k" if "k \<in> set ?ks" "k' \<in> set ?ks" "k < k'" for k k'
      by (rule full) (use that s(2) in \<open>auto simp: in_turn_def waits_def\<close>)
  qed
  moreover have "concat (map (\<lambda>k. sent_by k ?log) ?ks) = concat (map ?F ?ks)" if "idle_connection s cn"
    by (intro arg_cong [of _ _ concat] map_cong [OF refl] full)
      (use that in \<open>auto simp: idle_connection_def list_all_iff\<close>)
  ultimately show ?thesis unfolding w using frames_on [where P = "\<lambda>c. c = cn" and ws = "ns_started s"] by simp
qed

section \<open>Writes of one send\<close>

text \<open>Few buffers are all offered, up to the size.\<close>

lemma prepare_loop_full:
  "length rs + length bs \<le> m \<Longrightarrow> (case bs of [] \<Rightarrow> True | b # _ \<Rightarrow> off \<le> length b) \<Longrightarrow>
   concat (cb_prepare_loop m bs off n rs) = concat rs @ take n (drop off (concat bs))"
proof (induction m bs off n rs rule: cb_prepare_loop.induct)
  case (2 m b bs off n rs)
  show ?case
  proof (cases "n > 0 \<and> length rs < m")
    case True
    define elem where "elem = buf_limit (buf_plus b off) n"
    have e: "elem = take n (drop off b)" by (simp add: elem_def)
    have "concat (cb_prepare_loop m bs 0 (n - length elem) (if length elem > 0 then rs @ [elem] else rs)) =
        concat (if length elem > 0 then rs @ [elem] else rs) @ take (n - length elem) (drop 0 (concat bs))"
      unfolding elem_def by (rule "2.IH" [OF True refl refl]) (use "2.prems" in \<open>auto split: list.split\<close>)
    moreover have "elem @ take (n - length elem) (concat bs) = take n (drop off (concat (b # bs)))"
      using "2.prems" by (simp add: e min_def)
    moreover have "concat (if length elem > 0 then rs @ [elem] else rs) = concat rs @ elem" by simp
    moreover have "cb_prepare_loop m (b # bs) off n rs =
        cb_prepare_loop m bs 0 (n - length elem) (if length elem > 0 then rs @ [elem] else rs)"
      using True by (simp add: elem_def Let_def)
    ultimately show ?thesis by simp
  qed (use "2.prems" in auto)
qed simp

lemma prepare_full:
  assumes "cb_valid c" "length (cb_buffers c) \<le> 16"
  shows "concat (cb_prepare c n) = take n (cb_rest c)"
proof -
  have m: "length ([] :: 'a list list) + length (drop (cb_next_elem c) (cb_buffers c)) \<le> max_prepared"
    using assms(2) by (simp add: max_prepared_def prepared_buffers_max_def)
  have v: "case drop (cb_next_elem c) (cb_buffers c) of [] \<Rightarrow> True | b # _ \<Rightarrow> cb_next_elem_offset c \<le> length b"
    using assms(1) by (auto simp: cb_valid_def split: list.splits)
  from prepare_loop_full [OF m v, of n] show ?thesis by (simp add: cb_prepare_def cb_rest_def)
qed

lemma offered_full:
  "op_ok cn F q \<Longrightarrow> length (cb_buffers (so_rest q)) \<le> 16 \<Longrightarrow> offered q = take 65536 (drop (consumed q) F)"
  by (simp add: op_ok_def offered_def prepared_adapter prepare_full default_max_transfer_size_def)

lemma begin_buffers [simp]: "cb_buffers (so_rest (write_begin k cn bufs)) = bufs"
  by (simp add: write_begin_def Let_def cb_make_def)

lemma begin_offered: "length bufs \<le> 16 \<Longrightarrow> offered (write_begin k cn bufs) = take 65536 (concat bufs)"
  using offered_full [OF op_ok_begin(1)] by (simp add: op_ok_begin(2))

lemma wire_offered:
  "(\<And>q ec n. (q, ec, n) \<in> set outcomes \<Longrightarrow> on (so_conn q) \<Longrightarrow> n = length (offered q)) \<Longrightarrow>
   wire on outcomes = concat (map offered (map fst (filter (\<lambda>(q, ec, n). on (so_conn q)) outcomes)))"
  unfolding wire_def by (induction outcomes) fastforce+

text \<open>The writes on one descriptor, when none of their operations failed, each took one send, and each send took all it
  was offered.\<close>

definition one_send :: "nat \<Rightarrow> connection \<times> byte list list \<Rightarrow> bool" where
  "one_send j w \<longleftrightarrow> (cn_data (fst w) = Some j \<longrightarrow>
     concat (snd w) \<noteq> [] \<and> length (concat (snd w)) \<le> 65536 \<and> length (snd w) \<le> 16)"

definition whole_sends :: "nat \<Rightarrow> ('x, 'w) net_state \<Rightarrow> bool" where
  "whole_sends j s \<longleftrightarrow> er_errors (sr_reactor (ns_loop s)) = [] \<and> (\<forall>w \<in> set (ns_started s). one_send j w) \<and>
     (\<forall>(q, ec, n) \<in> set (sw_log (sr_world (ns_loop s))). cn_data (so_conn q) = Some j \<longrightarrow> n = length (offered q))"

definition starts_on :: "nat \<Rightarrow> ('x, 'w) net_state \<Rightarrow> send_op list" where
  "starts_on j s = map (\<lambda>k. write_begin k (fst (ns_started s ! k)) (snd (ns_started s ! k)))
     (filter (\<lambda>k. cn_data (fst (ns_started s ! k)) = Some j) [0..<length (ns_started s)])"

definition in_start_order :: "nat \<Rightarrow> ('x, 'w) net_state \<Rightarrow> bool" where
  "in_start_order j s \<longleftrightarrow> (whole_sends j s \<longrightarrow> net_order j (ns_loop s) = map Send (starts_on j s))"

lemma begin_conn [simp]: "so_conn (write_begin k cn bufs) = cn"
  using op_ok_begin(1) [where cn = cn and bufs = bufs and k = k] by (simp add: op_ok_def)

lemma whole_sends_before:
  assumes "whole_sends j s'" "grown M ps (ns_loop s) (ns_loop s')" "ns_started s' = ns_started s @ ws"
  shows "whole_sends j s \<and> net_order j (ns_loop s') = net_order j (ns_loop s) @ filter (\<lambda>p. net_home p = Some j) ps"
  using assms by (auto simp: whole_sends_def grown_def entries_from_def)

lemma map_filter_upt:
  "(\<And>k. k < n \<Longrightarrow> f k = g k \<and> p k = q k) \<Longrightarrow> map f (filter p [0..<n]) = map g (filter q [0..<n])"
  by (induction n) simp_all

lemma starts_on_append:
  "ns_started s' = ns_started s @ [(cn, bufs)] \<Longrightarrow>
   starts_on j s' = starts_on j s @ (if cn_data cn = Some j then [write_begin (length (ns_started s)) cn bufs] else [])"
  unfolding starts_on_def by (auto simp: nth_append intro!: map_filter_upt)

text \<open>The only send of a write is the last.\<close>

lemma one_send_ends:
  assumes h: "handling s M D (Send q)"
    and o: "send_outcome (sw_log (sr_world (ns_loop s))) (er_errors (sr_reactor (ns_loop s))) q = (ec, n)"
    and w: "write_handler q ec n = (Transfer_some bufs, c)"
    and s: "in_start_order j s" "whole_sends j s"
  shows "cn_data (so_conn q) \<noteq> Some j"
proof
  assume j: "cn_data (so_conn q) = Some j"
  let ?log = "sw_log (sr_world (ns_loop s))"
  from write_handler_cases [OF w] have c: "c = cb_consume (so_rest q) n" "0 < n" "\<not> cb_empty c"
    by (auto split: if_splits)
  from outcome_entry [OF h o] c(2) obtain ec' where e: "(q, ec', n) \<in> set ?log"
    by (auto simp: logged_bytes_def dest!: map_of_SomeD split: option.splits)
  have n: "n = length (offered q)" using s(2) e j by (auto simp: whole_sends_def)
  have "Send q \<in> set (net_order j (ns_loop s))"
    using e j by (auto simp: order_of_def net_recorded_def intro!: image_eqI)
  then have "q \<in> set (starts_on j s)" using s by (auto simp: in_start_order_def)
  then obtain k where k: "k < length (ns_started s)" "cn_data (fst (ns_started s ! k)) = Some j"
    "q = write_begin k (fst (ns_started s ! k)) (snd (ns_started s ! k))" by (auto simp: starts_on_def)
  let ?F = "concat (snd (ns_started s ! k))"
  have "one_send j (ns_started s ! k)" using s(2) k(1) by (simp add: whole_sends_def)
  then have f: "length ?F \<le> 65536" "length (snd (ns_started s ! k)) \<le> 16" using k(2) by (simp_all add: one_send_def)
  have "cb_valid (so_rest q)" "cb_rest (so_rest q) = ?F"
    using op_ok_begin [where cn = "fst (ns_started s ! k)" and bufs = "snd (ns_started s ! k)" and k = k] by (simp_all add: k(3) op_ok_def)
  moreover have "n = length ?F" using n begin_offered [OF f(2)] f(1) k(3) by simp
  ultimately have "cb_empty c"
    by (simp add: c(1) cb.empty_iff cb.valid_consume cb.rest_consume)
  with c(3) show False ..
qed

interpretation ordered: net_observer allow "in_start_order j" for allow j
proof
  fix hint w
  show "in_start_order j (net_start hint w :: ('a, 'b) net_state)"
    by (simp add: in_start_order_def net_start_def starts_on_def loop_state_make_def reactor_make_def order_of_def net_recorded_def)
next
  fix s s' :: "('a, 'b) net_state" and M D
  assume "in_start_order j s" "grown M [] (ns_loop s) (ns_loop s')" "ns_started s' = ns_started s"
  with whole_sends_before [of j s' M "[]" s "[]"] show "in_start_order j s'"
    by (auto simp: in_start_order_def starts_on_def)
next
  fix s s' :: "('a, 'b) net_state" and M D cn q bufs errno
  let ?ps = "started_operations (send_call q False errno :: 'a net_op sched_call)"
  assume a: "in_start_order j s" "q = write_begin (length (ns_started s)) cn bufs"
    "grown (add_mset (Send q) M) ?ps (ns_loop s) (ns_loop s')" "ns_started s' = ns_started s @ [(cn, bufs)]"
  show "in_start_order j s'"
    unfolding in_start_order_def
  proof
    assume w: "whole_sends j s'"
    note b = whole_sends_before [OF w a(3,4)]
    have "filter (\<lambda>p. net_home p = Some j) ?ps = (if cn_data cn = Some j then [Send q] else [])"
    proof (cases "cn_data cn = Some j")
      case True
      have "one_send j (cn, bufs)" using w a(4) by (simp add: whole_sends_def)
      with True have "concat bufs \<noteq> []" "length bufs \<le> 16" by (simp_all add: one_send_def)
      then have "offered q \<noteq> []" by (simp add: a(2) begin_offered)
      with True show ?thesis by (simp add: send_call_def all_empty_iff offered_def a(2))
    next
      case False
      then show ?thesis by (simp add: send_call_def a(2))
    qed
    with a(1,2) b starts_on_append [OF a(4)] show "net_order j (ns_loop s') = map Send (starts_on j s')"
      by (simp add: in_start_order_def)
  qed
next
  fix s s' :: "('a, 'b) net_state" and M D q ec n bufs c errno
  let ?q = "write_continue q bufs c"
  assume a: "in_start_order j s" "handling s M D (Send q)"
    "send_outcome (sw_log (sr_world (ns_loop s))) (er_errors (sr_reactor (ns_loop s))) q = (ec, n)"
    "write_handler q ec n = (Transfer_some bufs, c)"
    "grown (add_mset (Send ?q) M) (started_operations (send_call ?q True errno :: 'a net_op sched_call)) (ns_loop s) (ns_loop s')"
    "ns_started s' = ns_started s"
  show "in_start_order j s'"
    unfolding in_start_order_def
  proof
    assume w: "whole_sends j s'"
    have b: "whole_sends j s" "net_order j (ns_loop s') = net_order j (ns_loop s) @
        filter (\<lambda>p. net_home p = Some j) (started_operations (send_call ?q True errno :: 'a net_op sched_call))"
      using whole_sends_before [OF w a(5), of "[]"] a(6) by simp_all
    have "cn_data (so_conn ?q) \<noteq> Some j" using one_send_ends [OF a(2-4,1) b(1)] by (simp add: write_continue_def)
    then have "filter (\<lambda>p. net_home p = Some j) (started_operations (send_call ?q True errno :: 'a net_op sched_call)) = []"
      by (simp add: send_call_def)
    with a(1,6) b show "net_order j (ns_loop s') = map Send (starts_on j s')"
      by (simp add: in_start_order_def starts_on_def)
  qed
qed (auto simp: in_start_order_def whole_sends_def starts_on_def)

lemma recorded_on:
  "filter (\<lambda>p. net_home p = Some j) (net_recorded W) =
   map Send (map fst (filter (\<lambda>(q, ec, n). cn_data (so_conn q) = Some j) (sw_log W)))"
proof -
  have "filter (\<lambda>p. net_home p = Some j) (map (\<lambda>(q, ec, n). Send q) xs) =
      map Send (map fst (filter (\<lambda>(q, ec, n). cn_data (so_conn q) = Some j) xs))" for xs :: "(send_op \<times> asio_ec \<times> nat) list"
    by (induction xs) auto
  then show ?thesis by (simp add: net_recorded_def)
qed

text \<open>
  C28: Any number of writes may be started on a socket without waiting for each other
  when each has at most 65536 bytes, and one at least, in at most 16 buffers: as long as
  no operation fails and every send takes all it is offered, the bytes on the socket are
  the buffers of the first so many writes in the order of their starts.
\<close>

theorem small_writes_in_order:
  assumes "net_reachable allow (net_perform P other) s" "sound_sends P"
    and "er_errors (sr_reactor (ns_loop s)) = []"
    and "\<forall>(cn, bufs) \<in> set (ns_started s). cn_data cn = Some j \<longrightarrow>
      concat bufs \<noteq> [] \<and> length (concat bufs) \<le> 65536 \<and> length bufs \<le> 16"
    and "\<forall>(q, ec, n) \<in> set (sw_log (sr_world (ns_loop s))). cn_data (so_conn q) = Some j \<longrightarrow> n = length (offered q)"
  shows "\<exists>m. wire (\<lambda>cn. cn_data cn = Some j) (sw_log (sr_world (ns_loop s))) =
    concat (map (\<lambda>w. concat (snd w)) (take m (filter (\<lambda>w. cn_data (fst w) = Some j) (ns_started s))))"
proof -
  let ?log = "sw_log (sr_world (ns_loop s))" and ?on = "\<lambda>cn. cn_data cn = Some j"
  let ?sent = "map fst (filter (\<lambda>(q, ec, n). ?on (so_conn q)) ?log)"
  have w: "whole_sends j s" using assms(3-5) by (auto simp: whole_sends_def one_send_def)
  have "net_order j (ns_loop s) = map Send (starts_on j s)"
    using ordered.net_reachable_good [OF assms(1,2), of j] w by (simp add: in_start_order_def)
  note this [unfolded order_of_def recorded_on, symmetric]
  from arg_cong [OF this, of "take (length ?sent)"]
  have "map Send (take (length ?sent) (starts_on j s)) = map (Send :: send_op \<Rightarrow> 'a net_op) ?sent"
    by (simp add: take_map)
  moreover have "inj (Send :: send_op \<Rightarrow> 'a net_op)" by (simp add: inj_def)
  ultimately have m: "?sent = take (length ?sent) (starts_on j s)" by (metis inj_map_eq_map)
  have off: "offered (write_begin k (fst (ns_started s ! k)) (snd (ns_started s ! k))) = frame_of (ns_started s ! k)"
    if "k < length (ns_started s)" "?on (fst (ns_started s ! k))" for k
  proof -
    have "one_send j (ns_started s ! k)" using w that(1) by (simp add: whole_sends_def)
    with that(2) show ?thesis by (simp add: one_send_def begin_offered)
  qed
  have "map offered (starts_on j s) = map (\<lambda>k. frame_of (ns_started s ! k))
      (filter (\<lambda>k. ?on (fst (ns_started s ! k))) [0..<length (ns_started s)])"
    using off by (simp add: starts_on_def)
  also have "\<dots> = map frame_of (filter (\<lambda>w. ?on (fst w)) (ns_started s))" by (rule frames_on)
  finally have "map offered (starts_on j s) = map frame_of (filter (\<lambda>w. ?on (fst w)) (ns_started s))" .
  moreover have "wire ?on ?log = concat (map offered ?sent)"
    by (rule wire_offered) (use assms(5) in auto)
  ultimately have "wire ?on ?log =
      concat (map frame_of (take (length ?sent) (filter (\<lambda>w. ?on (fst w)) (ns_started s))))"
    using arg_cong [OF m, of "map offered"] by (simp add: take_map [symmetric])
  then show ?thesis by blast
qed

end
