(* ===== verification/Oef_Asio_Interleave.thy ===== *)
theory Oef_Asio_Interleave
  imports Oef_Asio_Wire Oef_Comm
begin

text \<open>
  Two long buffers sent with \<open>AsioComm::send_async\<close> one after the other on a socket that takes
  all it is given.
\<close>

section \<open>A loop with one connection\<close>

definition open_connection :: "connection \<Rightarrow> bool" where
  "open_connection cn \<longleftrightarrow> cn_data cn = Some 0 \<and> has (im_state (cn_impl cn)) stream_oriented \<and>
     has (im_state (cn_impl cn)) non_blocking"

definition takes_all :: "byte list posix \<Rightarrow> bool" where
  "takes_all P \<longleftrightarrow> px_sendmsg P = (\<lambda>s bufs w. (int (length (concat bufs)), 0, w @ concat bufs))"

text \<open>Everything the steps depend on: the queue, the outstanding work, the bytes written and the outcomes. The connection is the
  first of the reactor, and nothing waits there.\<close>

definition flows ::
    "('x net_op, byte list send_world) loop_state \<Rightarrow> 'x net_op reactor_item sched_item list \<Rightarrow> int \<Rightarrow> byte list \<Rightarrow>
     (send_op \<times> asio_ec \<times> nat) list \<Rightarrow> bool" where
  "flows r qs units out outcomes \<longleftrightarrow>
     sd_op_queue (sr_sched r) = qs \<and> sd_outstanding_work (sr_sched r) = units \<and> \<not> sd_stopped (sr_sched r) \<and>
     sr_thread r = \<lparr>ti_private_work = 0, ti_private_queue = []\<rparr> \<and>
     sr_world r = \<lparr>sw_env = out, sw_log = outcomes\<rparr> \<and>
     er_live (sr_reactor r) = [0] \<and> er_errors (sr_reactor r) = [] \<and>
     (\<exists>ds. er_states (sr_reactor r) = [ds] \<and> \<not> ds_shutdown ds \<and> ds_queue ds = (\<lambda>_. []) \<and>
        ds_try_speculative ds = (\<lambda>_. True))"

lemma perform_takes_all:
  assumes "takes_all P"
  shows "perform_send P q \<lparr>sw_env = out, sw_log = outcomes\<rparr> =
    (Done, \<lparr>sw_env = out @ offered q, sw_log = outcomes @ [(q, ec_ok, length (offered q))]\<rparr>)"
  using assms
  by (simp add: takes_all_def perform_send_def send_op_perform_def non_blocking_send.simps socket_send_def
    offered_def ec_ok_def interrupted_def would_block_def try_again_def)

lemma flows_registered:
  "\<exists>s. net_step allow perform (Ev_outside (Act_call (Call_register fd (0, 0)))) (net_start hint []) = Some s \<and>
     flows (ns_loop s) [Task_operation] 0 [] [] \<and> ns_started s = [] \<and> ns_results s = []"
  by (simp add: net_start_def loop_state_make_def init_task_def scheduler_make_def register_descriptor_def
    allocate_descriptor_state_def reactor_make_def er_update_def flows_def descriptor_state_make_def thread_info_make_def)

text \<open>A send is performed at once.\<close>

lemma send_call_nonempty: "offered q \<noteq> [] \<Longrightarrow>
    send_call q cont errno = Call_start Write_op (cn_data (so_conn q)) (Send q) cont True (ctl_result errno)"
  by (simp add: send_call_def all_empty_iff offered_def)

lemma async_send_flows:
  assumes P: "takes_all P" and cn: "open_connection (so_conn q)" and q: "offered q \<noteq> []"
    and w: "sr_world r = \<lparr>sw_env = out, sw_log = outcomes\<rparr>" and live: "er_live (sr_reactor r) = [0]"
    and ds: "er_states (sr_reactor r) = [ds]" "\<not> ds_shutdown ds" "ds_queue ds = (\<lambda>_. [])" "ds_try_speculative ds = (\<lambda>_. True)"
  shows "async_send (net_perform P other) in_thread q cont errno r = Some (on_sched (post_immediate_completion (User (Send q)) cont in_thread)
    (r\<lparr>sr_world := \<lparr>sw_env = out @ offered q, sw_log = outcomes @ [(q, ec_ok, length (offered q))]\<rparr>\<rparr>))"
  using cn ds live
  by (simp add: async_send_def is_registered_def open_connection_def send_call_nonempty [OF q] valid_data_def w
    reactor_start_op_def net_perform_def perform_takes_all [OF P] on_sched_def split: prod.split)

lemma write_flows:
  assumes P: "takes_all P" and cn: "open_connection cn" "allow s cn" and f: "flows (ns_loop s) qs units out outcomes"
    and q: "q = write_begin (length (ns_started s)) cn bufs" "offered q \<noteq> []"
  shows "\<exists>s'. net_step allow (net_perform P other) (Ev_outside (Act_write cn bufs 0)) s = Some s' \<and>
    flows (ns_loop s') (qs @ [Operation (User (Send q))]) (units + 1) (out @ offered q)
      (outcomes @ [(q, ec_ok, length (offered q))]) \<and>
    ns_started s' = ns_started s @ [(cn, bufs)] \<and> ns_results s' = ns_results s"
proof -
  from f obtain ds where ds: "er_states (sr_reactor (ns_loop s)) = [ds]" "\<not> ds_shutdown ds" "ds_queue ds = (\<lambda>_. [])"
    "ds_try_speculative ds = (\<lambda>_. True)" by (auto simp: flows_def)
  have "async_send (net_perform P other) False q False 0 (ns_loop s) =
    Some (on_sched (post_immediate_completion (User (Send q)) False False)
      ((ns_loop s)\<lparr>sr_world := \<lparr>sw_env = out @ offered q, sw_log = outcomes @ [(q, ec_ok, length (offered q))]\<rparr>\<rparr>))"
    by (rule async_send_flows [OF P _ q(2) _ _ ds]) (use cn f in \<open>simp_all add: q(1) flows_def\<close>)
  then show ?thesis
    using f cn(2) by (simp add: q(1) [symmetric] flows_def on_sched_def post_immediate_completion_def Let_def
      work_started_def sched_push_def wake_one_thread_def)
qed

lemma poll_flows:
  assumes "flows (ns_loop s) (Task_operation # qs) units out outcomes"
  shows "\<exists>s'. net_step allow perform (Ev_poll []) s = Some s' \<and> flows (ns_loop s') (qs @ [Task_operation]) units out outcomes \<and>
    ns_started s' = ns_started s \<and> ns_results s' = ns_results s"
  using assms
  by (simp add: flows_def sched_turn_def task_turn_def reactor_run_def on_sched_def task_cleanup_def sched_push_def Let_def)

lemma begin_turn_flows:
  assumes "flows r (Operation (User p) # qs) units out outcomes"
  shows "\<exists>r'. begin_turn perform r = Some (Some p, r') \<and> flows r' qs units out outcomes"
  using assms
  by (simp add: flows_def begin_turn_def take_operation_def wake_one_thread_def Let_def)

lemma continue_flows:
  assumes P: "takes_all P" and cn: "open_connection (so_conn q)"
    and f: "flows (ns_loop s) (Operation (User (Send q)) # qs) units out outcomes"
    and m: "map_of outcomes q = Some (ec_ok, n)" "write_handler q ec_ok n = (Transfer_some bufs, c)"
    and q': "q' = write_continue q bufs c" "offered q' \<noteq> []"
  shows "\<exists>s'. net_step allow (net_perform P other) (Ev_turn [] 0) s = Some s' \<and>
    flows (ns_loop s') (qs @ [Operation (User (Send q'))]) units (out @ offered q')
      (outcomes @ [(q', ec_ok, length (offered q'))]) \<and>
    ns_started s' = ns_started s \<and> ns_results s' = ns_results s"
proof -
  from begin_turn_flows [OF f, of "net_perform P other"] obtain r where
    r: "begin_turn (net_perform P other) (ns_loop s) = Some (Some (Send q), r)" "flows r qs units out outcomes" by blast
  from r(2) obtain ds where ds: "er_states (sr_reactor r) = [ds]" "\<not> ds_shutdown ds" "ds_queue ds = (\<lambda>_. [])"
    "ds_try_speculative ds = (\<lambda>_. True)" by (auto simp: flows_def)
  have o: "send_outcome outcomes ([] :: ('a net_op \<times> asio_ec) list) q = (ec_ok, n)"
    using m(1) by (simp add: send_outcome_def)
  have "async_send (net_perform P other) True q' True 0 r =
    Some (on_sched (post_immediate_completion (User (Send q')) True True)
      (r\<lparr>sr_world := \<lparr>sw_env = out @ offered q', sw_log = outcomes @ [(q', ec_ok, length (offered q'))]\<rparr>\<rparr>))"
    by (rule async_send_flows [OF P _ q'(2) _ _ ds]) (use cn r(2) in \<open>simp_all add: q'(1) write_continue_def flows_def\<close>)
  then show ?thesis
    using r(2) by (simp add: net_turn_def r(1) send_completed_def o m(2) q'(1) [symmetric] flows_def on_sched_def
      post_immediate_completion_def end_turn_def work_cleanup_def sched_push_def Let_def)
qed

lemma finish_flows:
  assumes f: "flows (ns_loop s) (Operation (User (Send q)) # qs) units out outcomes"
    and m: "map_of outcomes q = Some (ec_ok, n)" "write_handler q ec_ok n = (Call_handler ec len, c)"
  shows "\<exists>s'. net_step allow perform (Ev_turn [] 0) s = Some s' \<and> (units \<noteq> 1 \<longrightarrow> flows (ns_loop s') qs (units - 1) out outcomes) \<and>
    sw_env (sr_world (ns_loop s')) = out \<and> sw_log (sr_world (ns_loop s')) = outcomes \<and>
    ns_started s' = ns_started s \<and> ns_results s' = ns_results s @ [(so_write q, ec, len)]"
proof -
  from begin_turn_flows [OF f, of perform] obtain r where
    r: "begin_turn perform (ns_loop s) = Some (Some (Send q), r)" "flows r qs units out outcomes" by blast
  have o: "send_outcome outcomes ([] :: ('a net_op \<times> asio_ec) list) q = (ec_ok, n)"
    using m(1) by (simp add: send_outcome_def)
  show ?thesis
    using r(2) by (simp add: net_turn_def r(1) send_completed_def o m(2) flows_def on_sched_def end_turn_def
      work_cleanup_def sched_push_def work_finished_def Let_def)
qed

section \<open>Two buffers\<close>

lemma comm_buffers_frame: "concat (comm_buffers e a) = comm_frame e a"
  by (simp add: comm_buffers_def comm_frame_def Let_def)

lemma comm_buffers_few: "length (comm_buffers e a) \<le> 16"
  by (simp add: comm_buffers_def Let_def)

text \<open>A write of a frame that needs two sends.\<close>

definition two_sends :: "endian \<Rightarrow> buffer \<Rightarrow> bool" where
  "two_sends e a \<longleftrightarrow> 65536 < length (comm_frame e a) \<and> length (comm_frame e a) \<le> 131072"

lemma consume_buffers: "cb_buffers (cb_consume c n) = cb_buffers c"
  by (simp add: cb_consume_def Let_def split: prod.split)

lemma two_sends_write:
  assumes "two_sends e a" "q = write_begin k cn (comm_buffers e a)"
  obtains q' bufs c c' where
    "offered q = take 65536 (comm_frame e a)" "offered q \<noteq> []" "length (offered q) = 65536"
    "so_conn q = cn" "so_write q = k" "so_conn q' = cn" "so_write q' = k" "q' \<noteq> q"
    "write_handler q ec_ok 65536 = (Transfer_some bufs, c)" "q' = write_continue q bufs c"
    "offered q' = drop 65536 (comm_frame e a)" "offered q' \<noteq> []"
    "write_handler q' ec_ok (length (offered q')) = (Call_handler ec_ok (length (comm_frame e a)), c')"
proof -
  let ?F = "comm_frame e a" and ?bs = "comm_buffers e a"
  have F: "65536 < length ?F" "length ?F \<le> 131072" using assms(1) by (simp_all add: two_sends_def)
  have ok: "op_ok cn ?F q" "consumed q = 0" "so_write q = k"
    using op_ok_begin [where cn = cn and bufs = ?bs and k = k] by (simp_all add: assms(2) comm_buffers_frame)
  have o: "offered q = take 65536 ?F" by (simp add: assms(2) begin_offered comm_buffers_few comm_buffers_frame)
  have valid: "cb_valid (so_rest q)" "cb_rest (so_rest q) = ?F" using ok by (simp_all add: op_ok_def)
  define c where "c = cb_consume (so_rest q) 65536"
  define bufs where "bufs = cb_prepare c default_max_transfer_size"
  define q' where "q' = write_continue q bufs c"
  have c: "cb_valid c" "cb_rest c = drop 65536 ?F" "cb_total_consumed c = 65536"
    using valid ok(2) by (simp_all add: c_def cb.valid_consume cb.rest_consume cb.total_consume)
  have few: "length (cb_buffers c) \<le> 16" by (simp add: c_def consume_buffers assms(2) comm_buffers_few)
  have ok': "op_ok cn ?F q'" "consumed q' = 65536"
    using ok(1) c F by (simp_all add: op_ok_def q'_def write_continue_def bufs_def)
  have o': "offered q' = drop 65536 ?F"
    using offered_full [OF ok'(1)] few F ok'(2) by (simp add: q'_def write_continue_def)
  have nf: "\<not> ec_failed ec_ok" by (simp add: ec_failed_def ec_ok_def ec_value_def)
  have w: "write_handler q ec_ok 65536 = (Transfer_some bufs, c)"
    using c F by (simp add: write_handler_def write_op_call_def c_def [symmetric] bufs_def Let_def transfer_all_def
      default_max_transfer_size_def nf cb.empty_iff)
  define c' where "c' = cb_consume c (length (offered q'))"
  have c': "cb_valid c'" "cb_rest c' = []" "cb_total_consumed c' = length ?F"
    using c F by (simp_all add: c'_def cb.valid_consume cb.rest_consume cb.total_consume o')
  have w': "write_handler q' ec_ok (length (offered q')) = (Call_handler ec_ok (length ?F), c')"
    using c' by (simp add: write_handler_def write_op_call_def q'_def write_continue_def c'_def Let_def cb.empty_iff)
  show ?thesis
  proof (rule that [OF o _ _ _ ok(3) _ _ _ w q'_def o' _ w'])
    show "q' \<noteq> q" using ok(2) ok'(2) by auto
  qed (use F o o' ok(3) in \<open>auto simp: q'_def write_continue_def assms(2)\<close>)
qed

lemma two_writes_run:
  assumes "takes_all P" "open_connection cn" "two_sends e a" "two_sends e b"
  shows "\<exists>s. net_steps (\<lambda>_ _. True) (net_perform P other)
      [Ev_outside (Act_call (Call_register fd (0, 0))), Ev_outside (comm_write e cn a 0), Ev_outside (comm_write e cn b 0),
       Ev_poll [], Ev_turn [] 0, Ev_turn [] 0, Ev_poll [], Ev_turn [] 0, Ev_turn [] 0] (net_start hint []) = Some s \<and>
    sw_env (sr_world (ns_loop s)) =
      take 65536 (comm_frame e a) @ take 65536 (comm_frame e b) @ drop 65536 (comm_frame e a) @ drop 65536 (comm_frame e b) \<and>
    ns_results s = [(0, ec_ok, length (comm_frame e a)), (1, ec_ok, length (comm_frame e b))]"
proof -
  let ?A = "comm_frame e a" and ?B = "comm_frame e b"
  let ?allow = "\<lambda>(_ :: ('a, byte list) net_state) (_ :: connection). True" and ?p = "net_perform P other"
  define q1 where "q1 = write_begin 0 cn (comm_buffers e a)"
  define q2 where "q2 = write_begin 1 cn (comm_buffers e b)"
  obtain r1 u1 c1 d1 where w1: "offered q1 = take 65536 ?A" "offered q1 \<noteq> []" "length (offered q1) = 65536" "so_conn q1 = cn"
    "so_write q1 = 0" "so_conn r1 = cn" "so_write r1 = 0" "r1 \<noteq> q1" "write_handler q1 ec_ok 65536 = (Transfer_some u1, c1)"
    "r1 = write_continue q1 u1 c1" "offered r1 = drop 65536 ?A" "offered r1 \<noteq> []"
    "write_handler r1 ec_ok (length (offered r1)) = (Call_handler ec_ok (length ?A), d1)"
    by (rule two_sends_write [OF assms(3) q1_def])
  obtain r2 u2 c2 d2 where w2: "offered q2 = take 65536 ?B" "offered q2 \<noteq> []" "length (offered q2) = 65536" "so_conn q2 = cn"
    "so_write q2 = 1" "so_conn r2 = cn" "so_write r2 = 1" "r2 \<noteq> q2" "write_handler q2 ec_ok 65536 = (Transfer_some u2, c2)"
    "r2 = write_continue q2 u2 c2" "offered r2 = drop 65536 ?B" "offered r2 \<noteq> []"
    "write_handler r2 ec_ok (length (offered r2)) = (Call_handler ec_ok (length ?B), d2)"
    by (rule two_sends_write [OF assms(4) q2_def])
  have ne: "q1 \<noteq> q2" "r1 \<noteq> q2" "r2 \<noteq> q1" "r2 \<noteq> r1" using w1(5,7) w2(5,7) by auto
  let ?log2 = "[(q1, ec_ok, 65536 :: nat), (q2, ec_ok, 65536)]"
  let ?log3 = "?log2 @ [(r1, ec_ok, length (offered r1))]"
  let ?log4 = "?log3 @ [(r2, ec_ok, length (offered r2))]"
  have m1: "map_of ?log2 q1 = Some (ec_ok, 65536)" by simp
  have m2: "map_of ?log3 q2 = Some (ec_ok, 65536)" using ne by simp
  have m3: "map_of ?log4 r1 = Some (ec_ok, length (offered r1))" using ne w1(8) by simp
  have m4: "map_of ?log4 r2 = Some (ec_ok, length (offered r2))" using ne w2(8) by simp
  obtain s1 :: "('a, byte list) net_state" where s1:
    "net_step ?allow ?p (Ev_outside (Act_call (Call_register fd (0, 0)))) (net_start hint []) = Some s1"
    "flows (ns_loop s1) [Task_operation] 0 [] []" "ns_started s1 = []" "ns_results s1 = []"
    using flows_registered by blast
  obtain s2 where s2: "net_step ?allow ?p (Ev_outside (comm_write e cn a 0)) s1 = Some s2"
    "flows (ns_loop s2) [Task_operation, Operation (User (Send q1))] 1 (offered q1) [(q1, ec_ok, 65536)]"
    "ns_started s2 = [(cn, comm_buffers e a)]" "ns_results s2 = []"
    using write_flows [OF assms(1,2) _ s1(2), where allow = ?allow and bufs = "comm_buffers e a" and other = other] s1(3,4) w1(2,3)
    by (auto simp: comm_write_def q1_def)
  obtain s3 where s3: "net_step ?allow ?p (Ev_outside (comm_write e cn b 0)) s2 = Some s3"
    "flows (ns_loop s3) [Task_operation, Operation (User (Send q1)), Operation (User (Send q2))] 2
      (offered q1 @ offered q2) ?log2" "ns_results s3 = []"
    using write_flows [OF assms(1,2) _ s2(2), where allow = ?allow and bufs = "comm_buffers e b" and other = other] s2(3,4) w2(2,3)
    by (auto simp: comm_write_def q2_def)
  obtain s4 where s4: "net_step ?allow ?p (Ev_poll []) s3 = Some s4"
    "flows (ns_loop s4) [Operation (User (Send q1)), Operation (User (Send q2)), Task_operation] 2
      (offered q1 @ offered q2) ?log2" "ns_results s4 = []"
    using poll_flows [OF s3(2)] s3(3) by fastforce
  obtain s5 where s5: "net_step ?allow ?p (Ev_turn [] 0) s4 = Some s5"
    "flows (ns_loop s5) [Operation (User (Send q2)), Task_operation, Operation (User (Send r1))] 2
      ((offered q1 @ offered q2) @ offered r1) ?log3" "ns_results s5 = []"
    using continue_flows [OF assms(1) _ s4(2) m1 w1(9,10,12)] assms(2) w1(4) s4(3) by fastforce
  obtain s6 where s6: "net_step ?allow ?p (Ev_turn [] 0) s5 = Some s6"
    "flows (ns_loop s6) [Task_operation, Operation (User (Send r1)), Operation (User (Send r2))] 2
      (((offered q1 @ offered q2) @ offered r1) @ offered r2) ?log4" "ns_results s6 = []"
    using continue_flows [OF assms(1) _ s5(2) m2 w2(9,10,12)] assms(2) w2(4) s5(3) by fastforce
  obtain s7 where s7: "net_step ?allow ?p (Ev_poll []) s6 = Some s7"
    "flows (ns_loop s7) [Operation (User (Send r1)), Operation (User (Send r2)), Task_operation] 2
      (((offered q1 @ offered q2) @ offered r1) @ offered r2) ?log4" "ns_results s7 = []"
    using poll_flows [OF s6(2)] s6(3) by fastforce
  obtain s8 where s8: "net_step ?allow ?p (Ev_turn [] 0) s7 = Some s8"
    "flows (ns_loop s8) [Operation (User (Send r2)), Task_operation] 1
      (((offered q1 @ offered q2) @ offered r1) @ offered r2) ?log4" "ns_results s8 = [(0, ec_ok, length ?A)]"
    using finish_flows [OF s7(2) m3 w1(13)] s7(3) w1(7) by fastforce
  obtain s9 where s9: "net_step ?allow ?p (Ev_turn [] 0) s8 = Some s9"
    "sw_env (sr_world (ns_loop s9)) = ((offered q1 @ offered q2) @ offered r1) @ offered r2"
    "ns_results s9 = [(0, ec_ok, length ?A), (1, ec_ok, length ?B)]"
    using finish_flows [OF s8(2) m4 w2(13)] s8(3) w2(7) by fastforce
  show ?thesis
    using s1(1) s2(1) s3(1) s4(1) s5(1) s6(1) s7(1) s8(1) s9 w1(1,11) w2(1,11)
    by (intro exI [of _ s9]) (simp del: net_step.simps)
qed

lemma mixed_receive:
  assumes "65532 < length a" "length a \<le> 131068" "length a - 65532 \<le> length B"
  shows "\<exists>rest. comm_receive_async e
      \<lparr>st_in = take 65536 (comm_frame e a) @ take 65536 B @ drop 65536 (comm_frame e a) @ drop 65536 B, st_end = n\<rparr> =
      (No_error, take 65532 a @ take (length a - 65532) B, rest)"
  using assms by (simp add: comm_receive_async_def asio_read_def comm_frame_short unat_size_u32 Let_def min_def)

text \<open>
  C29: Two buffers of between 65533 and 131068 bytes that send_async is called with one
  after the other are mixed on a connection that takes all it is given: of each frame
  the first 65536 bytes are sent first, then the rest of the one and the rest of the
  other. Both handlers are told that the whole frame was written, and the peer receives
  as the first buffer the first 65532 bytes of it followed by the beginning of the
  second frame.
\<close>

theorem large_writes_interleave:
  assumes "takes_all P" "open_connection cn" "65532 < length a" "length a \<le> 131068" "65532 < length b" "length b \<le> 131068"
  shows "\<exists>s rest. net_steps (\<lambda>_ _. True) (net_perform P other)
      [Ev_outside (Act_call (Call_register fd (0, 0))), Ev_outside (comm_write e cn a 0), Ev_outside (comm_write e cn b 0),
       Ev_poll [], Ev_turn [] 0, Ev_turn [] 0, Ev_poll [], Ev_turn [] 0, Ev_turn [] 0] (net_start hint []) = Some s \<and>
    sw_env (sr_world (ns_loop s)) =
      take 65536 (comm_frame e a) @ take 65536 (comm_frame e b) @ drop 65536 (comm_frame e a) @ drop 65536 (comm_frame e b) \<and>
    ns_results s = [(0, ec_ok, length (comm_frame e a)), (1, ec_ok, length (comm_frame e b))] \<and>
    comm_receive_async e \<lparr>st_in = sw_env (sr_world (ns_loop s)), st_end = n\<rparr> =
      (No_error, take 65532 a @ take (length a - 65532) (comm_frame e b), rest)"
proof -
  have len: "length (comm_frame e a) = 4 + length a" "length (comm_frame e b) = 4 + length b"
    using assms(4,6) by (simp_all add: comm_frame_short)
  then have "two_sends e a" "two_sends e b" using assms(3-6) by (simp_all add: two_sends_def)
  from two_writes_run [OF assms(1,2) this, of other fd hint] mixed_receive [OF assms(3,4), of "comm_frame e b" e n] len assms(4,5)
  show ?thesis by auto
qed

section \<open>Examples\<close>

definition example_posix :: "byte list posix" where
  "example_posix = \<lparr>
     px_socket = (\<lambda>af k w. (7, 0, w)), px_accept = (\<lambda>s w. (8, 0, w)), px_close = (\<lambda>s w. (0, 0, w)),
     px_linger_off = (\<lambda>s w. (0, 0, w)), px_ioctl_nbio = (\<lambda>s v w. (0, 0, w)), px_fionread = (\<lambda>s w. (0, 0, 0, w)),
     px_shutdown = (\<lambda>s how w. (0, 0, w)), px_bind = (\<lambda>s ep w. (0, 0, w)),
     px_setsockopt = (\<lambda>s level optname v w. (0, 0, w)), px_connect = (\<lambda>s ep w. (0, 0, w)),
     px_so_error = (\<lambda>s w. (0, 0, 0, w)), px_listen = (\<lambda>s n w. (0, 0, w)), px_recvmsg = (\<lambda>s room w. (0, 0, [], w)),
     px_sendmsg = (\<lambda>s bufs w. (int (length (concat bufs)), 0, w @ concat bufs)), px_poll = (\<lambda>s ev msec w. (1, 0, w))\<rparr>"

definition example_connection :: connection where
  "example_connection = \<lparr>cn_impl = \<lparr>im_socket = 7, im_state = stream_oriented OR non_blocking\<rparr>, cn_data = Some 0\<rparr>"

definition example_other :: "unit \<Rightarrow> byte list \<Rightarrow> op_status \<times> byte list" where
  "example_other x w = (Done, w)"

lemma example_takes_all: "takes_all example_posix" "sound_sends example_posix"
  by (simp_all add: takes_all_def example_posix_def sound_sends_def)

lemma example_open_connection: "open_connection example_connection"
  by (simp add: open_connection_def example_connection_def has_def stream_oriented_def non_blocking_def
    user_set_non_blocking_def internal_non_blocking_def)

lemma steps_reachable:
  "net_steps allow perform evs s = Some s' \<Longrightarrow> net_reachable allow perform s \<Longrightarrow> net_reachable allow perform s'"
  by (induction evs arbitrary: s) (auto split: option.splits intro: net_next)

text \<open>One write of two bytes, that its first send puts on the socket.\<close>

lemma example_run:
  "\<exists>s :: (unit, byte list) net_state. net_reachable idle_connection (net_perform example_posix example_other) s \<and>
     sw_log (sr_world (ns_loop s)) = [(write_begin 0 example_connection [[1, 2]], ec_ok, 2)] \<and>
     er_errors (sr_reactor (ns_loop s)) = [] \<and> ns_started s = [(example_connection, [[1, 2]])] \<and> ns_results s = []"
proof -
  let ?q = "write_begin 0 example_connection [[1, 2]]"
  obtain s1 :: "(unit, byte list) net_state" where s1:
    "net_step idle_connection (net_perform example_posix example_other) (Ev_outside (Act_call (Call_register 7 (0, 0))))
      (net_start 0 []) = Some s1"
    "flows (ns_loop s1) [Task_operation] 0 [] []" "ns_started s1 = []" "ns_results s1 = []"
    using flows_registered by blast
  have o: "offered ?q = [1, 2]" by (simp add: begin_offered)
  obtain s2 where "net_step idle_connection (net_perform example_posix example_other)
      (Ev_outside (Act_write example_connection [[1, 2]] 0)) s1 = Some s2"
    "sw_log (sr_world (ns_loop s2)) = [(?q, ec_ok, 2)]" "er_errors (sr_reactor (ns_loop s2)) = []"
    "ns_started s2 = [(example_connection, [[1, 2]])]" "ns_results s2 = []"
    using write_flows [OF example_takes_all(1) example_open_connection _ s1(2), where allow = idle_connection
        and bufs = "[[1, 2]]" and other = example_other and q = ?q] s1(3,4) o
    by (auto simp: idle_connection_def flows_def)
  with net_next [OF net_next [OF net_init s1(1)]] show ?thesis by blast
qed

lemma serial_writes_in_order_witness:
  "\<exists>s :: (unit, byte list) net_state. ns_started s = [(example_connection, [[1, 2]])] \<and>
     wire (\<lambda>c. c = example_connection) (sw_log (sr_world (ns_loop s))) = [1, 2] \<and>
     prefix (wire (\<lambda>c. c = example_connection) (sw_log (sr_world (ns_loop s)))) [1, 2]"
proof -
  from example_run obtain s :: "(unit, byte list) net_state" where
    s: "net_reachable idle_connection (net_perform example_posix example_other) s"
      "sw_log (sr_world (ns_loop s)) = [(write_begin 0 example_connection [[1, 2]], ec_ok, 2)]"
      "ns_started s = [(example_connection, [[1, 2]])]" "ns_results s = []" by blast
  from serial_writes_in_order [OF s(1) example_takes_all(2), of example_connection] s(2-4) show ?thesis
    by (intro exI [of _ s]) (simp add: wire_def begin_offered)
qed

lemma async_writes_account_witness:
  "\<exists>s :: (unit, byte list) net_state. ns_started s = [(example_connection, [[1, 2]])] \<and>
     (\<exists>n \<le> 2. sent_by 0 (sw_log (sr_world (ns_loop s))) = take n [1, 2])"
proof -
  from example_run obtain s :: "(unit, byte list) net_state" where
    s: "net_reachable idle_connection (net_perform example_posix example_other) s"
      "ns_started s = [(example_connection, [[1, 2]])]" by blast
  have "0 < length (ns_started s)" by (simp add: s(2))
  from async_writes_account [OF s(1) example_takes_all(2) this] obtain n where
    "n \<le> length (concat (snd (ns_started s ! 0)))"
    "sent_by 0 (sw_log (sr_world (ns_loop s))) = take n (concat (snd (ns_started s ! 0)))" by blast
  with s(2) show ?thesis by (intro exI [of _ s] conjI exI [of _ n]) simp_all
qed

lemma small_writes_in_order_witness:
  "\<exists>s :: (unit, byte list) net_state. ns_started s = [(example_connection, [[1, 2]])] \<and>
     (\<exists>m. wire (\<lambda>cn. cn_data cn = Some 0) (sw_log (sr_world (ns_loop s))) =
       concat (map (\<lambda>w. concat (snd w)) (take m [(example_connection, [[1, 2]])])))"
proof -
  from example_run obtain s :: "(unit, byte list) net_state" where
    s: "net_reachable idle_connection (net_perform example_posix example_other) s"
      "sw_log (sr_world (ns_loop s)) = [(write_begin 0 example_connection [[1, 2]], ec_ok, 2)]"
      "er_errors (sr_reactor (ns_loop s)) = []" "ns_started s = [(example_connection, [[1, 2]])]" by blast
  have "cn_data example_connection = Some 0" by (simp add: example_connection_def)
  with small_writes_in_order [OF s(1) example_takes_all(2) s(3), of 0] s(2,4) show ?thesis
    by (intro exI [of _ s]) (simp add: begin_offered)
qed

lemma large_writes_interleave_witness:
  "\<exists>(s :: (unit, byte list) net_state) rest.
     sw_env (sr_world (ns_loop s)) =
       take 65536 (comm_frame LittleEndian (replicate 70000 1)) @ take 65536 (comm_frame LittleEndian (replicate 70000 2)) @
       drop 65536 (comm_frame LittleEndian (replicate 70000 1)) @ drop 65536 (comm_frame LittleEndian (replicate 70000 2)) \<and>
     comm_receive_async LittleEndian \<lparr>st_in = sw_env (sr_world (ns_loop s)), st_end = 0\<rparr> =
       (No_error, replicate 65532 1 @ take 4468 (comm_frame LittleEndian (replicate 70000 2)), rest)"
proof -
  have l: "65532 < length (replicate 70000 (1 :: byte))" "length (replicate 70000 (1 :: byte)) \<le> 131068"
    "65532 < length (replicate 70000 (2 :: byte))" "length (replicate 70000 (2 :: byte)) \<le> 131068"
    by (simp_all only: length_replicate)
  have t: "take 65532 (replicate 70000 (1 :: byte)) = replicate 65532 1" "length (replicate 70000 (1 :: byte)) - 65532 = 4468"
    by (simp_all only: take_replicate length_replicate) simp_all
  show ?thesis
    using large_writes_interleave [OF example_takes_all(1) example_open_connection l,
        of example_other 7 LittleEndian 0 0, unfolded t]
    by blast
qed

end
