(* ===== verification/Oef_Asio_Threads.thy ===== *)
theory Oef_Asio_Threads
  imports Oef_Asio_Scheduler
begin

text \<open>
  The scheduler run by several threads (\<open>3rd/asio/asio/detail/impl/scheduler.ipp\<close>, with
  \<open>detail/posix_event.hpp\<close> below \<open>detail/conditionally_enabled_event.hpp\<close>), as in
  \<open>CoreServer::run\<close>. A thread is a record of what it is about to do; a step is what one thread
  does between two points where others can act: a section under the mutex of the scheduler, a
  call of the condition variable outside of it, or a change of the atomic count of work. What
  handlers do, what the reactor delivers and which thread a signal wakes are inputs of the
  steps.
\<close>

section \<open>The event\<close>

text \<open>\<open>state_\<close>: the lowest bit says that the event is signalled, the rest counts the waiters twice.\<close>

definition event_set :: "nat \<Rightarrow> nat" where "event_set state = (state OR 1)"

definition event_has_waiters :: "nat \<Rightarrow> bool" where "event_has_waiters state \<longleftrightarrow> state > 1"

definition event_clear :: "nat \<Rightarrow> nat" where "event_clear state = unset_bit 0 state"

definition event_signalled :: "nat \<Rightarrow> bool" where "event_signalled state \<longleftrightarrow> (state AND 1) \<noteq> 0"

text \<open>What \<open>wait\<close> does around the condition variable.\<close>

definition event_wait_begin :: "nat \<Rightarrow> nat" where "event_wait_begin state = state + 2"

definition event_wait_end :: "nat \<Rightarrow> nat" where "event_wait_end state = state - 2"

section \<open>Threads\<close>

text \<open>
  An operation that the reactor delivers (a descriptor) first performs what waits on the
  descriptor. If something completes, its handler runs, and ends a unit of work that was counted
  when the operation was started; otherwise the scheduler is told that no work ended.
\<close>

datatype progress = Undecided | Holding | Compensated

text \<open>Outside of \<open>run\<close>; about to lock; in the loop of \<open>do_run_one\<close> with the lock; waiting, and woken but without the
  lock; in the reactor (with a flag whether it may block); in an operation; in \<open>work_cleanup\<close>.\<close>

datatype 'op phase = Outside | At_lock | Head | Waiting | Woken | In_task bool | Executing 'op progress | Finishing

text \<open>What a thread still has to do before it goes on: signal the event, or stop the loop.\<close>

datatype duty = Free | Signal | Stop

record 'op worker =
  wk_phase :: "'op phase"
  wk_duty :: duty
  wk_info :: "'op thread_info"

text \<open>
  Scheduler, event, owner of the lock, whether the reactor is interrupted, and the threads.
  \<open>pl_owed\<close> is the work that handlers, the reactor and guards hold, \<open>pl_entered\<close> the operations
  that came into the queues and \<open>pl_done\<close> those taken for execution.
\<close>

record 'op pool =
  pl_sched :: "'op scheduler"
  pl_event :: nat
  pl_lock :: "nat option"
  pl_interrupted :: bool
  pl_workers :: "'op worker list"
  pl_owed :: nat
  pl_entered :: "'op list"
  pl_done :: "'op list"

definition on_worker :: "nat \<Rightarrow> ('op worker \<Rightarrow> 'op worker) \<Rightarrow> 'op pool \<Rightarrow> 'op pool" where
  "on_worker t f s = s\<lparr>pl_workers := (pl_workers s)[t := f (pl_workers s ! t)]\<rparr>"

definition go_to :: "nat \<Rightarrow> 'op phase \<Rightarrow> 'op pool \<Rightarrow> 'op pool" where
  "go_to t p = on_worker t (\<lambda>w. w\<lparr>wk_phase := p\<rparr>)"

section \<open>Waking and stopping\<close>

definition interrupt_task :: "'op pool \<Rightarrow> 'op pool" where
  "interrupt_task s =
     (let sd = pl_sched s
      in if \<not> sd_task_interrupted sd \<and> sd_task sd
         then s\<lparr>pl_sched := sd\<lparr>sd_task_interrupted := True\<rparr>, pl_interrupted := True\<rparr> else s)"

text \<open>The lock is released before the condition variable is signalled.\<close>

definition wake_one_thread_and_unlock :: "nat \<Rightarrow> 'op pool \<Rightarrow> 'op pool" where
  "wake_one_thread_and_unlock t s =
     (let s = s\<lparr>pl_event := event_set (pl_event s)\<rparr>;
          s = (if event_has_waiters (pl_event s) then on_worker t (\<lambda>w. w\<lparr>wk_duty := Signal\<rparr>) s else interrupt_task s)
      in s\<lparr>pl_lock := None\<rparr>)"

definition unlock_and_signal_one :: "nat \<Rightarrow> 'op pool \<Rightarrow> 'op pool" where
  "unlock_and_signal_one t s =
     (let s = s\<lparr>pl_event := event_set (pl_event s)\<rparr>;
          s = (if event_has_waiters (pl_event s) then on_worker t (\<lambda>w. w\<lparr>wk_duty := Signal\<rparr>) s else s)
      in s\<lparr>pl_lock := None\<rparr>)"

definition wake_worker :: "'op worker \<Rightarrow> 'op worker" where
  "wake_worker w = (if wk_phase w = Waiting then w\<lparr>wk_phase := Woken\<rparr> else w)"

definition stop_threads :: "'op pool \<Rightarrow> 'op pool" where
  "stop_threads s =
     interrupt_task (s\<lparr>pl_sched := (pl_sched s)\<lparr>sd_stopped := True\<rparr>, pl_event := event_set (pl_event s),
       pl_workers := map wake_worker (pl_workers s)\<rparr>)"

section \<open>The loop\<close>

text \<open>One turn of the loop of \<open>do_run_one\<close>, by the thread that has the lock. When the loop has stopped, \<open>run\<close> returns.\<close>

definition run_head :: "('op \<Rightarrow> bool) \<Rightarrow> nat \<Rightarrow> 'op pool \<Rightarrow> 'op pool" where
  "run_head from_task t s =
     (let sd = pl_sched s
      in if sd_stopped sd then (go_to t Outside s)\<lparr>pl_lock := None\<rparr>
      else case sd_op_queue sd of
        [] \<Rightarrow> (go_to t Waiting s)\<lparr>pl_event := event_wait_begin (event_clear (pl_event s)), pl_lock := None\<rparr>
      | Task_operation # rest \<Rightarrow>
          let more_handlers = (rest \<noteq> []);
              s = go_to t (In_task (\<not> more_handlers))
                (s\<lparr>pl_sched := sd\<lparr>sd_op_queue := rest, sd_task_interrupted := more_handlers\<rparr>\<rparr>)
          in if more_handlers \<and> \<not> sd_one_thread sd then unlock_and_signal_one t s else s\<lparr>pl_lock := None\<rparr>
      | Operation p # rest \<Rightarrow>
          let s = go_to t (Executing p (if from_task p then Undecided else Holding))
                (s\<lparr>pl_sched := sd\<lparr>sd_op_queue := rest\<rparr>, pl_done := pl_done s @ [p]\<rparr>)
          in if rest \<noteq> [] \<and> \<not> sd_one_thread sd then wake_one_thread_and_unlock t s else s\<lparr>pl_lock := None\<rparr>)"

text \<open>The reactor returns: what it delivered is in the private queue when \<open>task_cleanup\<close> runs.\<close>

definition run_task_end :: "nat \<Rightarrow> 'op list \<Rightarrow> bool \<Rightarrow> 'op pool \<Rightarrow> 'op pool" where
  "run_task_end t ops consumed s =
     (let ti = wk_info (pl_workers s ! t);
          (sd, ti) = task_cleanup (pl_sched s, ti\<lparr>ti_private_queue := ti_private_queue ti @ ops\<rparr>)
      in on_worker t (\<lambda>w. w\<lparr>wk_phase := Head, wk_info := ti\<rparr>)
           (s\<lparr>pl_sched := sd, pl_lock := Some t, pl_interrupted := pl_interrupted s \<and> \<not> consumed,
              pl_entered := pl_entered s @ ops\<rparr>))"

text \<open>\<open>work_cleanup\<close>: first the count, then the private queue.\<close>

definition work_cleanup_count :: "nat \<Rightarrow> 'op pool \<Rightarrow> 'op pool" where
  "work_cleanup_count t s =
     (let sd = pl_sched s; n = ti_private_work (wk_info (pl_workers s ! t));
          sd' = (if n > 1 then sd\<lparr>sd_outstanding_work := sd_outstanding_work sd + (n - 1)\<rparr>
                 else if n < 1 then sd\<lparr>sd_outstanding_work := sd_outstanding_work sd - 1\<rparr> else sd);
          duty = (if n < 1 \<and> sd_outstanding_work sd' = 0 then Stop else Free)
      in on_worker t (\<lambda>w. w\<lparr>wk_phase := Finishing, wk_duty := duty, wk_info := (wk_info w)\<lparr>ti_private_work := 0\<rparr>\<rparr>)
           (s\<lparr>pl_sched := sd'\<rparr>))"

definition work_cleanup_queue :: "nat \<Rightarrow> 'op pool \<Rightarrow> 'op pool" where
  "work_cleanup_queue t s =
     (let ti = wk_info (pl_workers s ! t)
      in if ti_private_queue ti = [] then go_to t At_lock s
         else on_worker t (\<lambda>w. w\<lparr>wk_phase := Head, wk_info := ti\<lparr>ti_private_queue := []\<rparr>\<rparr>)
           (s\<lparr>pl_sched := sched_push (map Operation (ti_private_queue ti)) (pl_sched s), pl_lock := Some t\<rparr>))"

text \<open>A woken thread has the lock again: \<open>wait\<close> returns, or waits on.\<close>

definition wait_woken :: "nat \<Rightarrow> 'op pool \<Rightarrow> 'op pool" where
  "wait_woken t s =
     (let state = event_wait_end (pl_event s)
      in if event_signalled state then (go_to t Head s)\<lparr>pl_event := state, pl_lock := Some t\<rparr>
         else (go_to t Waiting s)\<lparr>pl_event := event_wait_begin state\<rparr>)"

text \<open>The beginning of \<open>run\<close>.\<close>

definition run_begin :: "nat \<Rightarrow> 'op pool \<Rightarrow> 'op pool" where
  "run_begin t s =
     (if sd_outstanding_work (pl_sched s) = 0 then on_worker t (\<lambda>w. w\<lparr>wk_duty := Stop\<rparr>) s
      else on_worker t (\<lambda>w. w\<lparr>wk_phase := At_lock, wk_info := thread_info_make\<rparr>) s)"

section \<open>Calls\<close>

datatype 'op client_call =
    Cl_post 'op bool
  | Cl_defer "'op list"
  | Cl_dispatch 'op
  | Cl_work_started
  | Cl_work_finished
  | Cl_stop
  | Cl_complete
  | Cl_compensate

definition push_shared :: "nat \<Rightarrow> 'op list \<Rightarrow> 'op pool \<Rightarrow> 'op pool" where
  "push_shared t ps s =
     wake_one_thread_and_unlock t (s\<lparr>pl_sched := sched_push (map Operation ps) (pl_sched s), pl_entered := pl_entered s @ ps\<rparr>)"

definition push_private :: "nat \<Rightarrow> int \<Rightarrow> 'op list \<Rightarrow> 'op pool \<Rightarrow> 'op pool" where
  "push_private t n ps s =
     on_worker t (\<lambda>w. w\<lparr>wk_info := \<lparr>ti_private_work = ti_private_work (wk_info w) + n,
         ti_private_queue = ti_private_queue (wk_info w) @ ps\<rparr>\<rparr>)
       (s\<lparr>pl_entered := pl_entered s @ ps\<rparr>)"

definition count_work :: "int \<Rightarrow> 'op pool \<Rightarrow> 'op pool" where
  "count_work n s = s\<lparr>pl_sched := (pl_sched s)\<lparr>sd_outstanding_work := sd_outstanding_work (pl_sched s) + n\<rparr>\<rparr>"

text \<open>\<open>None\<close> when another thread has the lock the call needs, or the call is not one a handler may make: a unit of work
  is given back once, and operations are posted again by the reactor alone. A post counts its work before it takes the lock;
  another thread that acts in between is \<open>Cl_work_started\<close> followed by \<open>Cl_defer\<close> of one operation.\<close>

fun make_client_call ::
    "('op \<Rightarrow> bool) \<Rightarrow> nat \<Rightarrow> bool \<Rightarrow> 'op client_call \<Rightarrow> 'op pool \<Rightarrow> 'op pool option" where
  "make_client_call from_task t in_thread (Cl_post p is_continuation) s =
     (if from_task p then None
      else if (sd_one_thread (pl_sched s) \<or> is_continuation) \<and> in_thread then Some (push_private t 1 [p] s)
      else if pl_lock s = None then Some (push_shared t [p] (count_work 1 s)) else None)"
| "make_client_call from_task t in_thread (Cl_defer ps) s =
     (if list_ex from_task ps \<or> pl_owed s < length ps then None
      else if ps = [] then Some s
      else let s = s\<lparr>pl_owed := pl_owed s - length ps\<rparr>
        in if sd_one_thread (pl_sched s) \<and> in_thread then Some (push_private t 0 ps s)
           else if pl_lock s = None then Some (push_shared t ps s) else None)"
| "make_client_call from_task t in_thread (Cl_dispatch p) s =
     (if \<not> from_task p \<and> pl_lock s = None then Some (push_shared t [p] (count_work 1 s)) else None)"
| "make_client_call from_task t in_thread Cl_work_started s =
     Some ((count_work 1 s)\<lparr>pl_owed := pl_owed s + 1\<rparr>)"
| "make_client_call from_task t in_thread Cl_work_finished s =
     (if pl_owed s = 0 then None
      else let s = (count_work (-1) s)\<lparr>pl_owed := pl_owed s - 1\<rparr>
        in Some (if sd_outstanding_work (pl_sched s) = 0 then on_worker t (\<lambda>w. w\<lparr>wk_duty := Stop\<rparr>) s else s))"
| "make_client_call from_task t in_thread Cl_stop s = (if pl_lock s = None then Some (stop_threads s) else None)"
| "make_client_call from_task t in_thread _ s = None"

text \<open>The two ends of performing a descriptor.\<close>

fun perform_call :: "nat \<Rightarrow> 'op \<Rightarrow> 'op client_call \<Rightarrow> 'op pool \<Rightarrow> 'op pool option" where
  "perform_call t p Cl_complete s =
     (if pl_owed s = 0 then None else Some (go_to t (Executing p Holding) (s\<lparr>pl_owed := pl_owed s - 1\<rparr>)))"
| "perform_call t p Cl_compensate s =
     Some (on_worker t (\<lambda>w. w\<lparr>wk_phase := Executing p Compensated, wk_info := compensating_work_started (wk_info w)\<rparr>) s)"
| "perform_call t p _ s = None"

section \<open>Steps\<close>

datatype 'op pool_event =
    Run nat
  | Lock nat
  | Turn nat
  | Wake nat
  | Task_end nat "'op list" bool
  | Call nat "'op client_call"
  | Clean nat
  | Finish nat
  | Signal_one nat nat
  | Stop_loop nat
  | Spurious nat
  | Restart

abbreviation phase_of :: "'op pool \<Rightarrow> nat \<Rightarrow> 'op phase" where
  "phase_of s t \<equiv> wk_phase (pl_workers s ! t)"

abbreviation duty_of :: "'op pool \<Rightarrow> nat \<Rightarrow> duty" where
  "duty_of s t \<equiv> wk_duty (pl_workers s ! t)"

text \<open>A thread that is in none of its duties and in the given phase.\<close>

definition ready :: "'op pool \<Rightarrow> nat \<Rightarrow> bool" where
  "ready s t \<longleftrightarrow> t < length (pl_workers s) \<and> duty_of s t = Free"

definition free_duty :: "nat \<Rightarrow> 'op pool \<Rightarrow> 'op pool" where
  "free_duty t = on_worker t (\<lambda>w. w\<lparr>wk_duty := Free\<rparr>)"

definition wake_thread :: "nat \<Rightarrow> 'op pool \<Rightarrow> 'op pool" where
  "wake_thread t = on_worker t wake_worker"

text \<open>A signal wakes one of the waiting threads, if there is any.\<close>

definition may_wake :: "'op pool \<Rightarrow> nat \<Rightarrow> bool" where
  "may_wake s u \<longleftrightarrow>
     (if list_ex (\<lambda>w. wk_phase w = Waiting) (pl_workers s)
      then u < length (pl_workers s) \<and> phase_of s u = Waiting else u = length (pl_workers s))"

fun pool_step :: "('op \<Rightarrow> bool) \<Rightarrow> 'op pool_event \<Rightarrow> 'op pool \<Rightarrow> 'op pool option" where
  "pool_step from_task (Run t) s =
     (if ready s t \<and> phase_of s t = Outside then Some (run_begin t s) else None)"
| "pool_step from_task (Lock t) s =
     (if ready s t \<and> phase_of s t = At_lock \<and> pl_lock s = None then Some ((go_to t Head s)\<lparr>pl_lock := Some t\<rparr>) else None)"
| "pool_step from_task (Turn t) s =
     (if ready s t \<and> phase_of s t = Head then Some (run_head from_task t s) else None)"
| "pool_step from_task (Wake t) s =
     (if ready s t \<and> phase_of s t = Woken \<and> pl_lock s = None then Some (wait_woken t s) else None)"
| "pool_step from_task (Task_end t ops consumed) s =
     (if ready s t \<and> phase_of s t \<in> {In_task True, In_task False} \<and> pl_lock s = None \<and> list_all from_task ops
      then Some (run_task_end t ops consumed s) else None)"
| "pool_step from_task (Call t c) s =
     (if \<not> ready s t then None
      else case phase_of s t of
        Outside \<Rightarrow> make_client_call from_task t False c s
      | Executing p Holding \<Rightarrow> make_client_call from_task t True c s
      | Executing p Undecided \<Rightarrow> perform_call t p c s
      | _ \<Rightarrow> None)"
| "pool_step from_task (Clean t) s =
     (if \<not> ready s t then None
      else case phase_of s t of
        Executing p pr \<Rightarrow> if pr = Undecided then None else Some (work_cleanup_count t s)
      | _ \<Rightarrow> None)"
| "pool_step from_task (Finish t) s =
     (if ready s t \<and> phase_of s t = Finishing \<and> (ti_private_queue (wk_info (pl_workers s ! t)) = [] \<or> pl_lock s = None)
      then Some (work_cleanup_queue t s) else None)"
| "pool_step from_task (Signal_one t u) s =
     (if t < length (pl_workers s) \<and> duty_of s t = Signal \<and> may_wake s u
      then Some (free_duty t (if u < length (pl_workers s) then wake_thread u s else s)) else None)"
| "pool_step from_task (Stop_loop t) s =
     (if t < length (pl_workers s) \<and> duty_of s t = Stop \<and> pl_lock s = None
      then Some (free_duty t (stop_threads s)) else None)"
| "pool_step from_task (Spurious u) s =
     (if u < length (pl_workers s) \<and> phase_of s u = Waiting then Some (wake_thread u s) else None)"
| "pool_step from_task Restart s =
     (if list_all (\<lambda>w. wk_phase w = Outside \<and> wk_duty w = Free) (pl_workers s)
      then Some (s\<lparr>pl_sched := sched_restart (pl_sched s)\<rparr>) else None)"

text \<open>A scheduler that locks, with its reactor and \<open>n\<close> threads: \<open>init_task\<close> has set the event.\<close>

definition pool_start :: "32 word \<Rightarrow> nat \<Rightarrow> 'op pool" where
  "pool_start concurrency_hint n =
     \<lparr>pl_sched = init_task (scheduler_make concurrency_hint), pl_event = event_set 0, pl_lock = None,
      pl_interrupted = False, pl_workers = replicate n \<lparr>wk_phase = Outside, wk_duty = Free, wk_info = thread_info_make\<rparr>,
      pl_owed = 0, pl_entered = [], pl_done = []\<rparr>"

inductive pool_reachable :: "('op \<Rightarrow> bool) \<Rightarrow> 32 word \<Rightarrow> nat \<Rightarrow> 'op pool \<Rightarrow> bool"
  for from_task and hint and n where
  pool_init: "pool_reachable from_task hint n (pool_start hint n)"
| pool_next: "pool_reachable from_task hint n s \<Longrightarrow> pool_step from_task ev s = Some s' \<Longrightarrow>
    pool_reachable from_task hint n s'"

end
