(* ===== verification/Oef_Asio_Threads_Facts.thy ===== *)
theory Oef_Asio_Threads_Facts
  imports Oef_Asio_Threads "HOL-Library.Multiset"
begin

text \<open>
  Facts about the scheduler run by several threads: the reactor is in one place, work is counted
  exactly, no wake-up is lost, and a stop reaches every thread.
\<close>

section \<open>Components of the state\<close>

lemma event_set_eq: "event_set n = n + of_bool (even n)"
  unfolding event_set_def by (rule or_one_eq)

lemma event_simps [simp]:
  "event_has_waiters (event_set n) \<longleftrightarrow> n div 2 \<noteq> 0" "event_set n div 2 = n div 2" "odd (event_set n)"
  "event_clear n div 2 = n div 2" "even (event_clear n)" "event_signalled n \<longleftrightarrow> odd n"
  "event_wait_begin n div 2 = Suc (n div 2)" "even (event_wait_begin n) = even n"
  "event_wait_end n div 2 = n div 2 - 1" "2 \<le> n \<Longrightarrow> even (event_wait_end n) = even n"
proof -
  show "event_has_waiters (event_set n) \<longleftrightarrow> n div 2 \<noteq> 0" "event_set n div 2 = n div 2" "odd (event_set n)"
    by (auto simp: event_has_waiters_def event_set_eq elim: evenE oddE)
  show "event_signalled n \<longleftrightarrow> odd n"
    by (simp add: event_signalled_def and_one_eq odd_iff_mod_2_eq_one)
qed (simp_all add: event_clear_def unset_bit_0 event_wait_begin_def event_wait_end_def)

abbreviation queue_of :: "'op pool \<Rightarrow> 'op sched_item list" where "queue_of s \<equiv> sd_op_queue (pl_sched s)"

lemma on_worker_fields [simp]:
  "pl_sched (on_worker t f s) = pl_sched s" "pl_event (on_worker t f s) = pl_event s"
  "pl_lock (on_worker t f s) = pl_lock s" "pl_interrupted (on_worker t f s) = pl_interrupted s"
  "pl_owed (on_worker t f s) = pl_owed s" "pl_entered (on_worker t f s) = pl_entered s"
  "pl_done (on_worker t f s) = pl_done s"
  "pl_workers (on_worker t f s) = (pl_workers s)[t := f (pl_workers s ! t)]"
  by (simp_all add: on_worker_def)

definition number :: "('a \<Rightarrow> bool) \<Rightarrow> 'a list \<Rightarrow> nat" where "number P xs = length (filter P xs)"

lemma number_simps [simp]:
  "number P [] = 0" "number P (x # xs) = of_bool (P x) + number P xs" "number P (xs @ ys) = number P xs + number P ys"
  "number P (map f xs) = number (\<lambda>x. P (f x)) xs"
  by (simp_all add: number_def filter_map o_def)

lemma number_update:
  "t < length xs \<Longrightarrow> number P (xs[t := x]) + of_bool (P (xs ! t)) = number P xs + of_bool (P x)"
proof (induction xs arbitrary: t)
  case (Cons y xs)
  then show ?case by (cases t) (auto simp: ac_simps)
qed simp

lemma number_positive: "x \<in> set xs \<Longrightarrow> P x \<Longrightarrow> 0 < number P xs"
  by (auto simp: number_def filter_empty_conv)

lemma number_zero: "number P xs = 0 \<longleftrightarrow> (\<forall>x \<in> set xs. \<not> P x)"
  by (simp add: number_def filter_empty_conv)

section \<open>Locks, event and flags\<close>

fun waiting :: "'op phase \<Rightarrow> bool" where
  "waiting Waiting = True" | "waiting Woken = True" | "waiting _ = False"

fun in_task :: "'op phase \<Rightarrow> bool" where
  "in_task (In_task b) = True" | "in_task _ = False"

fun may_have_duty :: "'op phase \<Rightarrow> bool" where
  "may_have_duty Outside = True" | "may_have_duty (In_task b) = (\<not> b)" | "may_have_duty (Executing p pr) = True"
| "may_have_duty Finishing = True" | "may_have_duty _ = False"

text \<open>The invariants: who has the lock and who may have a duty; the event counts the waiters; the reactor is in the queue
  or with one thread; a stop has woken all; a thread blocked in the reactor was interrupted if the flag says so; and
  the event is signalled while there is something in the queue.\<close>

definition locks_ok :: "'op pool \<Rightarrow> bool" where
  "locks_ok s \<longleftrightarrow> (\<forall>t < length (pl_workers s). (phase_of s t = Head \<longleftrightarrow> pl_lock s = Some t) \<and>
       (duty_of s t = Free \<or> may_have_duty (phase_of s t))) \<and>
     (\<forall>t. pl_lock s = Some t \<longrightarrow> t < length (pl_workers s))"

definition counts_ok :: "'op pool \<Rightarrow> bool" where
  "counts_ok s \<longleftrightarrow> pl_event s div 2 = number (\<lambda>w. waiting (wk_phase w)) (pl_workers s) \<and>
     number (\<lambda>i. i = Task_operation) (queue_of s) + number (\<lambda>w. in_task (wk_phase w)) (pl_workers s) = 1"

definition flags_ok :: "'op pool \<Rightarrow> bool" where
  "flags_ok s \<longleftrightarrow> sd_task (pl_sched s) \<and> \<not> sd_one_thread (pl_sched s) \<and>
     (sd_stopped (pl_sched s) \<longrightarrow> sd_task_interrupted (pl_sched s) \<and> odd (pl_event s)) \<and>
     (queue_of s \<noteq> [] \<longrightarrow> pl_lock s = None \<longrightarrow> odd (pl_event s)) \<and>
     (\<forall>t < length (pl_workers s). (sd_stopped (pl_sched s) \<longrightarrow> phase_of s t \<noteq> Waiting) \<and>
       (sd_task_interrupted (pl_sched s) \<longrightarrow> phase_of s t = In_task True \<longrightarrow> pl_interrupted s))"

definition calm :: "'op pool \<Rightarrow> bool" where
  "calm s \<longleftrightarrow> locks_ok s \<and> counts_ok s \<and> flags_ok s"

lemma field_updates [simp]:
  "pl_workers (interrupt_task s) = pl_workers s" "pl_event (interrupt_task s) = pl_event s"
  "pl_lock (interrupt_task s) = pl_lock s" "queue_of (interrupt_task s) = queue_of s"
  "sd_stopped (pl_sched (interrupt_task s)) = sd_stopped (pl_sched s)"
  "sd_task (pl_sched (interrupt_task s)) = sd_task (pl_sched s)"
  "sd_one_thread (pl_sched (interrupt_task s)) = sd_one_thread (pl_sched s)"
  "sd_outstanding_work (pl_sched (interrupt_task s)) = sd_outstanding_work (pl_sched s)"
  "pl_owed (interrupt_task s) = pl_owed s" "pl_entered (interrupt_task s) = pl_entered s" "pl_done (interrupt_task s) = pl_done s"
  "sd_task (pl_sched s) \<Longrightarrow> sd_task_interrupted (pl_sched (interrupt_task s))"
  "pl_interrupted s \<Longrightarrow> pl_interrupted (interrupt_task s)"
  by (simp_all add: interrupt_task_def Let_def)

text \<open>Waking is a signal that is due, or an interrupt.\<close>

abbreviation due :: "duty \<Rightarrow> nat \<Rightarrow> 'op pool \<Rightarrow> 'op pool" where
  "due d t \<equiv> on_worker t (\<lambda>w. w\<lparr>wk_duty := d\<rparr>)"

lemma wake_one_eq:
  "wake_one_thread_and_unlock t s =
     (let s' = s\<lparr>pl_event := event_set (pl_event s), pl_lock := None\<rparr>
      in if pl_event s div 2 \<noteq> 0 then due Signal t s' else interrupt_task s')"
  by (simp add: wake_one_thread_and_unlock_def on_worker_def interrupt_task_def Let_def)

lemma unlock_signal_eq:
  "unlock_and_signal_one t s =
     (let s' = s\<lparr>pl_event := event_set (pl_event s), pl_lock := None\<rparr>
      in if pl_event s div 2 \<noteq> 0 then due Signal t s' else s')"
  by (simp add: unlock_and_signal_one_def on_worker_def Let_def)

text \<open>Invariants that waking keeps.\<close>

lemma locks_okD:
  assumes "locks_ok s" "t < length (pl_workers s)"
  shows "phase_of s t = Head \<longleftrightarrow> pl_lock s = Some t" "duty_of s t = Free \<or> may_have_duty (phase_of s t)"
  using assms unfolding locks_ok_def by blast+

lemma locks_move:
  assumes "locks_ok s" "t < length (pl_workers s)"
    and w: "pl_workers s' = (pl_workers s)[t := w]" and l: "wk_phase w = Head \<longleftrightarrow> pl_lock s' = Some t"
    and "pl_lock s \<in> {None, Some t} \<and> pl_lock s' \<in> {None, Some t} \<or> pl_lock s' = pl_lock s"
    and "wk_duty w = Free \<or> may_have_duty (wk_phase w)"
  shows "locks_ok s'"
proof -
  have "(phase_of s' u = Head \<longleftrightarrow> pl_lock s' = Some u) \<and> (duty_of s' u = Free \<or> may_have_duty (phase_of s' u))"
    if "u < length (pl_workers s')" for u
    using assms that by (cases "u = t") (auto simp: locks_ok_def)
  moreover have "u < length (pl_workers s')" if "pl_lock s' = Some u" for u
    using assms that by (auto simp: locks_ok_def)
  ultimately show ?thesis by (simp add: locks_ok_def)
qed

lemma counts_move:
  assumes "counts_ok s" "t < length (pl_workers s)" "pl_workers s' = (pl_workers s)[t := w]"
    and "pl_event s' div 2 + of_bool (waiting (phase_of s t)) = pl_event s div 2 + of_bool (waiting (wk_phase w))"
    and "number (\<lambda>i. i = Task_operation) (queue_of s') + of_bool (in_task (wk_phase w)) =
      number (\<lambda>i. i = Task_operation) (queue_of s) + of_bool (in_task (phase_of s t))"
  shows "counts_ok s'"
  using assms number_update [of t "pl_workers s" "\<lambda>w. waiting (wk_phase w)" w]
    number_update [of t "pl_workers s" "\<lambda>w. in_task (wk_phase w)" w]
  by (simp add: counts_ok_def)

lemma one_in_task:
  assumes "counts_ok s" "t < length (pl_workers s)" "u < length (pl_workers s)"
    and "in_task (phase_of s t)" "in_task (phase_of s u)"
  shows "t = u"
proof (rule ccontr)
  assume "t \<noteq> u"
  let ?ws = "(pl_workers s)[t := (pl_workers s ! t)\<lparr>wk_phase := Outside\<rparr>]"
  have "?ws ! u \<in> set ?ws" using assms(3) by (intro nth_mem) simp
  moreover have "in_task (wk_phase (?ws ! u))" using assms \<open>t \<noteq> u\<close> by simp
  ultimately have "0 < number (\<lambda>w. in_task (wk_phase w)) ?ws" by (rule number_positive)
  with number_update [of t "pl_workers s" "\<lambda>w. in_task (wk_phase w)" "(pl_workers s ! t)\<lparr>wk_phase := Outside\<rparr>"] assms
  show False by (simp add: counts_ok_def)
qed

lemma flags_move:
  assumes f: "flags_ok s" and t: "t < length (pl_workers s)" "pl_workers s' = (pl_workers s)[t := w]"
    and same: "sd_task (pl_sched s') = sd_task (pl_sched s)" "sd_one_thread (pl_sched s') = sd_one_thread (pl_sched s)"
      "sd_stopped (pl_sched s') = sd_stopped (pl_sched s)"
    and stop: "sd_stopped (pl_sched s) \<Longrightarrow> sd_task_interrupted (pl_sched s) \<Longrightarrow> odd (pl_event s) \<Longrightarrow>
      sd_task_interrupted (pl_sched s') \<and> odd (pl_event s') \<and> wk_phase w \<noteq> Waiting"
    and "queue_of s' \<noteq> [] \<Longrightarrow> pl_lock s' = None \<Longrightarrow> odd (pl_event s')"
    and own: "sd_task_interrupted (pl_sched s') \<Longrightarrow> wk_phase w = In_task True \<Longrightarrow>
      (sd_task_interrupted (pl_sched s) \<Longrightarrow> phase_of s t = In_task True \<Longrightarrow> pl_interrupted s) \<Longrightarrow> pl_interrupted s'"
    and others: "\<And>u. u \<noteq> t \<Longrightarrow> u < length (pl_workers s) \<Longrightarrow> phase_of s u = In_task True \<Longrightarrow> sd_task_interrupted (pl_sched s') \<Longrightarrow>
      (sd_task_interrupted (pl_sched s) \<Longrightarrow> pl_interrupted s) \<Longrightarrow> pl_interrupted s'"
  shows "flags_ok s'"
proof -
  have "(sd_stopped (pl_sched s') \<longrightarrow> phase_of s' u \<noteq> Waiting) \<and>
      (sd_task_interrupted (pl_sched s') \<longrightarrow> phase_of s' u = In_task True \<longrightarrow> pl_interrupted s')"
    if "u < length (pl_workers s')" for u
  proof (cases "u = t")
    case True
    then show ?thesis using f t same stop own by (simp add: flags_ok_def)
  next
    case False
    then show ?thesis using f t same others [of u] that by (simp add: flags_ok_def)
  qed
  then show ?thesis using assms by (simp add: flags_ok_def)
qed

text \<open>A duty changes nothing else; waking is as good as setting the event.\<close>

lemma calm_duty:
  assumes "calm s" "t < length (pl_workers s)" "d = Free \<or> may_have_duty (phase_of s t)"
  shows "calm (due d t s)"
proof -
  let ?w = "(pl_workers s ! t)\<lparr>wk_duty := d\<rparr>"
  have "locks_ok s" "counts_ok s" and f: "flags_ok s" using assms(1) by (simp_all add: calm_def)
  have "locks_ok (due d t s)"
    by (rule locks_move [where s = s and t = t and w = ?w])
      (use \<open>locks_ok s\<close> assms(2,3) locks_okD [OF \<open>locks_ok s\<close> assms(2)] in simp_all)
  moreover have "counts_ok (due d t s)"
    by (rule counts_move [where s = s and t = t and w = ?w]) (use \<open>counts_ok s\<close> assms(2) in simp_all)
  moreover have "flags_ok (due d t s)"
  proof (rule flags_move [OF f assms(2), where w = ?w])
    show "odd (pl_event (due d t s))" if "queue_of (due d t s) \<noteq> []" "pl_lock (due d t s) = None"
      using f that by (simp add: flags_ok_def)
    show "sd_task_interrupted (pl_sched (due d t s)) \<and> odd (pl_event (due d t s)) \<and> wk_phase ?w \<noteq> Waiting"
      if "sd_stopped (pl_sched s)"
      using f that assms(2) by (simp add: flags_ok_def)
  qed (use f assms(2) in \<open>auto simp: flags_ok_def\<close>)
  ultimately show ?thesis by (simp add: calm_def)
qed

lemma calm_interrupt:
  assumes "calm s" shows "calm (interrupt_task s)"
proof -
  have "locks_ok (interrupt_task s)" using assms by (simp add: calm_def locks_ok_def)
  moreover have "counts_ok (interrupt_task s)" using assms by (simp add: calm_def counts_ok_def)
  moreover have "flags_ok (interrupt_task s)"
    using assms by (auto simp: calm_def flags_ok_def interrupt_task_def Let_def)
  ultimately show ?thesis by (simp add: calm_def)
qed

lemma calm_wake:
  assumes "calm (s\<lparr>pl_event := event_set (pl_event s), pl_lock := None\<rparr>)" "t < length (pl_workers s)"
    and "may_have_duty (phase_of s t)"
  shows "calm (wake_one_thread_and_unlock t s)" "calm (unlock_and_signal_one t s)"
  using calm_duty [OF assms(1), of t Signal] calm_interrupt [OF assms(1)] assms
  by (simp_all add: wake_one_eq unlock_signal_eq Let_def)

lemma calm_stop:
  assumes c: "calm s" and l: "pl_lock s = None"
  shows "calm (stop_threads s)"
proof -
  let ?s = "s\<lparr>pl_sched := (pl_sched s)\<lparr>sd_stopped := True\<rparr>, pl_event := event_set (pl_event s),
    pl_workers := map wake_worker (pl_workers s)\<rparr>"
  have w: "wk_phase (wake_worker x) = Head \<longleftrightarrow> wk_phase x = Head" "wk_duty (wake_worker x) = wk_duty x"
    "may_have_duty (wk_phase (wake_worker x)) = may_have_duty (wk_phase x)"
    "waiting (wk_phase (wake_worker x)) = waiting (wk_phase x)" "in_task (wk_phase (wake_worker x)) = in_task (wk_phase x)"
    "wk_phase (wake_worker x) \<noteq> Waiting" "wk_phase (wake_worker x) = In_task b \<longleftrightarrow> wk_phase x = In_task b" for x b
    by (simp_all add: wake_worker_def)
  have "locks_ok (stop_threads s)" "counts_ok (stop_threads s)"
    using c by (simp_all add: calm_def locks_ok_def counts_ok_def stop_threads_def w)
  moreover have "flags_ok (stop_threads s)"
    using c by (auto simp: calm_def flags_ok_def stop_threads_def interrupt_task_def Let_def w)
  ultimately show ?thesis by (simp add: calm_def)
qed

text \<open>A thread that is not in the reactor, neither before nor after, and a change of the scheduler that keeps its flags.\<close>

lemma calm_move:
  assumes c: "calm s" and t: "t < length (pl_workers s)" "pl_workers s' = (pl_workers s)[t := w]"
    and sched: "pl_sched s' = (pl_sched s)\<lparr>sd_op_queue := q, sd_outstanding_work := n\<rparr>" "pl_interrupted s' = pl_interrupted s"
    and tasks: "number (\<lambda>i. i = Task_operation) q = number (\<lambda>i. i = Task_operation) (queue_of s)"
    and phase: "\<not> in_task (phase_of s t)" "\<not> in_task (wk_phase w)" "sd_stopped (pl_sched s) \<Longrightarrow> wk_phase w \<noteq> Waiting"
    and lock: "wk_phase w = Head \<longleftrightarrow> pl_lock s' = Some t"
      "pl_lock s \<in> {None, Some t} \<and> pl_lock s' \<in> {None, Some t} \<or> pl_lock s' = pl_lock s"
    and duty: "wk_duty w = Free \<or> may_have_duty (wk_phase w)"
    and event: "pl_event s' div 2 + of_bool (waiting (phase_of s t)) = pl_event s div 2 + of_bool (waiting (wk_phase w))"
      "sd_stopped (pl_sched s) \<Longrightarrow> odd (pl_event s) \<Longrightarrow> odd (pl_event s')"
      "q \<noteq> [] \<Longrightarrow> pl_lock s' = None \<Longrightarrow> odd (pl_event s')"
  shows "calm s'"
proof -
  have i: "locks_ok s" "counts_ok s" "flags_ok s" using c by (simp_all add: calm_def)
  have "locks_ok s'" by (rule locks_move [OF i(1) t lock duty])
  moreover have "counts_ok s'" by (rule counts_move [OF i(2) t event(1)]) (simp add: sched(1) tasks phase)
  moreover have "flags_ok s'"
    by (rule flags_move [OF i(3) t]) (use sched phase event i(3) in \<open>auto simp: flags_ok_def\<close>)
  ultimately show ?thesis by (simp add: calm_def)
qed

text \<open>Every step keeps them.\<close>

lemma calmD:
  assumes "calm s" "t < length (pl_workers s)"
  shows "phase_of s t = Head \<longleftrightarrow> pl_lock s = Some t" "duty_of s t = Free \<or> may_have_duty (phase_of s t)"
    "sd_task (pl_sched s)" "\<not> sd_one_thread (pl_sched s)"
    "sd_stopped (pl_sched s) \<Longrightarrow> odd (pl_event s) \<and> phase_of s t \<noteq> Waiting"
    "queue_of s \<noteq> [] \<Longrightarrow> pl_lock s = None \<Longrightarrow> odd (pl_event s)"
    "pl_event s div 2 = number (\<lambda>w. waiting (wk_phase w)) (pl_workers s)"
  using assms locks_okD [of s t] by (auto simp: calm_def flags_ok_def counts_ok_def)

lemma calm_wait:
  assumes c: "calm s" and t: "t < length (pl_workers s)" "phase_of s t = Woken" "duty_of s t = Free" "pl_lock s = None"
  shows "calm (wait_woken t s)"
proof -
  have "pl_workers s ! t \<in> set (pl_workers s)" using t(1) by simp
  then have "0 < number (\<lambda>w. waiting (wk_phase w)) (pl_workers s)" by (rule number_positive) (simp add: t(2))
  then have "pl_event s div 2 > 0" using calmD(7) [OF c t(1)] by simp
  then have e: "2 \<le> pl_event s" by simp
  show ?thesis
  proof (cases "odd (pl_event s)")
    case True
    show ?thesis
      by (rule calm_move [OF c t(1), where w = "(pl_workers s ! t)\<lparr>wk_phase := Head\<rparr>" and q = "queue_of s"
            and n = "sd_outstanding_work (pl_sched s)"])
        (use True e t \<open>pl_event s div 2 > 0\<close> in \<open>simp_all add: wait_woken_def Let_def go_to_def\<close>)
  next
    case False
    then have "queue_of s = []" "\<not> sd_stopped (pl_sched s)" using calmD(5,6) [OF c t(1)] t(4) by auto
    then show ?thesis
      by (intro calm_move [OF c t(1), where w = "(pl_workers s ! t)\<lparr>wk_phase := Waiting\<rparr>" and q = "queue_of s"
            and n = "sd_outstanding_work (pl_sched s)"])
        (use False e t \<open>pl_event s div 2 > 0\<close> in \<open>simp_all add: wait_woken_def Let_def go_to_def\<close>)
  qed
qed

lemma calm_turn_task:
  assumes c: "calm s" and t: "t < length (pl_workers s)" "phase_of s t = Head" "duty_of s t = Free"
    and q: "queue_of s = Task_operation # rest" "\<not> sd_stopped (pl_sched s)"
    and s': "pl_workers s' = (pl_workers s)[t := (pl_workers s ! t)\<lparr>wk_phase := In_task (rest = [])\<rparr>]"
      "pl_sched s' = (pl_sched s)\<lparr>sd_op_queue := rest, sd_task_interrupted := rest \<noteq> []\<rparr>" "pl_lock s' = None"
      "pl_event s' div 2 = pl_event s div 2" "rest \<noteq> [] \<Longrightarrow> odd (pl_event s')"
  shows "calm s'"
proof -
  let ?w = "(pl_workers s ! t)\<lparr>wk_phase := In_task (rest = [])\<rparr>"
  note w = s'(1)
  have i: "locks_ok s" "counts_ok s" "flags_ok s" using c by (simp_all add: calm_def)
  have l: "pl_lock s = Some t" using calmD(1) [OF c t(1)] t(2) by simp
  have "number (\<lambda>w. in_task (wk_phase w)) (pl_workers s) = 0" using i(2) q(1) by (simp add: counts_ok_def)
  then have none: "\<not> in_task (phase_of s u)" if "u < length (pl_workers s)" for u
    using that by (simp add: number_zero)
  have "locks_ok s'" by (rule locks_move [OF i(1) t(1) w]) (use l t(3) s'(3) in simp_all)
  moreover have "counts_ok s'" by (rule counts_move [OF i(2) t(1) w]) (use t q s' in simp_all)
  moreover have "flags_ok s'"
  proof (rule flags_move [OF i(3) t(1) w])
    show "pl_interrupted s'" if "u < length (pl_workers s)" "phase_of s u = In_task True" for u
      using none [OF that(1)] that(2) by simp
  qed (use q s' in auto)
  ultimately show ?thesis by (simp add: calm_def)
qed

lemma calm_turn:
  assumes c: "calm s" and t: "t < length (pl_workers s)" "phase_of s t = Head" "duty_of s t = Free"
  shows "calm (run_head from_task t s)"
proof -
  have l: "pl_lock s = Some t" using calmD(1) [OF c t(1)] t(2) by simp
  note one = calmD(4) [OF c t(1)]
  consider (stopped) "sd_stopped (pl_sched s)" | (empty) "\<not> sd_stopped (pl_sched s)" "queue_of s = []"
    | (task) rest where "\<not> sd_stopped (pl_sched s)" "queue_of s = Task_operation # rest"
    | (operation) p rest where "\<not> sd_stopped (pl_sched s)" "queue_of s = Operation p # rest"
    by (cases "sd_stopped (pl_sched s)"; cases "queue_of s"; (cases "hd (queue_of s)")?) auto
  then show ?thesis
  proof cases
    case stopped
    then show ?thesis
      by (intro calm_move [OF c t(1), where w = "(pl_workers s ! t)\<lparr>wk_phase := Outside\<rparr>" and q = "queue_of s"
            and n = "sd_outstanding_work (pl_sched s)"])
        (use t l calmD(5) [OF c t(1)] in \<open>simp_all add: run_head_def go_to_def\<close>)
  next
    case empty
    then show ?thesis
      by (intro calm_move [OF c t(1), where w = "(pl_workers s ! t)\<lparr>wk_phase := Waiting\<rparr>" and q = "queue_of s"
            and n = "sd_outstanding_work (pl_sched s)"])
        (use t l in \<open>simp_all add: run_head_def go_to_def\<close>)
  next
    case (task rest)
    let ?s = "go_to t (In_task (rest = [])) (s\<lparr>pl_sched := (pl_sched s)\<lparr>sd_op_queue := rest, sd_task_interrupted := rest \<noteq> []\<rparr>\<rparr>)"
    have r: "run_head from_task t s = (if rest \<noteq> [] then unlock_and_signal_one t ?s else ?s\<lparr>pl_lock := None\<rparr>)"
      using task one by (simp add: run_head_def Let_def)
    have "calm (?s\<lparr>pl_event := event_set (pl_event ?s), pl_lock := None\<rparr>)"
      by (rule calm_turn_task [OF c t task(2,1)]) (simp_all add: go_to_def)
    from calm_wake(2) [OF this, of t] t(1) have "rest \<noteq> [] \<Longrightarrow> calm (unlock_and_signal_one t ?s)" by (simp add: go_to_def)
    moreover have "calm (?s\<lparr>pl_lock := None\<rparr>)" if "rest = []"
      by (rule calm_turn_task [OF c t task(2,1)]) (use that in \<open>simp_all add: go_to_def\<close>)
    ultimately show ?thesis by (simp add: r)
  next
    case (operation p rest)
    let ?p = "Executing p (if from_task p then Undecided else Holding)"
    let ?s = "go_to t ?p (s\<lparr>pl_sched := (pl_sched s)\<lparr>sd_op_queue := rest\<rparr>, pl_done := pl_done s @ [p]\<rparr>)"
    have r: "run_head from_task t s = (if rest \<noteq> [] then wake_one_thread_and_unlock t ?s else ?s\<lparr>pl_lock := None\<rparr>)"
      using operation one by (simp add: run_head_def Let_def)
    have m: "calm (?s\<lparr>pl_event := ev, pl_lock := None\<rparr>)" if "ev div 2 = pl_event s div 2" "rest \<noteq> [] \<Longrightarrow> odd ev" for ev
      by (rule calm_move [OF c t(1), where w = "(pl_workers s ! t)\<lparr>wk_phase := ?p\<rparr>" and q = rest
            and n = "sd_outstanding_work (pl_sched s)"])
        (use operation t l that in \<open>simp_all add: go_to_def\<close>)
    have "rest \<noteq> [] \<Longrightarrow> calm (wake_one_thread_and_unlock t ?s)"
      by (rule calm_wake(1)) (use m [of "event_set (pl_event s)"] t(1) in \<open>simp_all add: go_to_def\<close>)
    moreover have "rest = [] \<Longrightarrow> calm (?s\<lparr>pl_lock := None\<rparr>)"
      using m [of "pl_event s"] by (simp add: go_to_def on_worker_def)
    ultimately show ?thesis by (simp add: r)
  qed
qed

lemma no_task_number: "number (\<lambda>i. i = Task_operation) (map Operation ps) = 0"
  by (simp add: number_zero)

lemma calm_task_end:
  assumes c: "calm s" and t: "t < length (pl_workers s)" "in_task (phase_of s t)" "duty_of s t = Free" "pl_lock s = None"
  shows "calm (run_task_end t ops consumed s)"
proof -
  let ?s = "run_task_end t ops consumed s"
  let ?w = "(pl_workers s ! t)\<lparr>wk_phase := Head, wk_info := \<lparr>ti_private_work = 0, ti_private_queue = []\<rparr>\<rparr>"
  have w: "pl_workers ?s = (pl_workers s)[t := ?w]" by (simp add: run_task_end_def task_cleanup_def Let_def)
  have f: "pl_lock ?s = Some t" "pl_event ?s = pl_event s" "sd_task_interrupted (pl_sched ?s)"
    "sd_stopped (pl_sched ?s) = sd_stopped (pl_sched s)" "sd_task (pl_sched ?s) = sd_task (pl_sched s)"
    "sd_one_thread (pl_sched ?s) = sd_one_thread (pl_sched s)"
    "number (\<lambda>i. i = Task_operation) (queue_of ?s) = Suc (number (\<lambda>i. i = Task_operation) (queue_of s))"
    by (simp_all add: run_task_end_def task_cleanup_def sched_push_def Let_def no_task_number)
  have i: "locks_ok s" "counts_ok s" "flags_ok s" using c by (simp_all add: calm_def)
  have "locks_ok ?s" by (rule locks_move [OF i(1) t(1) w]) (use f t in simp_all)
  moreover have "counts_ok ?s"
    by (rule counts_move [OF i(2) t(1) w]) (use f t(2) in \<open>cases "phase_of s t"; simp\<close>)+
  moreover have "flags_ok ?s"
  proof (rule flags_move [OF i(3) t(1) w])
    show "pl_interrupted ?s" if "u \<noteq> t" "u < length (pl_workers s)" "phase_of s u = In_task True" for u
      using one_in_task [OF i(2) t(1) that(2) t(2)] that by simp
  qed (use f in simp_all)
  ultimately show ?thesis by (simp add: calm_def)
qed

text \<open>A client is a thread outside of the loop or in an operation.\<close>

fun client :: "'op phase \<Rightarrow> bool" where
  "client Outside = True" | "client (Executing p pr) = True" | "client _ = False"

lemma client_phase: "client p \<Longrightarrow> \<not> in_task p \<and> \<not> waiting p \<and> p \<noteq> Head \<and> p \<noteq> Waiting \<and> may_have_duty p"
  by (cases p) simp_all

text \<open>The fields that no invariant of this section reads.\<close>

lemma calm_same:
  assumes "calm s" "pl_workers s' = pl_workers s" "pl_event s' = pl_event s" "pl_lock s' = pl_lock s"
    "pl_interrupted s' = pl_interrupted s" "pl_sched s' = (pl_sched s)\<lparr>sd_outstanding_work := n\<rparr>"
  shows "calm s'"
  using assms by (simp add: calm_def locks_ok_def counts_ok_def flags_ok_def)

lemma calm_push:
  assumes c: "calm s" and t: "t < length (pl_workers s)" "client (phase_of s t)" "pl_lock s = None"
  shows "calm (push_shared t ps s)"
proof -
  let ?s = "s\<lparr>pl_sched := sched_push (map Operation ps) (pl_sched s), pl_entered := pl_entered s @ ps\<rparr>"
  have "calm (?s\<lparr>pl_event := event_set (pl_event ?s), pl_lock := None\<rparr>)"
    by (rule calm_move [OF c t(1), where w = "pl_workers s ! t" and q = "queue_of s @ map Operation ps"
          and n = "sd_outstanding_work (pl_sched s)"])
      (use t client_phase [OF t(2)] calmD(2) [OF c t(1)] in \<open>simp_all add: sched_push_def no_task_number\<close>)
  from calm_wake(1) [OF this] t client_phase [OF t(2)] show ?thesis by (simp add: push_shared_def)
qed

lemma calm_own:
  assumes c: "calm s" and t: "t < length (pl_workers s)" "client (phase_of s t)"
    and w: "pl_workers s' = (pl_workers s)[t := w]" "client (wk_phase w) \<or> wk_phase w \<in> {At_lock, Finishing}"
      "wk_duty w = Free \<or> may_have_duty (wk_phase w)"
    and s': "pl_event s' = pl_event s" "pl_lock s' = pl_lock s" "pl_interrupted s' = pl_interrupted s"
      "pl_sched s' = (pl_sched s)\<lparr>sd_outstanding_work := n\<rparr>"
  shows "calm s'"
proof -
  have p: "\<not> in_task (wk_phase w)" "wk_phase w \<noteq> Waiting" "wk_phase w \<noteq> Head" "\<not> waiting (wk_phase w)"
    using w(2) client_phase [of "wk_phase w"] by auto
  have l: "pl_lock s \<noteq> Some t" using calmD(1) [OF c t(1)] client_phase [OF t(2)] by auto
  show ?thesis
    by (rule calm_move [OF c t(1) w(1), where q = "queue_of s" and n = n])
      (use p l w(3) s' client_phase [OF t(2)] calmD(6) [OF c t(1)] in simp_all)
qed

lemma calm_client:
  assumes c: "calm s" and t: "t < length (pl_workers s)" "client (phase_of s t)" "duty_of s t = Free"
    and s': "make_client_call from_task t in_thread cl s = Some s'"
  shows "calm s'"
proof -
  have w: "calm (count_work n s)" "calm ((count_work n s)\<lparr>pl_owed := m\<rparr>)" "calm (s\<lparr>pl_owed := m\<rparr>)" for n m
    using calm_same [OF c, of _ "sd_outstanding_work (pl_sched s) + n"] calm_same [OF c, of _ "sd_outstanding_work (pl_sched s)"]
    by (simp_all add: count_work_def)
  note one = calmD(4) [OF c t(1)]
  have own: "calm (push_private t n ps s)" for n ps
    by (rule calm_own [OF c t(1,2), where w = "(pl_workers s ! t)\<lparr>wk_info := \<lparr>ti_private_work = ti_private_work (wk_info (pl_workers s ! t)) + n,
         ti_private_queue = ti_private_queue (wk_info (pl_workers s ! t)) @ ps\<rparr>\<rparr>" and n = "sd_outstanding_work (pl_sched s)"])
      (use t in \<open>simp_all add: push_private_def\<close>)
  show ?thesis
  proof (cases cl)
    case (Cl_post p cont)
    with s' own calm_push [OF w(1) [where n = 1], of t "[p]"] t show ?thesis by (auto simp: count_work_def split: if_splits)
  next
    case (Cl_defer ps)
    with s' one c calm_push [OF w(3) [where m = "pl_owed s - length ps"], of t ps] t show ?thesis
      by (auto simp: Let_def split: if_splits)
  next
    case (Cl_dispatch p)
    with s' calm_push [OF w(1) [where n = 1], of t "[p]"] t show ?thesis by (auto simp: count_work_def split: if_splits)
  next
    case Cl_work_started
    with s' w(2) show ?thesis by auto
  next
    case Cl_work_finished
    with s' w(2) [where n = "-1" and m = "pl_owed s - 1"] calm_duty [OF w(2) [where n = "-1" and m = "pl_owed s - 1"], of t Stop] t
    show ?thesis by (auto simp: Let_def count_work_def client_phase split: if_splits)
  next
    case Cl_stop
    with s' calm_stop [OF c] show ?thesis by (simp split: if_splits)
  qed (use s' in simp_all)
qed

lemma calm_perform:
  assumes c: "calm s" and t: "t < length (pl_workers s)" "phase_of s t = Executing p pr" "duty_of s t = Free"
    and s': "perform_call t p cl s = Some s'"
  shows "calm s'"
proof -
  have cl: "client (phase_of s t)" using t(2) by simp
  show ?thesis
  proof (cases cl)
    case Cl_complete
    show ?thesis
      by (rule calm_own [OF c t(1) cl, where w = "(pl_workers s ! t)\<lparr>wk_phase := Executing p Holding\<rparr>"
            and n = "sd_outstanding_work (pl_sched s)"])
        (use Cl_complete s' t in \<open>auto simp: go_to_def split: if_splits\<close>)
  next
    case Cl_compensate
    show ?thesis
      by (rule calm_own [OF c t(1) cl, where w = "(pl_workers s ! t)\<lparr>wk_phase := Executing p Compensated,
            wk_info := compensating_work_started (wk_info (pl_workers s ! t))\<rparr>" and n = "sd_outstanding_work (pl_sched s)"])
        (use Cl_compensate s' t in auto)
  qed (use s' in simp_all)
qed

lemma calm_clean:
  assumes c: "calm s" and t: "t < length (pl_workers s)" "phase_of s t = Executing p pr" "duty_of s t = Free"
  shows "calm (work_cleanup_count t s)"
proof -
  let ?s = "work_cleanup_count t s"
  define d where "d = duty_of ?s t"
  define n where "n = sd_outstanding_work (pl_sched ?s)"
  let ?w = "(pl_workers s ! t)\<lparr>wk_phase := Finishing, wk_duty := d, wk_info := (wk_info (pl_workers s ! t))\<lparr>ti_private_work := 0\<rparr>\<rparr>"
  show ?thesis
    by (rule calm_own [OF c t(1), where w = ?w and n = n])
      (use t in \<open>simp_all add: d_def n_def work_cleanup_count_def Let_def\<close>)
qed

lemma calm_finish:
  assumes c: "calm s" and t: "t < length (pl_workers s)" "phase_of s t = Finishing" "duty_of s t = Free"
    and l: "ti_private_queue (wk_info (pl_workers s ! t)) = [] \<or> pl_lock s = None"
  shows "calm (work_cleanup_queue t s)"
proof -
  let ?ti = "wk_info (pl_workers s ! t)"
  have n: "pl_lock s \<noteq> Some t" using calmD(1) [OF c t(1)] t(2) by auto
  show ?thesis
  proof (cases "ti_private_queue ?ti = []")
    case True
    show ?thesis
      by (rule calm_move [OF c t(1), where w = "(pl_workers s ! t)\<lparr>wk_phase := At_lock\<rparr>" and q = "queue_of s"
            and n = "sd_outstanding_work (pl_sched s)"])
        (use True t n calmD(6) [OF c t(1)] in \<open>simp_all add: work_cleanup_queue_def go_to_def Let_def\<close>)
  next
    case False
    show ?thesis
      by (rule calm_move [OF c t(1), where w = "(pl_workers s ! t)\<lparr>wk_phase := Head, wk_info := ?ti\<lparr>ti_private_queue := []\<rparr>\<rparr>"
            and q = "queue_of s @ map Operation (ti_private_queue ?ti)" and n = "sd_outstanding_work (pl_sched s)"])
        (use False t l in \<open>simp_all add: work_cleanup_queue_def Let_def sched_push_def no_task_number\<close>)
  qed
qed

lemma calm_wake_thread:
  assumes c: "calm s" and u: "u < length (pl_workers s)" "phase_of s u = Waiting"
  shows "calm (wake_thread u s)"
proof -
  have "pl_lock s \<noteq> Some u" "duty_of s u = Free" using calmD(1,2) [OF c u(1)] u(2) by auto
  then show ?thesis
    by (intro calm_move [OF c u(1), where w = "(pl_workers s ! u)\<lparr>wk_phase := Woken\<rparr>" and q = "queue_of s"
          and n = "sd_outstanding_work (pl_sched s)"])
      (use u calmD(6) [OF c u(1)] in \<open>simp_all add: wake_thread_def wake_worker_def\<close>)
qed

lemma calm_step:
  assumes c: "calm s" and st: "pool_step from_task ev s = Some s'"
  shows "calm s'"
proof (cases ev)
  case (Run t)
  with st have t: "t < length (pl_workers s)" "duty_of s t = Free" "phase_of s t = Outside" "s' = run_begin t s"
    by (auto simp: ready_def split: if_splits)
  have "calm (on_worker t (\<lambda>w. w\<lparr>wk_phase := At_lock, wk_info := thread_info_make\<rparr>) s)"
    by (rule calm_own [OF c t(1), where w = "(pl_workers s ! t)\<lparr>wk_phase := At_lock, wk_info := thread_info_make\<rparr>"
          and n = "sd_outstanding_work (pl_sched s)"]) (use t in simp_all)
  with calm_duty [OF c t(1), of Stop] t(3,4) show ?thesis by (simp add: run_begin_def)
next
  case (Lock t)
  with st show ?thesis
    by (intro calm_move [OF c, of t, where w = "(pl_workers s ! t)\<lparr>wk_phase := Head\<rparr>" and q = "queue_of s"
          and n = "sd_outstanding_work (pl_sched s)"]) (auto simp: ready_def go_to_def split: if_splits)
next
  case (Turn t)
  with st calm_turn [OF c, of t] show ?thesis by (auto simp: ready_def split: if_splits)
next
  case (Wake t)
  with st calm_wait [OF c, of t] show ?thesis by (auto simp: ready_def split: if_splits)
next
  case (Task_end t ops consumed)
  with st calm_task_end [OF c, of t] show ?thesis by (auto simp: ready_def split: if_splits)
next
  case (Call t cl)
  with st calm_client [OF c, of t] calm_perform [OF c, of t] show ?thesis
    by (auto simp: ready_def split: if_splits phase.splits progress.splits)
next
  case (Clean t)
  with st calm_clean [OF c, of t] show ?thesis by (auto simp: ready_def split: if_splits phase.splits)
next
  case (Finish t)
  with st calm_finish [OF c, of t] show ?thesis by (auto simp: ready_def split: if_splits)
next
  case (Signal_one t u)
  with st have t: "t < length (pl_workers s)" "may_wake s u"
    "s' = free_duty t (if u < length (pl_workers s) then wake_thread u s else s)" by (auto split: if_splits)
  then have "phase_of s u = Waiting" if "u < length (pl_workers s)" using that by (auto simp: may_wake_def split: if_splits)
  with calm_wake_thread [OF c] c have "calm (if u < length (pl_workers s) then wake_thread u s else s)" by simp
  from calm_duty [OF this, of t Free] t show ?thesis by (simp add: free_duty_def wake_thread_def)
next
  case (Stop_loop t)
  with st calm_duty [OF calm_stop [OF c], of t Free] show ?thesis
    by (auto simp: free_duty_def stop_threads_def split: if_splits)
next
  case (Spurious u)
  with st calm_wake_thread [OF c] show ?thesis by (auto split: if_splits)
next
  case Restart
  with st c show ?thesis
    by (auto simp: calm_def locks_ok_def counts_ok_def flags_ok_def sched_restart_def split: if_splits)
qed

lemma calm_start:
  assumes "\<not> sd_one_thread (scheduler_make hint :: 'op scheduler)"
  shows "calm (pool_start hint n :: 'op pool)"
proof -
  have "number P (replicate n x) = (if P x then n else 0)" for P :: "'op worker \<Rightarrow> bool" and x
    by (simp add: number_def)
  then show ?thesis
    using assms
    by (simp add: calm_def locks_ok_def counts_ok_def flags_ok_def pool_start_def init_task_def scheduler_make_def
      sched_push_def wake_one_thread_def event_set_eq)
qed

lemma reachable_calm:
  assumes "pool_reachable from_task hint n s" "\<not> sd_one_thread (scheduler_make hint :: 'op scheduler)"
  shows "calm (s :: 'op pool)"
  using assms by induction (auto intro: calm_start calm_step)

section \<open>Wake-ups\<close>

text \<open>A thread that sleeps until somebody wakes it, and one that will look at the queue before it sleeps or executes
  anything, or is about to signal a thread that sleeps.\<close>

definition asleep :: "'op pool \<Rightarrow> nat \<Rightarrow> bool" where
  "asleep s t \<longleftrightarrow> t < length (pl_workers s) \<and>
     (phase_of s t = Waiting \<or> phase_of s t = In_task True \<and> \<not> pl_interrupted s)"

definition attentive :: "'op pool \<Rightarrow> nat \<Rightarrow> bool" where
  "attentive s t \<longleftrightarrow> t < length (pl_workers s) \<and>
     (phase_of s t \<in> {At_lock, Head, Woken, In_task False} \<or> phase_of s t = In_task True \<and> pl_interrupted s \<or>
      duty_of s t = Signal \<and> list_ex (\<lambda>w. wk_phase w = Waiting) (pl_workers s))"

definition alert :: "'op pool \<Rightarrow> bool" where
  "alert s \<longleftrightarrow> (\<not> sd_stopped (pl_sched s) \<longrightarrow> queue_of s \<noteq> [] \<longrightarrow> (\<exists>t. asleep s t) \<longrightarrow> (\<exists>t. attentive s t))"

lemma alertI:
  "t < length (pl_workers s) \<Longrightarrow> phase_of s t \<in> {At_lock, Head, Woken, In_task False} \<Longrightarrow> alert s"
  "queue_of s = [] \<Longrightarrow> alert s" "sd_stopped (pl_sched s) \<Longrightarrow> alert s" "\<nexists>t. asleep s t \<Longrightarrow> alert s"
  by (auto simp: alert_def attentive_def)

lemma alert_wake:
  assumes c: "calm (wake_one_thread_and_unlock t s)" and t: "t < length (pl_workers s)"
  shows "alert (wake_one_thread_and_unlock t s)"
proof -
  let ?s = "wake_one_thread_and_unlock t s"
  have e: "pl_event ?s div 2 = pl_event s div 2" by (simp add: wake_one_eq Let_def)
  have l: "length (pl_workers ?s) = length (pl_workers s)" by (simp add: wake_one_eq Let_def)
  show ?thesis
  proof (cases "pl_event s div 2 = 0")
    case True
    then have "number (\<lambda>w. waiting (wk_phase w)) (pl_workers ?s) = 0" using calmD(7) [OF c] t e l by simp
    then have none: "\<not> waiting (wk_phase x)" if "x \<in> set (pl_workers ?s)" for x using that by (simp add: number_zero)
    have "phase_of ?s u \<noteq> Waiting" if "u < length (pl_workers ?s)" for u
    proof
      assume "phase_of ?s u = Waiting"
      with none [OF nth_mem [OF that]] show False by simp
    qed
    moreover have "pl_interrupted ?s" if "u < length (pl_workers ?s)" "phase_of ?s u = In_task True" for u
    proof -
      have "sd_task_interrupted (pl_sched ?s)"
        using True calmD(3) [OF c] t l by (simp add: wake_one_eq Let_def)
      then show ?thesis using c that by (simp add: calm_def flags_ok_def)
    qed
    ultimately show ?thesis by (intro alertI(4)) (auto simp: asleep_def)
  next
    case False
    then have "number (\<lambda>w. waiting (wk_phase w)) (pl_workers ?s) \<noteq> 0" using calmD(7) [OF c] t e l by simp
    then obtain u where u: "u < length (pl_workers ?s)" "waiting (phase_of ?s u)"
      by (auto simp: number_zero in_set_conv_nth)
    show ?thesis
    proof (cases "phase_of ?s u = Woken")
      case True
      with u show ?thesis by (intro alertI(1) [of u]) simp_all
    next
      case no: False
      then have "phase_of ?s u = Waiting" using u(2) by (cases "phase_of ?s u") simp_all
      moreover have "duty_of ?s t = Signal" using False t by (simp add: wake_one_eq Let_def)
      moreover have "list_ex (\<lambda>w. wk_phase w = Waiting) (pl_workers ?s)"
        unfolding list_ex_length using calculation(1) u(1) by blast
      ultimately have "attentive ?s t" using t l by (simp add: attentive_def)
      then show ?thesis by (auto simp: alert_def)
    qed
  qed
qed

text \<open>A client that changes only its own state.\<close>

lemma alert_own:
  assumes a: "alert s" and t: "t < length (pl_workers s)" "client (phase_of s t)" "duty_of s t = Free"
    and w: "pl_workers s' = (pl_workers s)[t := w]" "client (wk_phase w) \<or> wk_phase w = Finishing"
    and s': "pl_interrupted s' = pl_interrupted s" "queue_of s' = queue_of s" "sd_stopped (pl_sched s') = sd_stopped (pl_sched s)"
  shows "alert s'"
proof -
  have p: "wk_phase w \<noteq> Waiting" "wk_phase w \<noteq> In_task b" "phase_of s t \<noteq> Waiting" "phase_of s t \<noteq> In_task b" for b
    using w(2) t(2) by auto
  have wait: "list_ex (\<lambda>w. wk_phase w = Waiting) (pl_workers s') = list_ex (\<lambda>w. wk_phase w = Waiting) (pl_workers s)"
  proof -
    have "(\<exists>i < length (pl_workers s). phase_of s' i = Waiting) \<longleftrightarrow> (\<exists>i < length (pl_workers s). phase_of s i = Waiting)"
      using p t(1) by (metis w(1) nth_list_update_eq nth_list_update_neq)
    then show ?thesis by (simp add: list_ex_length w(1))
  qed
  have "asleep s u" if "asleep s' u" for u
    using that p t(1) s'(1) by (cases "u = t") (auto simp: asleep_def w(1))
  moreover have "attentive s' u" if "attentive s u" for u
  proof (cases "u = t")
    case True
    have "phase_of s t \<notin> {At_lock, Head, Woken, In_task False}" using t(2) by auto
    with that True t p show ?thesis by (auto simp: attentive_def)
  next
    case False
    with that s'(1) wait show ?thesis by (simp add: attentive_def w(1))
  qed
  ultimately show ?thesis using a s' unfolding alert_def by metis
qed

lemma alert_client:
  assumes a: "alert s" and c: "calm s" and t: "t < length (pl_workers s)" "client (phase_of s t)" "duty_of s t = Free"
    and s': "make_client_call from_task t in_thread cl s = Some s'"
  shows "alert s'"
proof -
  have c': "calm s'" by (rule calm_client [OF c t s'])
  have push: "alert (push_shared t ps r)" if "calm (push_shared t ps r)" "pl_workers r = pl_workers s" for ps r
    unfolding push_shared_def by (rule alert_wake) (use that t in \<open>simp_all add: push_shared_def\<close>)
  have same: "alert r" if "pl_workers r = pl_workers s" "pl_interrupted r = pl_interrupted s" "queue_of r = queue_of s"
    "sd_stopped (pl_sched r) = sd_stopped (pl_sched s)" for r
    by (rule alert_own [OF a t, where w = "pl_workers s ! t"]) (use that t in simp_all)
  have own: "alert (push_private t n ps s)" for n ps
    by (rule alert_own [OF a t, where w = "(pl_workers s ! t)\<lparr>wk_info := \<lparr>ti_private_work = ti_private_work (wk_info (pl_workers s ! t)) + n,
         ti_private_queue = ti_private_queue (wk_info (pl_workers s ! t)) @ ps\<rparr>\<rparr>"])
      (use t in \<open>simp_all add: push_private_def\<close>)
  note one = calmD(4) [OF c t(1)]
  show ?thesis
  proof (cases cl)
    case (Cl_post p cont)
    with s' c' own push [of "[p]" "count_work 1 s"] show ?thesis by (auto simp: count_work_def split: if_splits)
  next
    case (Cl_defer ps)
    with s' c' one a push [of ps "s\<lparr>pl_owed := pl_owed s - length ps\<rparr>"] show ?thesis by (auto simp: Let_def split: if_splits)
  next
    case (Cl_dispatch p)
    with s' c' push [of "[p]" "count_work 1 s"] show ?thesis by (auto simp: count_work_def split: if_splits)
  next
    case Cl_work_started
    with s' same show ?thesis by (auto simp: count_work_def)
  next
    case Cl_work_finished
    let ?r = "(count_work (-1) s)\<lparr>pl_owed := pl_owed s - 1\<rparr>"
    have "alert (due Stop t ?r)"
      by (rule alert_own [OF a t, where w = "(pl_workers s ! t)\<lparr>wk_duty := Stop\<rparr>"])
        (use t in \<open>simp_all add: count_work_def\<close>)
    with Cl_work_finished s' same [of ?r] show ?thesis by (auto simp: Let_def count_work_def split: if_splits)
  next
    case Cl_stop
    with s' show ?thesis by (intro alertI(3)) (auto simp: stop_threads_def split: if_splits)
  qed (use s' in simp_all)
qed

lemma stop_stops: "sd_stopped (pl_sched (stop_threads s))"
  by (simp add: stop_threads_def)

lemma alert_turn:
  assumes c: "calm s" "calm (run_head from_task t s)" and t: "t < length (pl_workers s)"
  shows "alert (run_head from_task t s)"
proof -
  note one = calmD(4) [OF c(1) t]
  consider (stopped) "sd_stopped (pl_sched s)" | (empty) "\<not> sd_stopped (pl_sched s)" "queue_of s = []"
    | (task) rest where "\<not> sd_stopped (pl_sched s)" "queue_of s = Task_operation # rest"
    | (operation) p rest where "\<not> sd_stopped (pl_sched s)" "queue_of s = Operation p # rest"
    by (cases "sd_stopped (pl_sched s)"; cases "queue_of s"; (cases "hd (queue_of s)")?) auto
  then show ?thesis
  proof cases
    case (task rest)
    show ?thesis
    proof (cases "rest = []")
      case True
      with task show ?thesis by (intro alertI(2)) (simp add: run_head_def go_to_def)
    next
      case False
      with task one t show ?thesis
        by (intro alertI(1) [of t]) (simp_all add: run_head_def go_to_def unlock_signal_eq Let_def)
    qed
  next
    case (operation p rest)
    show ?thesis
    proof (cases "rest = []")
      case True
      with operation show ?thesis by (intro alertI(2)) (simp add: run_head_def go_to_def)
    next
      case False
      with operation one have r: "run_head from_task t s = wake_one_thread_and_unlock t (go_to t
          (Executing p (if from_task p then Undecided else Holding)) (s\<lparr>pl_sched := (pl_sched s)\<lparr>sd_op_queue := rest\<rparr>, pl_done := pl_done s @ [p]\<rparr>))"
        by (simp add: run_head_def Let_def)
      show ?thesis using c(2) t unfolding r by (intro alert_wake) (simp_all add: go_to_def)
    qed
  qed (auto intro: alertI simp: run_head_def go_to_def)
qed

lemma alert_step:
  assumes a: "alert s" and c: "calm s" and st: "pool_step from_task ev s = Some s'"
  shows "alert s'"
proof (cases ev)
  case (Run t)
  with st have t: "t < length (pl_workers s)" "phase_of s t = Outside" "duty_of s t = Free" "s' = run_begin t s"
    by (auto simp: ready_def split: if_splits)
  have "alert (due Stop t s)"
    by (rule alert_own [OF a t(1) _ t(3), where w = "(pl_workers s ! t)\<lparr>wk_duty := Stop\<rparr>"]) (use t in simp_all)
  with t show ?thesis by (auto simp: run_begin_def intro: alertI(1) [of t])
next
  case (Lock t)
  with st show ?thesis by (auto simp: ready_def go_to_def split: if_splits intro: alertI(1) [of t])
next
  case (Turn t)
  with st alert_turn [OF c, of from_task t] calm_step [OF c st] show ?thesis by (auto simp: ready_def split: if_splits)
next
  case (Wake t)
  with st have t: "t < length (pl_workers s)" "phase_of s t = Woken" "pl_lock s = None" "s' = wait_woken t s"
    by (auto simp: ready_def split: if_splits)
  have "0 < number (\<lambda>w. waiting (wk_phase w)) (pl_workers s)"
    by (rule number_positive [of "pl_workers s ! t"]) (use t in simp_all)
  then have e: "2 \<le> pl_event s" using calmD(7) [OF c t(1)] by simp
  show ?thesis
  proof (cases "odd (pl_event s)")
    case True
    with t e show ?thesis by (intro alertI(1) [of t]) (simp_all add: wait_woken_def go_to_def Let_def)
  next
    case False
    with calmD(6) [OF c t(1)] t e show ?thesis by (intro alertI(2)) (auto simp: wait_woken_def go_to_def Let_def)
  qed
next
  case (Task_end t ops consumed)
  with st show ?thesis
    by (intro alertI(1) [of t]) (auto simp: ready_def run_task_end_def task_cleanup_def Let_def split: if_splits)
next
  case (Call t cl)
  with st have t: "t < length (pl_workers s)" "duty_of s t = Free" by (auto simp: ready_def split: if_splits)
  have own: "alert s'" if "perform_call t p cl s = Some s'" "phase_of s t = Executing p Undecided" for p
  proof (cases cl)
    case Cl_complete
    show ?thesis
      by (rule alert_own [OF a t(1) _ t(2), where w = "(pl_workers s ! t)\<lparr>wk_phase := Executing p Holding\<rparr>"])
        (use Cl_complete that in \<open>auto simp: go_to_def split: if_splits\<close>)
  next
    case Cl_compensate
    show ?thesis
      by (rule alert_own [OF a t(1) _ t(2), where w = "(pl_workers s ! t)\<lparr>wk_phase := Executing p Compensated,
            wk_info := compensating_work_started (wk_info (pl_workers s ! t))\<rparr>"])
        (use Cl_compensate that in auto)
  qed (use that in simp_all)
  from st Call alert_client [OF a c t(1) _ t(2)] own show ?thesis
    by (auto simp: ready_def split: if_splits phase.splits progress.splits)
next
  case (Clean t)
  with st obtain p pr where t: "t < length (pl_workers s)" "phase_of s t = Executing p pr" "duty_of s t = Free"
    "s' = work_cleanup_count t s" by (auto simp: ready_def split: if_splits phase.splits)
  let ?w = "(pl_workers s ! t)\<lparr>wk_phase := Finishing, wk_duty := duty_of s' t, wk_info := (wk_info (pl_workers s ! t))\<lparr>ti_private_work := 0\<rparr>\<rparr>"
  show ?thesis
    by (rule alert_own [OF a t(1) _ t(3), where w = ?w]) (use t in \<open>simp_all add: work_cleanup_count_def Let_def\<close>)
next
  case (Finish t)
  with st show ?thesis
    by (intro alertI(1) [of t]) (auto simp: ready_def work_cleanup_queue_def go_to_def Let_def split: if_splits)
next
  case (Signal_one t u)
  with st have t: "t < length (pl_workers s)" "may_wake s u"
    "s' = free_duty t (if u < length (pl_workers s) then wake_thread u s else s)" by (auto split: if_splits)
  show ?thesis
  proof (cases "u < length (pl_workers s)")
    case True
    then have "phase_of s u = Waiting" using t(2) by (auto simp: may_wake_def split: if_splits)
    with True t show ?thesis
      by (intro alertI(1) [of u]) (auto simp: free_duty_def wake_thread_def wake_worker_def nth_list_update)
  next
    case False
    then have none: "\<not> list_ex (\<lambda>w. wk_phase w = Waiting) (pl_workers s)" using t(2) by (auto simp: may_wake_def split: if_splits)
    have s': "s' = due Free t s" using t(3) False by (simp add: free_duty_def)
    have "asleep s v" if "asleep s' v" for v using that t(1) by (cases "v = t") (auto simp: s' asleep_def)
    moreover have "attentive s' v" if "attentive s v" for v
      using that t(1) none by (cases "v = t") (auto simp: s' attentive_def)
    ultimately show ?thesis using a unfolding alert_def by (metis s' on_worker_fields(1))
  qed
next
  case (Stop_loop t)
  with st stop_stops show ?thesis by (auto simp: free_duty_def split: if_splits intro!: alertI(3))
next
  case (Spurious u)
  with st show ?thesis by (intro alertI(1) [of u]) (auto simp: wake_thread_def wake_worker_def split: if_splits)
next
  case Restart
  with st have "list_all (\<lambda>w. wk_phase w = Outside \<and> wk_duty w = Free) (pl_workers s)" "pl_workers s' = pl_workers s"
    by (auto split: if_splits)
  then show ?thesis by (intro alertI(4)) (auto simp: asleep_def list_all_length)
qed

lemma alert_start: "alert (pool_start hint n)"
  by (rule alertI(4)) (auto simp: asleep_def pool_start_def)

lemma reachable_alert:
  assumes "pool_reachable from_task hint n s" "\<not> sd_one_thread (scheduler_make hint :: 'op scheduler)"
  shows "alert (s :: 'op pool)"
  using assms by induction (auto intro: alert_start alert_step reachable_calm)

section \<open>Sequences of steps\<close>

fun pool_steps :: "('op \<Rightarrow> bool) \<Rightarrow> 'op pool_event list \<Rightarrow> 'op pool \<Rightarrow> 'op pool option" where
  "pool_steps from_task [] s = Some s"
| "pool_steps from_task (ev # evs) s = Option.bind (pool_step from_task ev s) (pool_steps from_task evs)"

lemma reachable_steps:
  "pool_reachable from_task hint n s \<Longrightarrow> pool_steps from_task evs s = Some s' \<Longrightarrow> pool_reachable from_task hint n s'"
  by (induction evs arbitrary: s) (auto simp: bind_eq_Some_conv intro: pool_next)

text \<open>An example of three threads: one outside of the loop keeps it alive, one blocks in the reactor, one waits, and then
  an operation is posted.\<close>

definition sample_events :: "nat pool_event list" where
  "sample_events = [Call 2 Cl_work_started, Run 0, Lock 0, Turn 0, Run 1, Lock 1, Turn 1, Call 2 (Cl_post 20 False)]"

definition sample_pool :: "nat pool" where
  "sample_pool = \<lparr>pl_sched = \<lparr>sd_one_thread = False, sd_task = True, sd_task_interrupted = False, sd_outstanding_work = 2,
       sd_op_queue = [Operation 20], sd_stopped = False, sd_shutdown = False\<rparr>,
     pl_event = 3, pl_lock = None, pl_interrupted = False,
     pl_workers = [\<lparr>wk_phase = In_task True, wk_duty = Free, wk_info = thread_info_make\<rparr>,
       \<lparr>wk_phase = Waiting, wk_duty = Free, wk_info = thread_info_make\<rparr>,
       \<lparr>wk_phase = Outside, wk_duty = Signal, wk_info = thread_info_make\<rparr>],
     pl_owed = 1, pl_entered = [20], pl_done = []\<rparr>"

lemma default_locks: "\<not> sd_one_thread (scheduler_make default_hint)"
  by code_simp

lemma sample_steps: "pool_steps (\<lambda>p. p < 10) sample_events (pool_start default_hint 3) = Some sample_pool"
  by code_simp

lemma sample_reachable: "pool_reachable (\<lambda>p. p < 10) default_hint 3 sample_pool"
  by (rule reachable_steps [OF pool_init sample_steps])

section \<open>Properties\<close>

text \<open>
  C20: In a loop run by any number of threads, no wake-up is lost: in every reachable
  state where the loop has not stopped and something is in its queue, if some thread
  waits for the event or blocks in the reactor without having been interrupted, then
  another thread is on its way to the queue, or was interrupted in the reactor, or is
  about to signal the event for which a thread waits.
\<close>

theorem no_lost_wakeup:
  assumes "pool_reachable from_task hint n s" "\<not> sd_one_thread (scheduler_make hint :: 'op scheduler)"
    and "\<not> sd_stopped (pl_sched (s :: 'op pool))" "sd_op_queue (pl_sched s) \<noteq> []"
    and "t < length (pl_workers s)" "phase_of s t = Waiting \<or> phase_of s t = In_task True \<and> \<not> pl_interrupted s"
  shows "\<exists>u < length (pl_workers s).
    phase_of s u \<in> {At_lock, Head, Woken, In_task False} \<or> phase_of s u = In_task True \<and> pl_interrupted s \<or>
    duty_of s u = Signal \<and> (\<exists>v < length (pl_workers s). phase_of s v = Waiting)"
proof -
  have "asleep s t" using assms(5,6) by (simp add: asleep_def)
  with reachable_alert [OF assms(1,2)] assms(3,4) obtain u where "attentive s u" by (auto simp: alert_def)
  then show ?thesis by (auto simp: attentive_def list_ex_length)
qed

theorem no_lost_wakeup_witness:
  "sd_op_queue (pl_sched sample_pool) = [Operation 20] \<and> phase_of sample_pool 1 = Waiting \<and>
   (\<exists>u < length (pl_workers sample_pool).
      phase_of sample_pool u \<in> {At_lock, Head, Woken, In_task False} \<or> phase_of sample_pool u = In_task True \<and> pl_interrupted sample_pool \<or>
      duty_of sample_pool u = Signal \<and> (\<exists>v < length (pl_workers sample_pool). phase_of sample_pool v = Waiting))"
  using no_lost_wakeup [OF sample_reachable default_locks, of 1] by (simp add: sample_pool_def)

text \<open>
  C24: In every reachable state of a loop run by any number of threads, at most one
  thread is in the reactor and at most one in the section under the lock; the reactor
  stands in the queue exactly when no thread is in it, so it is never run twice at a
  time and never forgotten.
\<close>

theorem reactor_with_one_thread:
  assumes "pool_reachable from_task hint n s" "\<not> sd_one_thread (scheduler_make hint :: 'op scheduler)"
    and "t < length (pl_workers (s :: 'op pool))" "u < length (pl_workers s)"
  shows "(in_task (phase_of s t) \<longrightarrow> in_task (phase_of s u) \<longrightarrow> t = u)
    \<and> (in_task (phase_of s t) \<longrightarrow> Task_operation \<notin> set (sd_op_queue (pl_sched s)))
    \<and> (Task_operation \<notin> set (sd_op_queue (pl_sched s)) \<longrightarrow> (\<exists>v < length (pl_workers s). in_task (phase_of s v)))
    \<and> (phase_of s t = Head \<longrightarrow> phase_of s u = Head \<longrightarrow> t = u)"
proof -
  have c: "calm s" by (rule reachable_calm [OF assms(1,2)])
  then have i: "counts_ok s" by (simp add: calm_def)
  then have n: "number (\<lambda>i. i = Task_operation) (queue_of s) + number (\<lambda>w. in_task (wk_phase w)) (pl_workers s) = 1"
    by (simp add: counts_ok_def)
  have "Task_operation \<notin> set (queue_of s)" if "in_task (phase_of s t)"
  proof -
    have "0 < number (\<lambda>w. in_task (wk_phase w)) (pl_workers s)"
      by (rule number_positive [of "pl_workers s ! t"]) (use assms(3) that in simp_all)
    with n have "number (\<lambda>i. i = Task_operation) (queue_of s) = 0" by simp
    then show ?thesis by (auto simp: number_zero)
  qed
  moreover have "\<exists>v < length (pl_workers s). in_task (phase_of s v)" if "Task_operation \<notin> set (queue_of s)"
  proof -
    have "number (\<lambda>i. i = Task_operation) (queue_of s) = 0" using that by (auto simp: number_zero)
    with n have "number (\<lambda>w. in_task (wk_phase w)) (pl_workers s) \<noteq> 0" by simp
    then show ?thesis by (auto simp: number_zero in_set_conv_nth)
  qed
  moreover have "t = u" if "phase_of s t = Head" "phase_of s u = Head"
    using that calmD(1) [OF c assms(3)] calmD(1) [OF c assms(4)] by simp
  ultimately show ?thesis using one_in_task [OF i assms(3,4)] by blast
qed

theorem reactor_with_one_thread_witness:
  "in_task (phase_of sample_pool 0) \<and> Task_operation \<notin> set (sd_op_queue (pl_sched sample_pool))"
  using reactor_with_one_thread [OF sample_reachable default_locks, of 0 0] by (simp add: sample_pool_def)

end
