(* ===== verification/Oef_Asio_Threads_Work.thy ===== *)
theory Oef_Asio_Threads_Work
  imports Oef_Asio_Threads_Facts Oef_Asio_Scheduler_Facts
begin

text \<open>
  Facts about the scheduler run by several threads, continued: the count of work and the
  operations are exact under every interleaving, and a stopped loop ends in every thread.
\<close>

section \<open>Work and operations\<close>

lemma sum_update:
  fixes f :: "'a \<Rightarrow> 'b::comm_monoid_add"
  shows "t < length xs \<Longrightarrow> sum_list (map f (xs[t := x])) + f (xs ! t) = sum_list (map f xs) + f x"
proof (induction xs arbitrary: t)
  case (Cons y xs)
  show ?case
  proof (cases t)
    case 0
    then show ?thesis by (simp add: ac_simps)
  next
    case (Suc k)
    with Cons.IH [of k] Cons.prems show ?thesis by (simp add: add.assoc)
  qed
qed simp

text \<open>The unit of work that a thread gives back when its operation ends.\<close>

fun holds_work :: "'op phase \<Rightarrow> bool" where
  "holds_work (Executing p pr) = (pr \<noteq> Undecided)" | "holds_work _ = False"

abbreviation work_in :: "('op \<Rightarrow> bool) \<Rightarrow> 'op list \<Rightarrow> nat" where
  "work_in from_task ps \<equiv> number (\<lambda>p. \<not> from_task p) ps"

text \<open>What a thread has besides what it has counted itself.\<close>

definition balance :: "('op \<Rightarrow> bool) \<Rightarrow> 'op worker \<Rightarrow> int" where
  "balance from_task w = of_bool (holds_work (wk_phase w)) + int (work_in from_task (ti_private_queue (wk_info w)))
     - ti_private_work (wk_info w)"

fun worker_ok :: "('op \<Rightarrow> bool) \<Rightarrow> 'op phase \<Rightarrow> 'op thread_info \<Rightarrow> bool" where
  "worker_ok from_task (Executing p Holding) ti \<longleftrightarrow>
     0 \<le> ti_private_work ti \<and> ti_private_work ti \<le> int (work_in from_task (ti_private_queue ti))"
| "worker_ok from_task (Executing p Compensated) ti \<longleftrightarrow> ti_private_work ti = 1 \<and> ti_private_queue ti = []"
| "worker_ok from_task Finishing ti \<longleftrightarrow> ti_private_work ti = 0"
| "worker_ok from_task _ ti \<longleftrightarrow> ti_private_work ti = 0 \<and> ti_private_queue ti = []"

abbreviation kept_by :: "'op worker \<Rightarrow> 'op multiset" where
  "kept_by w \<equiv> mset (ti_private_queue (wk_info w))"

definition work_ok :: "('op \<Rightarrow> bool) \<Rightarrow> 'op pool \<Rightarrow> bool" where
  "work_ok from_task s \<longleftrightarrow>
     sd_outstanding_work (pl_sched s) =
       int (pl_owed s) + int (work_in from_task (queued (queue_of s))) + (\<Sum>w\<leftarrow>pl_workers s. balance from_task w) \<and>
     mset (pl_entered s) = mset (pl_done s) + mset (queued (queue_of s)) + (\<Sum>w\<leftarrow>pl_workers s. kept_by w) \<and>
     (\<forall>w \<in> set (pl_workers s). worker_ok from_task (wk_phase w) (wk_info w))"

lemma work_okD:
  assumes "work_ok from_task s" "t < length (pl_workers s)"
  shows "worker_ok from_task (phase_of s t) (wk_info (pl_workers s ! t))"
  using assms by (simp add: work_ok_def)

lemma balance_positive: "worker_ok from_task (wk_phase w) (wk_info w) \<Longrightarrow> 0 \<le> balance from_task w"
  by (cases "(from_task, wk_phase w, wk_info w)" rule: worker_ok.cases) (auto simp: balance_def)

lemma balance_zero:
  assumes "balance from_task w = 0" "worker_ok from_task (wk_phase w) (wk_info w)"
  shows "list_all from_task (ti_private_queue (wk_info w)) \<and> (\<forall>p. wk_phase w \<noteq> Executing p Holding)"
proof -
  have "work_in from_task (ti_private_queue (wk_info w)) = 0 \<and> (\<forall>p. wk_phase w \<noteq> Executing p Holding)"
    using assms by (cases "(from_task, wk_phase w, wk_info w)" rule: worker_ok.cases) (auto simp: balance_def)
  then show ?thesis by (auto simp: number_zero list_all_iff)
qed

text \<open>One thread moves.\<close>

lemma work_move:
  assumes i: "work_ok from_task s" and t: "t < length (pl_workers s)" "pl_workers s' = (pl_workers s)[t := w]"
    and "worker_ok from_task (wk_phase w) (wk_info w)"
    and "sd_outstanding_work (pl_sched s') + int (pl_owed s) + int (work_in from_task (queued (queue_of s)))
        + balance from_task (pl_workers s ! t) =
      sd_outstanding_work (pl_sched s) + int (pl_owed s') + int (work_in from_task (queued (queue_of s'))) + balance from_task w"
    and "mset (pl_entered s') + mset (pl_done s) + mset (queued (queue_of s)) + kept_by (pl_workers s ! t) =
      mset (pl_entered s) + mset (pl_done s') + mset (queued (queue_of s')) + kept_by w"
  shows "work_ok from_task s'"
proof -
  have "sd_outstanding_work (pl_sched s') = int (pl_owed s') + int (work_in from_task (queued (queue_of s')))
      + (\<Sum>w\<leftarrow>pl_workers s'. balance from_task w)"
    using i assms(5) sum_update [OF t(1), of "balance from_task" w] by (simp add: work_ok_def t(2))
  moreover have "mset (pl_entered s') = mset (pl_done s') + mset (queued (queue_of s')) + (\<Sum>w\<leftarrow>pl_workers s'. kept_by w)"
  proof -
    let ?S = "\<Sum>w\<leftarrow>pl_workers s. kept_by w" and ?S' = "\<Sum>w\<leftarrow>pl_workers s'. kept_by w"
    have "?S' + kept_by (pl_workers s ! t) = ?S + kept_by w" using sum_update [OF t(1), of kept_by w] by (simp add: t(2))
    moreover have "mset (pl_entered s) = mset (pl_done s) + mset (queued (queue_of s)) + ?S" using i by (simp add: work_ok_def)
    ultimately have "mset (pl_entered s') + (mset (pl_done s) + mset (queued (queue_of s)) + kept_by (pl_workers s ! t)) =
        mset (pl_done s') + mset (queued (queue_of s')) + ?S' + (mset (pl_done s) + mset (queued (queue_of s)) + kept_by (pl_workers s ! t))"
      using assms(6) by (simp add: ac_simps)
    then show ?thesis by simp
  qed
  moreover have "\<forall>w \<in> set (pl_workers s'). worker_ok from_task (wk_phase w) (wk_info w)"
    using i assms(4) set_update_subset_insert [of "pl_workers s" t w] by (auto simp: work_ok_def t(2))
  ultimately show ?thesis by (simp add: work_ok_def)
qed

text \<open>Fields that the invariant does not read.\<close>

lemma work_same:
  assumes "work_ok from_task s" "pl_workers s' = pl_workers s" "pl_owed s' = pl_owed s" "pl_entered s' = pl_entered s"
    "pl_done s' = pl_done s" "queue_of s' = queue_of s" "sd_outstanding_work (pl_sched s') = sd_outstanding_work (pl_sched s)"
  shows "work_ok from_task s'"
  using assms by (simp add: work_ok_def)

lemma worker_ok_waiting:
  "worker_ok from_task (wk_phase (wake_worker w)) (wk_info (wake_worker w)) = worker_ok from_task (wk_phase w) (wk_info w)"
  "balance from_task (wake_worker w) = balance from_task w" "kept_by (wake_worker w) = kept_by w"
  by (simp_all add: wake_worker_def balance_def)

lemma work_duty:
  assumes "work_ok from_task s" shows "work_ok from_task (due d t s)"
proof (cases "t < length (pl_workers s)")
  case True
  then show ?thesis
    by (intro work_move [OF assms True, where w = "(pl_workers s ! t)\<lparr>wk_duty := d\<rparr>"])
      (use work_okD [OF assms True] in \<open>simp_all add: balance_def\<close>)
next
  case False
  then show ?thesis by (intro work_same [OF assms]) (simp_all add: list_update_beyond)
qed

lemma work_stop:
  assumes "work_ok from_task s" shows "work_ok from_task (stop_threads s)"
  using assms by (simp add: work_ok_def stop_threads_def comp_def worker_ok_waiting)

text \<open>Waking changes no work.\<close>

lemma work_wake:
  assumes "work_ok from_task s"
  shows "work_ok from_task (wake_one_thread_and_unlock t s)" "work_ok from_task (unlock_and_signal_one t s)"
proof -
  have e: "work_ok from_task (s\<lparr>pl_event := event_set (pl_event s), pl_lock := None\<rparr>)"
    by (rule work_same [OF assms]) simp_all
  have "work_ok from_task (interrupt_task (s\<lparr>pl_event := event_set (pl_event s), pl_lock := None\<rparr>))"
    by (rule work_same [OF e]) simp_all
  with e work_duty [OF e] show "work_ok from_task (wake_one_thread_and_unlock t s)" "work_ok from_task (unlock_and_signal_one t s)"
    by (simp_all add: wake_one_eq unlock_signal_eq Let_def)
qed

section \<open>Every step keeps them\<close>

lemma work_turn:
  assumes i: "work_ok from_task s" and t: "t < length (pl_workers s)" "phase_of s t = Head"
  shows "work_ok from_task (run_head from_task t s)"
proof -
  have own: "ti_private_work (wk_info (pl_workers s ! t)) = 0" "ti_private_queue (wk_info (pl_workers s ! t)) = []"
    using work_okD [OF i t(1)] t(2) by simp_all
  consider (stopped) "sd_stopped (pl_sched s)" | (empty) "\<not> sd_stopped (pl_sched s)" "queue_of s = []"
    | (task) rest where "\<not> sd_stopped (pl_sched s)" "queue_of s = Task_operation # rest"
    | (operation) p rest where "\<not> sd_stopped (pl_sched s)" "queue_of s = Operation p # rest"
    by (cases "sd_stopped (pl_sched s)"; cases "queue_of s"; (cases "hd (queue_of s)")?) auto
  then show ?thesis
  proof cases
    case stopped
    then show ?thesis
      by (intro work_move [OF i t(1), where w = "(pl_workers s ! t)\<lparr>wk_phase := Outside\<rparr>"])
        (simp_all add: run_head_def go_to_def balance_def own t(2))
  next
    case empty
    then show ?thesis
      by (intro work_move [OF i t(1), where w = "(pl_workers s ! t)\<lparr>wk_phase := Waiting\<rparr>"])
        (simp_all add: run_head_def go_to_def balance_def own t(2))
  next
    case (task rest)
    let ?s = "go_to t (In_task (rest = [])) (s\<lparr>pl_sched := (pl_sched s)\<lparr>sd_op_queue := rest, sd_task_interrupted := rest \<noteq> []\<rparr>\<rparr>)"
    have "work_ok from_task ?s"
      by (rule work_move [OF i t(1), where w = "(pl_workers s ! t)\<lparr>wk_phase := In_task (rest = [])\<rparr>"])
        (use task in \<open>simp_all add: go_to_def balance_def own t(2)\<close>)
    moreover from this have "work_ok from_task (?s\<lparr>pl_lock := None\<rparr>)" by (rule work_same) simp_all
    ultimately show ?thesis using task work_wake(2) by (auto simp: run_head_def Let_def)
  next
    case (operation p rest)
    let ?p = "Executing p (if from_task p then Undecided else Holding)"
    let ?s = "go_to t ?p (s\<lparr>pl_sched := (pl_sched s)\<lparr>sd_op_queue := rest\<rparr>, pl_done := pl_done s @ [p]\<rparr>)"
    have "work_ok from_task ?s"
      by (rule work_move [OF i t(1), where w = "(pl_workers s ! t)\<lparr>wk_phase := ?p\<rparr>"])
        (use operation in \<open>simp_all add: go_to_def balance_def own t(2)\<close>)
    moreover from this have "work_ok from_task (?s\<lparr>pl_lock := None\<rparr>)" by (rule work_same) simp_all
    ultimately show ?thesis using operation work_wake(1) by (auto simp: run_head_def Let_def)
  qed
qed

lemma work_task_end:
  assumes i: "work_ok from_task s" and t: "t < length (pl_workers s)" "in_task (phase_of s t)" "list_all from_task ops"
  shows "work_ok from_task (run_task_end t ops consumed s)"
proof -
  have own: "ti_private_work (wk_info (pl_workers s ! t)) = 0" "ti_private_queue (wk_info (pl_workers s ! t)) = []"
    using work_okD [OF i t(1)] t(2) by (cases "phase_of s t"; simp)+
  have "work_in from_task ops = 0" using t(3) by (simp add: number_zero list_all_iff)
  moreover have "\<not> holds_work (phase_of s t)" using t(2) by (cases "phase_of s t") simp_all
  ultimately show ?thesis
    by (intro work_move [OF i t(1), where w = "(pl_workers s ! t)\<lparr>wk_phase := Head, wk_info := \<lparr>ti_private_work = 0, ti_private_queue = []\<rparr>\<rparr>"])
      (simp_all add: run_task_end_def task_cleanup_def sched_push_def Let_def balance_def own)
qed

lemma work_clean:
  assumes i: "work_ok from_task s" and t: "t < length (pl_workers s)" "phase_of s t = Executing p pr" "pr \<noteq> Undecided"
  shows "work_ok from_task (work_cleanup_count t s)"
proof -
  let ?ti = "wk_info (pl_workers s ! t)" and ?s = "work_cleanup_count t s"
  have own: "0 \<le> ti_private_work ?ti" using work_okD [OF i t(1)] t(2,3) by (cases pr) simp_all
  have f: "sd_outstanding_work (pl_sched ?s) = sd_outstanding_work (pl_sched s) + ti_private_work ?ti - 1"
    "pl_owed ?s = pl_owed s" "pl_entered ?s = pl_entered s" "pl_done ?s = pl_done s" "queue_of ?s = queue_of s"
    using own by (simp_all add: work_cleanup_count_def Let_def)
  define d where "d = duty_of ?s t"
  show ?thesis
    by (rule work_move [OF i t(1), where w = "(pl_workers s ! t)\<lparr>wk_phase := Finishing, wk_duty := d, wk_info := ?ti\<lparr>ti_private_work := 0\<rparr>\<rparr>"])
      (use t in \<open>simp_all add: f balance_def\<close>, simp_all add: d_def work_cleanup_count_def Let_def)
qed

lemma work_finish:
  assumes i: "work_ok from_task s" and t: "t < length (pl_workers s)" "phase_of s t = Finishing"
  shows "work_ok from_task (work_cleanup_queue t s)"
proof -
  let ?ti = "wk_info (pl_workers s ! t)"
  have own: "ti_private_work ?ti = 0" using work_okD [OF i t(1)] t(2) by simp
  show ?thesis
  proof (cases "ti_private_queue ?ti = []")
    case True
    then show ?thesis
      by (intro work_move [OF i t(1), where w = "(pl_workers s ! t)\<lparr>wk_phase := At_lock\<rparr>"])
        (simp_all add: work_cleanup_queue_def go_to_def Let_def balance_def own t(2))
  next
    case False
    then show ?thesis
      by (intro work_move [OF i t(1), where w = "(pl_workers s ! t)\<lparr>wk_phase := Head, wk_info := ?ti\<lparr>ti_private_queue := []\<rparr>\<rparr>"])
        (simp_all add: work_cleanup_queue_def sched_push_def Let_def balance_def own t(2))
  qed
qed

text \<open>What clients do.\<close>

lemma work_push:
  assumes i: "work_ok from_task s" and t: "t < length (pl_workers s)"
    and r: "pl_workers r = pl_workers s" "pl_entered r = pl_entered s" "pl_done r = pl_done s" "queue_of r = queue_of s"
      "sd_outstanding_work (pl_sched r) + int (pl_owed s) = sd_outstanding_work (pl_sched s) + int (pl_owed r) + int (work_in from_task ps)"
  shows "work_ok from_task (push_shared t ps r)"
  unfolding push_shared_def
  by (intro work_wake work_move [OF i t, where w = "pl_workers s ! t"])
    (use work_okD [OF i t] r in \<open>simp_all add: sched_push_def\<close>)

lemma work_push_own:
  assumes i: "work_ok from_task s" and t: "t < length (pl_workers s)" "phase_of s t = Executing p Holding"
    and n: "0 \<le> n" "n \<le> int (work_in from_task ps)"
    and r: "pl_workers r = pl_workers s" "pl_entered r = pl_entered s" "pl_done r = pl_done s" "queue_of r = queue_of s"
      "sd_outstanding_work (pl_sched r) = sd_outstanding_work (pl_sched s)"
      "int (pl_owed s) + n = int (pl_owed r) + int (work_in from_task ps)"
  shows "work_ok from_task (push_private t n ps r)"
proof -
  let ?ti = "wk_info (pl_workers s ! t)"
  show ?thesis
    by (rule work_move [OF i t(1), where w = "(pl_workers s ! t)\<lparr>wk_info := \<lparr>ti_private_work = ti_private_work ?ti + n,
         ti_private_queue = ti_private_queue ?ti @ ps\<rparr>\<rparr>"])
      (use work_okD [OF i t(1)] t n r in \<open>simp_all add: push_private_def balance_def\<close>)
qed

lemma work_count:
  assumes i: "work_ok from_task s" and t: "t < length (pl_workers s)"
    and r: "pl_workers r = pl_workers s" "pl_entered r = pl_entered s" "pl_done r = pl_done s" "queue_of r = queue_of s"
      "sd_outstanding_work (pl_sched r) + int (pl_owed s) = sd_outstanding_work (pl_sched s) + int (pl_owed r)"
  shows "work_ok from_task r"
  by (rule work_move [OF i t, where w = "pl_workers s ! t"]) (use work_okD [OF i t] r in simp_all)

lemma work_client:
  assumes i: "work_ok from_task s" and t: "t < length (pl_workers s)"
    and in_thread: "in_thread \<Longrightarrow> \<exists>p. phase_of s t = Executing p Holding"
    and s': "make_client_call from_task t in_thread cl s = Some s'"
  shows "work_ok from_task s'"
proof (cases cl)
  case (Cl_post p cont)
  have "work_ok from_task (push_private t 1 [p] s)" if "in_thread" "\<not> from_task p"
    using in_thread [OF that(1)] that(2) by (auto intro: work_push_own [OF i t])
  moreover have "work_ok from_task (push_shared t [p] (count_work 1 s))" if "\<not> from_task p"
    by (rule work_push [OF i t]) (use that in \<open>simp_all add: count_work_def\<close>)
  ultimately show ?thesis using Cl_post s' by (auto split: if_splits)
next
  case (Cl_defer ps)
  have own: "work_ok from_task (push_private t 0 ps (s\<lparr>pl_owed := pl_owed s - length ps\<rparr>))"
    if "in_thread" "work_in from_task ps = length ps" "length ps \<le> pl_owed s"
    using in_thread [OF that(1)] that by (auto intro!: work_push_own [OF i t])
  have shared: "work_ok from_task (push_shared t ps (s\<lparr>pl_owed := pl_owed s - length ps\<rparr>))"
    if "work_in from_task ps = length ps" "length ps \<le> pl_owed s"
    by (rule work_push [OF i t]) (use that in simp_all)
  have "work_in from_task ps = length ps" if "\<not> list_ex from_task ps"
    using that by (auto simp: number_def list_ex_iff filter_id_conv)
  with Cl_defer s' i own shared show ?thesis by (auto simp: Let_def split: if_splits)
next
  case (Cl_dispatch p)
  have "work_ok from_task (push_shared t [p] (count_work 1 s))" if "\<not> from_task p"
    by (rule work_push [OF i t]) (use that in \<open>simp_all add: count_work_def\<close>)
  with Cl_dispatch s' show ?thesis by (auto split: if_splits)
next
  case Cl_work_started
  have "work_ok from_task ((count_work 1 s)\<lparr>pl_owed := pl_owed s + 1\<rparr>)"
    by (rule work_count [OF i t]) (simp_all add: count_work_def)
  with Cl_work_started s' show ?thesis by simp
next
  case Cl_work_finished
  have "work_ok from_task ((count_work (-1) s)\<lparr>pl_owed := pl_owed s - 1\<rparr>)" if "0 < pl_owed s"
    by (rule work_count [OF i t]) (use that in \<open>simp_all add: count_work_def\<close>)
  with Cl_work_finished s' work_duty show ?thesis by (auto simp: Let_def split: if_splits)
next
  case Cl_stop
  with s' work_stop [OF i] show ?thesis by (auto split: if_splits)
qed (use s' in simp_all)

lemma work_perform:
  assumes i: "work_ok from_task s" and t: "t < length (pl_workers s)" "phase_of s t = Executing p Undecided"
    and s': "perform_call t p cl s = Some s'"
  shows "work_ok from_task s'"
proof -
  have own: "ti_private_work (wk_info (pl_workers s ! t)) = 0" "ti_private_queue (wk_info (pl_workers s ! t)) = []"
    using work_okD [OF i t(1)] t(2) by simp_all
  show ?thesis
  proof (cases cl)
    case Cl_complete
    show ?thesis
      by (rule work_move [OF i t(1), where w = "(pl_workers s ! t)\<lparr>wk_phase := Executing p Holding\<rparr>"])
        (use Cl_complete s' t own in \<open>auto simp: go_to_def balance_def split: if_splits\<close>)
  next
    case Cl_compensate
    show ?thesis
      by (rule work_move [OF i t(1), where w = "(pl_workers s ! t)\<lparr>wk_phase := Executing p Compensated,
            wk_info := compensating_work_started (wk_info (pl_workers s ! t))\<rparr>"])
        (use Cl_compensate s' t own in \<open>auto simp: balance_def compensating_work_started_def\<close>)
  qed (use s' in simp_all)
qed

lemma work_step:
  assumes i: "work_ok from_task s" and st: "pool_step from_task ev s = Some s'"
  shows "work_ok from_task s'"
proof (cases ev)
  case (Run t)
  with st have t: "t < length (pl_workers s)" "phase_of s t = Outside" "s' = run_begin t s"
    by (auto simp: ready_def split: if_splits)
  have "work_ok from_task (on_worker t (\<lambda>w. w\<lparr>wk_phase := At_lock, wk_info := thread_info_make\<rparr>) s)"
    by (rule work_move [OF i t(1), where w = "(pl_workers s ! t)\<lparr>wk_phase := At_lock, wk_info := thread_info_make\<rparr>"])
      (use work_okD [OF i t(1)] t(2) in \<open>simp_all add: thread_info_make_def balance_def\<close>)
  with t work_duty [OF i, where d = Stop and t = t] show ?thesis by (simp add: run_begin_def)
next
  case (Lock t)
  with st have t: "t < length (pl_workers s)" "phase_of s t = At_lock" "s' = (go_to t Head s)\<lparr>pl_lock := Some t\<rparr>"
    by (auto simp: ready_def split: if_splits)
  show ?thesis
    by (rule work_move [OF i t(1), where w = "(pl_workers s ! t)\<lparr>wk_phase := Head\<rparr>"])
      (use work_okD [OF i t(1)] t in \<open>simp_all add: go_to_def balance_def\<close>)
next
  case (Turn t)
  with st work_turn [OF i, of t] show ?thesis by (auto simp: ready_def split: if_splits)
next
  case (Wake t)
  with st have t: "t < length (pl_workers s)" "phase_of s t = Woken" "s' = wait_woken t s"
    by (auto simp: ready_def split: if_splits)
  define w where "w = pl_workers s' ! t"
  show ?thesis
    by (rule work_move [OF i t(1), where w = w])
      (use work_okD [OF i t(1)] t in \<open>auto simp: w_def wait_woken_def go_to_def balance_def Let_def\<close>)
next
  case (Task_end t ops consumed)
  with st work_task_end [OF i, of t ops] show ?thesis by (auto simp: ready_def split: if_splits)
next
  case (Call t cl)
  with st work_client [OF i, of t] work_perform [OF i, of t] show ?thesis
    by (auto simp: ready_def split: if_splits phase.splits progress.splits)
next
  case (Clean t)
  with st work_clean [OF i, of t] show ?thesis by (auto simp: ready_def split: if_splits phase.splits)
next
  case (Finish t)
  with st work_finish [OF i, of t] show ?thesis by (auto simp: ready_def split: if_splits)
next
  case (Signal_one t u)
  have "work_ok from_task (wake_thread u s)" if "u < length (pl_workers s)"
    by (rule work_move [OF i that, where w = "wake_worker (pl_workers s ! u)"])
      (use work_okD [OF i that] in \<open>simp_all add: wake_thread_def worker_ok_waiting\<close>)
  with Signal_one st i work_duty [where d = Free and t = t] show ?thesis by (auto simp: free_duty_def split: if_splits)
next
  case (Stop_loop t)
  with st work_duty [OF work_stop [OF i], where d = Free and t = t] show ?thesis by (auto simp: free_duty_def split: if_splits)
next
  case (Spurious u)
  with st have u: "u < length (pl_workers s)" "s' = wake_thread u s" by (auto split: if_splits)
  show ?thesis
    by (rule work_move [OF i u(1), where w = "wake_worker (pl_workers s ! u)"])
      (use work_okD [OF i u(1)] u in \<open>simp_all add: wake_thread_def worker_ok_waiting\<close>)
next
  case Restart
  with st show ?thesis by (intro work_same [OF i]) (auto simp: sched_restart_def split: if_splits)
qed

lemma work_start: "work_ok from_task (pool_start hint n)"
proof -
  have "sum_list (replicate n (0::int)) = 0" "sum_list (replicate n ({#}::'a multiset)) = {#}" by (induction n) simp_all
  then show ?thesis
    by (simp add: work_ok_def pool_start_def init_task_def scheduler_make_def sched_push_def wake_one_thread_def balance_def
      thread_info_make_def)
qed

lemma reachable_work:
  assumes "pool_reachable from_task hint n s" shows "work_ok from_task s"
  using assms by induction (auto intro: work_start work_step)

section \<open>Stopping\<close>

text \<open>The steps of threads on their way out of \<open>run\<close>: none enters it, none restarts the loop, and the handlers that are being
  executed return without further calls. A descriptor still decides whether something completes.\<close>

fun returning :: "'op pool_event \<Rightarrow> bool" where
  "returning (Run t) = False"
| "returning Restart = False"
| "returning (Call t cl) = (cl = Cl_complete \<or> cl = Cl_compensate)"
| "returning ev = True"

fun phase_weight :: "'op phase \<Rightarrow> nat" where
  "phase_weight Outside = 0" | "phase_weight Head = 1" | "phase_weight At_lock = 2" | "phase_weight Woken = 2"
| "phase_weight (In_task b) = 2" | "phase_weight Waiting = 3" | "phase_weight Finishing = 3"
| "phase_weight (Executing p pr) = (if pr = Undecided then 6 else 5)"

text \<open>How many steps a thread takes at most until it is outside.\<close>

definition worker_weight :: "'op worker \<Rightarrow> nat" where
  "worker_weight w = phase_weight (wk_phase w) + of_bool (wk_duty w \<noteq> Free)"

definition run_weight :: "'op pool \<Rightarrow> nat" where
  "run_weight s = (\<Sum>w\<leftarrow>pl_workers s. worker_weight w)"

lemma weight_move:
  assumes "t < length (pl_workers s)" "pl_workers s' = (pl_workers s)[t := w]" "worker_weight w < worker_weight (pl_workers s ! t)"
  shows "run_weight s' < run_weight s"
  using assms sum_update [of t "pl_workers s" worker_weight w] by (simp add: run_weight_def)

lemma stop_threads_workers:
  assumes "calm s" "sd_stopped (pl_sched s)" shows "pl_workers (stop_threads s) = pl_workers s"
proof -
  have "map wake_worker (pl_workers s) = pl_workers s"
    using calmD(5) [OF assms(1) _ assms(2)] by (intro map_idI) (auto simp: wake_worker_def in_set_conv_nth)
  then show ?thesis by (simp add: stop_threads_def)
qed

lemma returning_step:
  assumes c: "calm s" and stop: "sd_stopped (pl_sched s)" and st: "pool_step from_task ev s = Some s'" and ev: "returning ev"
  shows "sd_stopped (pl_sched s') \<and> run_weight s' < run_weight s"
proof (cases ev)
  case (Lock t)
  with st stop show ?thesis
    by (auto simp: ready_def go_to_def worker_weight_def split: if_splits
      intro!: weight_move [of t s _ "(pl_workers s ! t)\<lparr>wk_phase := Head\<rparr>"])
next
  case (Turn t)
  with st stop show ?thesis
    by (auto simp: ready_def run_head_def go_to_def worker_weight_def split: if_splits
      intro!: weight_move [of t s _ "(pl_workers s ! t)\<lparr>wk_phase := Outside\<rparr>"])
next
  case (Wake t)
  with st have t: "t < length (pl_workers s)" "phase_of s t = Woken" "s' = wait_woken t s"
    by (auto simp: ready_def split: if_splits)
  have "0 < number (\<lambda>w. waiting (wk_phase w)) (pl_workers s)"
    by (rule number_positive [of "pl_workers s ! t"]) (use t in simp_all)
  then have "2 \<le> pl_event s" using calmD(7) [OF c t(1)] by simp
  with calmD(5) [OF c t(1) stop] t stop show ?thesis
    by (auto simp: wait_woken_def go_to_def worker_weight_def Let_def
      intro!: weight_move [of t s _ "(pl_workers s ! t)\<lparr>wk_phase := Head\<rparr>"])
next
  case (Task_end t ops consumed)
  with st have t: "t < length (pl_workers s)" "duty_of s t = Free" "phase_weight (phase_of s t) = 2"
    "s' = run_task_end t ops consumed s" by (auto simp: ready_def split: if_splits)
  define w where "w = pl_workers s' ! t"
  have "run_weight s' < run_weight s"
    by (rule weight_move [of t s _ w])
      (use t in \<open>simp_all add: w_def run_task_end_def task_cleanup_def Let_def worker_weight_def\<close>)
  with t stop show ?thesis by (simp add: run_task_end_def task_cleanup_def sched_push_def Let_def)
next
  case (Call t cl)
  with st ev obtain p where t: "t < length (pl_workers s)" "duty_of s t = Free" "phase_of s t = Executing p Undecided"
    "perform_call t p cl s = Some s'"
    by (auto simp: ready_def split: if_splits phase.splits progress.splits)
  define w where "w = pl_workers s' ! t"
  have "run_weight s' < run_weight s"
    by (rule weight_move [of t s _ w]) (use t Call ev in \<open>auto simp: w_def go_to_def worker_weight_def split: if_splits\<close>)
  with t stop Call ev show ?thesis by (auto simp: go_to_def split: if_splits)
next
  case (Clean t)
  with st obtain p pr where t: "t < length (pl_workers s)" "duty_of s t = Free" "phase_of s t = Executing p pr" "s' = work_cleanup_count t s"
    by (auto simp: ready_def split: if_splits phase.splits)
  define w where "w = pl_workers s' ! t"
  have "run_weight s' < run_weight s"
    by (rule weight_move [of t s _ w]) (use t in \<open>simp_all add: w_def work_cleanup_count_def worker_weight_def Let_def\<close>)
  with t stop show ?thesis by (simp add: work_cleanup_count_def Let_def)
next
  case (Finish t)
  with st have t: "t < length (pl_workers s)" "duty_of s t = Free" "phase_of s t = Finishing" "s' = work_cleanup_queue t s"
    by (auto simp: ready_def split: if_splits)
  define w where "w = pl_workers s' ! t"
  have "run_weight s' < run_weight s"
    by (rule weight_move [of t s _ w]) (use t in \<open>simp_all add: w_def work_cleanup_queue_def go_to_def worker_weight_def Let_def\<close>)
  with t stop show ?thesis by (simp add: work_cleanup_queue_def go_to_def sched_push_def Let_def)
next
  case (Signal_one t u)
  with st have t: "t < length (pl_workers s)" "duty_of s t = Signal" "may_wake s u"
    "s' = free_duty t (if u < length (pl_workers s) then wake_thread u s else s)" by (auto split: if_splits)
  have "\<not> u < length (pl_workers s)"
    using t(3) calmD(5) [OF c _ stop] by (auto simp: may_wake_def list_ex_length split: if_splits)
  with t stop show ?thesis
    by (auto simp: free_duty_def worker_weight_def intro!: weight_move [of t s _ "(pl_workers s ! t)\<lparr>wk_duty := Free\<rparr>"])
next
  case (Stop_loop t)
  with st stop_threads_workers [OF c stop] stop_stops [of s] show ?thesis
    by (auto simp: free_duty_def worker_weight_def split: if_splits intro!: weight_move [of t s _ "(pl_workers s ! t)\<lparr>wk_duty := Free\<rparr>"])
next
  case (Spurious u)
  with st calmD(5) [OF c, of u] stop show ?thesis by (auto split: if_splits)
qed (use ev in simp_all)

text \<open>While a thread is not outside, one can make a step.\<close>

lemma stopped_free:
  assumes c: "calm s" and stop: "sd_stopped (pl_sched s)"
    and none: "\<And>ev. returning ev \<Longrightarrow> pool_step from_task ev s = None" and t: "t < length (pl_workers s)"
  shows "phase_of s t = Outside \<and> duty_of s t = Free"
proof -
  have l: "pl_lock s = None"
  proof (rule ccontr)
    assume "pl_lock s \<noteq> None"
    then obtain u where u: "pl_lock s = Some u" by auto
    then have "u < length (pl_workers s)" using c by (auto simp: calm_def locks_ok_def)
    with u calmD(1,2) [OF c this] none [of "Turn u"] show False by (auto simp: ready_def)
  qed
  have "\<not> list_ex (\<lambda>w. wk_phase w = Waiting) (pl_workers s)" using calmD(5) [OF c _ stop] by (auto simp: list_ex_length)
  then have d: "duty_of s t = Free"
    using none [of "Signal_one t (length (pl_workers s))"] none [of "Stop_loop t"] l t
    by (cases "duty_of s t") (simp_all add: may_wake_def)
  have "phase_of s t = Outside"
  proof (cases "phase_of s t")
    case At_lock
    with none [of "Lock t"] d l t show ?thesis by (simp add: ready_def)
  next
    case Head
    with none [of "Turn t"] d t show ?thesis by (simp add: ready_def)
  next
    case Waiting
    with calmD(5) [OF c t stop] show ?thesis by simp
  next
    case Woken
    with none [of "Wake t"] d l t show ?thesis by (simp add: ready_def)
  next
    case (In_task b)
    with none [of "Task_end t [] True"] d l t show ?thesis by (cases b) (simp_all add: ready_def)
  next
    case (Executing p pr)
    with none [of "Call t Cl_compensate"] none [of "Clean t"] d t show ?thesis
      by (cases "pr = Undecided") (simp_all add: ready_def)
  next
    case Finishing
    with none [of "Finish t"] d l t show ?thesis by (simp add: ready_def)
  qed simp
  with d show ?thesis by simp
qed

lemma returning_steps:
  assumes "calm s" "sd_stopped (pl_sched s)" "list_all returning evs" "pool_steps from_task evs s = Some s'"
  shows "calm s' \<and> sd_stopped (pl_sched s') \<and> length evs + run_weight s' \<le> run_weight s"
  using assms
proof (induction evs arbitrary: s)
  case (Cons ev evs)
  then obtain r where r: "pool_step from_task ev s = Some r" "pool_steps from_task evs r = Some s'"
    by (auto simp: bind_eq_Some_conv)
  from returning_step [OF Cons.prems(1,2) r(1)] calm_step [OF Cons.prems(1) r(1)] Cons.IH [of r] Cons.prems(3) r(2)
  show ?case by auto
qed simp

section \<open>Properties\<close>

text \<open>
  C22: In every reachable state of a loop run by any number of threads, the count of
  outstanding work together with what threads have counted privately is exactly the work
  in the queues, the operations being executed and what handlers and reactor hold; it is
  never negative, and when it is zero nothing of these is left.
\<close>

theorem threads_work_exact:
  assumes "pool_reachable from_task hint n s"
  shows "sd_outstanding_work (pl_sched s) + (\<Sum>w\<leftarrow>pl_workers s. ti_private_work (wk_info w)) =
      int (pl_owed s) + int (work_in from_task (queued (sd_op_queue (pl_sched s))))
      + (\<Sum>w\<leftarrow>pl_workers s. of_bool (holds_work (wk_phase w)) + int (work_in from_task (ti_private_queue (wk_info w))))
    \<and> 0 \<le> sd_outstanding_work (pl_sched s)
    \<and> (sd_outstanding_work (pl_sched s) = 0 \<longrightarrow> pl_owed s = 0 \<and> list_all from_task (queued (sd_op_queue (pl_sched s))) \<and>
        (\<forall>w \<in> set (pl_workers s). list_all from_task (ti_private_queue (wk_info w)) \<and> (\<forall>p. wk_phase w \<noteq> Executing p Holding)))"
proof -
  let ?B = "\<Sum>w\<leftarrow>pl_workers s. balance from_task w"
  have i: "work_ok from_task s" by (rule reachable_work [OF assms])
  then have e: "sd_outstanding_work (pl_sched s) = int (pl_owed s) + int (work_in from_task (queued (queue_of s))) + ?B"
    by (simp add: work_ok_def)
  have b: "0 \<le> balance from_task w" if "w \<in> set (pl_workers s)" for w
    using i that by (intro balance_positive) (simp add: work_ok_def)
  then have "0 \<le> ?B" by (intro sum_list_nonneg) auto
  moreover have "list_all from_task (ti_private_queue (wk_info w)) \<and> (\<forall>p. wk_phase w \<noteq> Executing p Holding)"
    if "?B = 0" "w \<in> set (pl_workers s)" for w
  proof -
    have "\<And>x. x \<in> set (map (balance from_task) (pl_workers s)) \<Longrightarrow> 0 \<le> x" using b by auto
    then have "\<forall>x \<in> set (map (balance from_task) (pl_workers s)). x = 0"
      using that(1) sum_list_nonneg_eq_0_iff [of "map (balance from_task) (pl_workers s)"] by blast
    then have "balance from_task w = 0" using that(2) by auto
    moreover have "worker_ok from_task (wk_phase w) (wk_info w)" using i that(2) by (simp add: work_ok_def)
    ultimately show ?thesis by (rule balance_zero)
  qed
  moreover have "list_all from_task ps" if "work_in from_task ps = 0" for ps using that by (auto simp: number_zero list_all_iff)
  ultimately show ?thesis using e
    by (auto simp: balance_def sum_list_subtractf)
qed

theorem threads_work_exact_witness:
  "sd_outstanding_work (pl_sched sample_pool) + (\<Sum>w\<leftarrow>pl_workers sample_pool. ti_private_work (wk_info w)) = 2"
  using threads_work_exact [OF sample_reachable] by (simp add: sample_pool_def thread_info_make_def)

text \<open>
  C23: Whatever the interleaving of the threads, every operation that came into the
  queues of the loop is, with multiplicity, either taken for execution by one thread or
  still in the shared queue or in the private queue of one thread: none is lost and none
  is executed twice.
\<close>

theorem threads_deliver_once:
  assumes "pool_reachable from_task hint n s"
  shows "mset (pl_entered s) =
    mset (pl_done s) + mset (queued (sd_op_queue (pl_sched s))) + (\<Sum>w\<leftarrow>pl_workers s. mset (ti_private_queue (wk_info w)))"
  using reachable_work [OF assms] by (simp add: work_ok_def)

theorem threads_deliver_once_witness:
  "mset [20] = mset (pl_done sample_pool) + mset (queued (sd_op_queue (pl_sched sample_pool)))"
  using threads_deliver_once [OF sample_reachable] by (simp add: sample_pool_def thread_info_make_def)

text \<open>
  C21: Once a loop run by any number of threads is stopped, no thread waits for the
  event and one that blocks in the reactor has been interrupted; while the handlers that
  are being executed return, at most a number of steps given by the state is possible,
  and when no further step is, every thread has returned from run.
\<close>

theorem stop_returns_every_thread:
  assumes "pool_reachable from_task hint n s" "\<not> sd_one_thread (scheduler_make hint :: 'op scheduler)"
    and "sd_stopped (pl_sched (s :: 'op pool))"
  shows "(\<forall>t < length (pl_workers s). phase_of s t \<noteq> Waiting \<and> (phase_of s t = In_task True \<longrightarrow> pl_interrupted s))
    \<and> (\<forall>evs s'. list_all returning evs \<longrightarrow> pool_steps from_task evs s = Some s' \<longrightarrow>
         length evs \<le> run_weight s \<and>
         ((\<forall>ev. returning ev \<longrightarrow> pool_step from_task ev s' = None) \<longrightarrow>
            (\<forall>t < length (pl_workers s'). phase_of s' t = Outside \<and> duty_of s' t = Free)))"
proof -
  have c: "calm s" by (rule reachable_calm [OF assms(1,2)])
  have "pl_interrupted s" if "t < length (pl_workers s)" "phase_of s t = In_task True" for t
    using c assms(3) that by (simp add: calm_def flags_ok_def)
  moreover have "length evs \<le> run_weight s" if "list_all returning evs" "pool_steps from_task evs s = Some s'" for evs s'
    using returning_steps [OF c assms(3) that] by simp
  moreover have "phase_of s' t = Outside \<and> duty_of s' t = Free"
    if "list_all returning evs" "pool_steps from_task evs s = Some s'" "\<forall>ev. returning ev \<longrightarrow> pool_step from_task ev s' = None"
      "t < length (pl_workers s')" for evs s' t
  proof (rule stopped_free [OF _ _ _ that(4)])
    show "calm s'" "sd_stopped (pl_sched s')" using returning_steps [OF c assms(3) that(1,2)] by simp_all
    show "pool_step from_task ev s' = None" if "returning ev" for ev using that \<open>\<forall>ev. returning ev \<longrightarrow> _ ev\<close> by simp
  qed
  ultimately show ?thesis using calmD(5) [OF c _ assms(3)] by blast
qed

definition stopped_pool :: "nat pool" where
  "stopped_pool = \<lparr>pl_sched = \<lparr>sd_one_thread = False, sd_task = True, sd_task_interrupted = True, sd_outstanding_work = 2,
       sd_op_queue = [Operation 20], sd_stopped = True, sd_shutdown = False\<rparr>,
     pl_event = 3, pl_lock = None, pl_interrupted = True,
     pl_workers = [\<lparr>wk_phase = In_task True, wk_duty = Free, wk_info = thread_info_make\<rparr>,
       \<lparr>wk_phase = Woken, wk_duty = Free, wk_info = thread_info_make\<rparr>,
       \<lparr>wk_phase = Outside, wk_duty = Free, wk_info = thread_info_make\<rparr>],
     pl_owed = 1, pl_entered = [20], pl_done = []\<rparr>"

lemma stopped_reachable: "pool_reachable (\<lambda>p. p < 10) default_hint 3 stopped_pool"
proof (rule reachable_steps [OF sample_reachable])
  show "pool_steps (\<lambda>p. p < 10) [Signal_one 2 1, Call 2 Cl_stop] sample_pool = Some stopped_pool" by code_simp
qed

text \<open>Both threads that are in the loop come out of it.\<close>

definition returned_pool :: "nat pool option" where
  "returned_pool = pool_steps (\<lambda>p. p < 10) [Task_end 0 [] True, Turn 0, Wake 1, Turn 1] stopped_pool"

lemma returned: "map_option (\<lambda>s. map wk_phase (pl_workers s)) returned_pool = Some [Outside, Outside, Outside]"
  by code_simp

theorem stop_returns_every_thread_witness:
  "run_weight stopped_pool = 4 \<and> length [Task_end 0 [] True, Turn 0, Wake 1, Turn 1 :: nat pool_event] \<le> run_weight stopped_pool"
proof -
  obtain s' where "pool_steps (\<lambda>p. p < 10) [Task_end 0 [] True, Turn 0, Wake 1, Turn 1] stopped_pool = Some s'"
    using returned by (cases returned_pool) (auto simp: returned_pool_def)
  with stop_returns_every_thread [OF stopped_reachable default_locks]
  have "length [Task_end 0 [] True, Turn 0, Wake 1, Turn 1 :: nat pool_event] \<le> run_weight stopped_pool"
    by (auto simp: stopped_pool_def dest!: spec [of _ "[Task_end 0 [] True, Turn 0, Wake 1, Turn 1]"])
  then show ?thesis by (simp add: run_weight_def worker_weight_def stopped_pool_def)
qed

end
