(* ===== verification/Spec2Isabelle.thy ===== *)
theory Spec2Isabelle
  imports Oef_Query_Facts Oef_Schema_Dir Oef_Node_Facts Oef_Comm_Posix Oef_Logger_Facts Oef_Asio_Interleave
    Oef_Asio_Threads_Work
begin

text \<open>
  A model of the OEF core node (\<open>src/lib\<close>, \<open>src/apps/node-pluto\<close>) and its correctness.

  \<^bold>\<open>The program.\<close> Agents connect to the core over TCP, prove themselves in a handshake and
  then send envelopes: they register descriptions and services, search for agents and
  services, and send messages to other agents. \<open>CoreServer\<close> accepts and shakes hands,
  \<open>AgentDirectory\<close> holds the connected agents, an \<open>AgentSession\<close> serves one agent, and
  \<open>OefSearchClient\<close> passes registrations and searches to OEF Search over one connection
  that all sessions share. \<open>schema.hpp\<close> holds the data models, instances, constraints and
  queries, \<open>clientmsg.hpp\<close> the envelopes of an agent, \<open>AsioComm\<close> and \<open>AsioBasicComm\<close> the two
  framings. Below them the node rests on two vendored libraries under \<open>3rd/\<close>, of which the
  parts it runs through are modelled too: \<open>asio\<close> runs the handlers of the node in its event
  loop and moves the bytes of the communicators over sockets, \<open>spdlog\<close> writes the log of every
  component. \<open>main\<close> reads the command line, builds the server and runs the loop.

  \<^bold>\<open>Theories and files.\<close>

  \<^item> \<open>Oef_Prelude\<close>: machine types, exceptions, unordered maps. \<open>Oef_Doubles\<close>: IEEE doubles
    and their comparisons. \<open>Oef_Geo\<close>: \<open>Location\<close> and its distance.
  \<^item> \<open>Oef_Query_Proto\<close>, \<open>Oef_Agent_Proto\<close>, \<open>Oef_Search_Proto\<close>: the messages of \<open>proto/\<close>.
  \<^item> \<open>Oef_Schema_Data\<close> with \<open>Oef_Instance_Facts\<close>, \<open>Oef_Constraint\<close> with
    \<open>Oef_Constraint_Facts\<close>, \<open>Oef_Query\<close> with \<open>Oef_Query_Facts\<close>, \<open>Oef_Schema_Dir\<close>: \<open>schema.hpp\<close>
    and \<open>schema.cpp\<close>, class by class.
  \<^item> \<open>Oef_Client_Msg\<close>: \<open>clientmsg.hpp\<close>. \<open>Oef_Serial\<close>: \<open>serialization.cpp\<close> and its header.
    \<open>Oef_Comm\<close>: \<open>asio_communicator.cpp\<close> and \<open>asio_basic_communicator.hpp\<close>.
  \<^item> \<open>Oef_Once_Map\<close>: the contract that directory and handle table share. \<open>Oef_Agent_Dir\<close>:
    \<open>agent_directory.hpp\<close>.
  \<^item> \<open>Oef_Search_Client\<close> with \<open>Oef_Search_Facts\<close>: \<open>oef_search_client.cpp\<close> and its headers.
  \<^item> \<open>Oef_Session\<close> with \<open>Oef_Session_Facts\<close>: \<open>agent_session.cpp\<close> and its header.
  \<^item> \<open>Oef_Server\<close> with \<open>Oef_Server_Facts\<close>: \<open>core_server.cpp\<close> and \<open>asio_acceptor.cpp\<close>.
  \<^item> \<open>Oef_Asio_Buffers\<close>: \<open>asio/buffer.hpp\<close> and \<open>detail/consuming_buffers.hpp\<close>.
    \<open>Oef_Asio_Socket\<close> with \<open>Oef_Asio_Socket_Facts\<close>: the stream operations of
    \<open>detail/impl/socket_ops.ipp\<close> and the socket service of
    \<open>detail/impl/reactive_socket_service_base.ipp\<close>. \<open>Oef_Asio_Transfer\<close> with
    \<open>Oef_Asio_Transfer_Facts\<close>: \<open>impl/write.hpp\<close> and \<open>impl/read.hpp\<close>. \<open>Oef_Comm_Posix\<close>: the
    synchronous calls of \<open>AsioComm\<close> on top of them.
  \<^item> \<open>Oef_Asio_Op_Queue\<close>: the linked queue of \<open>detail/op_queue.hpp\<close> over a heap.
    \<open>Oef_Asio_Scheduler\<close> with \<open>Oef_Asio_Scheduler_Facts\<close>: the operations of
    \<open>detail/impl/scheduler.ipp\<close>. \<open>Oef_Asio_Reactor\<close> with \<open>Oef_Asio_Reactor_Facts\<close>:
    \<open>detail/impl/epoll_reactor.ipp\<close> and \<open>detail/object_pool.hpp\<close>. \<open>Oef_Asio_Loop\<close> with
    \<open>Oef_Asio_Loop_Facts\<close>: \<open>do_run_one\<close> and \<open>run\<close> of the scheduler with the reactor as its task.
    \<open>Oef_Asio_Threads\<close> with \<open>Oef_Asio_Threads_Facts\<close> and \<open>Oef_Asio_Threads_Work\<close>: the same
    loop run by any number of threads, with \<open>detail/posix_event.hpp\<close>.
    \<open>Oef_Asio_Record\<close>: a loop whose world keeps a record of what was performed.
    \<open>Oef_Asio_Async\<close>: \<open>async_write\<close> as operations of the loop
    (\<open>detail/reactive_socket_send_op.hpp\<close>, \<open>async_send\<close> of the socket service, \<open>write_op\<close>) and
    \<open>AsioComm::send_async\<close>, with the invariant of each write in \<open>Oef_Asio_Async_Facts\<close>, the steps
    in \<open>Oef_Asio_Async_Steps\<close>, the order of the bytes in \<open>Oef_Asio_Wire\<close>, and the mixture of two
    long frames in \<open>Oef_Asio_Interleave\<close>.
  \<^item> \<open>Oef_Asio_Resolve\<close>: the synchronous resolver of \<open>ip/basic_resolver.hpp\<close>.
    \<open>Oef_Asio_Connect\<close> with \<open>Oef_Asio_Connect_Facts\<close>: \<open>impl/connect.hpp\<close>, the acceptor, and the
    constructors and destructors of the communicators. \<open>Oef_Main\<close> with \<open>Oef_Main_Facts\<close>:
    \<open>main.cpp\<close>, \<open>config.hpp\<close>, and the life of \<open>CoreServer\<close> (constructor, \<open>run_in_thread\<close>, \<open>stop\<close>,
    destructor) over sockets and loop. \<open>Oef_Node\<close> with \<open>Oef_Node_Facts\<close>: the machine of
    \<open>Oef_Server\<close> driven by the loop.
  \<^item> \<open>Oef_Log_Digits\<close>, \<open>Oef_Log_Format\<close>, \<open>Oef_Log_Pattern\<close> with \<open>Oef_Log_Facts\<close>: numbers, flag
    formatters and patterns of \<open>spdlog/details/pattern_formatter.h\<close>. \<open>Oef_Log_File\<close> with
    \<open>Oef_Log_File_Facts\<close>: \<open>details/file_helper.h\<close> and \<open>sinks/rotating_file_sink.h\<close>.
    \<open>Oef_Log_Sinks\<close>: format strings, the other sinks and \<open>details/logger_impl.h\<close>. \<open>Oef_Logger\<close>
    with \<open>Oef_Logger_Facts\<close>: \<open>details/registry.h\<close>, \<open>logger.hpp\<close>, \<open>logger.cpp\<close> and the set-up of
    the log in \<open>main.cpp\<close>.

  \<^bold>\<open>State and operations.\<close> A class is a record, a method a definition over it. A message is a
  record and a \<open>oneof\<close> a datatype. An exception is the left side of a sum. A lambda that the
  code hands to an asynchronous operation is data: \<open>session_cont\<close> for the continuations the
  sessions give to the search client, \<open>pending_write\<close> and \<open>forward\<close> for those that wait for a
  write, \<open>conn_state\<close> for what the next receive of a connection runs. A completion is an
  event: \<open>client_step\<close> is the search client's machine, \<open>server_step\<close> the core's, and
  \<open>server_reachable\<close> its states after any sequence of completions from a started server.
  Undefined behaviour is \<open>None\<close> (or \<open>Recv_undefined\<close>), and a state where it would happen has
  no step for that event. The system calls below asio are a record of functions over a state of
  the environment (\<open>'w posix\<close>); \<open>net_world\<close> is the environment of a peer that takes and delivers
  bytes in any pieces, given by schedules. The event loop is a state \<open>loop_state\<close> of scheduler,
  thread and reactor; what a handler does to it is a list of calls, and a run is a list of
  events, each what \<open>epoll_wait\<close> delivered or the calls of one handler. Performing an operation
  of a socket is an argument of the loop, a function over the state of the environment.
  \<open>net_state\<close> adds to the loop the writes that were started and the handlers that were called;
  \<open>net_reachable\<close> is its states, for a policy that says when the program starts a write.
  \<open>pool\<close> is the scheduler with its event, its lock and a list of threads, each at a point between
  two sections of the code; \<open>pool_step\<close> is one thread's next section, and \<open>pool_reachable\<close> the
  states after any interleaving. \<open>sched_reachable\<close> is the states after any calls and turns, \<open>node_reachable\<close> those of server
  machine and loop together from \<open>main\<close> on. The file system below the log is \<open>log_world\<close>, whose
  calls fail by a schedule.

  \<^bold>\<open>Interfaces.\<close> \<open>fp_sign_laws\<close> states what the distance needs of the arithmetic, \<open>cmp_laws\<close>
  what relations, sets and ranges need of a comparison, \<open>expr_evaluator\<close> what the two
  evaluators of expressions share, and \<open>once_map\<close> what directory and handle table promise,
  \<open>consuming\<close> what a class that walks a buffer sequence keeps, and \<open>partial_stream\<close> what one
  call of a socket that moves some of the bytes guarantees to the loop around it. \<open>fifo\<close> is
  what a queue shows to its clients, and \<open>ledger\<close> what a system keeps of its descriptors.
  \<open>recorder\<close> and \<open>world_relation\<close> state what performing an operation leaves in the environment,
  and \<open>net_observer\<close> what an invariant of the machine of asynchronous writes must keep; it is
  interpreted for the trivial one and for the two orders of the bytes.
  Each is interpreted on the definitions of the code.

  \<^bold>\<open>What the lemmas show.\<close>

  \<^item> Schema: construction of instances accepts exactly the conforming values and survives the
    wire; the evaluation of a query is the boolean formula it denotes; a query accepted for a
    data model never reads an unset field on instances of that model; constraints mean what
    their operators say, on integers, NaN-free doubles, strings, booleans and locations.
  \<^item> Wire: what either communicator sends, the other side receives, on hosts of either byte
    order.
  \<^item> Search client: the ids of requests and answers, the conservation of continuations over
    every run, the contents of answers, and the cases where an answer is lost.
  \<^item> Sessions: forwarding, the answer of every request, and a registration and a search
    followed from the agent to OEF Search and back.
  \<^item> Core: in every reachable state the directory is the table of the live sessions, every
    connection is talked to as the handshake prescribes, and every forwarded message is traced to
    the step and the connection that sent it, whose key it names.
  \<^item> asio: a write or read of a buffer sequence returns whatever the socket does, having moved
    everything or reported an error; \<open>send_sync\<close> and \<open>receive_sync\<close> over a socket refine their
    one-step descriptions in \<open>Oef_Comm\<close>; the socket service keeps the reactor and the blocking
    mode consistent with its state.
  \<^item> Event loop: the linked queue is a queue; the count of outstanding work is exact, so the loop
    ends by itself only when nothing is left, and then every operation was executed once; turns
    are taken in the order of the queue; the reactor finds no descriptor state queued when it
    runs; operations of one type on a descriptor complete in the order of their start.
  \<^item> Several threads in the loop: no wake-up is lost, a stop brings every thread out of \<open>run\<close>, the
    count of work is exact, each operation is taken by one thread once, and the reactor is run by
    one thread at a time.
  \<^item> Asynchronous writes: each write of a loop with any number of them sends a beginning of its
    buffers once and reports its length; the bytes of a socket are in order when the writes wait
    for each other, or when each fits one send; two frames that do not are mixed.
  \<^item> Process: connecting tries the addresses of a name in order; the constructors and destructors of
    server and communicators give back every descriptor, or the destructor of the connection to
    OEF Search terminates the process; the node runs while it accepts, and
    exits with a message when it cannot start. The loop always holds exactly the accepts and
    receives the node waits for, so it stops only when the node waits for nothing.
  \<^item> Log: the digit counters are exact; every pattern compiles to formatters that never fail;
    the caches cannot be observed; the rotating file is a bounded window over what was written
    and survives any failing system call; what the node logs reaches console and file, line by
    line, with verbatim arguments.

  \<^bold>\<open>Bounds.\<close> There is no fuel. The loops around system calls, which an adversarial system
  can keep from ending, are partial functions to an option; that they return is proved over
  \<open>net_world\<close> (\<open>transfers_return\<close>). Everything else is total: \<open>receive_all\<close> terminates because
  a message takes at least the four bytes of its size, the compilation of a pattern because
  it consumes the pattern. The sizes the rotating file counts are asked to stay below \<open>2 ^ 64\<close>.
  Round trips of
  frames ask for buffers below \<open>2 ^ 32\<close> bytes, the range of the size fields; the automatic
  versions for fewer than \<open>2 ^ 32 - 1\<close> schemas.

  \<^bold>\<open>Parameters.\<close> The parser and printer of protobuf, \<open>std::hash\<close>, the byte order of the host,
  the outcome of writes, the bytes that arrive, the arithmetic of doubles (\<open>fp_ops\<close>), the
  system calls of sockets (\<open>posix\<close>), \<open>getaddrinfo\<close> and the texts of exceptions (\<open>net_env\<close>,
  \<open>main_env\<close>), and \<open>localtime\<close>, \<open>gmtime\<close> and \<open>getpid\<close> (\<open>log_os\<close>).

  \<^bold>\<open>Not modelled.\<close> Timers and the asynchronous resolver of asio, datagrams and other platforms than
  POSIX with epoll; several threads inside the handlers of the node, as in \<open>CoreServer::run\<close> (in the
  theories of the node a handler is atomic, as in \<open>run_in_thread\<close>, which the program uses; with
  several threads the loop alone is modelled, its reactor and the calls of its handlers being
  inputs, and memory is sequentially consistent); the switch of a socket to non-blocking mode by its
  first operation inside the loop, and the lifetime of the buffers of an asynchronous write. In \<open>Oef_Node\<close>
  writes are not counted and the bytes of a receive are those of the server machine. Logging is modelled on its own: the
  handlers of the other theories do not carry the calls of the logger, which change none of
  their state. The sockets of agents that are still connected when the server is destroyed are not
  followed into the destructor of the loop. The log files are written without the buffer of \<open>stdio\<close>, and
  \<open>fclose\<close> cannot fail. Of \<open>spdlog\<close> flushing, wide strings, asynchronous loggers and the sinks the node
  does not construct are left out, and of \<open>fmt\<close> all but format strings with plain fields.
\<close>

end
